(* ===== verification/Lz_Prelude.thy ===== *)
theory Lz_Prelude
  imports Main "HOL-Library.AList" "HOL-Library.Multiset" "HOL-Library.List_Lexorder" "HOL-Library.Char_ord"
begin

section \<open>Prelude: errors, strings, ordered dictionaries\<close>

text \<open>
  What every component of the model shares.

  \<^item> Errors: a Python \<open>raise\<close> is a value of \<open>py_error\<close>; a fallible function returns
    \<open>'a py\<close>, that is \<open>Inl\<close> the exception or \<open>Inr\<close> the result.
  \<^item> Strings: a Python \<open>str\<close> is a \<open>string\<close> whose characters stand for the code points of
    ASCII text; \<open>strip\<close>, \<open>lower\<close>, \<open>upper\<close> and \<open>split\<close> follow the Python
    methods on that range.
  \<^item> Dictionaries: a dict whose insertion order is observable is an association list with
    distinct keys, updated by the library's \<open>AList.update\<close> (an existing key keeps its place, a new
    one goes to the end, as in Python); a dict used only by lookup is a map.
  \<^item> Loops that raise: \<open>py_each\<close> runs a check over a list and stops at the first exception.
\<close>

named_theorems guard_simps \<open>equations that decide when a guarded operation succeeds\<close>
named_theorems frame_simps \<open>fields an operation leaves alone\<close>

subsection \<open>Errors as values\<close>

datatype py_error =
    ValueError string
  | RuntimeError string
  | FileNotFoundError string
  | KeyError string | TypeError string
  | OSError string

type_synonym 'a py = "py_error + 'a"

text \<open>\<open>str(exc)\<close>: a \<open>KeyError\<close> shows its key quoted.\<close>

primrec error_text :: "py_error \<Rightarrow> string" where
  "error_text (ValueError s) = s"
| "error_text (RuntimeError s) = s"
| "error_text (FileNotFoundError s) = s"
| "error_text (KeyError s) = [CHR 0x27] @ s @ [CHR 0x27]"
| "error_text (TypeError s) = s"
| "error_text (OSError s) = s"

definition py_bind :: "('e + 'a) \<Rightarrow> ('a \<Rightarrow> 'e + 'b) \<Rightarrow> 'e + 'b" where
  "py_bind m f = (case m of Inl e \<Rightarrow> Inl e | Inr x \<Rightarrow> f x)"

lemma py_bind_simps [simp]:
  "py_bind (Inl e) f = Inl e" "py_bind (Inr x) f = f x"
  by (simp_all add: py_bind_def)

lemma py_bind_Inr [guard_simps]:
  "py_bind m f = Inr y \<longleftrightarrow> (\<exists>x. m = Inr x \<and> f x = Inr y)"
  by (cases m) auto

lemma py_bind_Inl:
  "py_bind m f = Inl e \<longleftrightarrow> m = Inl e \<or> (\<exists>x. m = Inr x \<and> f x = Inl e)"
  by (cases m) auto

definition py_require :: "bool \<Rightarrow> 'e \<Rightarrow> 'e + unit" where
  "py_require b e = (if b then Inr () else Inl e)"

lemma py_require_Inr [guard_simps]: "py_require b e = Inr u \<longleftrightarrow> b"
  by (simp add: py_require_def)

lemma py_require_simps [simp]: "b \<Longrightarrow> py_require b e = Inr ()" "\<not> b \<Longrightarrow> py_require b e = Inl e"
  by (simp_all add: py_require_def)

fun py_each :: "('a \<Rightarrow> 'e + unit) \<Rightarrow> 'a list \<Rightarrow> 'e + unit" where
  "py_each f [] = Inr ()"
| "py_each f (x # xs) = py_bind (f x) (\<lambda>_. py_each f xs)"

lemma py_each_Inr [guard_simps]: "py_each f xs = Inr u \<longleftrightarrow> (\<forall>x \<in> set xs. f x = Inr ())"
  by (induction xs) (auto simp: py_bind_Inr)

lemma py_each_Inl: "py_each f xs = Inl e \<Longrightarrow> \<exists>x \<in> set xs. f x = Inl e"
  by (induction xs) (auto simp: py_bind_Inl)

fun py_map :: "('a \<Rightarrow> 'e + 'b) \<Rightarrow> 'a list \<Rightarrow> 'e + 'b list" where
  "py_map f [] = Inr []"
| "py_map f (x # xs) = py_bind (f x) (\<lambda>y. py_bind (py_map f xs) (\<lambda>ys. Inr (y # ys)))"

lemma py_map_eq:
  assumes "\<And>x y. f x = Inr y \<Longrightarrow> y = g x"
  shows "py_map f xs = Inr ys \<longleftrightarrow> (\<forall>x \<in> set xs. f x = Inr (g x)) \<and> ys = map g xs"
proof (induction xs arbitrary: ys)
  case (Cons x xs)
  show ?case
  proof (cases "f x")
    case (Inr y)
    with assms [OF Inr] Cons.IH show ?thesis by (auto simp: py_bind_Inr)
  qed simp
qed auto

lemma py_map_Inr: "py_map f xs = Inr ys \<longleftrightarrow> list_all2 (\<lambda>x y. f x = Inr y) xs ys"
  by (induction xs arbitrary: ys) (auto simp: py_bind_Inr list_all2_Cons1)

lemma py_map_member: "py_map f xs = Inr ys \<Longrightarrow> y \<in> set ys \<Longrightarrow> \<exists>x \<in> set xs. f x = Inr y"
  by (induction xs arbitrary: ys) (auto simp: py_bind_Inr)

lemma py_map_map: "py_map f xs = Inr ys \<Longrightarrow> (\<And>x y. f x = Inr y \<Longrightarrow> g y = h x) \<Longrightarrow> map g ys = map h xs"
  by (induction xs arbitrary: ys) (auto simp: py_bind_Inr)

lemma py_map_cong [fundef_cong]: "xs = ys \<Longrightarrow> (\<And>x. x \<in> set ys \<Longrightarrow> f x = g x) \<Longrightarrow> py_map f xs = py_map g ys"
  by (induction xs arbitrary: ys) auto

lemma py_map_total: "(\<And>x. x \<in> set xs \<Longrightarrow> \<exists>y. f x = Inr y) \<Longrightarrow> \<exists>ys. py_map f xs = Inr ys"
proof (induction xs)
  case (Cons x xs)
  then obtain y ys where "f x = Inr y" "py_map f xs = Inr ys" by fastforce
  then show ?case by simp
qed simp

subsection \<open>Strings\<close>

text \<open>The ASCII characters \<open>str.isspace\<close> accepts: tab to carriage return, \<open>0x1c\<close> to \<open>0x1f\<close>, blank.\<close>

definition py_space :: "char \<Rightarrow> bool" where
  "py_space c = (let n = (of_char c :: nat) in (9 \<le> n \<and> n \<le> 13) \<or> (28 \<le> n \<and> n \<le> 32))"

definition strip :: "string \<Rightarrow> string" where
  "strip s = rev (dropWhile py_space (rev (dropWhile py_space s)))"

definition lower_char :: "char \<Rightarrow> char" where
  "lower_char c = (let n = (of_char c :: nat) in if 65 \<le> n \<and> n \<le> 90 then char_of (n + 32) else c)"

definition upper_char :: "char \<Rightarrow> char" where
  "upper_char c = (let n = (of_char c :: nat) in if 97 \<le> n \<and> n \<le> 122 then char_of (n - 32) else c)"

definition lower :: "string \<Rightarrow> string" where "lower = map lower_char"
definition upper :: "string \<Rightarrow> string" where "upper = map upper_char"

definition is_alpha :: "char \<Rightarrow> bool" where
  "is_alpha c = (let n = (of_char c :: nat) in (65 \<le> n \<and> n \<le> 90) \<or> (97 \<le> n \<and> n \<le> 122))"

definition is_digit :: "char \<Rightarrow> bool" where
  "is_digit c = (let n = (of_char c :: nat) in 48 \<le> n \<and> n \<le> 57)"

text \<open>The character class \<open>[A-Za-z0-9_-]\<close> of the identifier patterns.\<close>

definition is_word_dash :: "char \<Rightarrow> bool" where
  "is_word_dash c = (is_alpha c \<or> is_digit c \<or> c = CHR ''_'' \<or> c = CHR ''-'')"

text \<open>\<open>s.split(sep)\<close> for a one-character separator.\<close>

fun split_on :: "char \<Rightarrow> string \<Rightarrow> string list" where
  "split_on d [] = [[]]"
| "split_on d (c # cs) =
     (if c = d then [] # split_on d cs
      else (case split_on d cs of [] \<Rightarrow> [[c]] | w # ws \<Rightarrow> (c # w) # ws))"

fun join_with :: "string \<Rightarrow> string list \<Rightarrow> string" where
  "join_with sep [] = []"
| "join_with sep [s] = s"
| "join_with sep (s # t # ts) = s @ sep @ join_with sep (t # ts)"

definition starts_with :: "string \<Rightarrow> string \<Rightarrow> bool" where
  "starts_with s p = (take (length p) s = p)"

definition ends_with :: "string \<Rightarrow> string \<Rightarrow> bool" where
  "ends_with s p = (length p \<le> length s \<and> drop (length s - length p) s = p)"

text \<open>\<open>p in s\<close> for strings.\<close>

fun contains_sub :: "string \<Rightarrow> string \<Rightarrow> bool" where
  "contains_sub [] p = (p = [])"
| "contains_sub (c # cs) p = (starts_with (c # cs) p \<or> contains_sub cs p)"

text \<open>\<open>s.replace("__", ".")\<close>, the normalisation of a provider's tool name, left to right.\<close>

fun dunder_to_dot :: "string \<Rightarrow> string" where
  "dunder_to_dot (c # d # cs) =
     (if c = CHR ''_'' \<and> d = CHR ''_'' then CHR ''.'' # dunder_to_dot cs
      else c # dunder_to_dot (d # cs))"
| "dunder_to_dot cs = cs"

text \<open>Python's \<open>a or b\<close> on strings.\<close>

definition str_or :: "string \<Rightarrow> string \<Rightarrow> string" where
  "str_or a b = (if a = [] then b else a)"

lemma str_or_simps [simp]: "str_or [] b = b" "str_or (c # cs) b = c # cs"
  by (simp_all add: str_or_def)

lemma split_on_nonempty [simp]: "split_on d s \<noteq> []"
  by (induction s) (auto split: list.splits)

lemma strip_Nil [simp]: "strip [] = []"
  by (simp add: strip_def)

lemma split_join: "join_with [d] (split_on d s) = s"
proof (induction s)
  case (Cons c cs)
  then show ?case
    by (cases "split_on d cs"; cases "tl (split_on d cs)") auto
qed simp

lemma lower_char_simps [simp]: "lower_char (lower_char c) = lower_char c" "py_space (lower_char c) = py_space c"
proof -
  have "of_char c < (256 :: nat)" by simp
  then show "lower_char (lower_char c) = lower_char c" "py_space (lower_char c) = py_space c"
    by (auto simp: lower_char_def py_space_def Let_def of_char_mod_256)
qed

lemma dropWhile_rev_dropWhile:
  "dropWhile P (rev (dropWhile P (rev (dropWhile P xs)))) = rev (dropWhile P (rev (dropWhile P xs)))"
proof (cases "dropWhile P xs")
  case (Cons y ys)
  then have "\<not> P y" by (metis dropWhile_eq_Cons_conv)
  then show ?thesis unfolding Cons by (simp add: dropWhile_append)
next
  case Nil
  show ?thesis unfolding Nil by simp
qed

lemma strip_strip [simp]: "strip (strip s) = strip s"
  by (simp add: strip_def dropWhile_rev_dropWhile)

lemma strip_lower: "strip (lower s) = lower (strip s)"
proof -
  have "py_space \<circ> lower_char = py_space" by (simp add: fun_eq_iff)
  then show ?thesis by (simp add: strip_def lower_def dropWhile_map rev_map)
qed

lemma lower_lower [simp]: "lower (lower s) = lower s"
  by (simp add: lower_def)

lemma strip_unpadded: "c \<noteq> [] \<Longrightarrow> \<not> py_space (hd c) \<Longrightarrow> \<not> py_space (last c) \<Longrightarrow> strip c = c"
  by (cases c) (auto simp: strip_def dropWhile_append hd_rev dropWhile_eq_self_iff split: if_splits)

lemma dropWhile_all: "(\<forall>c \<in> set (dropWhile P s). P c) \<longleftrightarrow> (\<forall>c \<in> set s. P c)"
  by (induction s) auto

lemma strip_Nil_iff: "strip s = [] \<longleftrightarrow> (\<forall>c \<in> set s. py_space c)"
  by (simp add: strip_def) (rule dropWhile_all)

lemma length_strip: "length (strip s) \<le> length s"
  by (metis length_dropWhile_le length_rev order_trans strip_def)

lemma hd_strip: "strip s \<noteq> [] \<Longrightarrow> \<not> py_space (hd (strip s))"
proof -
  let ?y = "dropWhile py_space s" let ?z = "dropWhile py_space (rev ?y)"
  assume "strip s \<noteq> []"
  then have z: "?z \<noteq> []" by (simp add: strip_def)
  then have y: "?y \<noteq> []" by (metis dropWhile.simps(1) rev.simps(1))
  have "hd (strip s) = last ?z" using z by (simp add: strip_def hd_rev)
  also have "\<dots> = last (rev ?y)" using z takeWhile_dropWhile_id [of py_space "rev ?y"] by (metis last_append)
  also have "\<dots> = hd ?y" using y by (simp add: last_rev)
  finally show ?thesis using hd_dropWhile [OF y] by simp
qed

lemma strip_take_nonempty: "strip s \<noteq> [] \<Longrightarrow> n > 0 \<Longrightarrow> strip (take n (strip s)) \<noteq> []"
  using hd_strip [of s] by (cases "strip s"; cases n) (auto simp: strip_Nil_iff)

subsection \<open>Decimal numerals\<close>

fun nat_digits :: "nat \<Rightarrow> string" where
  "nat_digits n = (if n < 10 then [char_of (48 + n)] else nat_digits (n div 10) @ [char_of (48 + n mod 10)])"

declare nat_digits.simps [simp del]

definition int_str :: "int \<Rightarrow> string" where
  "int_str i = (if i < 0 then CHR ''-'' # nat_digits (nat (- i)) else nat_digits (nat i))"

subsection \<open>Lists\<close>

text \<open>\<open>xs[-n:]\<close>: the last \<open>n\<close> elements (all of them when there are fewer; \<open>n\<close> is positive
  wherever the code slices this way).\<close>

definition last_n :: "nat \<Rightarrow> 'a list \<Rightarrow> 'a list" where
  "last_n n xs = drop (length xs - n) xs"

lemma length_last_n [simp]: "length (last_n n xs) = min n (length xs)"
  by (simp add: last_n_def)

lemma length_last_n_le: "length (last_n n xs) \<le> n"
  by simp

lemma set_last_n: "set (last_n n xs) \<subseteq> set xs"
  by (simp add: last_n_def set_drop_subset)

lemma last_n_id [simp]: "length xs \<le> n \<Longrightarrow> last_n n xs = xs"
  by (simp add: last_n_def)

lemma distinct_last_n: "distinct xs \<Longrightarrow> distinct (last_n n xs)"
  by (simp add: last_n_def)

lemma last_n_snoc: "last_n (Suc n) (xs @ [x]) = last_n n xs @ [x]"
  by (simp add: last_n_def)

text \<open>The first element that satisfies a predicate (\<open>next((x for x in xs if p(x)), None)\<close>).\<close>

lemma find_SomeD: "List.find p xs = Some x \<Longrightarrow> x \<in> set xs \<and> p x"
  by (induction xs) (auto split: if_splits)

lemma find_None_iff': "List.find p xs = None \<longleftrightarrow> (\<forall>x \<in> set xs. \<not> p x)"
  by (auto simp: find_None_iff)

lemma length_takeWhile_less: "x \<in> set xs \<Longrightarrow> \<not> p x \<Longrightarrow> length (takeWhile p xs) < length xs"
  by (induction xs) auto

lemma map_of_update_iff: "map_of (AList.update k v xs) k' = (if k' = k then Some v else map_of xs k')"
  by (simp add: update_conv')

text \<open>The first result a function gives on a list (a loop with an early return).\<close>

fun first_some :: "('a \<Rightarrow> 'b option) \<Rightarrow> 'a list \<Rightarrow> 'b option" where
  "first_some f [] = None"
| "first_some f (x # xs) = (case f x of None \<Rightarrow> first_some f xs | Some y \<Rightarrow> Some y)"

text \<open>\<open>dict.fromkeys(xs)\<close> as a list: the first of equal elements stays.\<close>

definition fromkeys :: "'a list \<Rightarrow> 'a list" where
  "fromkeys xs = rev (remdups (rev xs))"

lemma set_fromkeys [simp]: "set (fromkeys xs) = set xs"
  by (simp add: fromkeys_def)

lemma first_some_unique:
  "x \<in> set xs \<Longrightarrow> f x = Some y \<Longrightarrow> (\<And>z. z \<in> set xs \<Longrightarrow> z \<noteq> x \<Longrightarrow> f z = None) \<Longrightarrow> first_some f xs = Some y"
proof (induction xs)
  case (Cons a xs)
  then show ?case by (cases "a = x") auto
qed simp

lemma first_some_None: "first_some f xs = None \<longleftrightarrow> (\<forall>x \<in> set xs. f x = None)"
  by (induction xs) (auto split: option.split)

lemma first_some_Some: "first_some f xs = Some y \<Longrightarrow> \<exists>x \<in> set xs. f x = Some y"
  by (induction xs) (auto split: option.splits)

lemma distinct_submset: "mset xs \<subseteq># mset ys \<Longrightarrow> distinct ys \<Longrightarrow> distinct xs"
proof (induction xs arbitrary: ys)
  case (Cons x xs)
  then have x: "x \<in> set ys" by (metis list.set_intros(1) mset_subset_eqD set_mset_mset)
  with Cons.prems(1) have "mset xs \<subseteq># mset (remove1 x ys)" by (simp add: insert_subset_eq_iff)
  then have "distinct xs" "set xs \<subseteq> set (remove1 x ys)"
    using Cons.IH [of "remove1 x ys"] Cons.prems(2) by (simp_all only: distinct_remove1) (metis set_mset_mono set_mset_mset)
  then show ?case using Cons.prems(2) by auto
qed simp

end
