(* ===== verification/Py_Value.thy ===== *)
theory Py_Value
  imports Lz_Prelude
begin

section \<open>Untyped values\<close>

text \<open>
  Arguments that come from a model reply or a JSON record are untyped in the code. They are a
  \<open>pyval\<close> here, with a constructor per JSON type but the floating-point numbers, which no modelled
  branch computes with. \<open>truthy\<close> is Python's truth test, \<open>py_str\<close> its \<open>str()\<close>
  (and \<open>py_repr\<close> the \<open>repr()\<close> that \<open>str()\<close> uses inside containers, on printable
  text), \<open>vget\<close> is \<open>dict.get\<close>.
\<close>

datatype pyval =
    VNone
  | VBool bool
  | VInt int
  | VStr string
  | VList "pyval list"
  | VDict "(string \<times> pyval) list"

type_synonym pydict = "(string \<times> pyval) list"

fun truthy :: "pyval \<Rightarrow> bool" where
  "truthy VNone = False"
| "truthy (VBool b) = b"
| "truthy (VInt i) = (i \<noteq> 0)"
| "truthy (VStr s) = (s \<noteq> [])"
| "truthy (VList xs) = (xs \<noteq> [])"
| "truthy (VDict d) = (d \<noteq> [])"

text \<open>\<open>a or b\<close>\<close>

definition vor :: "pyval \<Rightarrow> pyval \<Rightarrow> pyval" where
  "vor a b = (if truthy a then a else b)"

text \<open>\<open>d.get(k, default)\<close> and \<open>d.get(k)\<close>\<close>

definition vget_or :: "pydict \<Rightarrow> string \<Rightarrow> pyval \<Rightarrow> pyval" where
  "vget_or d k dflt = (case map_of d k of None \<Rightarrow> dflt | Some v \<Rightarrow> v)"

definition vget :: "pydict \<Rightarrow> string \<Rightarrow> pyval" where
  "vget d k = vget_or d k VNone"

fun escape_char :: "char \<Rightarrow> char \<Rightarrow> string" where
  "escape_char q c =
     (if c = q \<or> c = CHR 0x5C then [CHR 0x5C, c]
      else if c = CHR 0x0A then [CHR 0x5C, CHR ''n'']
      else if c = CHR 0x0D then [CHR 0x5C, CHR ''r'']
      else if c = CHR 0x09 then [CHR 0x5C, CHR ''t'']
      else [c])"

definition str_repr :: "string \<Rightarrow> string" where
  "str_repr s =
     (let q = (if CHR 0x27 \<in> set s \<and> CHR 0x22 \<notin> set s then CHR 0x22 else CHR 0x27)
      in [q] @ concat (map (escape_char q) s) @ [q])"

fun py_repr :: "pyval \<Rightarrow> string" where
  "py_repr VNone = ''None''"
| "py_repr (VBool b) = (if b then ''True'' else ''False'')"
| "py_repr (VInt i) = int_str i"
| "py_repr (VStr s) = str_repr s"
| "py_repr (VList xs) = ''['' @ join_with '', '' (map py_repr xs) @ '']''"
| "py_repr (VDict d) =
     ''{'' @ join_with '', '' (map (\<lambda>(k, v). str_repr k @ '': '' @ py_repr v) d) @ ''}''"

definition py_str :: "pyval \<Rightarrow> string" where
  "py_str v = (case v of VStr s \<Rightarrow> s | _ \<Rightarrow> py_repr v)"

lemma py_str_simps [simp]:
  "py_str (VStr s) = s" "py_str VNone = ''None''"
  "py_str (VBool b) = (if b then ''True'' else ''False'')" "py_str (VInt i) = int_str i"
  by (simp_all add: py_str_def)

text \<open>\<open>str(v or dflt)\<close>\<close>

definition str_of_or :: "pyval \<Rightarrow> string \<Rightarrow> string" where
  "str_of_or v dflt = py_str (vor v (VStr dflt))"

text \<open>
  \<open>int(v)\<close>: a boolean is 0 or 1; a string is parsed as an optionally signed decimal with
  surrounding blanks (single underscores between digits are accepted too); anything else raises
  (\<open>None\<close>).
\<close>

fun digits_val :: "int \<Rightarrow> string \<Rightarrow> int option" where
  "digits_val acc [] = Some acc"
| "digits_val acc (c # cs) =
     (if is_digit c then digits_val (10 * acc + (int (of_char c) - 48)) cs
      else if c = CHR ''_'' then
        (case cs of d # _ \<Rightarrow> if is_digit d then digits_val acc cs else None | [] \<Rightarrow> None)
      else None)"

definition parse_digits :: "string \<Rightarrow> int option" where
  "parse_digits s = (case s of c # _ \<Rightarrow> if is_digit c then digits_val 0 s else None | [] \<Rightarrow> None)"

definition parse_int :: "string \<Rightarrow> int option" where
  "parse_int s = (case strip s of
       [] \<Rightarrow> None
     | c # cs \<Rightarrow> if c = CHR ''-'' then map_option uminus (parse_digits cs)
                 else if c = CHR ''+'' then parse_digits cs
                 else parse_digits (c # cs))"

definition py_int :: "pyval \<Rightarrow> int option" where
  "py_int v = (case v of
       VBool b \<Rightarrow> Some (if b then 1 else 0)
     | VInt i \<Rightarrow> Some i
     | VStr s \<Rightarrow> parse_int s
     | _ \<Rightarrow> None)"

definition is_vdict :: "pyval \<Rightarrow> bool" where
  "is_vdict v = (case v of VDict _ \<Rightarrow> True | _ \<Rightarrow> False)"

definition dict_of :: "pyval \<Rightarrow> pydict" where
  "dict_of v = (case v of VDict d \<Rightarrow> d | _ \<Rightarrow> [])"

definition list_of :: "pyval \<Rightarrow> pyval list" where
  "list_of v = (case v of VList xs \<Rightarrow> xs | _ \<Rightarrow> [])"

lemma dict_list_of_simps [simp]:
  "dict_of (VDict d) = d" "list_of (VList xs) = xs" "dict_of VNone = []" "list_of VNone = []"
  "is_vdict (VDict d)" "\<not> is_vdict VNone"
  by (simp_all add: dict_of_def list_of_def is_vdict_def)

lemma vget_update [simp]:
  "vget (AList.update k v d) k' = (if k' = k then v else vget d k')"
  by (simp add: vget_def vget_or_def update_conv')

lemma vget_or_update [simp]:
  "vget_or (AList.update k v d) k' dflt = (if k' = k then v else vget_or d k' dflt)"
  by (simp add: vget_or_def update_conv')

text \<open>\<open>{**d, **new}\<close> and \<open>d.update(new)\<close>\<close>

definition merge_dict :: "pydict \<Rightarrow> pydict \<Rightarrow> pydict" where
  "merge_dict d new = fold (\<lambda>(k, v). AList.update k v) new d"

end
