(* ===== verification/Tool_Schema.thy ===== *)
theory Tool_Schema
  imports Py_Value
begin

section \<open>Argument schemas\<close>

text \<open>
  The schema validator of \<^verbatim>\<open>core/tools/executor.py\<close>: the planner and the executor both judge the arguments of a call by
  it. A schema is the JSON object the registry publishes. Its bounds are whole numbers, its alternatives and property
  schemas objects, as in the registry; a number of a call is a whole number too. The errors are the texts the model
  reads. \<open>conforms\<close> says what a schema admits without mentioning errors; the two agree.
\<close>

type_synonym schema = pydict

definition type_name :: "pyval \<Rightarrow> string" where
  "type_name v = (case v of VNone \<Rightarrow> ''NoneType'' | VBool _ \<Rightarrow> ''bool'' | VInt _ \<Rightarrow> ''int'' | VStr _ \<Rightarrow> ''str''
     | VList _ \<Rightarrow> ''list'' | VDict _ \<Rightarrow> ''dict'')"

text \<open>\<open>v == w\<close> on the scalars an \<open>enum\<close> lists: a boolean equals its number.\<close>

definition scalar_num :: "pyval \<Rightarrow> int option" where
  "scalar_num v = (case v of VBool b \<Rightarrow> Some (if b then 1 else 0) | VInt i \<Rightarrow> Some i | _ \<Rightarrow> None)"

definition py_eq :: "pyval \<Rightarrow> pyval \<Rightarrow> bool" where
  "py_eq v w = (v = w \<or> (scalar_num v \<noteq> None \<and> scalar_num v = scalar_num w))"

definition in_list :: "pyval \<Rightarrow> pyval list \<Rightarrow> bool" where
  "in_list v ws = list_ex (py_eq v) ws"

definition type_admits :: "pyval \<Rightarrow> pyval \<Rightarrow> bool" where
  "type_admits t v =
     (if t = VStr ''string'' then (case v of VStr _ \<Rightarrow> True | _ \<Rightarrow> False)
      else if t \<in> {VStr ''number'', VStr ''integer''} then (case v of VInt _ \<Rightarrow> True | _ \<Rightarrow> False)
      else if t = VStr ''boolean'' then (case v of VBool _ \<Rightarrow> True | _ \<Rightarrow> False)
      else if t = VStr ''object'' then is_vdict v
      else if t = VStr ''array'' then (case v of VList _ \<Rightarrow> True | _ \<Rightarrow> False)
      else True)"

definition schema_type :: "schema \<Rightarrow> pyval" where
  "schema_type s = vget_or s ''type'' (VStr [])"

definition bound_at :: "schema \<Rightarrow> string \<Rightarrow> int option" where
  "bound_at s k = (case map_of s k of Some (VInt i) \<Rightarrow> Some i | _ \<Rightarrow> None)"

definition below :: "int \<Rightarrow> int option \<Rightarrow> bool" where
  "below i b = (case b of None \<Rightarrow> False | Some m \<Rightarrow> i < m)"

definition above :: "int \<Rightarrow> int option \<Rightarrow> bool" where
  "above i b = (case b of None \<Rightarrow> False | Some m \<Rightarrow> m < i)"

definition field_text :: "string \<Rightarrow> string" where
  "field_text f = ''Field '' @ [CHR 0x27] @ f @ [CHR 0x27]"

definition quoted :: "string \<Rightarrow> string" where
  "quoted f = [CHR 0x27] @ f @ [CHR 0x27]"

definition num_text :: "int option \<Rightarrow> string" where
  "num_text b = (case b of None \<Rightarrow> [] | Some m \<Rightarrow> int_str m)"

text \<open>The checks of one value that do not recurse, in the order of the code.\<close>

definition enum_errors :: "string \<Rightarrow> pyval \<Rightarrow> schema \<Rightarrow> string list" where
  "enum_errors f v s =
     (let allowed = vget s ''enum'' in
      if allowed \<noteq> VNone \<and> \<not> in_list v (list_of allowed)
      then [field_text f @ '' value '' @ quoted (py_str v) @ '' not in allowed: '' @ py_str allowed] else [])"

definition range_errors :: "string \<Rightarrow> pyval \<Rightarrow> schema \<Rightarrow> string list" where
  "range_errors f v s =
     (case v of
        VInt i \<Rightarrow>
          if schema_type s \<in> {VStr ''integer'', VStr ''number''} then
            (if below i (bound_at s ''minimum'')
             then [field_text f @ '' value '' @ int_str i @ '' below minimum '' @ num_text (bound_at s ''minimum'')] else []) @
            (if above i (bound_at s ''maximum'')
             then [field_text f @ '' value '' @ int_str i @ '' above maximum '' @ num_text (bound_at s ''maximum'')] else [])
          else []
      | _ \<Rightarrow> [])"

definition length_errors :: "string \<Rightarrow> pyval \<Rightarrow> schema \<Rightarrow> string list" where
  "length_errors f v s =
     (case v of
        VStr t \<Rightarrow>
          if schema_type s = VStr ''string'' then
            (let n = int (length t) in
             (if below n (bound_at s ''minLength'')
              then [field_text f @ '' length '' @ int_str n @ '' below minimum '' @ num_text (bound_at s ''minLength'')] else []) @
             (if above n (bound_at s ''maxLength'')
              then [field_text f @ '' length '' @ int_str n @ '' above maximum '' @ num_text (bound_at s ''maxLength'')] else []))
          else []
      | _ \<Rightarrow> [])"

definition count_errors :: "string \<Rightarrow> pyval list \<Rightarrow> schema \<Rightarrow> string list" where
  "count_errors f xs s =
     (let n = int (length xs) in
      (if below n (bound_at s ''minItems'')
       then [field_text f @ '' has '' @ int_str n @ '' item(s), below minimum '' @ num_text (bound_at s ''minItems'')] else []) @
      (if above n (bound_at s ''maxItems'')
       then [field_text f @ '' has '' @ int_str n @ '' item(s), above maximum '' @ num_text (bound_at s ''maxItems'')] else []))"

definition item_path :: "string \<Rightarrow> nat \<Rightarrow> string" where
  "item_path f i = f @ ''['' @ int_str (int i) @ '']''"

definition sub_path :: "string \<Rightarrow> string \<Rightarrow> string" where
  "sub_path f k = f @ ''.'' @ k"

definition has_key :: "pydict \<Rightarrow> string \<Rightarrow> bool" where
  "has_key d k = (map_of d k \<noteq> None)"

definition names_at :: "pydict \<Rightarrow> string \<Rightarrow> string list" where
  "names_at s k = map py_str (list_of (vget s k))"

definition closed_object :: "schema \<Rightarrow> bool" where
  "closed_object s = (vget s ''additionalProperties'' = VBool False)"

definition unknown_errors :: "(string \<Rightarrow> string) \<Rightarrow> schema \<Rightarrow> pydict \<Rightarrow> pydict \<Rightarrow> string list" where
  "unknown_errors path s props d =
     (if closed_object s then map (\<lambda>(k, _). ''Unknown field: '' @ quoted (path k)) (filter (\<lambda>(k, _). \<not> has_key props k) d) else [])"

definition missing_errors :: "(string \<Rightarrow> string) \<Rightarrow> schema \<Rightarrow> pydict \<Rightarrow> string list" where
  "missing_errors path s d =
     map (\<lambda>k. ''Missing required field: '' @ quoted (path k)) (filter (\<lambda>k. \<not> has_key d k) (names_at s ''required''))"

definition dependent_errors :: "string \<Rightarrow> schema \<Rightarrow> pydict \<Rightarrow> string list" where
  "dependent_errors f s d =
     concat (map (\<lambda>(k, deps). if has_key d k
         then map (\<lambda>r. field_text (sub_path f k) @ '' requires '' @ quoted (sub_path f r))
                (filter (\<lambda>r. \<not> has_key d r) (map py_str (list_of deps)))
         else []) (dict_of (vget s ''dependentRequired'')))"

text \<open>A schema inside a schema is smaller.\<close>

lemma member_size:
  "v \<in> set vs \<Longrightarrow> size v < size (VList vs)"
  "(k, v) \<in> set d \<Longrightarrow> size v < size (VDict d)"
  by (auto simp: less_Suc_eq_le size_list_estimation' intro: order_trans [OF _ size_list_estimation'])


lemma lookup_size: "vget d k = v \<Longrightarrow> v \<noteq> VNone \<Longrightarrow> size v < size (VDict d)"
  using member_size(2) [OF map_of_SomeD] by (auto simp: vget_def vget_or_def split: option.splits)

lemma dict_of_size: "size (VDict (dict_of v)) \<le> size v \<or> dict_of v = []"
  by (cases v) (simp_all add: dict_of_def)

definition alternatives :: "schema \<Rightarrow> schema list" where
  "alternatives s = map dict_of (list_of (vget s ''oneOf''))"

definition item_schema :: "schema \<Rightarrow> schema" where
  "item_schema s = dict_of (vget s ''items'')"

definition property_schemas :: "schema \<Rightarrow> (string \<times> schema) list" where
  "property_schemas s = map (\<lambda>(k, v). (k, dict_of v)) (dict_of (vget s ''properties''))"

definition schema_size :: "schema \<Rightarrow> nat" where
  "schema_size s = (if s = [] then 0 else size (VDict s))"

lemma schema_size_dict_of: "size v < size (VDict s) \<Longrightarrow> s \<noteq> [] \<Longrightarrow> schema_size (dict_of v) < schema_size s"
  using dict_of_size [of v] by (auto simp: schema_size_def)

lemma vget_Nil [simp]: "vget [] k = VNone"
  by (simp add: vget_def vget_or_def)

lemma smaller_schemas:
  "a \<in> set (alternatives s) \<Longrightarrow> schema_size a < schema_size s"
  "item_schema s \<noteq> [] \<Longrightarrow> schema_size (item_schema s) < schema_size s"
  "map_of (property_schemas s) k = Some p \<Longrightarrow> schema_size p < schema_size s"
proof -
  show "schema_size a < schema_size s" if "a \<in> set (alternatives s)"
  proof -
    from that obtain v where v: "v \<in> set (list_of (vget s ''oneOf''))" "a = dict_of v" by (auto simp: alternatives_def)
    from v(1) obtain vs where "vget s ''oneOf'' = VList vs" "v \<in> set vs" by (cases "vget s ''oneOf''") (auto simp: list_of_def)
    with lookup_size [of s "''oneOf''" "VList vs"] member_size(1) [of v vs] have "size v < size (VDict s)" by simp
    moreover have "s \<noteq> []" using v(1) by auto
    ultimately show ?thesis using v(2) by (simp add: schema_size_dict_of)
  qed
  show "schema_size (item_schema s) < schema_size s" if "item_schema s \<noteq> []"
  proof -
    from that have "vget s ''items'' \<noteq> VNone" by (auto simp: item_schema_def)
    moreover from this have "s \<noteq> []" by auto
    ultimately show ?thesis using lookup_size [OF refl] by (simp add: item_schema_def schema_size_dict_of)
  qed
  show "schema_size p < schema_size s" if "map_of (property_schemas s) k = Some p"
  proof -
    from that obtain v where v: "(k, v) \<in> set (dict_of (vget s ''properties''))" "p = dict_of v"
      by (auto simp: property_schemas_def dest!: map_of_SomeD)
    from v(1) have some: "vget s ''properties'' \<noteq> VNone" by auto
    have "vget s ''properties'' = VDict (dict_of (vget s ''properties''))"
      using v(1) by (cases "vget s ''properties''") (auto simp: dict_of_def)
    with lookup_size [OF refl some] member_size(2) [OF v(1)] have "size v < size (VDict s)" by simp
    moreover have "s \<noteq> []" using some by auto
    ultimately show ?thesis using v(2) by (simp add: schema_size_dict_of)
  qed
qed

subsection \<open>The validator\<close>

function validate_field :: "string \<Rightarrow> pyval \<Rightarrow> schema \<Rightarrow> string list" where
  "validate_field f v s =
     (if alternatives s \<noteq> [] then
        (let errs = map (\<lambda>a. validate_field f v a) (alternatives s) in
         if [] \<in> set errs then []
         else [field_text f @ '' does not match any allowed schema: '' @
               join_with '' | '' (map (\<lambda>e. join_with ''; '' (take 3 e)) errs)])
      else if \<not> type_admits (schema_type s) v then
        [field_text f @ '' expected '' @ py_str (schema_type s) @ '', got '' @ type_name v]
      else
        enum_errors f v s @ range_errors f v s @ length_errors f v s @
        (case (schema_type s = VStr ''array'', v) of
           (True, VList xs) \<Rightarrow>
             count_errors f xs s @
             (if item_schema s \<noteq> [] then concat (map (\<lambda>(i, x). validate_field (item_path f i) x (item_schema s)) (enumerate 0 xs))
              else [])
         | (True, _) \<Rightarrow> []
         | (False, VDict d) \<Rightarrow>
             if schema_type s = VStr ''object'' \<and> is_vdict (vget s ''properties'') then
               unknown_errors (sub_path f) s (dict_of (vget s ''properties'')) d @ missing_errors (sub_path f) s d @
               concat (map (\<lambda>(k, w). case map_of (property_schemas s) k of None \<Rightarrow> [] | Some p \<Rightarrow> validate_field (sub_path f k) w p) d) @
               dependent_errors f s d
             else []
         | (False, _) \<Rightarrow> []))"
  by pat_completeness auto
termination
  by (relation "measure (\<lambda>(f, v, s). schema_size s)") (auto simp: smaller_schemas)

text \<open>What a schema admits.\<close>

definition within :: "int \<Rightarrow> int option \<Rightarrow> int option \<Rightarrow> bool" where
  "within i low high = (\<not> below i low \<and> \<not> above i high)"

function conforms :: "schema \<Rightarrow> pyval \<Rightarrow> bool" where
  "conforms s v =
     (if alternatives s \<noteq> [] then (\<exists>a \<in> set (alternatives s). conforms a v)
      else
        type_admits (schema_type s) v \<and>
        (vget s ''enum'' = VNone \<or> in_list v (list_of (vget s ''enum''))) \<and>
        (case v of
           VInt i \<Rightarrow> schema_type s \<in> {VStr ''integer'', VStr ''number''} \<longrightarrow> within i (bound_at s ''minimum'') (bound_at s ''maximum'')
         | VStr t \<Rightarrow> schema_type s = VStr ''string'' \<longrightarrow> within (int (length t)) (bound_at s ''minLength'') (bound_at s ''maxLength'')
         | VList xs \<Rightarrow> schema_type s = VStr ''array'' \<longrightarrow>
             within (int (length xs)) (bound_at s ''minItems'') (bound_at s ''maxItems'') \<and>
             (item_schema s \<noteq> [] \<longrightarrow> (\<forall>x \<in> set xs. conforms (item_schema s) x))
         | VDict d \<Rightarrow> schema_type s = VStr ''object'' \<and> is_vdict (vget s ''properties'') \<longrightarrow>
             (closed_object s \<longrightarrow> fst ` set d \<subseteq> fst ` set (dict_of (vget s ''properties''))) \<and>
             set (names_at s ''required'') \<subseteq> fst ` set d \<and>
             (\<forall>(k, w) \<in> set d. case map_of (property_schemas s) k of None \<Rightarrow> True | Some p \<Rightarrow> conforms p w) \<and>
             (\<forall>(k, deps) \<in> set (dict_of (vget s ''dependentRequired'')).
                k \<in> fst ` set d \<longrightarrow> py_str ` set (list_of deps) \<subseteq> fst ` set d)
         | _ \<Rightarrow> True))"
  by pat_completeness auto
termination
  by (relation "measure (\<lambda>(s, v). schema_size s)") (auto simp: smaller_schemas)

declare validate_field.simps [simp del] conforms.simps [simp del]


lemma has_key_iff: "has_key d k \<longleftrightarrow> k \<in> fst ` set d"
  by (auto simp: has_key_def map_of_eq_None_iff)

lemma concat_map_Nil: "concat (map g xs) = [] \<longleftrightarrow> (\<forall>x \<in> set xs. g x = [])"
  by simp

lemma shape_errors_empty:
  "unknown_errors path s props d = [] \<longleftrightarrow> (closed_object s \<longrightarrow> fst ` set d \<subseteq> fst ` set props)"
  "missing_errors path s d = [] \<longleftrightarrow> set (names_at s ''required'') \<subseteq> fst ` set d"
  "dependent_errors f s d = [] \<longleftrightarrow>
     (\<forall>(k, deps) \<in> set (dict_of (vget s ''dependentRequired'')). k \<in> fst ` set d \<longrightarrow> py_str ` set (list_of deps) \<subseteq> fst ` set d)"
proof -
  show "dependent_errors f s d = [] \<longleftrightarrow>
     (\<forall>(k, deps) \<in> set (dict_of (vget s ''dependentRequired'')). k \<in> fst ` set d \<longrightarrow> py_str ` set (list_of deps) \<subseteq> fst ` set d)"
    by (simp add: dependent_errors_def concat_map_Nil case_prod_unfold filter_empty_conv has_key_iff image_subset_iff
        del: concat_eq_Nil_conv)
qed (force simp: unknown_errors_def missing_errors_def filter_empty_conv has_key_iff)+

lemma local_errors_empty:
  "enum_errors f v s = [] \<longleftrightarrow> vget s ''enum'' = VNone \<or> in_list v (list_of (vget s ''enum''))"
  "range_errors f (VInt i) s = [] \<longleftrightarrow>
     (schema_type s \<in> {VStr ''integer'', VStr ''number''} \<longrightarrow> within i (bound_at s ''minimum'') (bound_at s ''maximum''))"
  "length_errors f (VStr t) s = [] \<longleftrightarrow>
     (schema_type s = VStr ''string'' \<longrightarrow> within (int (length t)) (bound_at s ''minLength'') (bound_at s ''maxLength''))"
  "count_errors f xs s = [] \<longleftrightarrow> within (int (length xs)) (bound_at s ''minItems'') (bound_at s ''maxItems'')"
  by (auto simp: enum_errors_def range_errors_def length_errors_def count_errors_def within_def Let_def)

lemma enumerate_empty: "concat (map (\<lambda>(i, x). h i x) (enumerate n xs)) = [] \<longleftrightarrow> (\<forall>i < length xs. h (n + i) (xs ! i) = [])"
  by (induction xs arbitrary: n) (simp_all add: All_less_Suc2)

lemma validate_field_conforms: "validate_field f v s = [] \<longleftrightarrow> conforms s v"
proof (induction f v s rule: validate_field.induct)
  case (1 f v s)
  show ?case
  proof (cases "alternatives s = []")
    case False
    have "validate_field f v a = [] \<longleftrightarrow> conforms a v" if "a \<in> set (alternatives s)" for a
      using 1(1) False that by blast
    then have "[] \<in> set (map (\<lambda>a. validate_field f v a) (alternatives s)) \<longleftrightarrow> (\<exists>a \<in> set (alternatives s). conforms a v)"
      by (simp only: set_map image_iff) metis
    with False show ?thesis by (subst validate_field.simps, subst conforms.simps) (simp add: Let_def)
  next
    case True
    show ?thesis
    proof (cases "type_admits (schema_type s) v")
      case False
      with True show ?thesis by (subst validate_field.simps, subst conforms.simps) simp
    next
      case typed: True
      show ?thesis
      proof (cases v)
        case (VList xs)
        have "validate_field (item_path f i) (xs ! i) (item_schema s) = [] \<longleftrightarrow> conforms (item_schema s) (xs ! i)"
          if "schema_type s = VStr ''array''" "item_schema s \<noteq> []" "i < length xs" for i
          using 1(2) True typed VList that by (auto simp: in_set_enumerate_eq)
        then show ?thesis
          using True typed
          unfolding VList validate_field.simps [of f "VList xs" s] conforms.simps [of s "VList xs"]
          by (simp add: local_errors_empty range_errors_def length_errors_def enumerate_empty all_set_conv_all_nth
              del: concat_eq_Nil_conv split: bool.split)
      next
        case (VDict d)
        have "validate_field (sub_path f k) w p = [] \<longleftrightarrow> conforms p w"
          if "schema_type s = VStr ''object''" "is_vdict (vget s ''properties'')" "(k, w) \<in> set d"
            "map_of (property_schemas s) k = Some p" for k w p
          using 1(3) [of False "VDict d" d "(k, w)" k w p] True typed VDict that by simp
        then have "concat (map (\<lambda>(k, w). case map_of (property_schemas s) k of None \<Rightarrow> []
              | Some p \<Rightarrow> validate_field (sub_path f k) w p) d) = [] \<longleftrightarrow>
            (\<forall>(k, w) \<in> set d. case map_of (property_schemas s) k of None \<Rightarrow> True | Some p \<Rightarrow> conforms p w)"
          if "schema_type s = VStr ''object''" "is_vdict (vget s ''properties'')"
          using that by (fastforce split: option.splits)
        then show ?thesis
          using True typed
          unfolding VDict validate_field.simps [of f "VDict d" s] conforms.simps [of s "VDict d"]
          by (cases "schema_type s = VStr ''object'' \<and> is_vdict (vget s ''properties'')")
            (auto simp: local_errors_empty shape_errors_empty range_errors_def length_errors_def
              simp del: concat_eq_Nil_conv split: bool.split)
      next
        case (VInt i)
        show ?thesis
          using True typed
          unfolding VInt validate_field.simps [of f "VInt i" s] conforms.simps [of s "VInt i"]
          by (simp add: local_errors_empty length_errors_def split: bool.split)
      next
        case (VStr t)
        show ?thesis
          using True typed
          unfolding VStr validate_field.simps [of f "VStr t" s] conforms.simps [of s "VStr t"]
          by (simp add: local_errors_empty range_errors_def split: bool.split)
      next
        case (VBool b)
        show ?thesis
          using True typed
          unfolding VBool validate_field.simps [of f "VBool b" s] conforms.simps [of s "VBool b"]
          by (simp add: local_errors_empty range_errors_def length_errors_def split: bool.split)
      next
        case VNone
        show ?thesis
          using True typed
          unfolding VNone validate_field.simps [of f VNone s] conforms.simps [of s VNone]
          by (simp add: local_errors_empty range_errors_def length_errors_def split: bool.split)
      qed
    qed
  qed
qed


subsection \<open>The arguments of a call\<close>

definition lookup_schema :: "(string \<times> schema) list \<Rightarrow> string \<Rightarrow> schema" where
  "lookup_schema props k = (case map_of props k of None \<Rightarrow> [] | Some p \<Rightarrow> p)"

definition required_errors :: "schema \<Rightarrow> pydict \<Rightarrow> string list" where
  "required_errors s d =
     concat (map (\<lambda>k. case map_of d k of
         None \<Rightarrow> [''Missing required field: '' @ quoted k]
       | Some v \<Rightarrow> validate_field k v (lookup_schema (property_schemas s) k)) (names_at s ''required''))"

definition optional_errors :: "schema \<Rightarrow> pydict \<Rightarrow> string list" where
  "optional_errors s d =
     concat (map (\<lambda>(k, v). if has_key (dict_of (vget s ''properties'')) k \<and> k \<notin> set (names_at s ''required'')
         then validate_field k v (lookup_schema (property_schemas s) k) else []) d)"

definition with_defaults :: "(string \<times> schema) list \<Rightarrow> pydict \<Rightarrow> pydict" where
  "with_defaults props d =
     fold (\<lambda>(k, p) d. case map_of p ''default'' of Some v \<Rightarrow> (if has_key d k then d else AList.update k v d) | None \<Rightarrow> d) props d"

text \<open>\<open>_validate_arguments\<close>: the errors, and the arguments with the defaults it writes into them.\<close>

definition validate_arguments :: "pyval \<Rightarrow> schema \<Rightarrow> string list \<times> pyval" where
  "validate_arguments args s =
     (case args of
        VDict d \<Rightarrow>
          if s = [] then ([], VDict d)
          else (unknown_errors (\<lambda>k. k) s (dict_of (vget s ''properties'')) d @ required_errors s d @ optional_errors s d,
                VDict (with_defaults (property_schemas s) d))
      | _ \<Rightarrow> ([''Tool arguments must be an object''], args))"

definition canonicalize_tool_arguments :: "pydict \<Rightarrow> schema \<Rightarrow> pydict" where
  "canonicalize_tool_arguments d s = dict_of (snd (validate_arguments (VDict d) s))"

definition admissible :: "schema \<Rightarrow> pydict \<Rightarrow> bool" where
  "admissible s d =
     ((closed_object s \<longrightarrow> fst ` set d \<subseteq> fst ` set (dict_of (vget s ''properties''))) \<and>
      set (names_at s ''required'') \<subseteq> fst ` set d \<and>
      (\<forall>(k, v) \<in> set d. case map_of (property_schemas s) k of None \<Rightarrow> True | Some p \<Rightarrow> conforms p v))"

lemma property_keys: "fst ` set (property_schemas s) = fst ` set (dict_of (vget s ''properties''))"
  by (force simp: property_schemas_def)

lemma conforms_anything: "conforms [] v"
  by (subst conforms.simps)
    (cases v; simp add: alternatives_def schema_type_def vget_or_def type_admits_def bound_at_def within_def below_def above_def
      item_schema_def)

lemma property_lookup:
  "map_of (property_schemas s) k = None \<longleftrightarrow> \<not> has_key (dict_of (vget s ''properties'')) k"
  by (simp add: has_key_iff map_of_eq_None_iff property_keys)

lemma required_errors_empty:
  "required_errors s d = [] \<longleftrightarrow>
     (\<forall>k \<in> set (names_at s ''required''). \<exists>v. map_of d k = Some v \<and> conforms (lookup_schema (property_schemas s) k) v)"
  unfolding required_errors_def concat_map_Nil
  by (rule ball_cong [OF refl]) (simp add: validate_field_conforms split: option.split)

lemma optional_errors_empty:
  "optional_errors s d = [] \<longleftrightarrow>
     (\<forall>(k, v) \<in> set d. has_key (dict_of (vget s ''properties'')) k \<longrightarrow> k \<notin> set (names_at s ''required'') \<longrightarrow>
        conforms (lookup_schema (property_schemas s) k) v)"
  unfolding optional_errors_def concat_map_Nil by (rule ball_cong [OF refl]) (auto simp: validate_field_conforms)

text \<open>Defaults.\<close>

lemma with_defaults_simps [simp]:
  "with_defaults [] d = d"
  "with_defaults ((k, p) # props) d = with_defaults props
     (case map_of p ''default'' of Some v \<Rightarrow> (if has_key d k then d else AList.update k v d) | None \<Rightarrow> d)"
  by (simp_all add: with_defaults_def)

lemma with_defaults_lookup:
  "distinct (map fst props) \<Longrightarrow> map_of (with_defaults props d) k =
     (case map_of d k of Some v \<Rightarrow> Some v | None \<Rightarrow> (case map_of props k of Some p \<Rightarrow> map_of p ''default'' | None \<Rightarrow> None))"
proof (induction props arbitrary: d)
  case (Cons e props)
  obtain k0 p where e: "e = (k0, p)" by fastforce
  have "map_of props k0 = None" using Cons.prems e by (simp add: map_of_eq_None_iff)
  with Cons.IH Cons.prems e show ?case
    by (auto simp: has_key_def update_conv' split: option.splits)
qed (simp split: option.split)

lemma with_defaults_id:
  "(\<And>k p. (k, p) \<in> set props \<Longrightarrow> map_of p ''default'' \<noteq> None \<Longrightarrow> has_key d k) \<Longrightarrow> with_defaults props d = d"
proof (induction props)
  case (Cons e props)
  obtain k p where e: "e = (k, p)" by fastforce
  have "with_defaults props d = d" using Cons.IH Cons.prems by (metis list.set_intros(2))
  with Cons.prems [of k p] e show ?case by (auto split: option.split)
qed simp

lemma admitted_arguments:
  assumes "distinct (map fst d)"
  shows "fst (validate_arguments (VDict d) s) = [] \<longleftrightarrow> s = [] \<or> admissible s d"
proof (cases "s = []")
  case False
  have at: "map_of d k = Some v \<longleftrightarrow> (k, v) \<in> set d" for k v using assms by (simp add: map_of_eq_Some_iff)
  have lookup: "conforms (lookup_schema (property_schemas s) k) v \<longleftrightarrow>
      (case map_of (property_schemas s) k of None \<Rightarrow> True | Some p \<Rightarrow> conforms p v)" for k v
    by (simp add: lookup_schema_def conforms_anything split: option.split)
  have "fst (validate_arguments (VDict d) s) = [] \<longleftrightarrow>
      (closed_object s \<longrightarrow> fst ` set d \<subseteq> fst ` set (dict_of (vget s ''properties''))) \<and>
      required_errors s d = [] \<and> optional_errors s d = []"
    using False by (simp add: validate_arguments_def shape_errors_empty)
  moreover have "required_errors s d = [] \<and> optional_errors s d = [] \<longleftrightarrow>
      set (names_at s ''required'') \<subseteq> fst ` set d \<and>
      (\<forall>(k, v) \<in> set d. case map_of (property_schemas s) k of None \<Rightarrow> True | Some p \<Rightarrow> conforms p v)"
  proof -
    let ?C = "\<lambda>k v. case map_of (property_schemas s) k of None \<Rightarrow> True | Some p \<Rightarrow> conforms p v"
    let ?R = "set (names_at s ''required'')"
    have unlisted: "?C k v" if "\<not> has_key (dict_of (vget s ''properties'')) k" for k v
      using that by (simp add: property_lookup [symmetric])
    have unique: "v = w" if "(k, v) \<in> set d" "(k, w) \<in> set d" for k v w using that at by (metis option.inject)
    have "(\<forall>k \<in> ?R. \<exists>v. (k, v) \<in> set d \<and> ?C k v) \<and>
        (\<forall>(k, v) \<in> set d. has_key (dict_of (vget s ''properties'')) k \<longrightarrow> k \<notin> ?R \<longrightarrow> ?C k v) \<longleftrightarrow>
      ?R \<subseteq> fst ` set d \<and> (\<forall>(k, v) \<in> set d. ?C k v)" (is "?req \<and> ?opt \<longleftrightarrow> ?sub \<and> ?all")
    proof
      assume a: "?req \<and> ?opt"
      have "?C k v" if "(k, v) \<in> set d" for k v using a that unlisted unique by (cases "k \<in> ?R") blast+
      moreover have "?sub" using a by force
      ultimately show "?sub \<and> ?all" by blast
    next
      assume a: "?sub \<and> ?all"
      have "\<exists>v. (k, v) \<in> set d \<and> ?C k v" if "k \<in> ?R" for k
      proof -
        from a that obtain v where "(k, v) \<in> set d" by fastforce
        with a show ?thesis by blast
      qed
      with a show "?req \<and> ?opt" by blast
    qed
    then show ?thesis unfolding required_errors_empty optional_errors_empty lookup at .
  qed
  ultimately show ?thesis using False by (simp add: admissible_def)
qed (simp add: validate_arguments_def)

subsection \<open>Properties\<close>

text \<open>C22: the argument validator is exact. It reports no error exactly when the schema admits the arguments: a closed
  schema names every argument, every required one is there, and each argument conforms to the schema of its property, at
  every depth (types, enumerations, bounds, counts, items, nested objects, alternatives, dependencies).\<close>

theorem arguments_admitted_exactly:
  assumes "distinct (map fst d)"
  shows "fst (validate_arguments (VDict d) s) = [] \<longleftrightarrow> s = [] \<or> admissible s d"
  by (rule admitted_arguments [OF assms])

theorem arguments_admitted_exactly_witness:
  "admissible [(''properties'', VDict [(''limit'', VDict [(''type'', VStr ''integer''), (''maximum'', VInt 20)])]),
               (''required'', VList [VStr ''limit'']), (''additionalProperties'', VBool False)] [(''limit'', VInt 20)] \<and>
   \<not> admissible [(''properties'', VDict [(''limit'', VDict [(''type'', VStr ''integer''), (''maximum'', VInt 20)])]),
               (''required'', VList [VStr ''limit'']), (''additionalProperties'', VBool False)] [(''limit'', VInt 21)]"
  (is "admissible ?s _ \<and> _")
proof -
  have "fst (validate_arguments (VDict [(''limit'', VInt 20)]) ?s) = []"
    "fst (validate_arguments (VDict [(''limit'', VInt 21)]) ?s) \<noteq> []"
    by code_simp+
  then show ?thesis
    using arguments_admitted_exactly [of "[(''limit'', VInt 20)]" ?s] arguments_admitted_exactly [of "[(''limit'', VInt 21)]" ?s]
    by simp
qed

text \<open>The canonical arguments of a call are the arguments with the missing defaults, and are their own canonical
  form.\<close>

lemma canonical_arguments:
  assumes "distinct (map fst (property_schemas s))" "c = canonicalize_tool_arguments d s"
  shows "canonicalize_tool_arguments c s = c \<and>
    (\<forall>k. map_of c k = (case map_of d k of Some v \<Rightarrow> Some v
       | None \<Rightarrow> (case map_of (property_schemas s) k of Some p \<Rightarrow> map_of p ''default'' | None \<Rightarrow> None)))"
proof (cases "s = []")
  case True
  with assms(2) show ?thesis
    by (simp add: canonicalize_tool_arguments_def validate_arguments_def property_schemas_def split: option.split)
next
  case False
  with assms(2) have c: "c = with_defaults (property_schemas s) d"
    by (simp add: canonicalize_tool_arguments_def validate_arguments_def)
  note at = with_defaults_lookup [OF assms(1), of d]
  have "has_key c k" if "(k, p) \<in> set (property_schemas s)" "map_of p ''default'' \<noteq> None" for k p
    using that assms(1) by (auto simp: has_key_def c at map_of_eq_Some_iff split: option.splits)
  then have "with_defaults (property_schemas s) c = c" by (rule with_defaults_id)
  with False c at show ?thesis by (simp add: canonicalize_tool_arguments_def validate_arguments_def)
qed

end
