(* ===== verification/Action_Contracts.thy ===== *)
theory Action_Contracts
  imports Py_Value
begin

section \<open>What an action needs and does\<close>

text \<open>
  \<^verbatim>\<open>core/tools/action_requirements.py\<close>, \<open>declared_action_contract\<close> of \<^verbatim>\<open>core/tools/execution_contracts.py\<close> and
  \<^verbatim>\<open>core/runtime_engine/action_alias.py\<close>: the tables of the merged tools. A tool and an action name the arguments the
  action needs, its execution contract (the planner, the policy and the retries read it) and the aliases the model may
  use for it. The action lists are those of the schemas in \<^verbatim>\<open>core/tools/canonical_registry.py\<close>.
\<close>

definition arg_value_name :: string where "arg_value_name = ''val'' @ ''ue''"

subsection \<open>Required arguments\<close>

definition action_required_all :: "((string \<times> string) \<times> string list) list" where
  "action_required_all =
     [((''exec.run'', ''shell''), [''command'']), ((''exec.run'', ''slash''), [''command'']),
     ((''exec.run'', ''python''), [''code'']), ((''browser.manage'', ''navigate''), [''url'']),
     ((''browser.manage'', ''type''), [''text'']), ((''browser.manage'', ''press_key''), [''key'']),
     ((''browser.manage'', ''select_option''), [arg_value_name]), ((''browser.manage'', ''evaluate''), [''script'']),
     ((''web.manage'', ''search''), [''query'']), ((''web.manage'', ''deep_search''), [''query'']),
     ((''web.manage'', ''fetch''), [''url'']), ((''web.manage'', ''weather_batch''), [''locations'']),
     ((''location.manage'', ''resolve''), [''query'']), ((''location.manage'', ''resolve_batch''), [''queries'']),
     ((''location.manage'', ''reverse''), [''latitude'', ''longitude'']),
     ((''data.manage'', ''distinct''), [''column'']), ((''data.manage'', ''filter''), [''conditions'']),
     ((''data.manage'', ''sort''), [''by'']), ((''data.manage'', ''pivot''), [''index'', ''columns'']),
     ((''data.manage'', ''join''), [''on'']), ((''report.manage'', ''save''), [''content'']),
     ((''report.manage'', ''diff''), [''text_a'', ''text_b'']), ((''report.manage'', ''document''), [''summary'']),
     ((''knowledge.manage'', ''search''), [''query'']), ((''knowledge.manage'', ''import''), [''artifact_id'']),
     ((''knowledge.manage'', ''reindex''), [''source_id'']), ((''memory.manage'', ''get''), [''memory_id'']),
     ((''memory.manage'', ''create''), [''content'']),
     ((''memory.manage'', ''update''), [''memory_id'', ''content'']),
     ((''memory.manage'', ''confirm''), [''memory_id'']), ((''memory.manage'', ''delete''), [''memory_id'']),
     ((''memory.manage'', ''profile_set''), [''field'', arg_value_name]), ((''skill.manage'', ''find''), [''query'']),
     ((''skill.manage'', ''load''), [''skill_name'']), ((''skill.manage'', ''inspect''), [''skill_name'']),
     ((''skill.manage'', ''mcp_list_tools''), [''provider_id'']),
     ((''skill.manage'', ''mcp_call''), [''provider_id'', ''tool_name'']),
     ((''agent.manage'', ''spawn''), [''instruction'']), ((''agent.manage'', ''wait''), [''subtask_ids'']),
     ((''agent.manage'', ''cancel''), [''subtask_id'']), ((''agent.manage'', ''start''), [''subtask_id'']),
     ((''agent.manage'', ''reconcile''), [''subtask_id'']), ((''agent.manage'', ''merge''), []),
     ((''system.manage'', ''context_index''), []),
     ((''system.manage'', ''context_read''), [''checkpoint_id'', ''message_index'']),
     ((''system.manage'', ''context_search''), [''query'']), ((''system.manage'', ''run_get''), [''run_id'']),
     ((''system.manage'', ''session_get''), [''session_id'']),
     ((''system.manage'', ''session_checkpoint''), [''session_id'']),
     ((''system.manage'', ''session_rewind''), [''session_id'', ''snapshot_id'']),
     ((''system.manage'', ''session_export''), [''session_id'']),
     ((''system.manage'', ''session_snapshot''), [''session_id'']), ((''text.analyze'', ''redact''), [''text'']),
     ((''text.analyze'', ''extract_entities''), [''text'']), ((''text.analyze'', ''match''), [''text'', ''pattern'']),
     ((''workspace.file'', ''read''), [''filepath'']), ((''workspace.file'', ''search''), [''query'']),
     ((''workspace.file'', ''read_image''), [''filepath'']),
     ((''workspace.file'', ''extract_document''), [''file_id'']),
     ((''workspace.file'', ''extract_document_image''), [''file_id'', ''image_index'']),
     ((''workspace.file'', ''extract_document_images''), [''file_id'']),
     ((''workspace.file'', ''write''), [''filename'', ''content'']),
     ((''workspace.file'', ''create''), [''filepath'', ''content'']),
     ((''workspace.file'', ''write_artifact''), [''filename'', ''content'']),
     ((''workspace.file'', ''edit''), [''filepath'', ''old_string'', ''new_string'']),
     ((''workspace.file'', ''patch''), [''filepath'', ''patch_text'']),
     ((''workspace.file'', ''delete''), [''filepath'']), ((''workspace.artifact'', ''read''), [''artifact_id'']),
     ((''workspace.artifact'', ''save''), [''content'']),
     ((''workspace.artifact'', ''tag''), [''artifact_id'', ''tags'']),
     ((''workspace.artifact'', ''delete''), [''artifact_id'']),
     ((''workspace.filestore'', ''references''), [''file_id'']),
     ((''workspace.filestore'', ''export''), [''destination'']),
     ((''workspace.filestore'', ''restore_bundle_preview''), [''file_id'']),
     ((''workspace.filestore'', ''restore_bundle''), [''file_id'']),
     ((''workspace.filestore'', ''search''), [''query'']),
     ((''workspace.filestore'', ''source_move''), [''filepath'', ''destination'']),
     ((''workspace.filestore'', ''pack''), [''filepath'', ''destination'']),
     ((''workspace.filestore'', ''extract_archive''), [''file_id'', ''destination'']),
     ((''workspace.filestore'', ''inspect''), [''file_id'']),
     ((''workspace.filestore'', ''render_page''), [''file_id'']),
     ((''workspace.filestore'', ''materialize''), [''destination'']),
     ((''workspace.filestore'', ''publish''), [''filepath'']),
     ((''workspace.filestore'', ''rename''), [''file_id'', ''name'']),
     ((''workspace.filestore'', ''move''), [''file_id'', ''folder'']),
     ((''workspace.filestore'', ''restore''), [''file_id'']), ((''workspace.filestore'', ''delete''), [''file_id'']),
     ((''workspace.filestore'', ''import''), [''filepath''])]"

definition action_required_when :: "((string \<times> string) \<times> (string \<times> string list \<times> string list) list) list" where
  "action_required_when =
     [((''agent.manage'', ''spawn''), [(''profile_id'', [''coding_agent'', ''frontend_agent'', ''qa_agent''], [''coding_assignment''])])]"

definition action_allow_empty :: "((string \<times> string) \<times> string list) list" where
  "action_allow_empty =
     [((''workspace.file'', ''create''), [''content'']), ((''workspace.file'', ''edit''), [''new_string'']),
     ((''browser.manage'', ''type''), [''text'']), ((''report.manage'', ''diff''), [''text_a'', ''text_b''])]"

definition action_required_any :: "((string \<times> string) \<times> string list list) list" where
  "action_required_any =
     [((''browser.manage'', ''click''), [[''selector'', ''ref'']]),
     ((''browser.manage'', ''type''), [[''selector'', ''ref'']]),
     ((''browser.manage'', ''hover''), [[''selector'', ''ref'']]),
     ((''browser.manage'', ''select_option''), [[''selector'', ''ref'']]),
     ((''knowledge.manage'', ''read''), [[''chunk_id'', ''source_id'']]),
     ((''web.manage'', ''weather''), [[''location'', ''latitude''], [''location'', ''longitude'']]),
     ((''data.manage'', ''parse''), [[''text'', ''rows'', ''source_filepath'']]),
     ((''data.manage'', ''stats''), [[''text'', ''rows'', ''source_filepath'']]),
     ((''data.manage'', ''distinct''), [[''text'', ''rows'', ''source_filepath'']]),
     ((''data.manage'', ''aggregate''), [[''text'', ''rows'', ''source_filepath'']]),
     ((''data.manage'', ''filter''), [[''text'', ''rows'', ''source_filepath'']]),
     ((''data.manage'', ''sort''), [[''text'', ''rows'', ''source_filepath'']]),
     ((''data.manage'', ''render''), [[''text'', ''rows'', ''source_filepath'']]),
     ((''data.manage'', ''pivot''), [[''text'', ''rows'', ''source_filepath'']]),
     ((''data.manage'', ''join''), [[''text'', ''rows'', ''source_filepath''], [''right_text'', ''right_rows'', ''right_source_filepath'']]),
     ((''agent.manage'', ''get''), [[''subtask_id'']]), ((''agent.manage'', ''merge''), [[''subtask_id'']])]"

definition table_at :: "('a \<times> 'b list) list \<Rightarrow> 'a \<Rightarrow> 'b list" where
  "table_at t k = (case map_of t k of None \<Rightarrow> [] | Some xs \<Rightarrow> xs)"

definition required_action_arguments :: "string \<Rightarrow> string \<Rightarrow> pydict \<Rightarrow> string list" where
  "required_action_arguments tool action args =
     fromkeys (table_at action_required_all (tool, action) @
       concat (map (\<lambda>(f, vs, fs). if vget args f \<in> VStr ` set vs then fs else []) (table_at action_required_when (tool, action))))"

definition has_argument_value :: "pydict \<Rightarrow> string \<Rightarrow> bool" where
  "has_argument_value args name =
     (case vget args name of
        VNone \<Rightarrow> False | VStr s \<Rightarrow> strip s \<noteq> [] | VList xs \<Rightarrow> xs \<noteq> [] | VDict d \<Rightarrow> d \<noteq> [] | _ \<Rightarrow> True)"

datatype missing_argument =
    Missing_field string string string
  | Missing_one_of "string list" string string

text \<open>\<open>action_requirements\<close> of the metadata, for one action.\<close>

definition declared_requirements :: "pydict \<Rightarrow> string \<Rightarrow> string \<Rightarrow> pyval list" where
  "declared_requirements metadata kind action =
     list_of (vget (dict_of (vget (dict_of (vget metadata ''action_requirements'')) kind)) action)"

definition requirement_action :: "pydict \<Rightarrow> string" where
  "requirement_action args = lower (strip (str_of_or (vget args ''action'') []))"

definition missing_action_arguments ::
  "string \<Rightarrow> pydict \<Rightarrow> pydict \<Rightarrow> string list \<Rightarrow> missing_argument list" where
  "missing_action_arguments tool args metadata bound =
     (let action = requirement_action args;
          required_all = map py_str (declared_requirements metadata ''all'' action);
          required_any = map (\<lambda>g. map py_str (list_of g)) (declared_requirements metadata ''any'' action);
          empty_ok = (\<lambda>name. name \<in> set (table_at action_allow_empty (tool, action)) \<and>
            (case vget args name of VStr _ \<Rightarrow> True | _ \<Rightarrow> False))
      in map (\<lambda>name. Missing_field name tool action)
           (filter (\<lambda>name. \<not> has_argument_value args name \<and> \<not> empty_ok name \<and> name \<notin> set bound)
             (fromkeys (required_action_arguments tool action args @ required_all))) @
         map (\<lambda>names. Missing_one_of names tool action)
           (filter (\<lambda>names. \<not> list_ex (\<lambda>name. has_argument_value args name \<or> name \<in> set bound) names)
             (fromkeys (table_at action_required_any (tool, action) @ required_any))))"

definition may_be_empty :: "string \<Rightarrow> pydict \<Rightarrow> string \<Rightarrow> bool" where
  "may_be_empty tool args name =
     (name \<in> set (table_at action_allow_empty (tool, requirement_action args)) \<and> (\<exists>t. vget args name = VStr t))"

lemma no_missing_arguments:
  "missing_action_arguments tool args metadata bound = [] \<longleftrightarrow>
     (\<forall>name \<in> set (required_action_arguments tool (requirement_action args) args) \<union>
        py_str ` set (declared_requirements metadata ''all'' (requirement_action args)).
        has_argument_value args name \<or> may_be_empty tool args name \<or> name \<in> set bound) \<and>
     (\<forall>names \<in> set (table_at action_required_any (tool, requirement_action args)) \<union>
        (\<lambda>g. map py_str (list_of g)) ` set (declared_requirements metadata ''any'' (requirement_action args)).
        \<exists>name \<in> set names. has_argument_value args name \<or> name \<in> set bound)"
proof -
  have str: "(case v of VStr _ \<Rightarrow> True | _ \<Rightarrow> False) \<longleftrightarrow> (\<exists>t. v = VStr t)" for v by (cases v) auto
  show ?thesis
    unfolding missing_action_arguments_def Let_def append_is_Nil_conv map_is_Nil_conv filter_empty_conv set_fromkeys
      set_append set_map str may_be_empty_def list_ex_iff
    by blast
qed

subsection \<open>Execution contracts\<close>

definition read_contract :: "pydict" where
  "read_contract =
     [(''action_class'', VStr ''read''), (''risk_level'', VStr ''low''), (''side_effects'', VStr ''none''),
     (''idempotency'', VStr ''safe_to_retry''), (''read_only'', VBool True)]"

definition write_contract :: "pydict" where
  "write_contract =
     [(''action_class'', VStr ''write''), (''risk_level'', VStr ''medium''), (''side_effects'', VStr ''workspace''),
     (''idempotency'', VStr ''unsafe_to_retry''), (''read_only'', VBool False)]"

definition execute_contract :: "pydict" where
  "execute_contract =
     [(''action_class'', VStr ''execute''), (''risk_level'', VStr ''medium''), (''side_effects'', VStr ''task_state''),
     (''idempotency'', VStr ''unsafe_to_retry''), (''read_only'', VBool False)]"

definition network_read_contract :: "pydict" where
  "network_read_contract =
     [(''action_class'', VStr ''network''), (''risk_level'', VStr ''low''), (''side_effects'', VStr ''external_read''),
     (''idempotency'', VStr ''safe_to_retry''), (''read_only'', VBool True)]"

definition browser_execute_contract :: "pydict" where
  "browser_execute_contract =
     [(''action_class'', VStr ''network''), (''risk_level'', VStr ''medium''),
     (''side_effects'', VStr ''browser_state''), (''idempotency'', VStr ''unsafe_to_retry''),
     (''read_only'', VBool False)]"

definition local_execute_contract :: "pydict" where
  "local_execute_contract =
     [(''action_class'', VStr ''execute''), (''risk_level'', VStr ''medium''),
     (''side_effects'', VStr ''local_process''), (''idempotency'', VStr ''unsafe_to_retry''),
     (''read_only'', VBool False)]"

definition delete_contract :: "pydict" where
  "delete_contract =
     [(''action_class'', VStr ''delete''), (''risk_level'', VStr ''high''), (''side_effects'', VStr ''workspace''),
     (''idempotency'', VStr ''unsafe_to_retry''), (''read_only'', VBool False), (''destructive'', VBool True)]"

definition action_contract_groups :: "(string \<times> string list \<times> pydict) list" where
  "action_contract_groups =
     [(''exec.run'', [''shell'', ''python'', ''slash''], local_execute_contract),
      (''browser.manage'', [''snapshot'', ''extract'', ''wait'', ''network'', ''console''],
         network_read_contract),
      (''browser.manage'', [''navigate'', ''screenshot'', ''click'', ''type'', ''scroll'', ''hover'',
         ''press_key'', ''select_option'', ''evaluate'', ''tabs'', ''navigate_back'', ''close''],
         browser_execute_contract),
      (''web.manage'', [''search'', ''fetch'', ''weather'', ''weather_batch'', ''deep_search''],
         read_contract),
      (''location.manage'', [''resolve'', ''resolve_batch'', ''reverse''], read_contract),
      (''data.manage'', [''parse'', ''stats'', ''distinct'', ''aggregate'', ''filter'', ''sort'',
         ''render'', ''pivot'', ''join''], read_contract),
      (''workspace.file'', [''list'', ''read'', ''read_image'', ''extract_document'',
         ''extract_document_image'', ''extract_document_images'', ''glob'', ''search''], read_contract),
      (''workspace.file'', [''create'', ''write'', ''write_artifact'', ''edit'', ''patch''],
         write_contract),
      (''workspace.file'', [''delete''], delete_contract),
      (''workspace.artifact'', [''list'', ''read''], read_contract),
      (''workspace.artifact'', [''save'', ''tag''], write_contract),
      (''workspace.artifact'', [''delete''], delete_contract),
      (''workspace.filestore'', [''references'', ''reconcile_trash_preview''], read_contract),
      (''workspace.filestore'', [''list'', ''resolve'', ''inspect'', ''render_page'', ''source_list'',
         ''search'', ''health'', ''migration_preview'', ''restore_bundle_preview'', ''reconcile_preview''],
         read_contract),
      (''workspace.filestore'', [''materialize'', ''publish'', ''rename'', ''move'', ''restore'',
         ''source_move'', ''pack'', ''extract_archive'', ''reindex'', ''migrate'', ''export'',
         ''restore_bundle'', ''reconcile''], write_contract),
      (''workspace.filestore'', [''delete''], delete_contract),
      (''workspace.filestore'', [''import'', ''reconcile_trash''], write_contract),
      (''agent.review'', [''''], write_contract),
      (''agent.manage'', [''reconcile''], write_contract),
      (''agent.manage'', [''list'', ''get'', ''status'', ''wait''], read_contract),
      (''agent.manage'', [''spawn'', ''start'', ''cancel'', ''merge''], execute_contract),
      (''knowledge.manage'', [''search'', ''read'', ''list'', ''chunk''], read_contract),
      (''knowledge.manage'', [''import'', ''reindex''], write_contract),
      (''memory.manage'', [''search'', ''get'', ''review'', ''profile_get''], read_contract),
      (''memory.manage'', [''create'', ''update'', ''confirm'', ''profile_set''], write_contract),
      (''memory.manage'', [''delete''], delete_contract),
      (''skill.manage'', [''list'', ''find'', ''load'', ''inspect'', ''mcp_list_tools''], read_contract),
      (''skill.manage'', [''mcp_call''], execute_contract),
      (''report.manage'', [''diff'', ''document''], read_contract),
      (''report.manage'', [''save''], write_contract),
      (''system.manage'', [''diagnostics'', ''health'', ''selfcheck'', ''local_info'', ''tasks'',
         ''audit_log'', ''run_get'', ''session_get'', ''session_export'', ''session_snapshot'',
         ''context_index'', ''context_read'', ''context_search''], read_contract),
      (''system.manage'', [''session_checkpoint''], write_contract),
      (''system.manage'', [''session_rewind''], delete_contract),
      (''text.analyze'', [''redact'', ''extract_entities'', ''match''], read_contract)]"

definition contracts_of :: "string \<times> string list \<times> pydict \<Rightarrow> ((string \<times> string) \<times> pydict) list" where
  "contracts_of g = (case g of (tool, actions, c) \<Rightarrow> map (\<lambda>a. ((tool, a), c)) actions)"

definition action_execution_contracts :: "((string \<times> string) \<times> pydict) list" where
  "action_execution_contracts = concat (map contracts_of action_contract_groups)"

definition action_execution_contract :: "string \<Rightarrow> string \<Rightarrow> pydict" where
  "action_execution_contract tool action =
     (case map_of action_execution_contracts (strip tool, lower (strip action)) of None \<Rightarrow> [] | Some c \<Rightarrow> c)"

definition declared_action_contract :: "pydict \<Rightarrow> pydict \<Rightarrow> pydict \<Rightarrow> pydict" where
  "declared_action_contract schema declared args =
     (let action = requirement_action args in
      case vget declared action of
        VDict c \<Rightarrow> c
      | _ \<Rightarrow> if action = [] \<and> map_of schema ''properties'' \<noteq> None \<and>
               map_of (dict_of (vget schema ''properties'')) ''action'' = None \<and> length declared = 1
             then dict_of (snd (hd declared)) else [])"

subsection \<open>Canonical actions and their aliases\<close>

definition canonical_actions :: "(string \<times> string list) list" where
  "canonical_actions =
     [(''exec.run'',
       [''shell'', ''python'', ''slash'']),
      (''browser.manage'',
       [''navigate'', ''snapshot'', ''screenshot'', ''click'', ''type'', ''extract'', ''scroll'', ''hover'',
        ''press_key'', ''select_option'', ''evaluate'', ''wait'', ''tabs'', ''network'', ''console'',
        ''navigate_back'', ''close'']),
      (''web.manage'',
       [''search'', ''fetch'', ''weather'', ''weather_batch'', ''deep_search'']),
      (''location.manage'',
       [''resolve'', ''resolve_batch'', ''reverse'']),
      (''data.manage'',
       [''parse'', ''stats'', ''distinct'', ''aggregate'', ''filter'', ''sort'', ''render'', ''pivot'', ''join'']),
      (''report.manage'',
       [''save'', ''diff'', ''document'']),
      (''knowledge.manage'',
       [''search'', ''read'', ''list'', ''chunk'', ''import'', ''reindex'']),
      (''memory.manage'',
       [''search'', ''get'', ''review'', ''confirm'', ''create'', ''update'', ''delete'', ''profile_get'',
        ''profile_set'']),
      (''skill.manage'',
       [''list'', ''find'', ''load'', ''inspect'', ''mcp_list_tools'', ''mcp_call'']),
      (''agent.manage'',
       [''spawn'', ''start'', ''list'', ''get'', ''wait'', ''status'', ''cancel'', ''merge'', ''reconcile'']),
      (''system.manage'',
       [''diagnostics'', ''health'', ''selfcheck'', ''local_info'', ''tasks'', ''audit_log'', ''run_get'',
        ''session_get'', ''session_checkpoint'', ''session_rewind'', ''session_export'', ''session_snapshot'',
        ''context_index'', ''context_read'', ''context_search'']),
      (''text.analyze'',
       [''redact'', ''extract_entities'', ''match'']),
      (''workspace.file'',
       [''list'', ''read'', ''read_image'', ''extract_document'', ''extract_document_image'',
        ''extract_document_images'', ''create'', ''write'', ''write_artifact'', ''edit'', ''patch'', ''glob'',
        ''search'', ''delete'']),
      (''workspace.artifact'',
       [''list'', ''read'', ''save'', ''tag'', ''delete'']),
      (''workspace.filestore'',
       [''list'', ''resolve'', ''inspect'', ''render_page'', ''search'', ''reindex'', ''health'',
        ''migration_preview'', ''migrate'', ''export'', ''restore_bundle_preview'', ''restore_bundle'',
        ''reconcile_preview'', ''reconcile'', ''source_list'', ''source_move'', ''pack'', ''extract_archive'',
        ''materialize'', ''publish'', ''rename'', ''move'', ''restore'', ''delete'', ''references'', ''import'',
        ''reconcile_trash_preview'', ''reconcile_trash''])]"


definition canonical_aliases_by_tool :: "(string \<times> (string \<times> string \<times> string option) list) list" where
  "canonical_aliases_by_tool =
     [(''system.manage'',
       [(''get_session'', ''session_get'', Some ''get_history''),
        (''session_history'', ''session_get'', Some ''get_history''),
        (''history_get'', ''session_get'', Some ''get_history''), (''audit_get'', ''audit_log'', Some ''get''),
        (''get'', ''tasks'', Some ''get''), (''tasks_get'', ''tasks'', Some ''get''),
        (''get_run'', ''run_get'', Some ''get''), (''self_check'', ''selfcheck'', None),
        (''check_health'', ''health'', None), (''do_diagnostics'', ''diagnostics'', None),
        (''diag'', ''diagnostics'', None), (''local_ip'', ''local_info'', None),
        (''local_info'', ''local_info'', None), (''host_info'', ''local_info'', None),
        (''system_info'', ''local_info'', None)]),
      (''workspace.file'',
       [(''ls'', ''list'', None), (''cat'', ''read'', None)]),
      (''knowledge.manage'',
       [(''knowledge_get'', ''read'', None), (''knowledge_search'', ''search'', None),
        (''knowledge_read'', ''read'', None), (''read_knowledge'', ''read'', None),
        (''knowledge_import'', ''import'', None), (''import_knowledge'', ''import'', None),
        (''find_knowledge'', ''search'', None), (''search_knowledge'', ''search'', None),
        (''manage'', ''reindex'', None), (''reindex_knowledge'', ''reindex'', None)]),
      (''agent.manage'',
       [(''agent_list'', ''list'', None)]),
      (''memory.manage'',
       [(''memory_search'', ''search'', None), (''search_memory'', ''search'', None),
        (''memory_create'', ''create'', None), (''create_memory'', ''create'', None),
        (''memory_delete'', ''delete'', None), (''delete_memory'', ''delete'', None)]),
      (''web.manage'',
       [(''search_web'', ''search'', None), (''web_search'', ''search'', None), (''fetch_page'', ''fetch'', None),
        (''page'', ''fetch'', None), (''deep_web_search'', ''deep_search'', None), (''list'', ''search'', None)]),
      (''report.manage'',
       [(''render_report'', ''document'', None), (''generate_report'', ''document'', None),
        (''save_report'', ''save'', None)]),
      (''text.analyze'',
       [(''extract'', ''extract_entities'', None)]),
      (''skill.manage'',
       [(''search'', ''find'', None)])]"

definition canonical_aliases_global :: "(string \<times> string \<times> string option) list" where
  "canonical_aliases_global = []"

record alias_resolution =
  ar_matched :: bool
  ar_original :: string
  ar_canonical :: string
  ar_operation :: "string option"
  ar_source :: string

definition resolve_action_alias :: "string \<Rightarrow> pyval \<Rightarrow> alias_resolution" where
  "resolve_action_alias tool action =
     (let original = (case action of VStr s \<Rightarrow> strip s | _ \<Rightarrow> []);
          rewritten = (\<lambda>(c, op). \<lparr>ar_matched = True, ar_original = original, ar_canonical = c, ar_operation = op,
                                   ar_source = ''canonical''\<rparr>);
          kept = (\<lambda>c source. \<lparr>ar_matched = False, ar_original = original, ar_canonical = c, ar_operation = None,
                              ar_source = source\<rparr>) in
      if original = [] then kept [] ''none''
      else if original \<in> set (table_at canonical_actions tool) then kept original ''canonical''
      else case map_of (table_at canonical_aliases_by_tool tool) original of
        Some r \<Rightarrow> rewritten r
      | None \<Rightarrow> (case map_of canonical_aliases_global original of
          Some r \<Rightarrow> rewritten r
        | None \<Rightarrow> kept original ''none''))"

subsection \<open>What the tables say\<close>

definition is_read :: "pydict \<Rightarrow> bool" where
  "is_read c = (vget c ''read_only'' = VBool True)"

definition contract_consistent :: "pydict \<Rightarrow> bool" where
  "contract_consistent c =
     (c \<noteq> [] \<and>
      (is_read c \<longleftrightarrow> vget c ''idempotency'' = VStr ''safe_to_retry'') \<and>
      (is_read c \<longrightarrow> vget c ''side_effects'' \<in> {VStr ''none'', VStr ''external_read''} \<and>
         vget c ''risk_level'' = VStr ''low'' \<and> vget c ''destructive'' = VNone) \<and>
      (vget c ''destructive'' = VBool True \<longleftrightarrow> vget c ''action_class'' = VStr ''delete'') \<and>
      (vget c ''destructive'' = VBool True \<longleftrightarrow> vget c ''risk_level'' = VStr ''high''))"

definition grouped_actions :: "string \<Rightarrow> string list" where
  "grouped_actions t = concat (map (\<lambda>(_, as, _). as) (filter (\<lambda>(t', _). t' = t) action_contract_groups))"

lemma kinds_consistent:
  "contract_consistent read_contract" "contract_consistent write_contract" "contract_consistent execute_contract"
  "contract_consistent network_read_contract" "contract_consistent browser_execute_contract"
  "contract_consistent local_execute_contract" "contract_consistent delete_contract"
  by (simp_all add: contract_consistent_def is_read_def vget_def vget_or_def read_contract_def write_contract_def
      execute_contract_def network_read_contract_def browser_execute_contract_def local_execute_contract_def
      delete_contract_def)

lemma contract_kinds: "list_all (\<lambda>(_, _, c). contract_consistent c) action_contract_groups"
  by (simp add: action_contract_groups_def kinds_consistent)

lemma actions_grouped: "list_all (\<lambda>(t, as). list_all (List.member (grouped_actions t)) as) canonical_actions"
  by code_simp

lemma aliases_rewrite:
  "list_all (\<lambda>(t, rs). list_all (\<lambda>(k, c, _). List.member (table_at canonical_actions t) c) rs) canonical_aliases_by_tool"
  by code_simp

lemma aliases_unpadded:
  "list_all (\<lambda>(t, rs). list_all (\<lambda>(k, c, _). c \<noteq> [] \<and> \<not> py_space (hd c) \<and> \<not> py_space (last c)) rs)
     canonical_aliases_by_tool"
  by (simp add: canonical_aliases_by_tool_def py_space_def)

lemma contract_lookup:
  assumes "map_of action_execution_contracts (t, a) = Some c"
  shows "contract_consistent c"
proof -
  from map_of_SomeD [OF assms] obtain as where "(t, as, c) \<in> set action_contract_groups"
    by (auto simp: action_execution_contracts_def contracts_of_def)
  with contract_kinds show ?thesis by (auto simp: list_all_iff)
qed

lemma table_at_in: "x \<in> set (table_at t k) \<Longrightarrow> \<exists>xs. (k, xs) \<in> set t \<and> x \<in> set xs \<and> table_at t k = xs"
  by (auto simp: table_at_def dest: map_of_SomeD split: option.splits)

lemma canonical_contract:
  assumes "a \<in> set (table_at canonical_actions t)"
  shows "\<exists>c. map_of action_execution_contracts (t, a) = Some c"
proof -
  from table_at_in [OF assms] actions_grouped have "a \<in> set (grouped_actions t)"
    by (auto simp: list_all_iff)
  then have "(t, a) \<in> fst ` set action_execution_contracts"
    by (force simp: grouped_actions_def action_execution_contracts_def contracts_of_def image_iff)
  then show ?thesis by (simp add: map_of_eq_None_iff flip: not_None_eq)
qed

lemma alias_row:
  assumes "map_of (table_at canonical_aliases_by_tool t) k = Some (c, op)"
  shows "c \<in> set (table_at canonical_actions t)" "strip c = c" "c \<noteq> []"
proof -
  from map_of_SomeD [OF assms] obtain rs where "(t, rs) \<in> set canonical_aliases_by_tool" "(k, c, op) \<in> set rs"
    using table_at_in by fastforce
  with aliases_rewrite aliases_unpadded show "c \<in> set (table_at canonical_actions t)" "strip c = c" "c \<noteq> []"
    by (fastforce simp: list_all_iff intro: strip_unpadded)+
qed

text \<open>An alias is rewritten to an action of the tool's schema that has an execution contract, never away from one; the
  result is its own resolution, and an action that is no alias is kept.\<close>

theorem alias_resolution_settles:
  assumes "resolve_action_alias tool action = r"
  shows "(ar_matched r \<longrightarrow> ar_canonical r \<in> set (table_at canonical_actions tool) \<and>
            ar_original r \<notin> set (table_at canonical_actions tool) \<and>
            map_of action_execution_contracts (tool, ar_canonical r) \<noteq> None) \<and>
         (\<not> ar_matched r \<longrightarrow> ar_canonical r = ar_original r) \<and>
         resolve_action_alias tool (VStr (ar_canonical r)) =
           \<lparr>ar_matched = False, ar_original = ar_canonical r, ar_canonical = ar_canonical r, ar_operation = None,
            ar_source = (if ar_canonical r \<in> set (table_at canonical_actions tool) \<and> ar_canonical r \<noteq> [] then ''canonical'' else ''none'')\<rparr>"
proof -
  let ?o = "case action of VStr s \<Rightarrow> strip s | _ \<Rightarrow> []"
  note r = assms [symmetric]
  have o: "strip ?o = ?o" by (cases action) simp_all
  consider (none) "?o = []"
    | (canonical) "?o \<noteq> []" "?o \<in> set (table_at canonical_actions tool)"
    | (row) c op where "?o \<noteq> []" "?o \<notin> set (table_at canonical_actions tool)"
        "map_of (table_at canonical_aliases_by_tool tool) ?o = Some (c, op)"
    | (unknown) "?o \<noteq> []" "?o \<notin> set (table_at canonical_actions tool)"
        "map_of (table_at canonical_aliases_by_tool tool) ?o = None"
    by (cases "map_of (table_at canonical_aliases_by_tool tool) ?o") auto
  then show ?thesis
  proof cases
    case row
    note a = alias_row [OF row(3)]
    from row a canonical_contract [OF a(1)] show ?thesis
      by (simp add: r resolve_action_alias_def Let_def)
  qed (use o in \<open>simp_all add: r resolve_action_alias_def Let_def canonical_aliases_global_def\<close>)
qed

theorem alias_resolution_settles_witness:
  "ar_matched (resolve_action_alias ''workspace.file'' (VStr ''cat'')) \<and>
   resolve_action_alias ''workspace.file'' (VStr ''read'') =
     \<lparr>ar_matched = False, ar_original = ''read'', ar_canonical = ''read'', ar_operation = None, ar_source = ''canonical''\<rparr>"
proof -
  have r: "resolve_action_alias ''workspace.file'' (VStr ''cat'') =
      \<lparr>ar_matched = True, ar_original = ''cat'', ar_canonical = ''read'', ar_operation = None, ar_source = ''canonical''\<rparr>"
    and table: "List.member (table_at canonical_actions ''workspace.file'') ''read''"
    by code_simp+
  from alias_resolution_settles [OF r] r table show ?thesis by simp
qed

lemma canonical_contracts_consistent:
  assumes "lower (strip action) \<in> set (table_at canonical_actions (strip tool))"
  shows "contract_consistent (action_execution_contract tool action)"
proof -
  from canonical_contract [OF assms] obtain c where "map_of action_execution_contracts (strip tool, lower (strip action)) = Some c"
    by blast
  then show ?thesis by (simp add: action_execution_contract_def contract_lookup)
qed

end
