(* ===== verification/Tool_Executor.thy ===== *)
theory Tool_Executor
  imports Tool_Schema Action_Contracts
begin

section \<open>The execution gate of a tool\<close>

text \<open>
  \<open>ToolRuntimeClient.invoke\<close> of \<^verbatim>\<open>core/tools/client.py\<close>, \<open>ToolExecutor.execute\<close> of \<^verbatim>\<open>core/tools/executor.py\<close> with
  \<open>resolve_tool_outcome\<close> of \<^verbatim>\<open>core/runtime_engine/tool_runtime.py\<close>, \<open>ToolPolicy.check\<close> of \<^verbatim>\<open>core/tools/policy.py\<close> and the
  redaction of \<^verbatim>\<open>core/tools/redaction.py\<close>. A run returns its result and the invocations the handler received, so that "the
  handler runs" is part of what is shown. The registry, the manifests and the handlers are a \<open>tool_world\<close>; a handler
  raises (\<open>Inl\<close>, the text of the exception) or returns a JSON object or anything else. Durations, traces and metrics are
  left out.
\<close>

subsection \<open>Data\<close>

record tool_spec =
  tl_tool_id :: string
  tl_enabled :: bool
  tl_risk_level :: string
  tl_category :: string
  tl_input_schema :: schema
  tl_timeout_seconds :: int
  tl_dry_run_supported :: bool
  tl_metadata :: pydict

record invocation =
  iv_invocation_id :: string
  iv_tool_id :: string
  iv_arguments :: pyval
  iv_dry_run :: bool
  iv_requested_by :: string

record capability_manifest =
  mf_risk_level :: string
  mf_timeout_seconds :: int
  mf_allowed_callers :: "string list"

record policy_decision =
  pd_allowed :: bool
  pd_reason :: string
  pd_risk_level :: string
  pd_blocked_rules :: "string list"

datatype tool_status = Succeeded | Failed | Blocked | Dry_run

record tool_outcome =
  to_invocation_id :: string
  to_tool_id :: string
  to_status :: tool_status
  to_output :: pydict
  to_summary :: pyval
  to_errors :: pyval
  to_warnings :: pyval
  to_artifact_ids :: pyval
  to_redacted :: bool
  to_decision :: "policy_decision option"

text \<open>
  \<open>tw_clean\<close> is \<open>redact_string\<close>, the substitution of secrets in one text, with \<open>container_paths\<close> as its first argument;
  \<open>tw_container\<close> is \<open>public_container_temp_paths\<close> on a tool and an action.
\<close>

record tool_world =
  tw_get_tool :: "string \<Rightarrow> tool_spec option"
  tw_get_handler :: "string \<Rightarrow> (invocation \<Rightarrow> string + pyval) option"
  tw_get_manifest :: "string \<Rightarrow> capability_manifest option"
  tw_clean :: "bool \<Rightarrow> string \<Rightarrow> string"
  tw_container :: "string \<Rightarrow> string \<Rightarrow> bool"

subsection \<open>Redaction of results\<close>

definition sensitive_dict_keys :: "string list" where
  "sensitive_dict_keys =
     [''password'', ''passwd'', ''secret'', ''token'', ''api_key'', ''apikey'', ''community'', ''authorization'', ''bearer'',
      ''private_key'', ''ssh_key'', ''psk'', ''pre_shared_key'', ''access_key'', ''secret_key'', ''jwt'', ''id_token'',
      ''access_token'', ''refresh_token'']"

text \<open>The patterns, as the words they match: prefixes, an optional separator, suffixes. \<open>$\<close> also matches before a final
  line feed.\<close>

definition key_separators :: "string list" where
  "key_separators = ['''', ''_'', ''-'', ''.'']"

definition key_words :: "string list \<Rightarrow> string list \<Rightarrow> string list" where
  "key_words prefixes suffixes = [p @ s @ t. p \<leftarrow> prefixes, s \<leftarrow> key_separators, t \<leftarrow> suffixes]"

definition sensitive_key_words :: "string list" where
  "sensitive_key_words =
     key_words [''auth'', ''access'', ''refresh'', ''id'', ''bearer''] [''token''] @
     key_words [''token''] [arg_value_name, ''secret'', ''hash''] @
     key_words [''password'', ''passwd'', ''secret''] [arg_value_name, ''hash'', ''secret'', ''''] @
     [''community''] @ key_words [''snmp''] [''community''] @
     [''key''] @ key_words [''api''] [''key''] @
     key_words [''ssh'', ''private'', ''secret'', ''access''] [''key''] @
     concat (map (\<lambda>s. key_words [''pre'' @ s @ ''shared''] [''key'']) key_separators)"

definition chop_newline :: "string \<Rightarrow> string" where
  "chop_newline s = (if s \<noteq> [] \<and> last s = CHR 0x0A then butlast s else s)"

definition is_sensitive_key :: "string \<Rightarrow> bool" where
  "is_sensitive_key key =
     (let kl = lower key in
      kl \<in> set sensitive_dict_keys \<or> kl \<in> set sensitive_key_words \<or> chop_newline kl \<in> set sensitive_key_words)"

text \<open>\<open>redact_dict\<close>, \<open>redact_list\<close> and the scalars, as one recursion over the value.\<close>

fun redact_tool_output :: "(string \<Rightarrow> string) \<Rightarrow> pyval \<Rightarrow> pyval" where
  "redact_tool_output clean (VDict d) =
     VDict (map (\<lambda>(k, v). (k, if is_sensitive_key k then VStr ''[REDACTED]'' else redact_tool_output clean v)) d)"
| "redact_tool_output clean (VList xs) = VList (map (redact_tool_output clean) xs)"
| "redact_tool_output clean (VStr s) = VStr (clean s)"
| "redact_tool_output clean VNone = VNone"
| "redact_tool_output clean (VBool b) = VBool b"
| "redact_tool_output clean (VInt i) = VInt i"

text \<open>What a redacted result looks like: nothing but the mark under a sensitive key, and every text cleaned.\<close>

inductive masked :: "(string \<Rightarrow> string) \<Rightarrow> pyval \<Rightarrow> bool" for clean where
  masked_none: "masked clean VNone"
| masked_bool: "masked clean (VBool b)"
| masked_int: "masked clean (VInt i)"
| masked_str: "masked clean (VStr (clean s))"
| masked_list: "(\<And>x. x \<in> set xs \<Longrightarrow> masked clean x) \<Longrightarrow> masked clean (VList xs)"
| masked_dict: "(\<And>k v. (k, v) \<in> set d \<Longrightarrow> is_sensitive_key k \<and> v = VStr ''[REDACTED]'' \<or> \<not> is_sensitive_key k \<and> masked clean v) \<Longrightarrow>
    masked clean (VDict d)"

lemma masked_empty [simp]: "masked clean (VDict [])"
  by (rule masked_dict) simp

lemma redact_masked: "masked clean (redact_tool_output clean v)"
proof (induction clean v rule: redact_tool_output.induct)
  case (1 clean d)
  have "masked clean (redact_tool_output clean v)" if "(k, v) \<in> set d" "\<not> is_sensitive_key k" for k v
    using 1 that by blast
  then show ?case unfolding redact_tool_output.simps by (intro masked_dict) (auto split: if_splits)
next
  case (2 clean xs)
  then show ?case by (auto intro!: masked_list)
qed (auto intro: masked.intros)

subsection \<open>Policy\<close>

definition forbidden_tools :: "string list" where
  "forbidden_tools =
     [''ssh.exec'', ''telnet.exec'', ''snmp.walk'', ''nmap.scan'', ''ping.sweep'', ''command.exec'', ''device.exec'',
      ''config.push'', ''file.read_any'', ''file.write_any'']"

text \<open>\<^verbatim>\<open>^family[\._].*(w1|w2|...)\<close>, where \<open>.\<close> matches no line feed.\<close>

definition family_pattern :: "string \<Rightarrow> string list \<Rightarrow> string \<Rightarrow> bool" where
  "family_pattern family words tool =
     (let t = lower tool; rest = drop (length family) t in
      starts_with t family \<and> rest \<noteq> [] \<and> hd rest \<in> {CHR ''.'', CHR ''_''} \<and>
      list_ex (contains_sub (takeWhile (\<lambda>c. c \<noteq> CHR 0x0A) (tl rest))) words)"

text \<open>\<^verbatim>\<open>^family[\._]exec[_\w]*$\<close>\<close>

definition tool_id_char :: "char \<Rightarrow> bool" where
  "tool_id_char c = (is_alpha c \<or> is_digit c \<or> c = CHR ''_'')"

definition exec_pattern :: "string \<Rightarrow> string \<Rightarrow> bool" where
  "exec_pattern family tool =
     (let t = chop_newline (lower tool) in
      list_ex (\<lambda>sep. starts_with t (family @ sep @ ''exec'') \<and> list_all tool_id_char (drop (length family + 5) t)) [''.'', ''_''])"

text \<open>The two patterns with a literal \<open>.exec$\<close> are instances of \<open>exec_pattern\<close>.\<close>

definition is_tool_forbidden :: "string \<Rightarrow> bool" where
  "is_tool_forbidden tool =
     (tool \<in> set forbidden_tools \<or>
      family_pattern ''shell'' [''exec''] tool \<or> family_pattern ''ssh'' [''exec''] tool \<or>
      family_pattern ''telnet'' [''exec''] tool \<or> family_pattern ''snmp'' [''walk'', ''set'', ''write''] tool \<or>
      family_pattern ''nmap'' [''scan''] tool \<or> family_pattern ''ping'' [''sweep''] tool \<or>
      exec_pattern ''command'' tool \<or> family_pattern ''device'' [''exec''] tool \<or>
      family_pattern ''config'' [''push''] tool \<or>
      family_pattern ''file'' [''read_any'', ''write_any'', ''delete_any''] tool \<or> exec_pattern ''powershell'' tool)"

definition allowed_categories :: "string list" where
  "allowed_categories =
     [''exec'', ''workspace'', ''knowledge'', ''memory'', ''system'', ''web'', ''browser'', ''agent'', ''code'', ''data'',
      ''artifact'', ''host'', ''runtime'', ''report_data'', ''shell'', ''powershell'', ''python'', ''session'', ''text'',
      ''skill'', ''run'', ''file'', ''snmp'', ''nmap'', ''diagram'', ''document'', ''review'', ''slash'', ''team'',
      ''frontend'', ''general'', ''ops'', ''weather'', ''news'', ''tool'', ''parser'', ''report'', ''command'', ''query'',
      ''capability'']"

text \<open>The contract of the action: the shared table first, the declaration of the tool otherwise.\<close>

definition policy_action_contract :: "tool_spec \<Rightarrow> pydict \<Rightarrow> pydict" where
  "policy_action_contract spec args =
     (let c = action_execution_contract (tl_tool_id spec) (requirement_action args) in
      if c \<noteq> [] then c
      else declared_action_contract (tl_input_schema spec) (dict_of (vget (tl_metadata spec) ''action_execution_contracts'')) args)"

definition effective_risk :: "capability_manifest option \<Rightarrow> tool_spec \<Rightarrow> pydict \<Rightarrow> string" where
  "effective_risk manifest spec args =
     (let declared = (case manifest of Some m \<Rightarrow> str_or (mf_risk_level m) (str_or (tl_risk_level spec) ''low'')
                                     | None \<Rightarrow> str_or (tl_risk_level spec) ''low'');
          c = policy_action_contract spec args in
      case map_of c ''risk_level'' of Some r \<Rightarrow> py_str r | None \<Rightarrow> declared)"

definition timeout_or :: "int \<Rightarrow> int \<Rightarrow> int" where
  "timeout_or a b = (if a = 0 then b else a)"

definition effective_timeout :: "capability_manifest option \<Rightarrow> tool_spec \<Rightarrow> int" where
  "effective_timeout manifest spec =
     (case manifest of Some m \<Rightarrow> timeout_or (mf_timeout_seconds m) (timeout_or (tl_timeout_seconds spec) 30)
                     | None \<Rightarrow> timeout_or (tl_timeout_seconds spec) 30)"

definition max_timeout :: "capability_manifest option \<Rightarrow> string \<Rightarrow> int" where
  "max_timeout manifest risk =
     max (if risk = ''high'' then 600 else if risk = ''medium'' then 300 else 120)
         (case manifest of Some m \<Rightarrow> mf_timeout_seconds m | None \<Rightarrow> 0)"

definition policy_check :: "tool_world \<Rightarrow> tool_spec \<Rightarrow> pydict \<Rightarrow> bool \<Rightarrow> policy_decision" where
  "policy_check w spec args dry_run =
     (let tool = tl_tool_id spec;
          manifest = (if tool = [] then None else tw_get_manifest w tool);
          risk = effective_risk manifest spec args;
          timeout = effective_timeout manifest spec;
          limit = max_timeout manifest risk;
          rule = (\<lambda>b name reason. if b then [(name, reason)] else []);
          blocked =
            rule (\<not> tl_enabled spec) ''tool_disabled'' (''Tool '' @ quoted tool @ '' is disabled'') @
            rule (is_tool_forbidden tool) ''forbidden_tool_id'' (''Tool '' @ quoted tool @ '' is forbidden'') @
            rule (tl_category spec \<noteq> [] \<and> tl_category spec \<notin> set allowed_categories) ''forbidden_category''
              (''Category '' @ quoted (tl_category spec) @ '' not allowed in v0.2'') @
            rule (dry_run \<and> \<not> tl_dry_run_supported spec) ''dry_run_not_supported''
              (''Tool '' @ quoted tool @ '' does not support dry_run'') @
            rule (timeout > limit) ''timeout_too_high''
              (''Tool '' @ quoted tool @ '' timeout '' @ int_str timeout @ ''s > '' @ int_str limit @ ''s limit'')
      in if tool = []
         then \<lparr>pd_allowed = False, pd_reason = ''tool_not_found'', pd_risk_level = ''forbidden'', pd_blocked_rules = [''tool_not_found'']\<rparr>
         else if blocked \<noteq> []
         then \<lparr>pd_allowed = False, pd_reason = join_with ''; '' (map snd blocked), pd_risk_level = risk,
               pd_blocked_rules = map fst blocked\<rparr>
         else \<lparr>pd_allowed = True, pd_reason = ''ok'', pd_risk_level = risk, pd_blocked_rules = []\<rparr>)"

subsection \<open>The verdict on a returned value\<close>

text \<open>\<open>(status, error_code, normalized)\<close>; \<open>None\<close> is the absent code of a success.\<close>

definition resolve_tool_outcome :: "pyval \<Rightarrow> bool \<times> string option \<times> pyval" where
  "resolve_tool_outcome result =
     (case result of
        VNone \<Rightarrow> (False, Some ''NULL_RESULT'', VDict [])
      | VDict d \<Rightarrow>
          if vget d ''ok'' = VBool False
          then (False, Some (str_of_or (vget d ''error_code'') ''TOOL_RETURNED_NOT_OK''), result)
          else if vget d ''ok'' = VBool True then (True, None, result)
          else (False, Some ''TOOL_RESULT_INVALID'', result)
      | _ \<Rightarrow> (False, Some ''TOOL_RESULT_INVALID'', result))"

definition invalid_outcome_text :: string where
  "invalid_outcome_text = ''Handler returned no explicit tool outcome; verify effects before any further write.''"

text \<open>The payload that is redacted: the object a handler returned, with the failure written into it when it says neither
  success nor failure.\<close>

definition outcome_payload :: "string option \<Rightarrow> pyval \<Rightarrow> pydict" where
  "outcome_payload code normalized =
     (let payload = (case normalized of VDict d \<Rightarrow> d | v \<Rightarrow> [(''output'', v)]) in
      if code \<in> {Some ''NULL_RESULT'', Some ''TOOL_RESULT_INVALID''}
      then merge_dict payload [(''ok'', VBool False), (''error_code'', VStr (the code)), (''error'', VStr invalid_outcome_text),
                               (''automatic_retry_allowed'', VBool False)]
      else payload)"

definition structured_summary :: "string \<Rightarrow> pydict \<Rightarrow> bool \<Rightarrow> string" where
  "structured_summary tool output ok =
     (if \<not> ok then str_of_or (vget output ''error'') (''Tool '' @ tool @ '' failed'')
      else case List.find (\<lambda>(k, _). has_key output k) [(''match_count'', ''match(es)''), (''row_count'', ''row(s)''), (''count'', ''item(s)'')] of
        Some (k, noun) \<Rightarrow> tool @ '' returned '' @ py_str (vget output k) @ '' '' @ noun @ ''.''
      | None \<Rightarrow> tool @ '' completed with structured output.'')"

subsection \<open>The pipeline\<close>

definition blank_outcome :: "string \<Rightarrow> string \<Rightarrow> tool_outcome" where
  "blank_outcome invocation tool =
     \<lparr>to_invocation_id = invocation, to_tool_id = tool, to_status = Failed, to_output = [], to_summary = VStr [], to_errors = VList [],
      to_warnings = VList [], to_artifact_ids = VList [], to_redacted = True, to_decision = None\<rparr>"

definition failed_result :: "tool_world \<Rightarrow> string \<Rightarrow> string \<Rightarrow> string \<Rightarrow> tool_outcome" where
  "failed_result w invocation tool error =
     (let safe = take 200 (str_or (tw_clean w False error) ''Tool execution failed'') in
      (blank_outcome invocation tool)\<lparr>to_summary := VStr safe, to_errors := VList [VStr safe]\<rparr>)"

definition missing_text :: "missing_argument \<Rightarrow> string" where
  "missing_text m = (case m of
       Missing_field f tool action \<Rightarrow> ''Missing required field: '' @ quoted f @ '' for action='' @ action
     | Missing_one_of fs tool action \<Rightarrow> ''Action '' @ action @ '' requires one of '' @ py_repr (VList (map VStr fs)))"

text \<open>Step 3: the errors of the schema and of the action, and the arguments with their defaults.\<close>

definition argument_errors :: "tool_spec \<Rightarrow> pyval \<Rightarrow> string list \<times> pyval" where
  "argument_errors spec args =
     (let (errors, args) = validate_arguments args (tl_input_schema spec);
          missing = (case args of VDict d \<Rightarrow> missing_action_arguments (tl_tool_id spec) d (tl_metadata spec) [] | _ \<Rightarrow> [])
      in (errors @ map missing_text missing, args))"

definition argument_block :: "invocation \<Rightarrow> tool_spec \<Rightarrow> string list \<Rightarrow> tool_outcome" where
  "argument_block call spec errors =
     (let texts = VList (map VStr errors) in
      (blank_outcome (iv_invocation_id call) (iv_tool_id call))
        \<lparr>to_status := Blocked,
         to_output := [(''ok'', VBool False), (''executed'', VBool False), (''error'', VStr (hd errors)), (''errors'', texts),
                       (''error_code'', VStr ''TOOL_ARGUMENT_VALIDATION_FAILED''), (''retryable'', VBool False)],
         to_summary := VStr (''Schema validation failed: '' @ join_with '', '' errors), to_errors := texts,
         to_decision := Some \<lparr>pd_allowed = False, pd_reason = ''schema_validation_failed'', pd_risk_level = tl_risk_level spec,
                              pd_blocked_rules = [''schema_validation'']\<rparr>\<rparr>)"

text \<open>Steps 7 and 8.\<close>

definition handler_outcome :: "tool_world \<Rightarrow> invocation \<Rightarrow> policy_decision \<Rightarrow> pyval \<Rightarrow> tool_outcome" where
  "handler_outcome w call decision raw =
     (let container = tw_container w (iv_tool_id call) (str_of_or (vget (dict_of (iv_arguments call)) ''action'') []);
          (ok, code, normalized) = resolve_tool_outcome raw;
          output = dict_of (redact_tool_output (tw_clean w container) (VDict (outcome_payload code normalized)));
          summary = vor (vget output ''summary'')
                      (vor (vget output ''_hint'') (VStr (structured_summary (iv_tool_id call) output ok)));
          errors = vget_or output ''errors'' (VList []);
          errors = (if \<not> ok \<and> \<not> truthy errors then VList [vget_or output ''error'' summary] else errors)
      in (blank_outcome (iv_invocation_id call) (iv_tool_id call))
           \<lparr>to_status := (if ok then Succeeded else Failed), to_output := output, to_summary := summary, to_errors := errors,
            to_warnings := vget_or output ''warnings'' (VList []), to_artifact_ids := vget_or output ''artifact_ids'' (VList []),
            to_decision := Some decision\<rparr>)"

definition run_handler :: "tool_world \<Rightarrow> invocation \<Rightarrow> policy_decision \<Rightarrow> tool_outcome \<times> invocation list" where
  "run_handler w call decision =
     (case tw_get_handler w (iv_tool_id call) of
        None \<Rightarrow> (failed_result w (iv_invocation_id call) (iv_tool_id call) ''Handler not found'', [])
      | Some handler \<Rightarrow>
          (case handler call of
             Inl exc \<Rightarrow> failed_result w (iv_invocation_id call) (iv_tool_id call) (''Execution failed: '' @ take 200 exc)
           | Inr raw \<Rightarrow> handler_outcome w call decision raw, [call]))"

definition execute :: "tool_world \<Rightarrow> invocation \<Rightarrow> tool_outcome \<times> invocation list" where
  "execute w call =
     (let iid = iv_invocation_id call; tool = iv_tool_id call in
      if tool = [] then (failed_result w iid [] ''Missing tool_id'', [])
      else case tw_get_tool w tool of
        None \<Rightarrow> (failed_result w iid tool (''Tool not found: '' @ tool), [])
      | Some spec \<Rightarrow>
          (let (errors, args) = argument_errors spec (iv_arguments call); call = call\<lparr>iv_arguments := args\<rparr> in
           if errors \<noteq> [] then (argument_block call spec errors, [])
           else let decision = policy_check w spec (dict_of args) (iv_dry_run call) in
           if \<not> pd_allowed decision
           then ((blank_outcome iid tool)\<lparr>to_status := Blocked, to_summary := VStr (''Blocked by policy: '' @ pd_reason decision),
                   to_errors := VList [VStr (pd_reason decision)], to_decision := Some decision\<rparr>, [])
           else if iv_dry_run call
           then (if tl_dry_run_supported spec
                 then let summary = ''dry_run completed for '' @ tool in
                   ((blank_outcome iid tool)\<lparr>to_status := Dry_run,
                      to_output := [(''dry_run'', VBool True), (''executed'', VBool False), (''summary'', VStr summary)],
                      to_summary := VStr summary, to_decision := Some decision\<rparr>, [])
                 else ((blank_outcome iid tool)\<lparr>to_status := Blocked,
                         to_summary := VStr (''dry_run not supported by tool '' @ quoted tool),
                         to_errors := VList [VStr (''Tool '' @ quoted tool @ '' does not support dry_run'')],
                         to_decision := Some decision\<rparr>, []))
           else run_handler w call decision))"

text \<open>\<open>ToolRuntimeClient.invoke\<close>: no call without a manifest and a caller it allows. The tool id is the resolved one; the dash of
  the first text is ASCII here.\<close>

definition invoke :: "tool_world \<Rightarrow> invocation \<Rightarrow> tool_outcome \<times> invocation list" where
  "invoke w call =
     (let tool = iv_tool_id call; blocked = (blank_outcome [] tool)\<lparr>to_status := Blocked\<rparr>; caller = iv_requested_by call in
      case tw_get_manifest w tool of
        None \<Rightarrow> (blocked\<lparr>to_summary := VStr (''Tool '' @ tool @ '' has no manifest - execution denied'')\<rparr>, [])
      | Some m \<Rightarrow>
          if caller = []
          then (blocked\<lparr>to_summary := VStr (''Caller identity (requested_by) is required. Set ToolRuntimeContext.requested_by to one of: '' @
                          join_with '', '' (mf_allowed_callers m)), to_errors := VList [VStr ''caller_missing'']\<rparr>, [])
          else if caller \<notin> set (mf_allowed_callers m)
          then (blocked\<lparr>to_summary := VStr (''Caller '' @ quoted caller @ '' not allowed for '' @ tool)\<rparr>, [])
          else execute w call)"

subsection \<open>What passes the gate\<close>

text \<open>The conditions, without the order in which they are tested.\<close>

definition policy_open :: "tool_world \<Rightarrow> tool_spec \<Rightarrow> pydict \<Rightarrow> bool" where
  "policy_open w spec args =
     (let manifest = tw_get_manifest w (tl_tool_id spec) in
      tl_tool_id spec \<noteq> [] \<and> tl_enabled spec \<and> \<not> is_tool_forbidden (tl_tool_id spec) \<and>
      (tl_category spec = [] \<or> tl_category spec \<in> set allowed_categories) \<and>
      effective_timeout manifest spec \<le> max_timeout manifest (effective_risk manifest spec args))"

definition caller_open :: "tool_world \<Rightarrow> invocation \<Rightarrow> bool" where
  "caller_open w call =
     (case tw_get_manifest w (iv_tool_id call) of
        None \<Rightarrow> False
      | Some m \<Rightarrow> iv_requested_by call \<noteq> [] \<and> iv_requested_by call \<in> set (mf_allowed_callers m))"

definition arguments_open :: "tool_spec \<Rightarrow> pydict \<Rightarrow> bool" where
  "arguments_open spec d =
     ((tl_input_schema spec = [] \<or> admissible (tl_input_schema spec) d) \<and>
      missing_action_arguments (tl_tool_id spec) (canonicalize_tool_arguments d (tl_input_schema spec)) (tl_metadata spec) [] = [])"

definition gate_open :: "tool_world \<Rightarrow> invocation \<Rightarrow> pydict \<Rightarrow> tool_spec \<Rightarrow> bool" where
  "gate_open w call d spec =
     (iv_tool_id call \<noteq> [] \<and> caller_open w call \<and> tw_get_tool w (iv_tool_id call) = Some spec \<and> arguments_open spec d \<and>
      policy_open w spec (canonicalize_tool_arguments d (tl_input_schema spec)) \<and> \<not> iv_dry_run call)"

definition canonical_call :: "invocation \<Rightarrow> pydict \<Rightarrow> tool_spec \<Rightarrow> invocation" where
  "canonical_call call d spec = call\<lparr>iv_arguments := VDict (canonicalize_tool_arguments d (tl_input_schema spec))\<rparr>"

lemma canonical_call_simps [simp]: "iv_tool_id (canonical_call call d spec) = iv_tool_id call"
  "iv_invocation_id (canonical_call call d spec) = iv_invocation_id call"
  by (simp_all add: canonical_call_def)

lemma policy_check_allows:
  "pd_allowed (policy_check w spec args dry) \<longleftrightarrow> policy_open w spec args \<and> (dry \<longrightarrow> tl_dry_run_supported spec)"
  by (auto simp: policy_check_def policy_open_def Let_def)

lemma validate_arguments_dict: "\<exists>d'. snd (validate_arguments (VDict d) s) = VDict d'"
  by (simp add: validate_arguments_def)

lemma argument_errors_dict:
  assumes "distinct (map fst d)"
  shows "snd (argument_errors spec (VDict d)) = VDict (canonicalize_tool_arguments d (tl_input_schema spec))"
    and "fst (argument_errors spec (VDict d)) = [] \<longleftrightarrow> arguments_open spec d"
proof -
  obtain d' where d': "snd (validate_arguments (VDict d) (tl_input_schema spec)) = VDict d'"
    using validate_arguments_dict by blast
  then show "snd (argument_errors spec (VDict d)) = VDict (canonicalize_tool_arguments d (tl_input_schema spec))"
    by (simp add: argument_errors_def canonicalize_tool_arguments_def case_prod_unfold Let_def)
  from d' show "fst (argument_errors spec (VDict d)) = [] \<longleftrightarrow> arguments_open spec d"
    by (simp add: argument_errors_def canonicalize_tool_arguments_def arguments_open_def case_prod_unfold Let_def
        admitted_arguments [OF assms])
qed

lemma execute_cases:
  assumes "iv_arguments call = VDict d" "distinct (map fst d)"
  shows "tw_get_tool w (iv_tool_id call) = Some spec \<Longrightarrow> iv_tool_id call \<noteq> [] \<Longrightarrow> arguments_open spec d \<Longrightarrow>
      c = canonicalize_tool_arguments d (tl_input_schema spec) \<Longrightarrow> policy_open w spec c \<Longrightarrow> \<not> iv_dry_run call \<Longrightarrow>
      execute w call = run_handler w (call\<lparr>iv_arguments := VDict c\<rparr>) (policy_check w spec c False)"
    and "iv_tool_id call = [] \<or> (\<forall>spec. tw_get_tool w (iv_tool_id call) = Some spec \<longrightarrow> \<not> arguments_open spec d \<or>
      \<not> policy_open w spec (canonicalize_tool_arguments d (tl_input_schema spec)) \<or> iv_dry_run call) \<Longrightarrow>
      snd (execute w call) = [] \<and> to_status (fst (execute w call)) \<noteq> Succeeded"
  using assms
  by (auto simp: execute_def Let_def case_prod_unfold argument_errors_dict policy_check_allows blank_outcome_def
      failed_result_def argument_block_def split: option.split)

lemma handler_status: "to_status (handler_outcome w call dec raw) = (if fst (resolve_tool_outcome raw) then Succeeded else Failed)"
  by (simp add: handler_outcome_def Let_def case_prod_unfold blank_outcome_def)

lemma resolve_success: "fst (resolve_tool_outcome raw) \<longleftrightarrow> (\<exists>r. raw = VDict r \<and> vget r ''ok'' = VBool True)"
  by (cases raw) (auto simp: resolve_tool_outcome_def)

lemma invoke_open:
  assumes "iv_arguments call = VDict d" "distinct (map fst d)" "gate_open w call d spec"
  shows "invoke w call = run_handler w (canonical_call call d spec)
    (policy_check w spec (canonicalize_tool_arguments d (tl_input_schema spec)) False)"
  using assms(3) execute_cases(1) [OF assms(1,2)]
  by (auto simp: gate_open_def canonical_call_def invoke_def caller_open_def Let_def split: option.splits)

lemma invoke_closed:
  assumes "iv_arguments call = VDict d" "distinct (map fst d)" "\<forall>spec. \<not> gate_open w call d spec"
  shows "snd (invoke w call) = [] \<and> to_status (fst (invoke w call)) \<noteq> Succeeded"
proof (cases "caller_open w call")
  case True
  then have "invoke w call = execute w call" by (auto simp: invoke_def caller_open_def Let_def split: option.splits)
  then show ?thesis using assms(3) True execute_cases(2) [OF assms(1,2), of w] by (auto simp: gate_open_def)
next
  case False
  then show ?thesis by (auto simp: invoke_def caller_open_def blank_outcome_def Let_def split: option.splits)
qed

subsection \<open>Properties\<close>

text \<open>C2: a handler runs exactly when every gate is open, once, and on the canonical arguments: the tool has a manifest that
  admits the caller, it is registered and allowed by the policy, the schema and the action admit the arguments, and the call is
  no dry run. The result says success exactly when the handler ran and returned an object whose \<open>ok\<close> is true.\<close>

theorem handler_runs_exactly_when_admitted:
  assumes "iv_arguments call = VDict d" "distinct (map fst d)"
  shows "(\<forall>spec h. gate_open w call d spec \<longrightarrow> tw_get_handler w (iv_tool_id call) = Some h \<longrightarrow>
            snd (invoke w call) = [canonical_call call d spec] \<and>
            (to_status (fst (invoke w call)) = Succeeded \<longleftrightarrow>
               (\<exists>r. h (canonical_call call d spec) = Inr (VDict r) \<and> vget r ''ok'' = VBool True))) \<and>
         ((\<forall>spec. \<not> gate_open w call d spec) \<or> tw_get_handler w (iv_tool_id call) = None \<longrightarrow>
            snd (invoke w call) = [] \<and> to_status (fst (invoke w call)) \<noteq> Succeeded)"
proof -
  have run: "invoke w call = run_handler w (canonical_call call d spec)
      (policy_check w spec (canonicalize_tool_arguments d (tl_input_schema spec)) False)" if "gate_open w call d spec" for spec
    by (rule invoke_open [OF assms that])
  show ?thesis
  proof (intro conjI allI impI)
    fix spec h assume "gate_open w call d spec" "tw_get_handler w (iv_tool_id call) = Some h"
    with run [of spec] show "snd (invoke w call) = [canonical_call call d spec]"
      and "to_status (fst (invoke w call)) = Succeeded \<longleftrightarrow>
        (\<exists>r. h (canonical_call call d spec) = Inr (VDict r) \<and> vget r ''ok'' = VBool True)"
      by (simp_all add: run_handler_def failed_result_def blank_outcome_def Let_def handler_status resolve_success
          split: sum.split)
  next
    assume a: "(\<forall>spec. \<not> gate_open w call d spec) \<or> tw_get_handler w (iv_tool_id call) = None"
    have "snd (invoke w call) = [] \<and> to_status (fst (invoke w call)) \<noteq> Succeeded"
    proof (cases "\<exists>spec. gate_open w call d spec")
      case True
      then obtain spec where "gate_open w call d spec" by blast
      with run [OF this] a show ?thesis by (auto simp: run_handler_def failed_result_def blank_outcome_def Let_def)
    qed (use invoke_closed [OF assms] in blast)
    then show "snd (invoke w call) = []" "to_status (fst (invoke w call)) \<noteq> Succeeded" by simp_all
  qed
qed

text \<open>A tool whose handler answers, in a world that admits it.\<close>

definition echo_spec :: tool_spec where
  "echo_spec = \<lparr>tl_tool_id = ''text.echo'', tl_enabled = True, tl_risk_level = ''low'', tl_category = ''text'',
     tl_input_schema = [(''properties'', VDict [(''note'', VDict [(''type'', VStr ''string''), (''default'', VStr ''hi'')])]),
                        (''additionalProperties'', VBool False)],
     tl_timeout_seconds = 30, tl_dry_run_supported = False, tl_metadata = []\<rparr>"

definition echo_world :: tool_world where
  "echo_world = \<lparr>tw_get_tool = \<lambda>t. if t = ''text.echo'' then Some echo_spec else None,
     tw_get_handler = \<lambda>_. Some (\<lambda>call. Inr (VDict [(''ok'', VBool True), (''token'', VStr ''abc''), (''echo'', iv_arguments call)])),
     tw_get_manifest = \<lambda>_. Some \<lparr>mf_risk_level = ''low'', mf_timeout_seconds = 30, mf_allowed_callers = [''turn_runner'']\<rparr>,
     tw_clean = \<lambda>_ s. s, tw_container = \<lambda>_ _. False\<rparr>"

definition echo_call :: "string \<Rightarrow> pydict \<Rightarrow> invocation" where
  "echo_call caller args = \<lparr>iv_invocation_id = ''i1'', iv_tool_id = ''text.echo'', iv_arguments = VDict args, iv_dry_run = False,
     iv_requested_by = caller\<rparr>"

lemma echo_gate:
  "gate_open echo_world (echo_call ''turn_runner'' []) [] echo_spec" "\<not> gate_open echo_world (echo_call ''nobody'' []) [] spec"
  "canonicalize_tool_arguments [] (tl_input_schema echo_spec) = [(''note'', VStr ''hi'')]"
proof -
  show canonical: "canonicalize_tool_arguments [] (tl_input_schema echo_spec) = [(''note'', VStr ''hi'')]" by code_simp
  have "caller_open echo_world (echo_call ''turn_runner'' [])" "\<not> caller_open echo_world (echo_call ''nobody'' [])"
    by (simp_all add: caller_open_def echo_world_def echo_call_def)
  moreover have "admissible (tl_input_schema echo_spec) []" "missing_action_arguments ''text.echo'' [(''note'', VStr ''hi'')] [] [] = []"
    by code_simp+
  moreover have "policy_open echo_world echo_spec [(''note'', VStr ''hi'')]" by code_simp
  ultimately show "gate_open echo_world (echo_call ''turn_runner'' []) [] echo_spec"
    "\<not> gate_open echo_world (echo_call ''nobody'' []) [] spec"
    using canonical
    by (simp_all add: gate_open_def arguments_open_def)
      (simp_all add: echo_world_def echo_call_def echo_spec_def)
qed

theorem handler_runs_exactly_when_admitted_witness:
  "snd (invoke echo_world (echo_call ''turn_runner'' [])) = [echo_call ''turn_runner'' [(''note'', VStr ''hi'')]] \<and>
   to_status (fst (invoke echo_world (echo_call ''turn_runner'' []))) = Succeeded \<and>
   snd (invoke echo_world (echo_call ''nobody'' [])) = []"
proof -
  have canonical: "canonical_call (echo_call c []) [] echo_spec = echo_call c [(''note'', VStr ''hi'')]" for c
    by (simp add: canonical_call_def echo_gate(3) echo_call_def)
  have args: "iv_arguments (echo_call c []) = VDict []" "distinct (map fst ([] :: pydict))" for c by (simp_all add: echo_call_def)
  show ?thesis
    using handler_runs_exactly_when_admitted [OF args, of echo_world "''turn_runner''"]
      handler_runs_exactly_when_admitted [OF args, of echo_world "''nobody''"] echo_gate(1,2)
    by (simp add: canonical echo_world_def vget_def vget_or_def)
qed

text \<open>Whatever a handler returns, the result of the call holds no more of it than the redaction leaves: under a sensitive
  key only the mark, and every text cleaned, at every depth.\<close>

theorem handler_output_masked:
  assumes "snd (invoke w call) \<noteq> []"
  shows "\<exists>container. masked (tw_clean w container) (VDict (to_output (fst (invoke w call))))"
proof -
  have outcome: "\<exists>container. masked (tw_clean w container) (VDict (to_output (handler_outcome w c dec raw)))" for c dec raw
  proof -
    let ?b = "tw_container w (iv_tool_id c) (str_of_or (vget (dict_of (iv_arguments c)) ''action'') [])"
    let ?p = "VDict (outcome_payload (fst (snd (resolve_tool_outcome raw))) (snd (snd (resolve_tool_outcome raw))))"
    have "VDict (dict_of (redact_tool_output (tw_clean w ?b) ?p)) = redact_tool_output (tw_clean w ?b) ?p" by simp
    then have "VDict (to_output (handler_outcome w c dec raw)) = redact_tool_output (tw_clean w ?b) ?p"
      by (simp add: handler_outcome_def Let_def case_prod_unfold blank_outcome_def)
    then show ?thesis using redact_masked by metis
  qed
  from assms have "invoke w call = execute w call" by (auto simp: invoke_def Let_def split: option.splits if_splits)
  with assms obtain c dec where "invoke w call = run_handler w c dec" "snd (run_handler w c dec) \<noteq> []"
    by (auto simp: execute_def Let_def case_prod_unfold split: option.splits if_splits)
  then show ?thesis
    using outcome
    by (auto simp: run_handler_def failed_result_def blank_outcome_def Let_def intro: masked_dict split: option.splits sum.splits)
qed

theorem handler_output_masked_witness:
  "\<exists>container. masked (tw_clean echo_world container) (VDict (to_output (fst (invoke echo_world (echo_call ''turn_runner'' [])))))"
proof -
  have "iv_arguments (echo_call ''turn_runner'' []) = VDict []" "distinct (map fst ([] :: pydict))" by (simp_all add: echo_call_def)
  from invoke_open [OF this echo_gate(1)] have "snd (invoke echo_world (echo_call ''turn_runner'' [])) \<noteq> []"
    by (simp add: run_handler_def echo_world_def)
  then show ?thesis by (rule handler_output_masked)
qed

end
