(* ===== verification/Retry_Policy.thy ===== *)
theory Retry_Policy
  imports Py_Value
begin

section \<open>Whether a failed tool call may run again\<close>

text \<open>
  \<^verbatim>\<open>core/runtime_engine/tool_retry_policy.py\<close> (the decision), \<^verbatim>\<open>contracts.py\<close> (the contract the
  decision reads, and which calls are reads) and \<^verbatim>\<open>loop_retry.py\<close> (the loop that asks, waits, runs the call
  again and keeps one event per failure). The catalogue of action contracts is data the model takes as a
  \<open>catalogue\<close>; what the budget says and what the tool returns at each attempt is the \<open>retry_world\<close>. Latencies
  are whole numbers of milliseconds.
\<close>

subsection \<open>Scrubbing credentials from an error text\<close>

definition allowed_retry_errors :: "string list" where
  "allowed_retry_errors =
     [''TOOL_TIMEOUT'', ''TOOL_EXCEPTION'', ''TEMPORARY_NETWORK_ERROR'', ''CONNECTION_RESET'', ''RATE_LIMITED'',
      ''PROVIDER_TIMEOUT'', ''READ_ONLY_TOOL_FAILED'', ''HTTP_429'', ''HTTP_500'', ''HTTP_502'', ''HTTP_503'',
      ''HTTP_504'']"

definition forbidden_retry_errors :: "string list" where
  "forbidden_retry_errors =
     [''TOOL_TIMEOUT_UNCERTAIN'', ''FORBIDDEN_COMMAND'', ''POLICY_BLOCKED'', ''CRITICAL_RISK'', ''PATH_TRAVERSAL'',
      ''SYSTEM_DIRECTORY_WRITE'', ''CREDENTIAL_ACCESS'', ''FORBIDDEN_ARG'', ''FORBIDDEN_OPERATION'',
      ''DANGEROUS_OPERATION'', ''BUDGET_EXCEEDED'', ''TOOL_NOT_ALLOWED'', ''CALLER_NOT_ALLOWED'', ''ARGS_INVALID'',
      ''ARGS_MISSING'', ''ARGS_TYPE_MISMATCH'', ''TOOL_ARGUMENT_VALIDATION_FAILED'', ''ARG_ENUM_INVALID'',
      ''ARG_TYPE_MISMATCH'', ''ARG_RANGE_INVALID'', ''ARG_LENGTH_INVALID'', ''MISSING_REQUIRED_ARG'',
      ''UNKNOWN_ARGUMENT'']"

definition retryable_side_effects :: "string list" where
  "retryable_side_effects = [''read'', ''none'', []]"

text \<open>
  A pattern is a function of the character before the position and the text from it on, to the replacement and
  the text after the match; \<open>sub_all\<close> is \<open>re.sub\<close>, a scan from the left that continues after each match. The
  patterns have no choice that backtracks: a run of blanks, stars or token characters is taken whole.
\<close>

type_synonym pattern = "char option \<Rightarrow> string \<Rightarrow> (string \<times> string) option"

fun sub_fuel :: "nat \<Rightarrow> pattern \<Rightarrow> char option \<Rightarrow> string \<Rightarrow> string" where
  "sub_fuel 0 m prev s = s"
| "sub_fuel (Suc n) m prev [] = []"
| "sub_fuel (Suc n) m prev (c # cs) =
     (case m prev (c # cs) of
        None \<Rightarrow> c # sub_fuel n m (Some c) cs
      | Some (r, rest) \<Rightarrow>
          r @ sub_fuel n m (Some (last (take (length (c # cs) - length rest) (c # cs)))) rest)"

definition sub_all :: "pattern \<Rightarrow> string \<Rightarrow> string" where
  "sub_all m s = sub_fuel (length s) m None s"

definition is_word_char :: "char \<Rightarrow> bool" where
  "is_word_char c = (is_alpha c \<or> is_digit c \<or> c = CHR ''_'')"

definition boundary_before :: "char option \<Rightarrow> bool" where
  "boundary_before prev = (case prev of None \<Rightarrow> True | Some c \<Rightarrow> \<not> is_word_char c)"

definition strip_prefix_ci :: "string \<Rightarrow> string \<Rightarrow> string option" where
  "strip_prefix_ci p s = (if lower (take (length p) s) = p then Some (drop (length p) s) else None)"

definition skip_space :: "string \<Rightarrow> string" where "skip_space s = dropWhile py_space s"

definition redacted :: string where "redacted = ''***REDACTED***''"

text \<open>The spellings of the credential names, in the order of the pattern; \<open>[_-]?\<close> prefers the character.\<close>

definition credential_names :: "string list" where
  "credential_names =
     [''api_key'', ''api-key'', ''apikey'', ''secret'', ''password'', ''passwd'', ''token'', ''bearer'',
      ''authorization'', ''access_key'', ''access-key'', ''accesskey'', ''private_key'', ''private-key'',
      ''privatekey'', ''credential'']"

definition is_quote :: "char \<Rightarrow> bool" where
  "is_quote c = (c = CHR 0x22 \<or> c = CHR 0x27)"

definition value_char :: "char \<Rightarrow> bool" where
  "value_char c = (\<not> py_space c \<and> \<not> is_quote c \<and> c \<noteq> CHR '','' \<and> c \<noteq> CHR '';'' \<and> c \<noteq> CHR ''}'')"

definition drop_quote :: "string \<Rightarrow> string" where
  "drop_quote s = (if s \<noteq> [] \<and> is_quote (hd s) then tl s else s)"

definition cred_value_at :: "string \<Rightarrow> string \<Rightarrow> (string \<times> string) option" where
  "cred_value_at name s =
     (case strip_prefix_ci name s of
        None \<Rightarrow> None
      | Some r \<Rightarrow>
          (let a = skip_space r in
           if a \<noteq> [] \<and> (hd a = CHR '':'' \<or> hd a = CHR ''='') then
             (let b = drop_quote (skip_space (tl a)); v = takeWhile value_char b in
              if v = [] then None
              else Some (take (length name) s @ ''='' @ redacted, drop_quote (drop (length v) b)))
           else None))"

definition cred_value_pattern :: pattern where
  "cred_value_pattern prev s =
     (if boundary_before prev then first_some (\<lambda>name. cred_value_at name s) credential_names else None)"

definition token_char :: "char \<Rightarrow> bool" where
  "token_char c = (is_alpha c \<or> is_digit c \<or> c = CHR ''.'' \<or> c = CHR ''_'' \<or> c = CHR ''-'')"

definition long_token :: "nat \<Rightarrow> string \<Rightarrow> string option" where
  "long_token n s =
     (let t = takeWhile token_char s in
      if s \<noteq> [] \<and> (is_alpha (hd s) \<or> is_digit (hd s)) \<and> n < length t then Some (drop (length t) s) else None)"

text \<open>\<open>\*+\*REDACTED\*+\*\<close>: two or more stars on either side.\<close>

definition skip_redacted :: "string \<Rightarrow> string option" where
  "skip_redacted s =
     (let stars = length (takeWhile (\<lambda>c. c = CHR ''*'') s) in
      if 2 \<le> stars then
        (case strip_prefix_ci ''redacted'' (drop stars s) of
           None \<Rightarrow> None
         | Some r \<Rightarrow> (let more = length (takeWhile (\<lambda>c. c = CHR ''*'') r) in
             if 2 \<le> more then Some (drop more r) else None))
      else None)"

definition bearer_head :: "string \<Rightarrow> string option" where
  "bearer_head s =
     (case strip_prefix_ci ''authorization'' s of
        Some r \<Rightarrow> (let a = skip_space r in
          if a \<noteq> [] \<and> (hd a = CHR '':'' \<or> hd a = CHR ''='') then skip_redacted (skip_space (tl a)) else None)
      | None \<Rightarrow>
          (case strip_prefix_ci ''bearer'' s of
             Some r \<Rightarrow> (let a = skip_space r in if a \<noteq> [] \<and> hd a = CHR ''='' then skip_redacted (tl a) else None)
           | None \<Rightarrow> None))"

definition cred_bearer_pattern :: pattern where
  "cred_bearer_pattern prev s =
     (case bearer_head s of
        None \<Rightarrow> None
      | Some r \<Rightarrow>
          if r \<noteq> [] \<and> py_space (hd r) then map_option (Pair redacted) (long_token 10 (skip_space r)) else None)"

definition exactly_class :: "nat \<Rightarrow> (char \<Rightarrow> bool) \<Rightarrow> string \<Rightarrow> string option" where
  "exactly_class n p s = (if n \<le> length s \<and> list_all p (take n s) then Some (drop n s) else None)"

definition at_least_class :: "nat \<Rightarrow> (char \<Rightarrow> bool) \<Rightarrow> string \<Rightarrow> string option" where
  "at_least_class n p s = (let t = takeWhile p s in if n \<le> length t then Some (drop (length t) s) else None)"

definition alnum :: "char \<Rightarrow> bool" where "alnum c = (is_alpha c \<or> is_digit c)"

definition hex_char :: "char \<Rightarrow> bool" where
  "hex_char c = (is_digit c \<or> (let d = lower_char c in CHR ''a'' \<le> d \<and> d \<le> CHR ''f''))"

definition orphan_body :: "string \<Rightarrow> string option" where
  "orphan_body s = first_some (\<lambda>f. f s)
     [\<lambda>s. Option.bind (strip_prefix_ci ''akia'' s) (exactly_class 16 alnum),
      \<lambda>s. Option.bind (strip_prefix_ci ''sk-'' s) (exactly_class 36 hex_char),
      \<lambda>s. Option.bind (strip_prefix_ci ''ghp_'' s) (exactly_class 36 alnum),
      \<lambda>s. Option.bind (strip_prefix_ci ''xox'' s) (\<lambda>r.
        if r \<noteq> [] \<and> lower_char (hd r) \<in> set ''bpsa'' \<and> drop 1 r \<noteq> [] \<and> r ! 1 = CHR ''-''
        then at_least_class 1 (\<lambda>c. alnum c \<or> c = CHR ''-'') (drop 2 r) else None),
      \<lambda>s. Option.bind (strip_prefix_ci ''eyj'' s)
        (at_least_class 20 (\<lambda>c. alnum c \<or> c = CHR ''_'' \<or> c = CHR ''%'' \<or> c = CHR ''-''))]"

definition cred_orphan_pattern :: pattern where
  "cred_orphan_pattern prev s =
     map_option (Pair redacted)
       (case (if prev = None then orphan_body s else None) of
          Some r \<Rightarrow> Some r
        | None \<Rightarrow>
            (if s \<noteq> [] \<and> (py_space (hd s) \<or> hd s = CHR '':'' \<or> is_quote (hd s) \<or> hd s = CHR ''='')
             then orphan_body (tl s) else None))"

definition naked_bearer_pattern :: pattern where
  "naked_bearer_pattern prev s =
     (case strip_prefix_ci ''bearer'' s of
        None \<Rightarrow> None
      | Some r \<Rightarrow>
          if r \<noteq> [] \<and> py_space (hd r)
          then map_option (Pair (take 6 s @ '' '' @ redacted)) (long_token 8 (skip_space r)) else None)"

definition redact_sensitive_text :: "string \<Rightarrow> string" where
  "redact_sensitive_text text =
     (if text = [] then text
      else sub_all naked_bearer_pattern (sub_all cred_orphan_pattern
             (sub_all cred_bearer_pattern (sub_all cred_value_pattern text))))"

subsection \<open>Tool contracts\<close>

text \<open>The fields of \<open>ToolContract\<close> that scheduling and retries read; the schemas and texts are left out.\<close>

record tool_contract =
  ct_name :: string
  ct_side_effect :: string
  ct_risk_level :: string
  ct_idempotent :: bool
  ct_timeout_seconds :: int
  ct_max_retries :: int
  ct_concurrency_group :: "string option"
  ct_rollback_supported :: bool
  ct_always_read_only :: bool
  ct_read_only_actions :: "string list"

definition builtin_contract ::
  "string \<Rightarrow> string \<Rightarrow> string \<Rightarrow> bool \<Rightarrow> int \<Rightarrow> int \<Rightarrow> string option \<Rightarrow> bool \<Rightarrow> string \<times> tool_contract" where
  "builtin_contract n effect risk idem tmo retries grp rollback =
     (n, \<lparr>ct_name = n, ct_side_effect = effect, ct_risk_level = risk, ct_idempotent = idem,
          ct_timeout_seconds = tmo, ct_max_retries = retries, ct_concurrency_group = grp,
          ct_rollback_supported = rollback, ct_always_read_only = False, ct_read_only_actions = []\<rparr>)"

definition builtin_contracts :: "(string \<times> tool_contract) list" where
  "builtin_contracts =
     [builtin_contract ''exec.run'' ''execute_command'' ''medium'' False 120 0 (Some ''shell'') False,
      builtin_contract ''browser.manage'' ''external_request'' ''medium'' False 90 0 (Some ''browser'') False,
      builtin_contract ''web.manage'' ''external_request'' ''low'' True 25 1 (Some ''external_http'') False,
      builtin_contract ''location.manage'' ''external_request'' ''low'' True 20 1 (Some ''external_http'') False,
      builtin_contract ''data.manage'' ''read'' ''low'' True 30 1 None False,
      builtin_contract ''report.manage'' ''write_file'' ''low'' True 60 0 None False,
      builtin_contract ''knowledge.manage'' ''read'' ''low'' True 300 1 None False,
      builtin_contract ''memory.manage'' ''mutate_local'' ''low'' False 30 0 None True,
      builtin_contract ''skill.manage'' ''read'' ''low'' True 10 1 None False,
      builtin_contract ''agent.review'' ''mutate_local'' ''medium'' False 30 0 None False,
      builtin_contract ''agent.manage'' ''read'' ''low'' True 120 0 (Some ''subagent'') False,
      builtin_contract ''system.manage'' ''read'' ''low'' True 300 1 None False,
      builtin_contract ''text.analyze'' ''read'' ''low'' True 30 1 None False,
      builtin_contract ''workspace.file'' ''write_file'' ''medium'' False 30 0 (Some ''filesystem'') True,
      builtin_contract ''workspace.artifact'' ''mutate_local'' ''low'' False 30 0 None True,
      builtin_contract ''workspace.filestore'' ''read'' ''low'' True 20 1 None False,
      builtin_contract ''workspace.metadata.get'' ''read'' ''low'' True 10 1 None False,
      builtin_contract ''workspace.document.pdf.extract_text'' ''read'' ''low'' True 60 1 None False]"

definition always_read_only_tools :: "string list" where
  "always_read_only_tools =
     [''web.manage'', ''location.manage'', ''data.manage'', ''text.analyze'', ''workspace.metadata.get'',
      ''workspace.document.pdf.extract_text'']"

text \<open>
  What the contract functions look up elsewhere: the contracts the extensions register, the table of action
  contracts (\<open>action_execution_contract\<close>), the declared contract an argument list selects
  (\<open>declared_action_contract\<close>, from a contract or from a registry entry), and the test that a device
  command only observes (\<open>is_raw_observation\<close>). A declared contract is an empty dictionary when there is none.
\<close>

record catalogue =
  cat_extensions :: "(string \<times> tool_contract) list"
  cat_action_contract :: "string \<Rightarrow> string \<Rightarrow> pydict"
  cat_declared :: "string \<Rightarrow> pydict \<Rightarrow> pydict"
  cat_entry_declared :: "pydict \<Rightarrow> pydict \<Rightarrow> pydict"
  cat_raw_observation :: "pyval \<Rightarrow> bool"
  cat_read_only_actions :: "string \<Rightarrow> string list"

definition get_contract :: "catalogue \<Rightarrow> string \<Rightarrow> tool_contract option" where
  "get_contract cat tool =
     (let normalized = dunder_to_dot tool in
      case map_of builtin_contracts normalized of
        Some c \<Rightarrow> Some c
      | None \<Rightarrow> map_of (cat_extensions cat) normalized)"

text \<open>\<open>x.get(key) is True\<close>\<close>

definition is_true :: "pyval \<Rightarrow> bool" where
  "is_true v = (v = VBool True)"

definition action_arg :: "pydict \<Rightarrow> string" where
  "action_arg args = strip (lower (str_of_or (vget args ''action'') []))"

definition unsafe_device_commands :: "catalogue \<Rightarrow> string \<Rightarrow> pydict \<Rightarrow> bool" where
  "unsafe_device_commands cat tool args =
     (tool = ''network.operations.device.manage'' \<and> action_arg args \<in> {''read'', ''configure''} \<and>
      list_of (vget args ''commands'') \<noteq> [] \<and>
      \<not> list_all (cat_raw_observation cat) (list_of (vget args ''commands'')))"

definition profile_reads :: "string \<Rightarrow> pydict \<Rightarrow> bool" where
  "profile_reads action profile =
     (lower (str_of_or (vget profile ''action'') []) = action \<and>
      (is_true (vget profile ''read_only'') \<or> lower (str_of_or (vget profile ''permission_action'') []) = ''read''))"

definition is_read_only_call :: "catalogue \<Rightarrow> string \<Rightarrow> pydict \<Rightarrow> pydict \<Rightarrow> bool" where
  "is_read_only_call cat tool args entry =
     (let normalized = dunder_to_dot tool; contract = get_contract cat normalized; action = action_arg args in
      if (case contract of Some c \<Rightarrow> ct_always_read_only c | None \<Rightarrow> False) then True
      else if normalized \<in> set always_read_only_tools then True
      else if unsafe_device_commands cat normalized args then False
      else (let ac = cat_action_contract cat normalized action in
        if ac \<noteq> [] then is_true (vget ac ''read_only'')
        else (let dc = (if contract = None then [] else cat_declared cat normalized args) in
          if dc \<noteq> [] then is_true (vget dc ''read_only'')
          else if (case contract of Some c \<Rightarrow> action \<in> set (ct_read_only_actions c) | None \<Rightarrow> False) then True
          else if list_ex (\<lambda>p. profile_reads action (dict_of p)) (list_of (vget entry ''action_profiles'')) then True
          else (let ec = (if is_vdict (vor (vget (dict_of (vget entry ''metadata'')) ''action_execution_contracts'') (VDict []))
                          then cat_entry_declared cat entry args else []) in
            if ec \<noteq> [] then is_true (vget ec ''read_only'')
            else action \<in> set (cat_read_only_actions cat normalized)))))"

definition get_retry_contract :: "catalogue \<Rightarrow> string \<Rightarrow> pydict \<Rightarrow> tool_contract option" where
  "get_retry_contract cat tool args =
     (case get_contract cat tool of
        None \<Rightarrow> None
      | Some c \<Rightarrow>
          Some (if is_read_only_call cat tool args []
                then c\<lparr>ct_side_effect := ''read'', ct_idempotent := True, ct_max_retries := max 1 (ct_max_retries c)\<rparr>
                else c\<lparr>ct_side_effect := (if ct_side_effect c \<notin> {''read'', ''none'', []} then ct_side_effect c
                                         else ''mutate_local''),
                       ct_idempotent := False, ct_max_retries := 0\<rparr>))"

subsection \<open>The decision\<close>

record retry_decision =
  retry_allowed :: bool
  rd_reason :: string
  rd_retry_count :: int
  rd_max_retries :: int
  backoff_ms :: int
  rd_error_code :: string
  rd_idempotent :: bool
  rd_side_effect :: string
  blocked_by_policy :: bool
  rd_original_error :: string

definition decision_dict :: "retry_decision \<Rightarrow> pydict" where
  "decision_dict d =
     [(''retry_allowed'', VBool (retry_allowed d)), (''reason'', VStr (rd_reason d)),
      (''retry_count'', VInt (rd_retry_count d)), (''max_retries'', VInt (rd_max_retries d)),
      (''backoff_ms'', VInt (backoff_ms d)), (''error_code'', VStr (rd_error_code d)),
      (''idempotent'', VBool (rd_idempotent d)), (''side_effect'', VStr (rd_side_effect d)),
      (''blocked_by_policy'', VBool (blocked_by_policy d)), (''original_error'', VStr (rd_original_error d))]"

definition normalize_error_code :: "string \<Rightarrow> string" where
  "normalize_error_code code = upper (strip code)"

definition backoff_for_attempt :: "int \<Rightarrow> int" where
  "backoff_for_attempt attempt = (if attempt \<le> 0 then 200 else if attempt = 1 then 500 else 1000)"

definition effective_max_retries :: "tool_contract option \<Rightarrow> int \<Rightarrow> int" where
  "effective_max_retries contract global_max =
     (case contract of None \<Rightarrow> 0 | Some c \<Rightarrow> min (max 0 (ct_max_retries c)) (max 0 global_max))"

definition should_retry_tool_failure ::
  "int \<Rightarrow> tool_contract option \<Rightarrow> string \<Rightarrow> string \<Rightarrow> int \<Rightarrow> int option \<Rightarrow> bool \<Rightarrow> retry_decision" where
  "should_retry_tool_failure attempted contract error_code error_message config_max global_max budget_ok =
     (let global_max = (case global_max of None \<Rightarrow> config_max | Some g \<Rightarrow> g);
          code = normalize_error_code error_code;
          refuse = \<lparr>retry_allowed = False, rd_reason = [], rd_retry_count = 0, rd_max_retries = 0, backoff_ms = 0,
            rd_error_code = code, rd_idempotent = False, rd_side_effect = ''unknown'', blocked_by_policy = True,
            rd_original_error = redact_sensitive_text (take 200 error_message)\<rparr> in
      if \<not> budget_ok then refuse\<lparr>rd_reason := ''budget_exceeded''\<rparr>
      else case contract of
        None \<Rightarrow> refuse\<lparr>rd_reason := ''no_tool_contract''\<rparr>
      | Some c \<Rightarrow>
          (let effect = str_or (ct_side_effect c) ''unknown''; limit = effective_max_retries contract global_max;
               refuse = refuse\<lparr>rd_max_retries := limit, rd_idempotent := ct_idempotent c, rd_side_effect := effect\<rparr> in
           if code \<in> set forbidden_retry_errors then refuse\<lparr>rd_reason := ''forbidden_error:'' @ code\<rparr>
           else if \<not> ct_idempotent c then refuse\<lparr>rd_reason := ''non_idempotent''\<rparr>
           else if effect \<notin> set retryable_side_effects
           then refuse\<lparr>rd_reason := (if effect = ''execute_command'' then ''execute_command_not_retryable''
                                    else ''side_effect_not_retryable:'' @ effect)\<rparr>
           else if code \<noteq> [] \<and> code \<notin> set allowed_retry_errors
           then refuse\<lparr>rd_reason := ''error_code_not_retryable:'' @ code\<rparr>
           else if attempted \<ge> limit
           then refuse\<lparr>rd_reason := ''max_retries_exhausted'', rd_retry_count := attempted,
                       blocked_by_policy := False\<rparr>
           else if limit \<le> 0 then refuse\<lparr>rd_reason := ''zero_max_retries'', rd_retry_count := attempted\<rparr>
           else refuse\<lparr>retry_allowed := True, rd_reason := ''transient_failure_on_idempotent_read_tool'',
                       rd_retry_count := attempted, backoff_ms := backoff_for_attempt attempted,
                       blocked_by_policy := False\<rparr>))"

subsection \<open>The retry loop of one call\<close>

record tool_result =
  tr_success :: bool
  tr_data :: pyval
  tr_error :: string
  tr_error_code :: string
  tr_error_code_norm :: string
  tr_latency_ms :: int
  tr_retry_count :: int
  tr_metadata :: pydict

record execution_node =
  node_id :: string
  node_tool :: string
  node_args :: pydict
  node_retry_count :: int

text \<open>\<open>ctx.extras\<close>: the events and the summary of the run; an empty summary is an absent one.\<close>

record retry_log =
  retry_events :: "pydict list"
  retry_summary :: pydict

definition normalize_read_timeout ::
  "catalogue \<Rightarrow> (string \<Rightarrow> pydict) \<Rightarrow> execution_node \<Rightarrow> tool_result \<Rightarrow> tool_result" where
  "normalize_read_timeout cat registry node r =
     (if tr_success r \<or> upper (tr_error_code r) \<noteq> ''TOOL_TIMEOUT_UNCERTAIN'' then r
      else if \<not> is_read_only_call cat (node_tool node) (node_args node) (registry (dunder_to_dot (node_tool node)))
      then r
      else (let may = truthy (vget_or (tr_metadata r) ''execution_may_continue'' (VBool True));
                md = AList.update ''read_only'' (VBool True) (tr_metadata r);
                md = AList.update ''read_execution_may_continue'' (VBool may) md;
                md = AList.update ''execution_may_continue'' (VBool False) md;
                md = AList.update ''timeout_normalized_for_retry'' (VBool True) md
            in r\<lparr>tr_metadata := md, tr_error_code := ''TOOL_TIMEOUT'', tr_error_code_norm := ''TOOL_TIMEOUT''\<rparr>))"

definition mentions :: "string \<Rightarrow> string list \<Rightarrow> bool" where
  "mentions text tokens = list_ex (contains_sub text) tokens"

definition retry_error_code :: "tool_result \<Rightarrow> string" where
  "retry_error_code r =
     (let code = upper (strip (tr_error_code r)); err = lower (tr_error r) in
      if code \<noteq> [] \<and> code \<noteq> ''TOOL_RETURNED_NOT_OK'' then code
      else if mentions err [''authentication'', ''permission denied'', ''password'', ''credential'']
      then ''CREDENTIAL_ACCESS''
      else if mentions err [''security check failed'', ''forbidden'', ''policy blocked'', ''not allowed'', ''blocked:'',
                            ''workspace_mismatch'']
      then ''POLICY_BLOCKED''
      else if mentions err [''timeout'', ''timed out''] then ''TOOL_TIMEOUT''
      else if contains_sub err ''rate'' \<and> contains_sub err ''limit'' then ''RATE_LIMITED''
      else if contains_sub err ''connection'' \<and> contains_sub err ''reset'' then ''CONNECTION_RESET''
      else (case List.find (\<lambda>st. contains_sub err (''http '' @ st) \<or> contains_sub err (''status '' @ st))
                   [''429'', ''500'', ''502'', ''503'', ''504''] of
              Some st \<Rightarrow> ''HTTP_'' @ st
            | None \<Rightarrow>
                if mentions err ['' is required'', ''invalid '', ''unknown action'', ''unsupported '', ''not found'',
                     ''no such '', ''does not exist'', ''_not_found'', ''not_found'', ''_required'', ''unsupported_'',
                     ''unknown_'', ''artifact_empty'', ''empty_document'']
                then ''ARGS_INVALID'' else ''TOOL_EXCEPTION''))"

definition has_safe_read_recovery :: "tool_result \<Rightarrow> bool" where
  "has_safe_read_recovery r =
     (let payload = dict_of (tr_data r); published = vget payload ''runtime_recoveries'';
          directives = (case published of VList ds \<Rightarrow> ds | _ \<Rightarrow> [vget payload ''runtime_recovery''])
      in list_ex (\<lambda>d. is_vdict d \<and>
           vget (dict_of d) ''kind'' \<in> {VStr ''safe_read_fallback'', VStr ''documentation_read_fallback''} \<and>
           is_vdict (vget (dict_of d) ''arguments'')) directives)"

definition fresh_summary :: pydict where
  "fresh_summary =
     [(''retry_attempts'', VInt 0), (''retried_nodes'', VList []), (''retry_succeeded'', VInt 0),
      (''retry_failed'', VInt 0), (''retry_blocked'', VInt 0)]"

text \<open>\<open>int(d.get(k, 0) or 0)\<close> on the counters, which hold integers\<close>

definition counter :: "string \<Rightarrow> pydict \<Rightarrow> int" where
  "counter k d = (case vget d k of VInt i \<Rightarrow> i | VBool b \<Rightarrow> (if b then 1 else 0) | _ \<Rightarrow> 0)"

definition bump :: "string \<Rightarrow> pydict \<Rightarrow> pydict" where
  "bump k d = AList.update k (VInt (counter k d + 1)) d"

text \<open>The index of the last event of the node.\<close>

fun last_event_of :: "string \<Rightarrow> pydict list \<Rightarrow> nat option" where
  "last_event_of nid [] = None"
| "last_event_of nid (e # es) =
     (case last_event_of nid es of
        Some i \<Rightarrow> Some (Suc i)
      | None \<Rightarrow> if vget e ''node_id'' = VStr nid then Some 0 else None)"

definition record_retry_decision :: "execution_node \<Rightarrow> retry_decision \<Rightarrow> retry_log \<Rightarrow> retry_log \<times> nat" where
  "record_retry_decision node d log =
     (let events = retry_events log;
          append = (let summary = (if retry_summary log = [] then fresh_summary else retry_summary log);
                        summary = (if retry_allowed d then summary else bump ''retry_blocked'' summary)
                    in (\<lparr>retry_events = events @ [merge_dict (decision_dict d)
                           [(''node_id'', VStr (node_id node)), (''tool_id'', VStr (node_tool node))]],
                         retry_summary = summary\<rparr>, length events)) in
      if rd_reason d = ''max_retries_exhausted'' then
        (case last_event_of (node_id node) events of
           Some i \<Rightarrow> (log\<lparr>retry_events := events[i := merge_dict (events ! i)
                        [(''exhausted'', VBool True), (''terminal_reason'', VStr (rd_reason d))]]\<rparr>, i)
         | None \<Rightarrow> append)
      else append)"

definition record_retry_result ::
  "execution_node \<Rightarrow> tool_result \<Rightarrow> nat \<Rightarrow> int \<Rightarrow> retry_log \<Rightarrow> retry_log" where
  "record_retry_result node r event_index duration log =
     (let summary = (if retry_summary log = [] then fresh_summary else retry_summary log);
          summary = bump ''retry_attempts'' summary;
          nodes = list_of (vget summary ''retried_nodes'');
          nodes = (if VStr (node_id node) \<in> set nodes then nodes else nodes @ [VStr (node_id node)]);
          summary = AList.update ''retried_nodes'' (VList nodes) summary;
          summary = (if tr_success r then bump ''retry_succeeded'' summary else bump ''retry_failed'' summary);
          events = retry_events log;
          events = (if event_index < length events
            then events[event_index := merge_dict (events ! event_index)
              [(''attempt'', VInt (node_retry_count node)),
               (''final_status'', VStr (if tr_success r then ''succeeded'' else ''failed'')),
               (''duration_ms'', VInt duration), (''result_error_code'', VStr (tr_error_code r))]]
            else events)
      in \<lparr>retry_events = events, retry_summary = summary\<rparr>)"

definition record_retry_aborted :: "nat \<Rightarrow> string \<Rightarrow> retry_log \<Rightarrow> retry_log" where
  "record_retry_aborted event_index reason log =
     (let events = retry_events log;
          events = (if event_index < length events
            then events[event_index := merge_dict (events ! event_index)
              [(''retry_allowed'', VBool False), (''blocked_by_policy'', VBool False),
               (''final_status'', VStr ''aborted''), (''reason'', VStr reason)]]
            else events)
      in \<lparr>retry_events = events, retry_summary = bump ''retry_blocked'' (retry_summary log)\<rparr>)"

text \<open>
  What the loop meets: the budget's answer at the \<open>k\<close>-th check (\<open>None\<close>: there is no budget), the result and the
  duration of the call when its retry count is \<open>n\<close>, the configured cap, the catalogue and the registry.
\<close>

record retry_world =
  rw_budget :: "(nat \<Rightarrow> bool) option"
  rw_execute :: "int \<Rightarrow> tool_result \<times> int"
  rw_max_retries_per_node :: int
  rw_catalogue :: catalogue
  rw_registry :: "string \<Rightarrow> pydict"

definition budget_says :: "retry_world \<Rightarrow> nat \<Rightarrow> bool" where
  "budget_says w k = (case rw_budget w of None \<Rightarrow> True | Some b \<Rightarrow> b k)"

definition world_decision :: "retry_world \<Rightarrow> execution_node \<Rightarrow> tool_result \<Rightarrow> nat \<Rightarrow> retry_decision" where
  "world_decision w node r checks =
     (let contract = get_retry_contract (rw_catalogue w) (node_tool node) (node_args node) in
      should_retry_tool_failure (node_retry_count node) contract (retry_error_code r) (tr_error r)
        (case contract of None \<Rightarrow> 0 | Some c \<Rightarrow> ct_max_retries c) (Some (rw_max_retries_per_node w))
        (budget_says w checks))"

definition retry_limit :: "retry_world \<Rightarrow> execution_node \<Rightarrow> int" where
  "retry_limit w node =
     effective_max_retries (get_retry_contract (rw_catalogue w) (node_tool node) (node_args node))
       (rw_max_retries_per_node w)"

definition note_attempt :: "execution_node \<Rightarrow> retry_decision \<Rightarrow> int \<Rightarrow> tool_result \<Rightarrow> tool_result" where
  "note_attempt node d elapsed r =
     r\<lparr>tr_retry_count := node_retry_count node,
       tr_metadata := merge_dict (tr_metadata r)
         [(''retried'', VBool True), (''retry_count'', VInt (node_retry_count node)),
          (''retry_reason'', VStr (rd_reason d)), (''retry_backoff_ms'', VInt (backoff_ms d)),
          (''retry_error_code'', VStr (rd_error_code d)), (''retry_original_error'', VStr (rd_original_error d)),
          (''retry_total_latency_ms'', VInt elapsed)]\<rparr>"

lemma decision_limit:
  "retry_allowed (should_retry_tool_failure n contract code msg cfg (Some g) ok) \<Longrightarrow> n < effective_max_retries contract g"
  by (auto simp: should_retry_tool_failure_def Let_def split: option.splits if_splits)

function retry_loop ::
  "retry_world \<Rightarrow> execution_node \<Rightarrow> tool_result \<Rightarrow> int \<Rightarrow> nat \<Rightarrow> retry_log \<Rightarrow>
   tool_result \<times> execution_node \<times> retry_log" where
  "retry_loop w node current elapsed checks log =
     (if tr_success current then (current, node, log)
      else
        (let current = normalize_read_timeout (rw_catalogue w) (rw_registry w) node current;
             d = world_decision w node current checks;
             (log, event_index) = record_retry_decision node d log in
         if \<not> retry_allowed d then (current, node, log)
         else if \<not> budget_says w (checks + 1)
         then (current, node, record_retry_aborted event_index ''budget_exceeded_after_backoff'' log)
         else
           (let node = node\<lparr>node_retry_count := node_retry_count node + 1\<rparr>;
                (result, duration) = rw_execute w (node_retry_count node);
                result = normalize_read_timeout (rw_catalogue w) (rw_registry w) node result;
                elapsed = elapsed + duration + backoff_ms d;
                result = note_attempt node d elapsed result
            in retry_loop w node result elapsed (checks + 2)
                 (record_retry_result node result event_index duration log))))"
  by pat_completeness auto
termination
proof (relation "measure (\<lambda>(w, node, _). nat (retry_limit w node - node_retry_count node))", goal_cases)
  case (2 w node current elapsed checks log)
  then show ?case
    by (auto simp: retry_limit_def world_decision_def Let_def dest!: decision_limit)
qed simp

declare retry_loop.simps [simp del]

definition maybe_retry_node ::
  "retry_world \<Rightarrow> execution_node \<Rightarrow> tool_result \<Rightarrow> retry_log \<Rightarrow> tool_result \<times> execution_node \<times> retry_log" where
  "maybe_retry_node w node original log = retry_loop w node original (tr_latency_ms original) 0 log"

subsection \<open>Facts about the loop\<close>

text \<open>The result, the node and the log of one more attempt.\<close>

definition attempt_result :: "retry_world \<Rightarrow> execution_node \<Rightarrow> retry_decision \<Rightarrow> int \<Rightarrow> tool_result" where
  "attempt_result w node d elapsed =
     (let (result, duration) = rw_execute w (node_retry_count node) in
      note_attempt node d (elapsed + duration + backoff_ms d)
        (normalize_read_timeout (rw_catalogue w) (rw_registry w) node result))"

definition next_node :: "execution_node \<Rightarrow> execution_node" where
  "next_node node = node\<lparr>node_retry_count := node_retry_count node + 1\<rparr>"

lemma next_node_simps [simp]:
  "node_id (next_node node) = node_id node" "node_tool (next_node node) = node_tool node"
  "node_args (next_node node) = node_args node" "node_retry_count (next_node node) = node_retry_count node + 1"
  "retry_limit w (next_node node) = retry_limit w node"
  by (simp_all add: next_node_def retry_limit_def)

lemma retry_loop_rule [case_names succeeded refused aborted again]:
  assumes succeeded: "\<And>node r log k. tr_success r \<Longrightarrow> P node r log k (r, node, log)"
    and refused: "\<And>node r log k r'. \<not> tr_success r \<Longrightarrow>
      r' = normalize_read_timeout (rw_catalogue w) (rw_registry w) node r \<Longrightarrow>
      \<not> retry_allowed (world_decision w node r' k) \<Longrightarrow>
      P node r log k (r', node, fst (record_retry_decision node (world_decision w node r' k) log))"
    and aborted: "\<And>node r log k r' log' i. \<not> tr_success r \<Longrightarrow>
      r' = normalize_read_timeout (rw_catalogue w) (rw_registry w) node r \<Longrightarrow>
      retry_allowed (world_decision w node r' k) \<Longrightarrow> \<not> budget_says w (k + 1) \<Longrightarrow>
      record_retry_decision node (world_decision w node r' k) log = (log', i) \<Longrightarrow>
      P node r log k (r', node, record_retry_aborted i ''budget_exceeded_after_backoff'' log')"
    and again: "\<And>node r log k r' log' i r2 duration elapsed out. \<not> tr_success r \<Longrightarrow>
      r' = normalize_read_timeout (rw_catalogue w) (rw_registry w) node r \<Longrightarrow>
      retry_allowed (world_decision w node r' k) \<Longrightarrow> budget_says w (k + 1) \<Longrightarrow>
      record_retry_decision node (world_decision w node r' k) log = (log', i) \<Longrightarrow>
      r2 = attempt_result w (next_node node) (world_decision w node r' k) elapsed \<Longrightarrow>
      P (next_node node) r2 (record_retry_result (next_node node) r2 i duration log') (k + 2) out \<Longrightarrow>
      P node r log k out"
  shows "P node r log k (retry_loop w node r elapsed k log)"
proof (induction "nat (retry_limit w node - node_retry_count node)" arbitrary: node r elapsed k log rule: less_induct)
  case less
  define r' where "r' = normalize_read_timeout (rw_catalogue w) (rw_registry w) node r"
  define d where "d = world_decision w node r' k"
  obtain log' i where rec: "record_retry_decision node d log = (log', i)" by fastforce
  consider "tr_success r" | "\<not> tr_success r" "\<not> retry_allowed d"
    | "\<not> tr_success r" "retry_allowed d" "\<not> budget_says w (k + 1)"
    | (go) "\<not> tr_success r" "retry_allowed d" "budget_says w (k + 1)" by blast
  then show ?case
  proof cases
    case go
    obtain res dur where ex: "rw_execute w (node_retry_count node + 1) = (res, dur)" by fastforce
    let ?r2 = "attempt_result w (next_node node) d elapsed"
    have "node_retry_count node < retry_limit w node"
      using go(2) by (auto simp: d_def retry_limit_def world_decision_def Let_def dest!: decision_limit)
    then have "nat (retry_limit w (next_node node) - node_retry_count (next_node node)) <
        nat (retry_limit w node - node_retry_count node)" by simp
    from less [OF this] have
      "P (next_node node) ?r2 (record_retry_result (next_node node) ?r2 i dur log') (k + 2)
         (retry_loop w (next_node node) ?r2 (elapsed + dur + backoff_ms d) (k + 2)
            (record_retry_result (next_node node) ?r2 i dur log'))" .
    moreover have "retry_loop w node r elapsed k log =
         retry_loop w (next_node node) ?r2 (elapsed + dur + backoff_ms d) (k + 2)
            (record_retry_result (next_node node) ?r2 i dur log')"
      using go rec ex by (subst retry_loop.simps)
        (simp add: Let_def r'_def [symmetric] d_def [symmetric] attempt_result_def next_node_def add.commute)
    ultimately show ?thesis
      using again [OF go(1) r'_def _ go(3)] go(2) rec by (simp add: d_def)
  next
    case 2
    have "P node r log k (r', node, log')"
      using refused [OF 2(1) r'_def, of k log] 2(2) rec by (simp add: d_def)
    then show ?thesis using 2 rec
      by (subst retry_loop.simps) (simp add: Let_def r'_def [symmetric] d_def [symmetric])
  next
    case 3
    then show ?thesis using aborted [OF 3(1) r'_def _ 3(3)] rec
      by (subst retry_loop.simps) (simp add: Let_def r'_def [symmetric] d_def [symmetric])
  qed (subst retry_loop.simps, simp add: succeeded)
qed

lemma normalize_success [simp]: "tr_success (normalize_read_timeout cat reg node r) = tr_success r"
  by (simp add: normalize_read_timeout_def Let_def)

lemma allowed_not_forbidden: "code \<in> set allowed_retry_errors \<Longrightarrow> code \<notin> set forbidden_retry_errors"
  by (auto simp: allowed_retry_errors_def forbidden_retry_errors_def)

lemma empty_not_forbidden: "[] \<notin> set forbidden_retry_errors"
  by (simp add: forbidden_retry_errors_def)

lemma decision_not_allowed_write:
  "\<not> is_read_only_call (rw_catalogue w) (node_tool node) (node_args node) [] \<Longrightarrow>
   \<not> retry_allowed (world_decision w node r k)"
  by (auto simp: world_decision_def get_retry_contract_def should_retry_tool_failure_def Let_def split: option.splits)


definition demo_catalogue :: catalogue where
  "demo_catalogue = \<lparr>cat_extensions = [],
     cat_action_contract = (\<lambda>t a. if a = ''read_file'' then [(''read_only'', VBool True)] else []),
     cat_declared = (\<lambda>_ _. []), cat_entry_declared = (\<lambda>_ _. []), cat_raw_observation = (\<lambda>_. False),
     cat_read_only_actions = (\<lambda>_. [])\<rparr>"

definition demo_timeout :: tool_result where
  "demo_timeout = \<lparr>tr_success = False, tr_data = VNone, tr_error = ''timed out'',
     tr_error_code = ''TOOL_TIMEOUT_UNCERTAIN'', tr_error_code_norm = [], tr_latency_ms = 30, tr_retry_count = 0,
     tr_metadata = []\<rparr>"

definition demo_write :: execution_node where
  "demo_write = \<lparr>node_id = ''n1'', node_tool = ''workspace__file'',
     node_args = [(''action'', VStr ''write_file'')], node_retry_count = 0\<rparr>"

definition demo_read :: execution_node where
  "demo_read = demo_write\<lparr>node_args := [(''action'', VStr ''read_file'')]\<rparr>"

text \<open>C4: a call that is not known to be a read is never run again: whatever the tool would return and whatever
  the budget says, the loop returns the result it was given (with an uncertain read timeout normalised at most)
  and the retry count is untouched, so no effect is duplicated.\<close>

theorem writes_never_replayed:
  assumes "\<not> is_read_only_call (rw_catalogue w) (node_tool node) (node_args node) []"
  shows "\<exists>log'. maybe_retry_node w node r log =
     (if tr_success r then r else normalize_read_timeout (rw_catalogue w) (rw_registry w) node r, node, log')"
  using assms decision_not_allowed_write [OF assms]
  by (simp add: maybe_retry_node_def retry_loop.simps [of w node r] Let_def split: prod.split)

theorem writes_never_replayed_witness:
  "\<exists>log'. maybe_retry_node \<lparr>rw_budget = None, rw_execute = \<lambda>n. (demo_timeout\<lparr>tr_success := True\<rparr>, 5),
       rw_max_retries_per_node = 3, rw_catalogue = demo_catalogue, rw_registry = \<lambda>_. []\<rparr> demo_write demo_timeout
       \<lparr>retry_events = [], retry_summary = []\<rparr> = (demo_timeout, demo_write, log')"
proof -
  let ?w = "\<lparr>rw_budget = None, rw_execute = \<lambda>n. (demo_timeout\<lparr>tr_success := True\<rparr>, 5),
       rw_max_retries_per_node = 3, rw_catalogue = demo_catalogue, rw_registry = \<lambda>_. []\<rparr>"
  have "\<not> is_read_only_call (rw_catalogue ?w) (node_tool demo_write) (node_args demo_write) []" by code_simp
  moreover have "normalize_read_timeout (rw_catalogue ?w) (rw_registry ?w) demo_write demo_timeout = demo_timeout"
    by code_simp
  moreover have "\<not> tr_success demo_timeout" by code_simp
  ultimately show ?thesis using writes_never_replayed [of ?w demo_write demo_timeout] by simp
qed


lemma counter_update [simp]:
  "counter k (AList.update k' v d) = (if k = k' then (case v of VInt i \<Rightarrow> i | VBool b \<Rightarrow> (if b then 1 else 0) | _ \<Rightarrow> 0)
     else counter k d)"
  by (simp add: counter_def)

lemma counter_bump [simp]: "counter k (bump k' d) = counter k d + (if k = k' then 1 else 0)"
  by (simp add: bump_def)

lemma counter_fresh [simp]: "counter k fresh_summary = 0" "counter k [] = 0"
  by (auto simp: counter_def vget_def vget_or_def fresh_summary_def)

text \<open>What the summary counts.\<close>

abbreviation tally :: "string \<Rightarrow> retry_log \<Rightarrow> int" where
  "tally k log \<equiv> counter k (retry_summary log)"

lemma record_decision_tally:
  "record_retry_decision node d log = (log', i) \<Longrightarrow>
   tally k log' = tally k log + (if k = ''retry_blocked'' \<and> \<not> retry_allowed d \<and>
     \<not> (rd_reason d = ''max_retries_exhausted'' \<and> last_event_of (node_id node) (retry_events log) \<noteq> None)
     then 1 else 0)"
  by (auto simp: record_retry_decision_def Let_def split: if_splits option.splits)

lemma record_result_tally:
  "tally ''retry_attempts'' (record_retry_result node r i dur log) = tally ''retry_attempts'' log + 1"
  "tally ''retry_succeeded'' (record_retry_result node r i dur log) =
     tally ''retry_succeeded'' log + (if tr_success r then 1 else 0)"
  "tally ''retry_failed'' (record_retry_result node r i dur log) =
     tally ''retry_failed'' log + (if tr_success r then 0 else 1)"
  "tally ''retry_blocked'' (record_retry_result node r i dur log) = tally ''retry_blocked'' log"
  by (simp_all add: record_retry_result_def Let_def)

lemma record_aborted_tally:
  "tally k (record_retry_aborted i reason log) = tally k log + (if k = ''retry_blocked'' then 1 else 0)"
  by (simp add: record_retry_aborted_def Let_def)

lemma allowed_decision_reason:
  "retry_allowed (world_decision w node r k) \<Longrightarrow>
   rd_reason (world_decision w node r k) = ''transient_failure_on_idempotent_read_tool''"
  by (auto simp: world_decision_def should_retry_tool_failure_def Let_def split: option.splits if_splits)

text \<open>The summary is an account of the loop: the attempts it counts grow by exactly the calls made, each is
  counted once, as succeeded or failed, and at most one refusal is counted, none when the call ends in success.\<close>

theorem retry_summary_accounts:
  "case maybe_retry_node w node r log of (r', node', log') \<Rightarrow>
     tally ''retry_attempts'' log' = tally ''retry_attempts'' log + (node_retry_count node' - node_retry_count node) \<and>
     tally ''retry_succeeded'' log' + tally ''retry_failed'' log' =
       tally ''retry_succeeded'' log + tally ''retry_failed'' log + (node_retry_count node' - node_retry_count node) \<and>
     tally ''retry_blocked'' log \<le> tally ''retry_blocked'' log' \<and>
     tally ''retry_blocked'' log' \<le> tally ''retry_blocked'' log + (if tr_success r' then 0 else 1)"
proof -
  have "case retry_loop w node r elapsed k log of (r', node', log') \<Rightarrow>
     tally ''retry_attempts'' log' = tally ''retry_attempts'' log + (node_retry_count node' - node_retry_count node) \<and>
     tally ''retry_succeeded'' log' + tally ''retry_failed'' log' =
       tally ''retry_succeeded'' log + tally ''retry_failed'' log + (node_retry_count node' - node_retry_count node) \<and>
     tally ''retry_blocked'' log \<le> tally ''retry_blocked'' log' \<and>
     tally ''retry_blocked'' log' \<le> tally ''retry_blocked'' log + (if tr_success r' then 0 else 1)"
    for elapsed k
  proof (induction rule: retry_loop_rule)
    case (refused node r log k r')
    obtain log' i where "record_retry_decision node (world_decision w node r' k) log = (log', i)" by fastforce
    with refused record_decision_tally [OF this] show ?case by simp
  next
    case (aborted node r log k r' log' i)
    with record_decision_tally [OF aborted(5)] show ?case by (simp add: record_aborted_tally)
  next
    case (again node r log k r' log' i r2 duration elapsed out)
    with record_decision_tally [OF again(5)] show ?case
      by (auto simp: record_result_tally split: prod.splits if_splits)
  qed simp
  then show ?thesis by (simp add: maybe_retry_node_def)
qed

subsection \<open>The redacted note\<close>

lemma lower_names: "n \<in> set credential_names \<Longrightarrow> lower n = n \<and> n \<noteq> []"
proof -
  have "\<forall>n \<in> set credential_names. lower n = n \<and> n \<noteq> []" by code_simp
  then show "n \<in> set credential_names \<Longrightarrow> lower n = n \<and> n \<noteq> []" by blast
qed

lemma sub_fuel_id:
  "(\<And>i. i < length s \<Longrightarrow> m (if i = 0 then prev else Some (s ! (i - 1))) (drop i s) = None) \<Longrightarrow> sub_fuel n m prev s = s"
proof (induction n arbitrary: prev s)
  case (Suc n)
  show ?case
  proof (cases s)
    case (Cons c cs)
    have "m (if i = 0 then Some c else Some (cs ! (i - 1))) (drop i cs) = None" if "i < length cs" for i
      using Suc.prems [of "Suc i"] that Cons by (cases i) auto
    from Suc.IH [OF this] Suc.prems [of 0] Cons show ?thesis by simp
  qed simp
qed simp

definition unspaced :: "string \<Rightarrow> bool" where "unspaced s = list_all (\<lambda>c. \<not> py_space c) s"

lemma unspaced_drop: "unspaced s \<Longrightarrow> drop i s \<noteq> [] \<Longrightarrow> \<not> py_space (hd (drop i s))"
  by (metis hd_in_set in_set_dropD list_all_iff unspaced_def)

lemma skip_space_drop: "\<exists>j. skip_space s = drop j s"
  unfolding skip_space_def by (metis dropWhile_eq_drop)

lemma strip_prefix_drop: "strip_prefix_ci p s = Some r \<Longrightarrow> r = drop (length p) s"
  by (auto simp: strip_prefix_ci_def split: if_splits)

definition suffix_of :: "string \<Rightarrow> string \<Rightarrow> bool" where "suffix_of r s = (\<exists>j. r = drop j s)"

lemma suffix_of_trans: "suffix_of r s \<Longrightarrow> suffix_of s t \<Longrightarrow> suffix_of r t"
  by (auto simp: suffix_of_def)

lemma suffix_of_steps:
  "suffix_of (drop j s) s" "suffix_of (tl s) s" "suffix_of (skip_space s) s"
  using skip_space_drop [of s] by (auto simp: suffix_of_def tl_def intro: exI [of _ 1] split: list.split)

lemma suffix_of_prefix: "strip_prefix_ci p s = Some r \<Longrightarrow> suffix_of r s"
  by (auto dest!: strip_prefix_drop simp: suffix_of_def)

lemma suffix_of_redacted: "skip_redacted s = Some r \<Longrightarrow> suffix_of r s"
  by (auto simp: skip_redacted_def Let_def suffix_of_def split: option.splits if_splits dest!: strip_prefix_drop)

lemma bearer_head_suffix: "bearer_head s = Some r \<Longrightarrow> suffix_of r s"
proof -
  have step: "suffix_of t s \<Longrightarrow> skip_redacted (skip_space (tl (skip_space t))) = Some r \<Longrightarrow> suffix_of r s"
    "suffix_of t s \<Longrightarrow> skip_redacted (tl (skip_space t)) = Some r \<Longrightarrow> suffix_of r s" for t
    by (meson suffix_of_redacted suffix_of_steps suffix_of_trans)+
  show "bearer_head s = Some r \<Longrightarrow> suffix_of r s"
    by (auto simp: bearer_head_def Let_def split: option.splits if_splits intro: step dest: suffix_of_prefix)
qed

lemma bearer_patterns_unspaced:
  assumes "unspaced s"
  shows "naked_bearer_pattern prev (drop i s) = None" "cred_bearer_pattern prev (drop i s) = None"
proof -
  have none: "suffix_of r (drop i s) \<Longrightarrow> r \<noteq> [] \<Longrightarrow> \<not> py_space (hd r)" for r
    using unspaced_drop [OF assms] by (auto simp: suffix_of_def)
  show "naked_bearer_pattern prev (drop i s) = None"
    using none by (auto simp: naked_bearer_pattern_def split: option.splits dest!: suffix_of_prefix)
  show "cred_bearer_pattern prev (drop i s) = None"
    using none by (auto simp: cred_bearer_pattern_def split: option.splits dest!: bearer_head_suffix)
qed

definition separator :: "char \<Rightarrow> bool" where
  "separator c = (py_space c \<or> c = CHR '':'' \<or> is_quote c \<or> c = CHR ''='')"

lemma names_plain:
  "n \<in> set credential_names \<Longrightarrow> list_all (\<lambda>c. \<not> separator c) n \<and> orphan_body (n @ ''='' @ redacted) = None"
proof -
  have "list_all (\<lambda>n. list_all (\<lambda>c. \<not> separator c) n \<and> orphan_body (n @ ''='' @ redacted) = None) credential_names"
    by code_simp
  then show "n \<in> set credential_names \<Longrightarrow> ?thesis" by (simp add: list_all_iff)
qed

lemma redacted_plain: "list_all (\<lambda>c. \<not> separator c) redacted" "orphan_body redacted = None" "unspaced redacted"
  by code_simp+

lemma orphan_step:
  "(prev = None \<Longrightarrow> orphan_body s = None) \<Longrightarrow> (separator (hd s) \<Longrightarrow> orphan_body (tl s) = None) \<Longrightarrow>
   cred_orphan_pattern prev s = None"
  by (auto simp: cred_orphan_pattern_def separator_def)

lemma orphan_none:
  assumes "n \<in> set credential_names" "i < length (n @ ''='' @ redacted)"
  shows "cred_orphan_pattern (if i = 0 then None else Some c) (drop i (n @ ''='' @ redacted)) = None"
proof -
  let ?s = "n @ ''='' @ redacted"
  have hd: "hd (drop i ?s) = ?s ! i" using assms(2) by (rule hd_drop_conv_nth)
  have "\<not> separator (?s ! i)" if "i \<noteq> length n"
    using that assms names_plain [OF assms(1)] redacted_plain(1)
    by (auto simp: nth_append nth_Cons' list_all_length)
  moreover have "orphan_body (tl (drop i ?s)) = None" if "i = length n" using that redacted_plain by simp
  ultimately have second: "\<not> separator (hd (drop i ?s)) \<or> orphan_body (tl (drop i ?s)) = None"
    unfolding hd by (metis (no_types))
  have "orphan_body (drop i ?s) = None" if "i = 0" using that names_plain [OF assms(1)] by simp
  show ?thesis
  proof (rule orphan_step)
    assume "(if i = 0 then None else Some c) = None"
    then show "orphan_body (drop i ?s) = None" using \<open>i = 0 \<Longrightarrow> orphan_body (drop i ?s) = None\<close> by (cases "i = 0") simp_all
  qed (use second in blast)
qed

lemma redacted_stable:
  assumes "n \<in> set credential_names"
  defines "s \<equiv> n @ ''='' @ redacted"
  shows "sub_all naked_bearer_pattern (sub_all cred_orphan_pattern (sub_all cred_bearer_pattern s)) = s"
proof -
  have "unspaced s" using names_plain [OF assms(1)] redacted_plain(3)
    by (auto simp: s_def unspaced_def list_all_iff separator_def py_space_def)
  note bearer = bearer_patterns_unspaced [OF this]
  have "sub_all cred_orphan_pattern s = s"
    using orphan_none [OF assms(1)] unfolding sub_all_def s_def by (intro sub_fuel_id) auto
  moreover have "sub_all cred_bearer_pattern s = s" "sub_all naked_bearer_pattern s = s"
    unfolding sub_all_def by (intro sub_fuel_id bearer)+
  ultimately show ?thesis by simp
qed

lemma value_at_name:
  assumes "v \<noteq> []" and "list_all value_char v"
  shows "cred_value_at n (n @ ''='' @ v) = (if lower n = n then Some (n @ ''='' @ redacted, []) else None)"
proof -
  from assms obtain c w where v: "v = c # w" "value_char c" by (cases v) auto
  have whole: "takeWhile value_char v = v" using assms(2) by (simp add: list_all_iff takeWhile_eq_all_conv)
  have unquoted: "drop_quote (skip_space v) = v"
    using v by (simp add: drop_quote_def skip_space_def value_char_def)
  have "skip_space (CHR ''='' # v) = CHR ''='' # v" by (simp add: skip_space_def py_space_def)
  with assms(1) show ?thesis
    by (simp add: cred_value_at_def strip_prefix_ci_def Let_def whole unquoted) (simp add: drop_quote_def)
qed

fun clashes :: "string \<Rightarrow> string \<Rightarrow> bool" where
  "clashes (c # cs) (d # ds) = (lower_char d \<noteq> c \<or> clashes cs ds)"
| "clashes _ _ = False"

lemma clashes_prefix: "clashes p n \<Longrightarrow> lower (take (length p) (n @ r)) \<noteq> p"
  by (induction p n rule: clashes.induct) (auto simp: lower_def)

lemma no_value_at_clash: "clashes p n \<Longrightarrow> cred_value_at p (n @ r) = None"
  using clashes_prefix [of p n r] by (simp add: cred_value_at_def strip_prefix_ci_def)

lemma names_clash: "p \<in> set credential_names \<Longrightarrow> n \<in> set credential_names \<Longrightarrow> p \<noteq> n \<Longrightarrow> clashes p n"
proof -
  have "list_all (\<lambda>p. list_all (\<lambda>n. p = n \<or> clashes p n) credential_names) credential_names" by code_simp
  then show "p \<in> set credential_names \<Longrightarrow> n \<in> set credential_names \<Longrightarrow> p \<noteq> n \<Longrightarrow> clashes p n"
    by (auto simp: list_all_iff)
qed

lemma first_name:
  assumes "n \<in> set credential_names" "v \<noteq> []" "list_all value_char v"
  shows "first_some (\<lambda>name. cred_value_at name (n @ ''='' @ v)) credential_names = Some (n @ ''='' @ redacted, [])"
proof (rule first_some_unique [OF assms(1)])
  show "cred_value_at n (n @ ''='' @ v) = Some (n @ ''='' @ redacted, [])"
    using value_at_name [OF assms(2,3)] lower_names [OF assms(1)] by simp
  fix p assume p: "p \<in> set credential_names" "p \<noteq> n"
  from names_clash [OF p(1) assms(1) p(2)] show "cred_value_at p (n @ ''='' @ v) = None" by (rule no_value_at_clash)
qed

text \<open>The note a decision carries into the audit never holds the value of a credential: for every name the
  pattern knows and every value without blanks, quotes or separators, the scrubbed text is the name and the
  redaction mark, with no character of the value left.\<close>

theorem credential_value_redacted:
  assumes "n \<in> set credential_names" and "v \<noteq> []" and "list_all value_char v" and "length n + 1 + length v \<le> 200"
  shows "rd_original_error (should_retry_tool_failure k contract code (n @ ''='' @ v) cfg g ok) = n @ ''='' @ redacted"
proof -
  obtain c cs where n: "n = c # cs" using lower_names [OF assms(1)] by (cases n) auto
  have "sub_all cred_value_pattern (n @ ''='' @ v) = n @ ''='' @ redacted"
    using first_name [OF assms(1-3)]
    by (simp add: n sub_all_def cred_value_pattern_def boundary_before_def)
  then have "redact_sensitive_text (n @ ''='' @ v) = n @ ''='' @ redacted"
    using redacted_stable [OF assms(1)] by (simp add: redact_sensitive_text_def n)
  moreover have "rd_original_error (should_retry_tool_failure k contract code (n @ ''='' @ v) cfg g ok) =
      redact_sensitive_text (take 200 (n @ ''='' @ v))"
    by (simp add: should_retry_tool_failure_def Let_def split: option.split)
  ultimately show ?thesis using assms(4) by simp
qed

theorem credential_value_redacted_witness:
  "rd_original_error (should_retry_tool_failure 0 None ''TOOL_EXCEPTION'' ''api_key=abc123'' 1 None True) =
   ''api_key='' @ redacted"
  using credential_value_redacted [of "''api_key''" "''abc123''"]
  by (simp add: credential_names_def value_char_def is_quote_def py_space_def)

end
