(* ===== verification/Semantic_Gate.thy ===== *)
theory Semantic_Gate
  imports Tool_Executor Retry_Policy
begin

section \<open>The planning gate\<close>

text \<open>
  \<^verbatim>\<open>core/runtime_engine/semantic_validator.py\<close>: before a batch runs, every call is judged against the published schema of its
  tool, the requirements of its action and the kinds of its references. The errors carry the node, the code and the details
  the repair and the model read; their message texts are left out. A node is an \<open>execution_node\<close> with its bindings. The
  contracts and the registry are a \<open>plan_world\<close>: the catalogue of contracts, the schema of a contract, and the registry entry
  of a tool (\<open>[]\<close> for a tool that is not there).
\<close>

record planned_node = execution_node +
  pn_bindings :: "(string \<times> string) list"
  pn_action_original :: string
  pn_from_alias :: bool
  pn_step_id :: string
  pn_depends_on :: "string list"
  pn_failure_policy :: string
  pn_goal_ids :: "string list"

record plan_world =
  pw_catalogue :: catalogue
  pw_contract_schema :: "string \<Rightarrow> schema"
  pw_registry :: "string \<Rightarrow> pydict"

record semantic_error =
  se_node :: string
  se_code :: string
  se_details :: pydict

datatype risk = Low | Medium | High | Critical

definition invalid_json_key :: string where
  "invalid_json_key = ''__invalid_tool_arguments_json__''"

definition bound_fields :: "planned_node \<Rightarrow> string list" where
  "bound_fields node = map fst (pn_bindings node)"

definition node_error :: "planned_node \<Rightarrow> string \<Rightarrow> pydict \<Rightarrow> semantic_error" where
  "node_error node code details = \<lparr>se_node = node_id node, se_code = code, se_details = details\<rparr>"

subsection \<open>Arguments\<close>

definition node_schema :: "plan_world \<Rightarrow> planned_node \<Rightarrow> pyval" where
  "node_schema w node =
     (case get_contract (pw_catalogue w) (node_tool node) of
        Some _ \<Rightarrow> VDict (pw_contract_schema w (node_tool node))
      | None \<Rightarrow> vor (vget (pw_registry w (node_tool node)) ''args_schema'')
                  (vor (vget (pw_registry w (node_tool node)) ''input_schema'') (VDict [])))"

text \<open>\<open>details\<close> of one violation of a bound.\<close>

definition bound_error :: "planned_node \<Rightarrow> string \<Rightarrow> string \<Rightarrow> string \<Rightarrow> int \<Rightarrow> string \<Rightarrow> int option \<Rightarrow> bool \<Rightarrow> semantic_error list" where
  "bound_error node code f key n bound limit bad =
     (if bad then [node_error node code [(''field'', VStr f), (key, VInt n), (bound, VInt (the limit))]] else [])"

definition bounds_errors :: "planned_node \<Rightarrow> string \<Rightarrow> string \<Rightarrow> string \<Rightarrow> int \<Rightarrow> schema \<Rightarrow> string \<Rightarrow> string \<Rightarrow> semantic_error list" where
  "bounds_errors node code f key n p low high =
     bound_error node code f key n low (bound_at p low) (below n (bound_at p low)) @
     bound_error node code f key n high (bound_at p high) (above n (bound_at p high))"

definition schema_errors_detail :: "string list \<Rightarrow> string \<times> pyval" where
  "schema_errors_detail errors = (''schema_errors'', VList (map VStr (take 5 errors)))"

definition item_errors :: "planned_node \<Rightarrow> string \<Rightarrow> pyval list \<Rightarrow> schema \<Rightarrow> semantic_error list" where
  "item_errors node f xs items =
     (if items = [] then []
      else concat (map (\<lambda>(i, x). let errors = validate_field (item_path f i) x items in
        if errors = [] then []
        else [node_error node ''ARG_TYPE_MISMATCH''
               [(''field'', VStr f), (''item_index'', VInt (int i)), schema_errors_detail errors]]) (enumerate 0 xs)))"

definition nested_errors :: "planned_node \<Rightarrow> string \<Rightarrow> pyval \<Rightarrow> schema \<Rightarrow> semantic_error list" where
  "nested_errors node f v p =
     (if vget p ''type'' = VStr ''object'' \<and> is_vdict (vget p ''properties'')
      then let errors = validate_field f v p in
        if errors = [] then []
        else [node_error node ''ARG_SCHEMA_INVALID'' [(''field'', VStr f), schema_errors_detail errors]]
      else [])"

text \<open>The checks of an argument of the expected type.\<close>

definition typed_errors :: "planned_node \<Rightarrow> string \<Rightarrow> pyval \<Rightarrow> schema \<Rightarrow> semantic_error list" where
  "typed_errors node f v p =
     nested_errors node f v p @
     (case v of
        VInt i \<Rightarrow> bounds_errors node ''ARG_RANGE_INVALID'' f arg_value_name i p ''minimum'' ''maximum''
      | VStr t \<Rightarrow> bounds_errors node ''ARG_LENGTH_INVALID'' f ''length'' (int (length t)) p ''minLength'' ''maxLength''
      | VList xs \<Rightarrow> bounds_errors node ''ARG_LENGTH_INVALID'' f ''length'' (int (length xs)) p ''minItems'' ''maxItems'' @
          item_errors node f xs (item_schema p)
      | _ \<Rightarrow> [])"

text \<open>The enumeration, and the defence against an alias that was not normalized.\<close>

definition enumeration_errors :: "planned_node \<Rightarrow> string \<Rightarrow> pyval \<Rightarrow> schema \<Rightarrow> semantic_error list" where
  "enumeration_errors node f v p =
     (let allowed = vget p ''enum''; r = resolve_action_alias (node_tool node) (VStr (py_str v)) in
      if \<not> truthy allowed \<or> in_list v (list_of allowed) then []
      else if f = ''action'' \<and> ar_matched r
      then [node_error node ''ACTION_ALIAS_NOT_NORMALIZED''
             [(''field'', VStr f), (''invalid_'' @ arg_value_name, v), (''canonical_'' @ arg_value_name, VStr (ar_canonical r)),
              (''allowed_'' @ arg_value_name @ ''s'', allowed)]]
      else [node_error node ''ARG_ENUM_INVALID''
             [(''field'', VStr f), (''invalid_'' @ arg_value_name, v), (''allowed_'' @ arg_value_name @ ''s'', allowed)]])"

definition argument_field_errors :: "planned_node \<Rightarrow> schema \<Rightarrow> string \<Rightarrow> pyval \<Rightarrow> semantic_error list" where
  "argument_field_errors node s f v =
     (let props = dict_of (vget s ''properties'') in
      case map_of (property_schemas s) f of
        None \<Rightarrow>
          if f = invalid_json_key \<or> \<not> closed_object s then []
          else [node_error node ''UNKNOWN_ARGUMENT''
                 [(''field'', VStr f), (''allowed_fields'', VList (map VStr (sort (map fst props))))]]
      | Some p \<Rightarrow>
          (case vget p ''oneOf'' of
             VList _ \<Rightarrow>
               (let errors = validate_field f v p in
                if errors = [] then []
                else [node_error node ''ARG_TYPE_MISMATCH'' [(''field'', VStr f), schema_errors_detail errors]])
           | _ \<Rightarrow>
               (if type_admits (vget p ''type'') v then typed_errors node f v p
                else [node_error node ''ARG_TYPE_MISMATCH''
                       [(''field'', VStr f), (''expected_type'', vget p ''type''), (''actual_type'', VStr (type_name v))]]) @
               enumeration_errors node f v p))"

definition missing_field_errors :: "planned_node \<Rightarrow> schema \<Rightarrow> semantic_error list" where
  "missing_field_errors node s =
     map (\<lambda>f. node_error node ''MISSING_REQUIRED_ARG'' [(''field'', VStr f), (''required'', VBool True)])
       (filter (\<lambda>f. vget (node_args node) f = VNone \<and> f \<notin> set (bound_fields node)) (names_at s ''required''))"

definition validate_args :: "plan_world \<Rightarrow> planned_node \<Rightarrow> semantic_error list" where
  "validate_args w node =
     (case node_schema w node of
        VDict s \<Rightarrow>
          if truthy (vget (node_args node) invalid_json_key) then [node_error node ''INVALID_TOOL_ARGUMENTS_JSON'' []]
          else missing_field_errors node s @ concat (map (\<lambda>(f, v). argument_field_errors node s f v) (node_args node))
      | _ \<Rightarrow> [])"

subsection \<open>Actions and references\<close>

definition missing_details :: "missing_argument \<Rightarrow> pydict" where
  "missing_details m = (case m of
       Missing_field f tool action \<Rightarrow> [(''field'', VStr f), (''tool_id'', VStr tool), (''action'', VStr action)]
     | Missing_one_of fs tool action \<Rightarrow>
         [(''one_of_fields'', VList (map VStr fs)), (''tool_id'', VStr tool), (''action'', VStr action)])"

definition node_metadata :: "plan_world \<Rightarrow> planned_node \<Rightarrow> pydict" where
  "node_metadata w node = dict_of (vget (pw_registry w (node_tool node)) ''metadata'')"

definition validate_action_specific_required_args :: "plan_world \<Rightarrow> planned_node \<Rightarrow> semantic_error list" where
  "validate_action_specific_required_args w node =
     map (\<lambda>m. node_error node ''MISSING_REQUIRED_ARG'' (missing_details m))
       (missing_action_arguments (node_tool node) (node_args node) (node_metadata w node) (bound_fields node))"

text \<open>\<^verbatim>\<open>^file_[0-9a-f]{16}$\<close> of the whole text, without regard to case\<close>

definition is_managed_file :: "string \<Rightarrow> bool" where
  "is_managed_file s =
     (let t = lower s in starts_with t ''file_'' \<and> length t = 21 \<and>
        list_all (\<lambda>c. is_digit c \<or> c \<in> set ''abcdef'') (drop 5 t))"

definition reference_error :: "planned_node \<Rightarrow> string \<Rightarrow> pyval \<Rightarrow> semantic_error list" where
  "reference_error node f expected =
     (case vget (node_args node) f of
        VStr t \<Rightarrow>
          if strip t = [] then []
          else let managed = is_managed_file (strip t) in
            if expected = VStr ''managed_file'' \<and> \<not> managed \<or> expected = VStr ''workspace_path'' \<and> managed
            then [node_error node ''ARG_REFERENCE_KIND_MISMATCH''
                   [(''field'', VStr f), (''expected_kind'', expected),
                    (''received_kind'', VStr (if managed then ''managed_file'' else ''workspace_path''))]]
            else []
      | _ \<Rightarrow> [])"

definition validate_reference_kinds :: "plan_world \<Rightarrow> planned_node \<Rightarrow> semantic_error list" where
  "validate_reference_kinds w node =
     concat (map (\<lambda>(f, expected). reference_error node f expected)
       (dict_of (vget (dict_of (vget (node_metadata w node) ''reference_kinds'')) (requirement_action (node_args node)))))"

text \<open>\<open>_validate_path_safety\<close> only returns.\<close>

definition validate_node :: "plan_world \<Rightarrow> planned_node \<Rightarrow> semantic_error list" where
  "validate_node w node =
     (if get_contract (pw_catalogue w) (node_tool node) = None \<and> pw_registry w (node_tool node) = []
      then [node_error node ''TOOL_NOT_FOUND'' []]
      else validate_args w node @
        (if truthy (vget (node_args node) invalid_json_key) then []
         else validate_action_specific_required_args w node @ validate_reference_kinds w node))"

subsection \<open>The risk of a batch\<close>

definition risk_of_text :: "string \<Rightarrow> risk" where
  "risk_of_text t = (if t = ''critical'' then Critical else if t = ''high'' then High else if t = ''medium'' then Medium else Low)"

definition get_risk_level :: "catalogue \<Rightarrow> string \<Rightarrow> string" where
  "get_risk_level cat tool = (case get_contract cat tool of Some c \<Rightarrow> ct_risk_level c | None \<Rightarrow> ''medium'')"

definition raise_risk :: "risk \<Rightarrow> risk \<Rightarrow> risk" where
  "raise_risk seen r =
     (if r = Critical \<and> seen \<noteq> Critical then r else if r = High \<and> seen \<notin> {Critical, High} then r else seen)"

definition side_effect_count :: "plan_world \<Rightarrow> string list \<Rightarrow> planned_node list \<Rightarrow> nat" where
  "side_effect_count w effects nodes =
     length (filter (\<lambda>n. case get_contract (pw_catalogue w) (node_tool n) of Some c \<Rightarrow> ct_side_effect c \<in> set effects | None \<Rightarrow> False) nodes)"

definition compute_risk_level :: "plan_world \<Rightarrow> planned_node list \<Rightarrow> risk" where
  "compute_risk_level w nodes =
     (let r = fold (\<lambda>n seen. raise_risk seen (risk_of_text (get_risk_level (pw_catalogue w) (node_tool n)))) nodes Low;
          writes = side_effect_count w [''write_file'', ''mutate_local''] nodes;
          execs = side_effect_count w [''execute_command''] nodes;
          r = (if writes \<ge> 3 \<and> r = Medium then High else r);
          r = (if execs \<ge> 2 \<and> r \<noteq> Critical then High else r)
      in if execs \<ge> 3 then Critical else r)"

definition validate_batch :: "plan_world \<Rightarrow> planned_node list \<Rightarrow> semantic_error list \<times> risk" where
  "validate_batch w nodes = (concat (map (validate_node w) nodes), compute_risk_level w nodes)"

text \<open>A node of medium risk does not raise the risk, so the escalation of many writes never applies.\<close>

lemma risk_never_medium: "compute_risk_level w nodes \<noteq> Medium"
proof -
  have "fold (\<lambda>n seen. raise_risk seen (f n)) nodes r \<noteq> Medium" if "r \<noteq> Medium" for f :: "planned_node \<Rightarrow> risk" and r
    using that by (induction nodes arbitrary: r) (auto simp: raise_risk_def)
  then show ?thesis by (simp add: compute_risk_level_def Let_def)
qed

subsection \<open>The planning gate implies the gate of the executor\<close>

lemma type_admits_published: "type_admits (vget p ''type'') v \<longleftrightarrow> type_admits (schema_type p) v"
  by (auto simp: schema_type_def vget_def vget_or_def type_admits_def split: option.split)

lemma schema_type_published: "t \<noteq> [] \<Longrightarrow> schema_type p = VStr t \<longleftrightarrow> vget p ''type'' = VStr t"
  by (auto simp: schema_type_def vget_def vget_or_def split: option.split)

lemma bounds_errors_empty: "bounds_errors node code f key n p low high = [] \<longleftrightarrow> within n (bound_at p low) (bound_at p high)"
  by (simp add: bounds_errors_def bound_error_def within_def)

lemma item_errors_empty: "item_errors node f xs items = [] \<longleftrightarrow> items = [] \<or> (\<forall>x \<in> set xs. conforms items x)"
proof -
  have "concat (map (\<lambda>(i, x). if validate_field (item_path f i) x items = [] then [] else [e i x]) (enumerate n xs)) = [] \<longleftrightarrow>
      (\<forall>x \<in> set xs. conforms items x)" for e :: "nat \<Rightarrow> pyval \<Rightarrow> semantic_error" and n
    by (induction xs arbitrary: n) (simp_all add: validate_field_conforms)
  then show ?thesis by (simp add: item_errors_def Let_def del: concat_eq_Nil_conv)
qed

lemma enumeration_errors_empty: "enumeration_errors node f v p = [] \<longleftrightarrow> \<not> truthy (vget p ''enum'') \<or> in_list v (list_of (vget p ''enum''))"
  by (simp add: enumeration_errors_def Let_def)

lemma argument_field_conforms:
  assumes ok: "argument_field_errors node s f v = []" and p: "map_of (property_schemas s) f = Some p"
    and enum: "vget p ''enum'' = VNone \<or> truthy (vget p ''enum'')"
  shows "conforms p v"
proof (cases "\<exists>vs. vget p ''oneOf'' = VList vs")
  case True
  with ok p have "validate_field f v p = []" by (auto simp: argument_field_errors_def Let_def split: if_splits)
  then show ?thesis by (simp add: validate_field_conforms)
next
  case False
  then have alt: "alternatives p = []" by (cases "vget p ''oneOf''") (auto simp: alternatives_def list_of_def)
  from ok p False have typed: "type_admits (schema_type p) v" and errs: "typed_errors node f v p = []"
    and listed: "vget p ''enum'' = VNone \<or> in_list v (list_of (vget p ''enum''))"
    using enum
    by (auto simp: argument_field_errors_def Let_def type_admits_published enumeration_errors_empty
        split: if_splits pyval.splits)
  show ?thesis
  proof (cases "vget p ''type'' = VStr ''object'' \<and> is_vdict (vget p ''properties'')")
    case True
    with errs have "validate_field f v p = []" by (auto simp: typed_errors_def nested_errors_def Let_def split: if_splits)
    then show ?thesis by (simp add: validate_field_conforms)
  next
    case plain: False
    note conf = conforms.simps [of p v]
    show ?thesis
    proof (cases v)
      case (VInt i)
      then show ?thesis unfolding conf using errs alt typed listed by (simp add: typed_errors_def bounds_errors_empty)
    next
      case (VStr t)
      then show ?thesis unfolding conf using errs alt typed listed by (simp add: typed_errors_def bounds_errors_empty)
    next
      case (VList xs)
      with errs have "within (int (length xs)) (bound_at p ''minItems'') (bound_at p ''maxItems'')"
        "item_schema p = [] \<or> (\<forall>x \<in> set xs. conforms (item_schema p) x)"
        by (simp_all add: typed_errors_def bounds_errors_empty item_errors_empty)
      with VList show ?thesis unfolding conf using alt typed listed by auto
    next
      case (VDict d)
      then show ?thesis unfolding conf using plain alt typed listed by (auto simp: schema_type_published)
    qed (unfold conf, use alt typed listed in simp_all)
  qed
qed

definition default_at :: "schema \<Rightarrow> string \<Rightarrow> pyval option" where
  "default_at s f = (case map_of (property_schemas s) f of Some p \<Rightarrow> map_of p ''default'' | None \<Rightarrow> None)"

text \<open>The schemas of the registry: enumerations are not empty, and no default decides which arguments an action needs (the
  action is required where it has one, and the default profile needs nothing).\<close>

definition plain_schema :: "schema \<Rightarrow> bool" where
  "plain_schema s =
     (distinct (map fst (property_schemas s)) \<and>
      (\<forall>(f, p) \<in> set (property_schemas s). vget p ''enum'' = VNone \<or> truthy (vget p ''enum'')) \<and>
      (''action'' \<in> set (names_at s ''required'') \<or> default_at s ''action'' = None) \<and>
      default_at s ''profile_id'' \<in> {None, Some (VStr ''research_agent'')})"

lemma canonical_lookup:
  assumes "plain_schema s"
  shows "map_of (canonicalize_tool_arguments d s) k = (case map_of d k of Some v \<Rightarrow> Some v | None \<Rightarrow> default_at s k)"
proof (cases "s = []")
  case True
  then show ?thesis
    by (simp add: canonicalize_tool_arguments_def validate_arguments_def default_at_def property_schemas_def split: option.split)
next
  case False
  with assms show ?thesis
    by (simp add: canonicalize_tool_arguments_def validate_arguments_def with_defaults_lookup plain_schema_def default_at_def
        split: option.split)
qed

lemma conditional_requirements:
  "fs \<in> set (table_at action_required_when k) \<Longrightarrow>
     fst fs = ''profile_id'' \<and> ''research_agent'' \<notin> set (fst (snd fs))"
  by (auto simp: action_required_when_def table_at_def split: if_splits)

text \<open>Adding the defaults of such a schema leaves no action without its arguments.\<close>

lemma missing_with_defaults:
  assumes s: "plain_schema s" and action: "''action'' \<in> set (names_at s ''required'') \<Longrightarrow> map_of d ''action'' \<noteq> None"
    and none: "missing_action_arguments tool d metadata [] = []"
  shows "missing_action_arguments tool (canonicalize_tool_arguments d s) metadata [] = []"
proof -
  let ?c = "canonicalize_tool_arguments d s"
  note at = canonical_lookup [OF s, of d]
  have "vget ?c ''action'' = vget d ''action''"
    using s action by (auto simp: vget_def vget_or_def at plain_schema_def split: option.splits)
  then have act: "requirement_action ?c = requirement_action d" by (simp add: requirement_action_def)
  have kept: "vget d k = v \<Longrightarrow> v \<noteq> VNone \<Longrightarrow> vget ?c k = v" for k v
    by (auto simp: vget_def vget_or_def at split: option.splits)
  then have has: "has_argument_value d k \<Longrightarrow> has_argument_value ?c k" for k
    by (cases "vget d k") (auto simp: has_argument_value_def)
  have empty: "may_be_empty tool d k \<Longrightarrow> may_be_empty tool ?c k" for k
    using kept by (auto simp: may_be_empty_def act)
  have profile: "vget ?c ''profile_id'' \<in> VStr ` set vs \<Longrightarrow> ''research_agent'' \<notin> set vs \<Longrightarrow> vget d ''profile_id'' \<in> VStr ` set vs" for vs
    using s by (auto simp: vget_def vget_or_def at plain_schema_def split: option.splits)
  have needs: "set (required_action_arguments tool a ?c) \<subseteq> set (required_action_arguments tool a d)" for a
    using conditional_requirements [of _ "(tool, a)"] profile
    by (fastforce simp: required_action_arguments_def set_fromkeys split: if_splits)
  show ?thesis
    using none needs has empty unfolding no_missing_arguments act by blast
qed

text \<open>C13: planning and execution agree. A call without open bindings that the planning gate accepts is not blocked for its
  arguments by the executor, which checks the same schema and action after writing the defaults. The schemas are those of
  the registry: no empty enumeration, and an action with a default is required.\<close>

theorem planned_call_passes_executor:
  assumes ok: "validate_node w node = []" and unbound: "pn_bindings node = []" and dict: "distinct (map fst (node_args node))"
    and json: "\<not> has_key (node_args node) invalid_json_key"
    and schema: "node_schema w node = VDict s" "plain_schema s"
    and spec: "tl_tool_id spec = node_tool node" "tl_input_schema spec = s" "tl_metadata spec = node_metadata w node"
  shows "fst (argument_errors spec (VDict (node_args node))) = []"
proof -
  have "\<not> truthy (vget (node_args node) invalid_json_key)" using json by (simp add: has_key_def vget_def vget_or_def)
  with ok schema(1) have required: "\<forall>f \<in> set (names_at s ''required''). vget (node_args node) f \<noteq> VNone"
    and fields: "\<forall>(f, v) \<in> set (node_args node). argument_field_errors node s f v = []"
    and action: "missing_action_arguments (node_tool node) (node_args node) (node_metadata w node) [] = []"
    using unbound
    by (auto simp: validate_node_def validate_args_def missing_field_errors_def filter_empty_conv bound_fields_def
        validate_action_specific_required_args_def split: if_splits)
  have present: "f \<in> fst ` set (node_args node)" if "f \<in> set (names_at s ''required'')" for f
    using required that by (force simp: vget_def vget_or_def map_of_eq_None_iff split: option.splits)
  have "f \<in> fst ` set (dict_of (vget s ''properties''))" if "(f, v) \<in> set (node_args node)" "closed_object s" for f v
  proof -
    have "f \<noteq> invalid_json_key" using json that(1) by (force simp: has_key_iff)
    moreover have "argument_field_errors node s f v = []" using fields that(1) by blast
    ultimately have "map_of (property_schemas s) f \<noteq> None" using that(2) by (cases "map_of (property_schemas s) f") (auto simp: argument_field_errors_def)
    then show ?thesis by (simp add: property_lookup has_key_iff)
  qed
  moreover have "conforms p v" if "(f, v) \<in> set (node_args node)" "map_of (property_schemas s) f = Some p" for f v p
    using fields that schema(2) map_of_SomeD [OF that(2)]
    by (intro argument_field_conforms [of node s f v p]) (auto simp: plain_schema_def)
  ultimately have "admissible s (node_args node)"
    using present by (fastforce simp: admissible_def split: option.split)
  moreover have "map_of (node_args node) ''action'' \<noteq> None" if "''action'' \<in> set (names_at s ''required'')"
    using present [OF that] by (simp add: map_of_eq_None_iff)
  ultimately show ?thesis
    using missing_with_defaults [OF schema(2) _ action]
    by (simp add: argument_errors_dict(2) [OF dict] arguments_open_def spec)
qed


text \<open>A call of \<open>text.analyze\<close> with the schema the registry publishes for it.\<close>

definition text_schema :: schema where
  "text_schema =
     [(''type'', VStr ''object''),
      (''properties'', VDict
        [(''action'', VDict [(''type'', VStr ''string''), (''enum'', VList [VStr ''redact'', VStr ''extract_entities'', VStr ''match''])]),
         (''text'', VDict [(''type'', VStr ''string'')]), (''pattern'', VDict [(''type'', VStr ''string'')])]),
      (''required'', VList [VStr ''action'']), (''additionalProperties'', VBool False)]"

definition text_arguments :: pydict where
  "text_arguments = [(''action'', VStr ''match''), (''text'', VStr ''a1''), (''pattern'', VStr ''a'')]"

definition text_node :: planned_node where
  "text_node = \<lparr>node_id = ''c1'', node_tool = ''text.analyze'', node_args = text_arguments, node_retry_count = 0, pn_bindings = [],
     pn_action_original = [], pn_from_alias = False, pn_step_id = ''s1'', pn_depends_on = [], pn_failure_policy = ''replan'', pn_goal_ids = []\<rparr>"

definition text_world :: plan_world where
  "text_world = \<lparr>pw_catalogue = \<lparr>cat_extensions = [], cat_action_contract = action_execution_contract, cat_declared = \<lambda>_ _. [],
       cat_entry_declared = \<lambda>_ _. [], cat_raw_observation = \<lambda>_. False, cat_read_only_actions = \<lambda>_. []\<rparr>,
     pw_contract_schema = \<lambda>_. text_schema, pw_registry = \<lambda>_. []\<rparr>"

definition text_spec :: tool_spec where
  "text_spec = \<lparr>tl_tool_id = ''text.analyze'', tl_enabled = True, tl_risk_level = ''low'', tl_category = ''text'',
     tl_input_schema = text_schema, tl_timeout_seconds = 30, tl_dry_run_supported = False, tl_metadata = []\<rparr>"

theorem planned_call_passes_executor_witness:
  "validate_node text_world text_node = [] \<and> plain_schema text_schema \<and> fst (argument_errors text_spec (VDict text_arguments)) = []"
proof -
  have ok: "validate_node text_world text_node = []" "node_schema text_world text_node = VDict text_schema" "plain_schema text_schema"
    by code_simp+
  have "fst (argument_errors text_spec (VDict (node_args text_node))) = []"
    by (rule planned_call_passes_executor [OF ok(1) _ _ _ ok(2,3)])
      (simp_all add: text_node_def text_spec_def text_arguments_def has_key_def invalid_json_key_def node_metadata_def text_world_def)
  with ok show ?thesis by (simp add: text_node_def)
qed

subsection \<open>Contracts and retries\<close>

lemma canonical_tools:
  "list_all (\<lambda>(t, _). map_option ct_always_read_only (map_of builtin_contracts t) = Some False) canonical_actions"
  by code_simp

lemma canonical_tools_unpadded: "list_all (\<lambda>(t, _). t \<noteq> [] \<and> \<not> py_space (hd t) \<and> \<not> py_space (last t)) canonical_actions"
  by (simp add: canonical_actions_def py_space_def)

lemma canonical_tools_dotted: "list_all (\<lambda>(t, _). dunder_to_dot t = t) canonical_actions"
  by code_simp

lemma read_only_tools_read:
  "list_all (\<lambda>(t, _, c). List.member always_read_only_tools t \<longrightarrow> is_read c) action_contract_groups"
  by (simp add: action_contract_groups_def always_read_only_tools_def is_read_def vget_def vget_or_def read_contract_def)

lemma contract_of_read_only_tool:
  assumes "map_of action_execution_contracts (t, a) = Some c" "t \<in> set always_read_only_tools"
  shows "is_read c"
proof -
  from map_of_SomeD [OF assms(1)] obtain as where "(t, as, c) \<in> set action_contract_groups"
    by (auto simp: action_execution_contracts_def contracts_of_def)
  with read_only_tools_read assms(2) show ?thesis by (auto simp: list_all_iff)
qed

text \<open>The table of action contracts decides what may be tried again. Every action of a published schema has one consistent
  contract (a read has no side effect beyond reading outside, low risk and may be retried; only deletions are destructive);
  a call of the action counts as a read exactly when its contract says so, whatever the extensions declare; and the retry
  contract of any other call allows no retry.\<close>

theorem table_decides_retries:
  assumes table: "cat_action_contract cat = action_execution_contract"
    and action: "action_arg args \<in> set (table_at canonical_actions (dunder_to_dot tool))"
  defines "c \<equiv> action_execution_contract (dunder_to_dot tool) (action_arg args)"
  shows "contract_consistent c \<and> is_read_only_call cat tool args entry = is_read c \<and>
    (is_read c \<or> (\<exists>k. get_retry_contract cat tool args = Some k \<and> \<not> ct_idempotent k \<and> ct_max_retries k = 0))"
proof -
  let ?t = "dunder_to_dot tool" and ?a = "action_arg args"
  from table_at_in [OF action] obtain as where row: "(?t, as) \<in> set canonical_actions" by blast
  with canonical_tools_unpadded have t: "strip ?t = ?t" by (auto simp: list_all_iff intro: strip_unpadded)
  from row canonical_tools_dotted have dotted: "dunder_to_dot ?t = ?t" by (auto simp: list_all_iff)
  from row canonical_tools obtain k where k: "map_of builtin_contracts ?t = Some k" "\<not> ct_always_read_only k"
    by (auto simp: list_all_iff)
  have a: "lower (strip ?a) = ?a" by (simp add: action_arg_def strip_lower)
  from canonical_contract [OF action] have c: "map_of action_execution_contracts (?t, ?a) = Some c"
    by (auto simp: c_def action_execution_contract_def t a)
  then have consistent: "contract_consistent c" by (rule contract_lookup)
  then have "c \<noteq> []" by (simp add: contract_consistent_def)
  have "\<not> unsafe_device_commands cat ?t args"
    using row by (auto simp: unsafe_device_commands_def canonical_actions_def)
  with k c \<open>c \<noteq> []\<close> have reads: "is_read_only_call cat tool args e = is_read c" for e
    using contract_of_read_only_tool [OF c]
    by (cases "?t \<in> set always_read_only_tools")
      (simp_all add: is_read_only_call_def get_contract_def table c_def [symmetric] is_true_def is_read_def dotted)
  with k consistent show ?thesis by (simp add: get_retry_contract_def get_contract_def)
qed

theorem table_decides_retries_witness:
  "\<not> is_read_only_call (pw_catalogue text_world) ''workspace__file'' [(''action'', VStr ''write'')] [] \<and>
   (\<exists>k. get_retry_contract (pw_catalogue text_world) ''workspace__file'' [(''action'', VStr ''write'')] = Some k \<and> ct_max_retries k = 0)"
proof -
  have table: "cat_action_contract (pw_catalogue text_world) = action_execution_contract" by (simp add: text_world_def)
  have action: "List.member (table_at canonical_actions (dunder_to_dot ''workspace__file'')) (action_arg [(''action'', VStr ''write'')])"
    and "\<not> is_read (action_execution_contract (dunder_to_dot ''workspace__file'') (action_arg [(''action'', VStr ''write'')]))"
    by code_simp+
  then show ?thesis using table_decides_retries [OF table, of "[(''action'', VStr ''write'')]" "''workspace__file''" "[]"] by auto
qed

end
