(* ===== verification/Layering.thy ===== *)
theory Layering
  imports Lz_Prelude
begin

section \<open>Layering a dependency graph\<close>

text \<open>
  The loop that both \<^verbatim>\<open>core/runtime_engine/orchestration.py\<close> and \<^verbatim>\<open>workflows/service.py\<close> run: as long as names are left,
  those without open dependencies form the next layer, and they are taken out of the graph and of the dependencies of the
  others. The two differ in how a layer is arranged; the locale \<open>layering\<close> states what that may do, and what then holds of
  the layers. Every round takes at least one name out, so the loop ends.
\<close>

definition ready_names :: "(string \<times> string list) list \<Rightarrow> string list" where
  "ready_names pending = map fst (filter (\<lambda>(_, deps). deps = []) pending)"

definition drop_ready :: "string list \<Rightarrow> (string \<times> string list) list \<Rightarrow> (string \<times> string list) list" where
  "drop_ready ready pending =
     map (\<lambda>(s, deps). (s, filter (\<lambda>d. d \<notin> set ready) deps)) (filter (\<lambda>(s, _). s \<notin> set ready) pending)"

lemma set_ready_names: "set (ready_names pending) = {s. (s, []) \<in> set pending}"
  by (force simp: ready_names_def)

lemma drop_ready_less: "ready_names pending \<noteq> [] \<Longrightarrow> length (drop_ready (ready_names pending) pending) < length pending"
proof -
  assume "ready_names pending \<noteq> []"
  then obtain s where "s \<in> set (ready_names pending)" by (meson hd_in_set)
  then have "(s, []) \<in> set pending" and "s \<in> set (ready_names pending)" by (simp_all add: set_ready_names)
  then show ?thesis by (auto simp: drop_ready_def intro!: length_filter_less)
qed

function layers_by ::
  "'e \<Rightarrow> (string list \<Rightarrow> string list) \<Rightarrow> (string \<times> string list) list \<Rightarrow> 'e + string list list" where
  "layers_by cyc arrange pending =
     (if pending = [] then Inr []
      else let ready = ready_names pending
           in if ready = [] then Inl cyc
              else py_bind (layers_by cyc arrange (drop_ready ready pending)) (\<lambda>layers. Inr (arrange ready # layers)))"
  by pat_completeness auto
termination
  by (relation "measure (\<lambda>(_, _, pending). length pending)") (simp_all add: drop_ready_less)

declare layers_by.simps [simp del]

subsection \<open>The graph\<close>

definition edges :: "(string \<times> string list) list \<Rightarrow> (string \<times> string) set" where
  "edges pending = {(d, s). \<exists>ds. (s, ds) \<in> set pending \<and> d \<in> set ds}"

definition closed_graph :: "(string \<times> string list) list \<Rightarrow> bool" where
  "closed_graph pending = (distinct (map fst pending) \<and> (\<forall>(s, ds) \<in> set pending. set ds \<subseteq> fst ` set pending))"

lemma fst_drop_ready: "fst ` set (drop_ready ready pending) = fst ` set pending - set ready"
  by (force simp: drop_ready_def)

lemma mem_drop_ready:
  "(s, ds') \<in> set (drop_ready ready pending) \<longleftrightarrow>
     (\<exists>ds. (s, ds) \<in> set pending \<and> s \<notin> set ready \<and> ds' = filter (\<lambda>d. d \<notin> set ready) ds)"
  by (force simp: drop_ready_def)

lemma closed_graph_drop: "closed_graph pending \<Longrightarrow> closed_graph (drop_ready ready pending)"
proof -
  assume cg: "closed_graph pending"
  have "distinct (map fst (drop_ready ready pending))"
    using cg by (simp add: closed_graph_def drop_ready_def distinct_map_filter comp_def case_prod_beta)
  moreover have "\<forall>(s, ds) \<in> set (drop_ready ready pending). set ds \<subseteq> fst ` set (drop_ready ready pending)"
    using cg unfolding fst_drop_ready by (fastforce simp: mem_drop_ready closed_graph_def)
  ultimately show ?thesis by (simp add: closed_graph_def)
qed

lemma closed_graph_unique: "closed_graph pending \<Longrightarrow> (s, ds) \<in> set pending \<Longrightarrow> (s, es) \<in> set pending \<Longrightarrow> es = ds"
  by (auto simp: closed_graph_def dest: eq_key_imp_eq_value)

lemma finite_edges: "finite (edges pending)"
  by (rule finite_subset [of _ "\<Union>(s, ds) \<in> set pending. set ds \<times> {s}"]) (auto simp: edges_def)

lemma distinct_ready: "closed_graph pending \<Longrightarrow> distinct (ready_names pending)"
  by (simp add: ready_names_def closed_graph_def distinct_map_filter)

subsection \<open>The layers\<close>

locale layering =
  fixes arrange :: "string list \<Rightarrow> string list"
  assumes arrange_mset: "mset (arrange xs) = mset xs"
begin

lemma set_arrange [simp]: "set (arrange xs) = set xs"
  by (metis arrange_mset set_mset_mset)

lemma distinct_arrange [simp]: "distinct (arrange xs) = distinct xs"
  by (metis arrange_mset mset_eq_imp_distinct_iff)

lemma arrange_Nil [simp]: "arrange xs = [] \<longleftrightarrow> xs = []"
  by (metis arrange_mset mset_zero_iff)

lemma layers_topological:
  "layers_by cyc arrange pending = Inr layers \<Longrightarrow> closed_graph pending \<Longrightarrow>
     distinct (concat layers) \<and> set (concat layers) = fst ` set pending \<and>
     (\<forall>layer \<in> set layers. layer \<noteq> [] \<and> (\<exists>names. layer = arrange names)) \<and>
     (\<forall>pre layer post. layers = pre @ layer # post \<longrightarrow>
        (\<forall>s \<in> set layer. \<forall>ds. (s, ds) \<in> set pending \<longrightarrow> set ds \<subseteq> set (concat pre)))"
proof (induction pending arbitrary: layers rule: measure_induct_rule [where f = length])
  case (less pending)
  let ?ready = "ready_names pending"
  show ?case
  proof (cases "pending = []")
    case True
    with less.prems show ?thesis by (simp add: layers_by.simps)
  next
    case False
    with less.prems(1) obtain rest where ready: "?ready \<noteq> []"
      and rest: "layers_by cyc arrange (drop_ready ?ready pending) = Inr rest" and layers: "layers = arrange ?ready # rest"
      by (auto simp: layers_by.simps [of cyc arrange pending] Let_def py_bind_Inr split: if_splits)
    from less.IH [OF drop_ready_less [OF ready] rest closed_graph_drop [OF less.prems(2)]]
    have IH: "distinct (concat rest)" "set (concat rest) = fst ` set pending - set ?ready"
      "\<forall>layer \<in> set rest. layer \<noteq> [] \<and> (\<exists>names. layer = arrange names)"
      and deps: "\<And>pre layer post s ds. rest = pre @ layer # post \<Longrightarrow> s \<in> set layer \<Longrightarrow>
        (s, ds) \<in> set (drop_ready ?ready pending) \<Longrightarrow> set ds \<subseteq> set (concat pre)"
      by (simp_all add: fst_drop_ready)
    have "set ds \<subseteq> set (concat pre)"
      if split: "layers = pre @ layer # post" and s: "s \<in> set layer" and ds: "(s, ds) \<in> set pending"
      for pre layer post s ds
    proof (cases pre)
      case Nil
      with split layers s have "s \<in> set ?ready" by (metis append_Nil list.inject set_arrange)
      then have "(s, []) \<in> set pending" using set_ready_names [of pending] by blast
      with closed_graph_unique [OF less.prems(2) this ds] show ?thesis by simp
    next
      case (Cons r pre')
      with split layers have r: "r = arrange ?ready" and rest': "rest = pre' @ layer # post" by auto
      with IH(2) s have "s \<notin> set ?ready" by auto
      with ds have "(s, filter (\<lambda>d. d \<notin> set ?ready) ds) \<in> set (drop_ready ?ready pending)"
        by (auto simp: mem_drop_ready)
      from deps [OF rest' s this] Cons r show ?thesis by auto
    qed
    moreover have "set ?ready \<subseteq> fst ` set pending" by (force simp: set_ready_names)
    ultimately show ?thesis
      using IH layers ready distinct_ready [OF less.prems(2)] by auto
  qed
qed

lemma layers_stuck:
  "layers_by cyc arrange pending = Inl e \<Longrightarrow> closed_graph pending \<Longrightarrow>
     e = cyc \<and> (\<exists>S. S \<noteq> {} \<and> (\<forall>s \<in> S. \<exists>d \<in> S. (d, s) \<in> edges pending))"
proof (induction pending rule: measure_induct_rule [where f = length])
  case (less pending)
  let ?ready = "ready_names pending"
  from less.prems(1) have ne: "pending \<noteq> []" by (auto simp: layers_by.simps)
  show ?case
  proof (cases "?ready = []")
    case True
    have "\<exists>d \<in> fst ` set pending. (d, s) \<in> edges pending" if "s \<in> fst ` set pending" for s
    proof -
      from that obtain ds where ds: "(s, ds) \<in> set pending" by auto
      with True have "ds \<noteq> []" using set_ready_names [of pending] by force
      then obtain d where "d \<in> set ds" by (meson hd_in_set)
      with ds less.prems(2) show ?thesis by (fastforce simp: edges_def closed_graph_def)
    qed
    with ne True less.prems(1) show ?thesis
      by (intro conjI exI [of _ "fst ` set pending"]) (auto simp: layers_by.simps [of cyc arrange pending] Let_def)
  next
    case False
    with ne less.prems(1) have "layers_by cyc arrange (drop_ready ?ready pending) = Inl e"
      by (auto simp: layers_by.simps [of cyc arrange pending] Let_def py_bind_Inl)
    from less.IH [OF drop_ready_less [OF False] this closed_graph_drop [OF less.prems(2)]]
    obtain S where e: "e = cyc" and S: "S \<noteq> {}"
      and cyc: "\<forall>s \<in> S. \<exists>d \<in> S. (d, s) \<in> edges (drop_ready ?ready pending)" by auto
    have "edges (drop_ready ?ready pending) \<subseteq> edges pending"
      by (fastforce simp: edges_def mem_drop_ready)
    then show ?thesis using e S cyc by (intro conjI exI [of _ S]) auto
  qed
qed

lemma layers_acyclic:
  assumes "closed_graph pending"
  shows "(\<exists>layers. layers_by cyc arrange pending = Inr layers) \<longleftrightarrow> acyclic (edges pending)"
proof
  assume "\<exists>layers. layers_by cyc arrange pending = Inr layers"
  then obtain layers where ok: "layers_by cyc arrange pending = Inr layers" by blast
  note L = layers_topological [OF ok assms]
  let ?f = "\<lambda>s. length (takeWhile (\<lambda>l. s \<notin> set l) layers)"
  have "edges pending \<subseteq> measure ?f"
  proof (rule subrelI)
    fix d s assume "(d, s) \<in> edges pending"
    then obtain ds where ds: "(s, ds) \<in> set pending" "d \<in> set ds" by (auto simp: edges_def)
    from ds(1) have "s \<in> fst ` set pending" by force
    with L have "s \<in> set (concat layers)" by simp
    then obtain layer where "layer \<in> set layers" "s \<in> set layer" by auto
    then obtain pre post where split: "layers = pre @ layer # post" and s: "s \<in> set layer"
      by (meson split_list)
    from L have "\<forall>pre layer post. layers = pre @ layer # post \<longrightarrow>
        (\<forall>s \<in> set layer. \<forall>ds. (s, ds) \<in> set pending \<longrightarrow> set ds \<subseteq> set (concat pre))" by simp
    with split s ds have d: "d \<in> set (concat pre)" by blast
    from L split s have "\<forall>l \<in> set pre. s \<notin> set l" by auto
    with split s have "?f s = length pre" by (simp add: takeWhile_append)
    moreover from d split have "?f d < length pre"
      by (auto simp: takeWhile_append1 intro!: length_takeWhile_less)
    ultimately show "(d, s) \<in> measure ?f" by simp
  qed
  then show "acyclic (edges pending)" by (meson acyclic_subset wf_acyclic wf_measure)
next
  assume ac: "acyclic (edges pending)"
  then have wf: "wf (edges pending)" by (intro finite_acyclic_wf finite_edges)
  show "\<exists>layers. layers_by cyc arrange pending = Inr layers"
  proof (cases "layers_by cyc arrange pending")
    case (Inl e)
    from layers_stuck [OF this assms] obtain S s0 where "s0 \<in> S"
      "\<forall>s \<in> S. \<exists>d \<in> S. (d, s) \<in> edges pending" by blast
    with wf show ?thesis by (metis wfE_min)
  qed blast
qed

end

end
