(* ===== verification/Orchestration.thy ===== *)
theory Orchestration
  imports Py_Value Layering
begin

section \<open>Incremental tool-call orchestration\<close>

text \<open>
  \<^verbatim>\<open>core/runtime_engine/orchestration.py\<close>: a model reply may annotate its tool calls with step ids,
  dependencies and result bindings. The module strips the annotations from the arguments, checks one
  batch against the evidence of earlier batches, and layers it topologically; before a call runs,
  its bindings are replaced by values of the evidence. An \<open>OrchestrationError\<close> is a value of
  \<open>orch_error\<close>, one constructor per \<open>raise\<close>, carrying what the message interpolates.
  The regular expressions are written out as functions on strings.
\<close>

record tool_call =
  tc_id :: string
  tc_name :: string
  tc_arguments :: pydict
  tc_step_id :: string
  tc_depends_on :: "string list"
  tc_result_bindings :: "(string \<times> string) list"
  tc_failure_policy :: string
  tc_goal_ids :: "string list"

record step_evidence =
  se_step_id :: string
  se_call_id :: string
  se_tool_id :: string
  se_ok :: bool
  se_output :: pyval
  se_error :: string
  se_action :: string

datatype orch_error =
    DuplicateStepId
  | StepAlreadySucceeded "string list"
  | InvalidStepId string
  | DuplicateDependency string
  | UnknownDependencies string "string list"
  | SelfDependency string
  | InvalidFailurePolicy string string
  | InvalidBindingTarget string string
  | InvalidReference string
  | BindingSourceNotDeclared string string
  | UndeclaredBindingField string "string list"
  | UnsafeBindingTarget string string
  | DependencyCycle
  | BindingSourceMissing string
  | BindingSourceFailed string
  | BindingSourceTruncated string
  | BindingPathNotFound string

subsection \<open>Identifiers and references\<close>

definition step_id_ok :: "string \<Rightarrow> bool" where
  "step_id_ok s = (case s of [] \<Rightarrow> False
     | c # cs \<Rightarrow> is_alpha c \<and> list_all is_word_dash cs \<and> length cs \<le> 63)"

definition allowed_failure_policies :: "string set" where
  "allowed_failure_policies = {''replan'', ''stop'', ''continue''}"

text \<open>
  \<open>REFERENCE_RE\<close>, matched in full. The identifier group cannot stop inside a run of
  identifier characters, since what may follow it starts with a dot, so it is the whole run; both
  optional prefixes are tried first and given up when the rest does not match, as the backtracking
  matcher does.
\<close>

definition match_id :: "string \<Rightarrow> (string \<times> string) option" where
  "match_id s = (let run = takeWhile is_word_dash s
     in if step_id_ok run then Some (run, drop (length run) s) else None)"

definition match_path :: "string \<Rightarrow> string option" where
  "match_path r = (case r of [] \<Rightarrow> Some []
     | c # x \<Rightarrow> if c = CHR ''.'' \<and> x \<noteq> [] \<and> CHR 0x0A \<notin> set x then Some x else None)"

definition match_tail :: "string \<Rightarrow> string option" where
  "match_tail r =
     (if starts_with r ''.output''
      then (case match_path (drop 7 r) of Some p \<Rightarrow> Some p | None \<Rightarrow> match_path r)
      else match_path r)"

definition match_body :: "string \<Rightarrow> (string \<times> string) option" where
  "match_body s = (case match_id s of None \<Rightarrow> None
     | Some (i, r) \<Rightarrow> map_option (Pair i) (match_tail r))"

definition match_reference :: "string \<Rightarrow> (string \<times> string) option" where
  "match_reference s =
     (if starts_with s ''steps.''
      then (case match_body (drop 6 s) of Some m \<Rightarrow> Some m | None \<Rightarrow> match_body s)
      else match_body s)"

definition parse_reference :: "string \<Rightarrow> orch_error + string \<times> string list" where
  "parse_reference reference =
     (case match_reference (strip reference) of
        None \<Rightarrow> Inl (InvalidReference reference)
      | Some (i, p) \<Rightarrow> Inr (i, filter (\<lambda>part. part \<noteq> []) (split_on CHR ''.'' p)))"

subsection \<open>Extraction of the annotations\<close>

definition plan_keys :: "string list" where
  "plan_keys = [''plan_step_id'', ''plan_depends_on'', ''plan_bindings'', ''plan_failure'', ''plan_goal_ids'']"

definition safe_fallback :: "string \<Rightarrow> string" where
  "safe_fallback fallback_step_id =
     (let safe = take 56 (map (\<lambda>c. if is_word_dash c then c else CHR ''_'') (str_or fallback_step_id ''step''))
      in if safe = [] \<or> \<not> is_alpha (hd safe) then ''step_'' @ safe else safe)"

definition extract_orchestration ::
  "pydict \<Rightarrow> string \<Rightarrow> pydict \<times> string \<times> string list \<times> (string \<times> string) list \<times> string \<times> string list" where
  "extract_orchestration arguments fallback_step_id =
     (let cleaned = filter (\<lambda>(k, _). k \<notin> set plan_keys) arguments;
          raw_step_id = vget_or arguments ''plan_step_id'' (VStr []);
          raw_depends = vget_or arguments ''plan_depends_on'' (VList []);
          raw_bindings = vget_or arguments ''plan_bindings'' (VDict []);
          raw_failure = vget_or arguments ''plan_failure'' (VStr ''replan'');
          raw_goal_ids = vget_or arguments ''plan_goal_ids'' (VList []);
          step_id = (if truthy raw_step_id then strip (py_str raw_step_id) else safe_fallback fallback_step_id);
          depends_on = map (strip \<circ> py_str) (list_of raw_depends);
          bindings = fold (\<lambda>(k, v). AList.update (strip k) (strip (py_str v))) (dict_of raw_bindings) [];
          failure_policy = lower (strip (str_of_or raw_failure ''replan''));
          goal_ids = (case raw_goal_ids of
              VList gs \<Rightarrow> filter (\<lambda>g. g \<noteq> []) (map (strip \<circ> py_str) gs)
            | v \<Rightarrow> if strip (py_str v) \<noteq> [] then [strip (py_str v)] else [])
      in (cleaned, step_id, depends_on, bindings, failure_policy, goal_ids))"

subsection \<open>Validation of one batch\<close>

type_synonym target_validator = "string \<Rightarrow> pyval \<Rightarrow> string \<Rightarrow> bool"
type_synonym source_validator = "string \<Rightarrow> pyval \<Rightarrow> string list \<Rightarrow> bool"

definition call_step_id :: "tool_call \<Rightarrow> string" where
  "call_step_id c = str_or (tc_step_id c) (tc_id c)"

definition call_action :: "tool_call \<Rightarrow> pyval" where
  "call_action c = vget_or (tc_arguments c) ''action'' (VStr [])"

text \<open>The tool and action a binding reads from: a call of this batch, or earlier evidence.\<close>

definition binding_source ::
  "(string \<rightharpoonup> tool_call) \<Rightarrow> (string \<rightharpoonup> step_evidence) \<Rightarrow> string \<Rightarrow> string \<times> pyval" where
  "binding_source calls_by_step prior source_id =
     (case calls_by_step source_id of
        Some c \<Rightarrow> (tc_name c, call_action c)
      | None \<Rightarrow> (case prior source_id of
            Some e \<Rightarrow> (se_tool_id e, VStr (se_action e))
          | None \<Rightarrow> ([], VStr [])))"

text \<open>The body of the loop over one call's bindings.\<close>

definition check_binding ::
  "(string \<rightharpoonup> tool_call) \<Rightarrow> (string \<rightharpoonup> step_evidence) \<Rightarrow> target_validator option \<Rightarrow> source_validator option
   \<Rightarrow> tool_call \<Rightarrow> string \<Rightarrow> string \<times> string \<Rightarrow> orch_error + unit" where
  "check_binding calls_by_step prior tval sval call step_id = (\<lambda>(target, reference).
     py_bind (py_require (target \<noteq> [] \<and> CHR ''.'' \<notin> set target) (InvalidBindingTarget step_id target)) (\<lambda>_.
     py_bind (parse_reference reference) (\<lambda>(source_id, source_path).
     py_bind (py_require (source_id \<in> set (tc_depends_on call)) (BindingSourceNotDeclared source_id step_id)) (\<lambda>_.
     py_bind
       (if source_path = [] then Inr ()
        else let (source_tool_id, source_action) = binding_source calls_by_step prior source_id
             in py_require (case sval of None \<Rightarrow> False | Some f \<Rightarrow> f source_tool_id source_action source_path)
                  (UndeclaredBindingField source_tool_id source_path)) (\<lambda>_.
     py_require (case tval of None \<Rightarrow> False | Some f \<Rightarrow> f (tc_name call) (call_action call) target)
       (UnsafeBindingTarget (tc_name call) target))))))"

text \<open>The body of the loop over the calls: its checks, then the entry of \<open>dependencies\<close>.\<close>

definition check_call ::
  "string list \<Rightarrow> (string \<rightharpoonup> tool_call) \<Rightarrow> (string \<rightharpoonup> step_evidence) \<Rightarrow> target_validator option
   \<Rightarrow> source_validator option \<Rightarrow> tool_call \<times> string \<Rightarrow> orch_error + string \<times> string list" where
  "check_call current calls_by_step prior tval sval = (\<lambda>(call, step_id).
     let depends = tc_depends_on call;
         unknown = filter (\<lambda>d. d \<notin> set current \<and> prior d = None) depends;
         policy = str_or (tc_failure_policy call) ''replan''
     in
     py_bind (py_require (distinct depends) (DuplicateDependency step_id)) (\<lambda>_.
     py_bind (py_require (unknown = []) (UnknownDependencies step_id (sort unknown))) (\<lambda>_.
     py_bind (py_require (step_id \<notin> set depends) (SelfDependency step_id)) (\<lambda>_.
     py_bind (py_require (policy \<in> allowed_failure_policies) (InvalidFailurePolicy step_id policy)) (\<lambda>_.
     py_bind (py_each (check_binding calls_by_step prior tval sval call step_id) (tc_result_bindings call)) (\<lambda>_.
     Inr (step_id, filter (\<lambda>d. d \<in> set current) depends)))))))"

text \<open>The \<open>while pending\<close> loop: the steps of a layer keep the order of the calls.\<close>

definition layer_loop ::
  "(string \<Rightarrow> nat) \<Rightarrow> (string \<times> string list) list \<Rightarrow> orch_error + string list list" where
  "layer_loop original_order pending = layers_by DependencyCycle (sort_key original_order) pending"

interpretation batch: layering "sort_key original_order" for original_order
  by unfold_locales simp

lemma layer_loop_acyclic: "closed_graph pending \<Longrightarrow> (\<exists>layers. layer_loop ord pending = Inr layers) \<longleftrightarrow> acyclic (edges pending)"
  unfolding layer_loop_def by (rule batch.layers_acyclic)

lemma layer_loop_layers:
  assumes "layer_loop ord pending = Inr layers" "closed_graph pending"
  shows "distinct (concat layers) \<and> set (concat layers) = fst ` set pending \<and>
     (\<forall>layer \<in> set layers. layer \<noteq> [] \<and> sorted (map ord layer)) \<and>
     (\<forall>pre layer post. layers = pre @ layer # post \<longrightarrow>
        (\<forall>s \<in> set layer. \<forall>ds. (s, ds) \<in> set pending \<longrightarrow> set ds \<subseteq> set (concat pre)))"
  using batch.layers_topological [OF assms [unfolded layer_loop_def]] by fastforce

definition validate_incremental_graph ::
  "tool_call list \<Rightarrow> (string \<rightharpoonup> step_evidence) \<Rightarrow> target_validator option \<Rightarrow> source_validator option
   \<Rightarrow> orch_error + string list list" where
  "validate_incremental_graph calls prior tval sval =
     (let step_ids = map call_step_id calls;
          reused_successful =
            filter (\<lambda>s. case prior s of None \<Rightarrow> False | Some e \<Rightarrow> se_ok e) step_ids;
          calls_by_step = map_of (rev (zip step_ids calls));
          original_order = (\<lambda>s. length (takeWhile (\<lambda>t. t \<noteq> s) step_ids))
      in
      py_bind (py_require (distinct step_ids) DuplicateStepId) (\<lambda>_.
      py_bind (py_require (reused_successful = []) (StepAlreadySucceeded (sort reused_successful))) (\<lambda>_.
      py_bind (py_each (\<lambda>s. py_require (step_id_ok s) (InvalidStepId s)) step_ids) (\<lambda>_.
      py_bind (py_map (check_call step_ids calls_by_step prior tval sval) (zip calls step_ids)) (\<lambda>dependencies.
      layer_loop original_order dependencies)))))"

subsection \<open>Result bindings\<close>

definition path_step :: "pyval \<Rightarrow> string \<Rightarrow> pyval option" where
  "path_step v part = (case v of
       VDict d \<Rightarrow> map_of d part
     | VList xs \<Rightarrow>
         (if part \<noteq> [] \<and> list_all is_digit part
          then (case parse_digits part of None \<Rightarrow> None
                | Some i \<Rightarrow> if i < int (length xs) then Some (xs ! nat i) else None)
          else None)
     | _ \<Rightarrow> None)"

fun walk_path :: "pyval \<Rightarrow> string list \<Rightarrow> pyval option" where
  "walk_path v [] = Some v"
| "walk_path v (part # parts) = (case path_step v part of None \<Rightarrow> None | Some w \<Rightarrow> walk_path w parts)"

definition evidence_truncated :: "step_evidence \<Rightarrow> bool" where
  "evidence_truncated e =
     (case se_output e of
        VDict d \<Rightarrow> (case vget d ''_evidence_projection'' of VDict p \<Rightarrow> truthy (vget p ''truncated'') | _ \<Rightarrow> False)
      | _ \<Rightarrow> False)"

definition binding_value :: "(string \<rightharpoonup> step_evidence) \<Rightarrow> string \<Rightarrow> orch_error + pyval" where
  "binding_value evidence reference =
     py_bind (parse_reference reference) (\<lambda>(source_id, path).
       case evidence source_id of
         None \<Rightarrow> Inl (BindingSourceMissing source_id)
       | Some source \<Rightarrow>
           py_bind (py_require (se_ok source) (BindingSourceFailed source_id)) (\<lambda>_.
           py_bind (py_require (\<not> evidence_truncated source) (BindingSourceTruncated source_id)) (\<lambda>_.
           case walk_path (se_output source) path of
             None \<Rightarrow> Inl (BindingPathNotFound reference)
           | Some v \<Rightarrow> Inr v)))"

fun bind_all ::
  "(string \<rightharpoonup> step_evidence) \<Rightarrow> (string \<times> string) list \<Rightarrow> pydict \<Rightarrow> orch_error + pydict" where
  "bind_all evidence [] resolved = Inr resolved"
| "bind_all evidence ((target, reference) # rest) resolved =
     py_bind (binding_value evidence reference) (\<lambda>v. bind_all evidence rest (AList.update target v resolved))"

definition resolve_bindings ::
  "pydict \<Rightarrow> (string \<times> string) list \<Rightarrow> (string \<rightharpoonup> step_evidence) \<Rightarrow> orch_error + pydict" where
  "resolve_bindings arguments bindings evidence = bind_all evidence bindings arguments"

subsection \<open>What a tool's contract lets a binding touch\<close>

text \<open>A registry entry is a mapping or an object with a \<open>metadata\<close> attribute.\<close>

datatype registry_entry = EntryMapping pydict | EntryObject pyval

definition entry_metadata :: "registry_entry \<Rightarrow> pyval" where
  "entry_metadata e = (case e of
       EntryMapping d \<Rightarrow> vor (vget d ''metadata'') (VDict [])
     | EntryObject m \<Rightarrow> vor m (VDict []))"

definition declared_fields :: "string \<Rightarrow> registry_entry \<Rightarrow> pyval \<Rightarrow> string set option" where
  "declared_fields contract_key entry action =
     (case entry_metadata entry of
        VDict md \<Rightarrow>
          (case vget md contract_key of
             VDict declared \<Rightarrow>
               Some (\<Union>key \<in> {''*'', lower (strip (str_of_or action []))}.
                       set (map py_str (list_of (vget declared key))))
           | _ \<Rightarrow> None)
      | _ \<Rightarrow> None)"

definition binding_target_allowed ::
  "(string \<rightharpoonup> registry_entry) \<Rightarrow> string \<Rightarrow> pyval \<Rightarrow> string \<Rightarrow> bool" where
  "binding_target_allowed tool_registry tool_id action target =
     (case tool_registry (dunder_to_dot tool_id) of
        None \<Rightarrow> False
      | Some entry \<Rightarrow>
          (case declared_fields ''bindable_inputs'' entry action of
             None \<Rightarrow> False
           | Some allowed \<Rightarrow> target \<in> allowed))"

definition binding_source_allowed ::
  "(string \<rightharpoonup> registry_entry) \<Rightarrow> string \<Rightarrow> pyval \<Rightarrow> string list \<Rightarrow> bool" where
  "binding_source_allowed tool_registry tool_id action path =
     (case path of [] \<Rightarrow> True
      | field # _ \<Rightarrow>
          (case tool_registry (dunder_to_dot tool_id) of
             None \<Rightarrow> False
           | Some entry \<Rightarrow>
               (case declared_fields ''referenceable_outputs'' entry action of
                  None \<Rightarrow> False
                | Some allowed \<Rightarrow> field \<in> allowed)))"

subsection \<open>One batch\<close>

lemma check_call_Inr:
  "check_call current by_step prior tval sval (call, s) = Inr r \<longleftrightarrow>
     distinct (tc_depends_on call) \<and>
     (\<forall>d \<in> set (tc_depends_on call). d \<in> set current \<or> prior d \<noteq> None) \<and>
     s \<notin> set (tc_depends_on call) \<and>
     str_or (tc_failure_policy call) ''replan'' \<in> allowed_failure_policies \<and>
     (\<forall>b \<in> set (tc_result_bindings call). check_binding by_step prior tval sval call s b = Inr ()) \<and>
     r = (s, filter (\<lambda>d. d \<in> set current) (tc_depends_on call))"
  by (auto simp: check_call_def Let_def guard_simps filter_empty_conv)

lemma check_binding_Inr:
  "check_binding by_step prior tval sval call s (target, ref) = Inr u \<longleftrightarrow>
     target \<noteq> [] \<and> CHR ''.'' \<notin> set target \<and>
     (\<exists>source path. parse_reference ref = Inr (source, path) \<and> source \<in> set (tc_depends_on call) \<and>
        (path = [] \<or> (\<exists>f. sval = Some f \<and>
           f (fst (binding_source by_step prior source)) (snd (binding_source by_step prior source)) path)) \<and>
        (\<exists>f. tval = Some f \<and> f (tc_name call) (call_action call) target))"
proof (cases "parse_reference ref")
  case (Inr p)
  obtain source path where p: "p = (source, path)" by fastforce
  have sv: "(if path = [] then Inr () else py_require (case sval of None \<Rightarrow> False | Some f \<Rightarrow> f t a path) err) = Inr ()
      \<longleftrightarrow> path = [] \<or> (\<exists>f. sval = Some f \<and> f t a path)" for t a and err :: orch_error
    by (cases sval) (simp_all add: py_require_Inr)
  show ?thesis
    by (auto simp: check_binding_def Inr p py_bind_Inr py_require_Inr case_prod_beta Let_def sv split: option.splits)
qed (simp add: check_binding_def py_bind_Inr)

definition batch_node :: "string list \<Rightarrow> tool_call \<times> string \<Rightarrow> string \<times> string list" where
  "batch_node ids = (\<lambda>(call, s). (s, filter (\<lambda>d. d \<in> set ids) (tc_depends_on call)))"

definition batch_graph :: "tool_call list \<Rightarrow> (string \<times> string list) list" where
  "batch_graph calls = map (\<lambda>c. batch_node (map call_step_id calls) (c, call_step_id c)) calls"

definition step_order :: "string list \<Rightarrow> string \<Rightarrow> nat" where
  "step_order ids s = length (takeWhile (\<lambda>t. t \<noteq> s) ids)"

text \<open>The checks of a batch other than the one for cycles.\<close>

definition batch_checks ::
  "tool_call list \<Rightarrow> (string \<rightharpoonup> step_evidence) \<Rightarrow> target_validator option \<Rightarrow> source_validator option \<Rightarrow> bool" where
  "batch_checks calls prior tval sval =
     (let ids = map call_step_id calls in
      distinct ids \<and>
      (\<forall>s \<in> set ids. step_id_ok s \<and> (\<forall>e. prior s = Some e \<longrightarrow> \<not> se_ok e)) \<and>
      (\<forall>c \<in> set calls.
         \<exists>r. check_call ids (map_of (rev (zip ids calls))) prior tval sval (c, call_step_id c) = Inr r))"

lemma zip_map_self: "zip xs (map f xs) = map (\<lambda>x. (x, f x)) xs"
  by (induction xs) auto

lemma map_fst_batch_graph [simp]: "map fst (batch_graph calls) = map call_step_id calls"
  by (simp add: batch_graph_def batch_node_def)

lemma mem_batch_graph:
  "(s, ds) \<in> set (batch_graph calls) \<longleftrightarrow>
     (\<exists>c \<in> set calls. s = call_step_id c \<and> ds = filter (\<lambda>d. d \<in> call_step_id ` set calls) (tc_depends_on c))"
  by (auto simp: batch_graph_def batch_node_def)

lemma closed_batch_graph: "distinct (map call_step_id calls) \<Longrightarrow> closed_graph (batch_graph calls)"
proof -
  have "fst ` set (batch_graph calls) = call_step_id ` set calls"
    by (metis map_fst_batch_graph set_map)
  moreover assume "distinct (map call_step_id calls)"
  ultimately show ?thesis by (auto simp: closed_graph_def mem_batch_graph)
qed

lemma validate_Inr:
  "validate_incremental_graph calls prior tval sval = Inr layers \<longleftrightarrow>
     batch_checks calls prior tval sval \<and>
     layer_loop (step_order (map call_step_id calls)) (batch_graph calls) = Inr layers"
proof -
  let ?ids = "map call_step_id calls"
  let ?f = "check_call ?ids (map_of (rev (zip ?ids calls))) prior tval sval"
  have node: "y = batch_node ?ids x" if "?f x = Inr y" for x y
    using that by (cases x) (simp add: check_call_Inr batch_node_def)
  have "?f x = Inr (batch_node ?ids x) \<longleftrightarrow> (\<exists>r. ?f x = Inr r)" for x
    using node by metis
  then have "py_map ?f (zip calls ?ids) = Inr deps \<longleftrightarrow>
      (\<forall>c \<in> set calls. \<exists>r. ?f (c, call_step_id c) = Inr r) \<and> deps = batch_graph calls" for deps
    by (simp add: py_map_eq [OF node] batch_graph_def zip_map_self comp_def)
  then show ?thesis
    by (auto simp: validate_incremental_graph_def Let_def guard_simps batch_checks_def step_order_def [abs_def]
        filter_empty_conv split: option.splits)
qed

definition batch_edges :: "tool_call list \<Rightarrow> (string \<times> string) set" where
  "batch_edges calls =
     {(d, s). \<exists>c \<in> set calls. s = call_step_id c \<and> d \<in> set (tc_depends_on c) \<and> d \<in> call_step_id ` set calls}"

lemma edges_batch_graph: "edges (batch_graph calls) = batch_edges calls"
  by (auto simp: edges_def batch_edges_def mem_batch_graph)

lemma batch_checks_distinct: "batch_checks calls prior tval sval \<Longrightarrow> distinct (map call_step_id calls)"
  by (simp add: batch_checks_def Let_def)

lemma batch_checks_call:
  "batch_checks calls prior tval sval \<Longrightarrow> c \<in> set calls \<Longrightarrow>
     \<exists>r. check_call (map call_step_id calls) (map_of (rev (zip (map call_step_id calls) calls))) prior tval sval
       (c, call_step_id c) = Inr r"
  by (auto simp: batch_checks_def Let_def)

subsection \<open>Bindings\<close>

lemma bind_all_frame:
  "bind_all ev bs args = Inr res \<Longrightarrow> k \<notin> fst ` set bs \<Longrightarrow> map_of res k = map_of args k"
  by (induction ev bs args rule: bind_all.induct) (auto simp: py_bind_Inr update_conv')

lemma bind_all_values:
  "bind_all ev bs args = Inr res \<Longrightarrow> distinct (map fst bs) \<Longrightarrow> (t, r) \<in> set bs \<Longrightarrow>
     \<exists>v. binding_value ev r = Inr v \<and> map_of res t = Some v"
proof (induction ev bs args rule: bind_all.induct)
  case (2 ev target reference rest resolved)
  from "2.prems"(1) obtain v where v: "binding_value ev reference = Inr v"
    and rest: "bind_all ev rest (AList.update target v resolved) = Inr res" by (auto simp: py_bind_Inr)
  show ?case
  proof (cases "(t, r) = (target, reference)")
    case True
    with v bind_all_frame [OF rest, of target] "2.prems"(2) show ?thesis by (auto simp: update_conv')
  next
    case False
    with "2.prems"(2,3) have "distinct (map fst rest)" "(t, r) \<in> set rest" by auto
    with "2.IH" [OF rest] show ?thesis by simp
  qed
qed simp

lemma binding_value_Inr:
  "binding_value ev r = Inr v \<longleftrightarrow>
     (\<exists>source path e. parse_reference r = Inr (source, path) \<and> ev source = Some e \<and> se_ok e \<and>
        \<not> evidence_truncated e \<and> walk_path (se_output e) path = Some v)"
proof (cases "parse_reference r")
  case (Inr p)
  then show ?thesis
    by (cases p) (auto simp: binding_value_def py_bind_Inr py_require_Inr split: option.splits)
qed (simp add: binding_value_def)

subsection \<open>Fallback identifiers\<close>

lemma is_word_dash_extra [simp]: "is_word_dash CHR ''_''" "is_alpha CHR ''s''" "is_word_dash CHR ''t''"
  "is_word_dash CHR ''e''" "is_word_dash CHR ''p''"
  by (simp_all add: is_word_dash_def is_alpha_def)

lemma safe_fallback_ok: "step_id_ok (safe_fallback s)"
proof -
  let ?safe = "take 56 (map (\<lambda>c. if is_word_dash c then c else CHR ''_'') (str_or s ''step''))"
  have wd: "list_all is_word_dash ?safe"
    by (auto simp: list_all_iff dest!: in_set_takeD)
  have "length ?safe \<le> 56" by simp
  with wd show ?thesis
    by (cases ?safe) (auto simp: safe_fallback_def Let_def step_id_ok_def)
qed

lemma map_of_filter_keys: "map_of (filter (\<lambda>(k, _). p k) d) k = (if p k then map_of d k else None)"
  by (induction d) auto

subsection \<open>Properties\<close>


definition demo_call :: "string \<Rightarrow> string list \<Rightarrow> tool_call" where
  "demo_call s deps = \<lparr>tc_id = ''call-'' @ s, tc_name = ''data__manage'', tc_arguments = [], tc_step_id = s,
     tc_depends_on = deps, tc_result_bindings = [], tc_failure_policy = ''replan'', tc_goal_ids = []\<rparr>"

lemma demo_batch:
  "validate_incremental_graph
     [demo_call ''c'' [''a'', ''b''], demo_call ''a'' [], demo_call ''b'' [''a'']] (\<lambda>_. None) None None
   = Inr [[''a''], [''b''], [''c'']]"
  by code_simp


text \<open>C33: the validator accepts a batch exactly when its local checks pass (distinct, well-formed step
  ids none of which already succeeded; per call: declared, known dependencies, an allowed failure
  policy, admissible bindings) and the dependencies within the batch are acyclic: no acyclic batch is
  refused and no cyclic one is run.\<close>

theorem batch_accepted_iff:
  "(\<exists>layers. validate_incremental_graph calls prior tval sval = Inr layers) \<longleftrightarrow>
     batch_checks calls prior tval sval \<and> acyclic (batch_edges calls)"
proof (cases "batch_checks calls prior tval sval")
  case True
  from layer_loop_acyclic [OF closed_batch_graph [OF batch_checks_distinct [OF True]]] True
  show ?thesis by (simp add: validate_Inr edges_batch_graph)
qed (simp add: validate_Inr)

text \<open>C30: under the registry's validators, every binding of an accepted batch writes an argument that the
  destination tool's contract declares bindable, and reads either a whole result or a path whose first
  field the source tool publishes; the source is always a declared dependency of the call.\<close>

theorem accepted_bindings_governed:
  assumes ok: "validate_incremental_graph calls prior (Some (binding_target_allowed reg))
      (Some (binding_source_allowed reg)) = Inr layers"
    and call: "c \<in> set calls" and binding: "(target, reference) \<in> set (tc_result_bindings c)"
  shows "\<exists>source path tool action. parse_reference reference = Inr (source, path) \<and>
    source \<in> set (tc_depends_on c) \<and>
    binding_target_allowed reg (tc_name c) (call_action c) target \<and>
    (tool, action) = binding_source (map_of (rev (zip (map call_step_id calls) calls))) prior source \<and>
    (path = [] \<or> binding_source_allowed reg tool action path)"
proof -
  from ok have "batch_checks calls prior (Some (binding_target_allowed reg)) (Some (binding_source_allowed reg))"
    by (simp add: validate_Inr)
  from batch_checks_call [OF this call] binding
  have "check_binding (map_of (rev (zip (map call_step_id calls) calls))) prior (Some (binding_target_allowed reg))
      (Some (binding_source_allowed reg)) c (call_step_id c) (target, reference) = Inr ()"
    by (auto simp: check_call_Inr)
  then show ?thesis
    unfolding check_binding_Inr by (auto simp: prod_eq_iff)
qed

definition demo_registry :: "string \<rightharpoonup> registry_entry" where
  "demo_registry = [''data.manage'' \<mapsto> EntryMapping [(''metadata'', VDict
     [(''bindable_inputs'', VDict [(''*'', VList [VStr ''rows''])]),
      (''referenceable_outputs'', VDict [(''*'', VList [VStr ''items''])])])]]"

definition demo_bound :: tool_call where
  "demo_bound = (demo_call ''b'' [''a''])\<lparr>tc_result_bindings := [(''rows'', ''steps.a.output.items'')]\<rparr>"

lemma demo_bound_batch:
  "validate_incremental_graph [demo_call ''a'' [], demo_bound] (\<lambda>_. None)
     (Some (binding_target_allowed demo_registry)) (Some (binding_source_allowed demo_registry))
   = Inr [[''a''], [''b'']]"
  by code_simp

theorem accepted_bindings_governed_witness:
  "demo_bound \<in> set [demo_call ''a'' [], demo_bound] \<and>
   binding_target_allowed demo_registry (tc_name demo_bound) (call_action demo_bound) ''rows''"
  using accepted_bindings_governed [OF demo_bound_batch, of demo_bound "''rows''" "''steps.a.output.items''"]
  by (auto simp: demo_bound_def)

text \<open>Resolving a call's bindings writes exactly the bound arguments, each with the value that its
  reference selects in the output of an available, successful and untruncated step, and leaves every
  other argument as the model wrote it.\<close>

theorem resolve_bindings_exact:
  assumes "resolve_bindings arguments bindings evidence = Inr resolved" and "distinct (map fst bindings)"
  shows "(\<forall>k. k \<notin> fst ` set bindings \<longrightarrow> map_of resolved k = map_of arguments k) \<and>
    (\<forall>target reference. (target, reference) \<in> set bindings \<longrightarrow>
      (\<exists>source path e v. parse_reference reference = Inr (source, path) \<and> evidence source = Some e \<and>
         se_ok e \<and> \<not> evidence_truncated e \<and> walk_path (se_output e) path = Some v \<and>
         map_of resolved target = Some v))"
proof -
  from assms(1) have r: "bind_all evidence bindings arguments = Inr resolved" by (simp add: resolve_bindings_def)
  show ?thesis
    using bind_all_frame [OF r] bind_all_values [OF r assms(2)] by (fastforce simp: binding_value_Inr)
qed

definition demo_evidence :: step_evidence where
  "demo_evidence = \<lparr>se_step_id = ''a'', se_call_id = ''c1'', se_tool_id = ''data.manage'', se_ok = True,
     se_output = VDict [(''items'', VList [VInt 7, VStr ''x''])], se_error = [], se_action = []\<rparr>"

lemma demo_resolve:
  "resolve_bindings [(''action'', VStr ''sum'')] [(''rows'', ''a.output.items.1'')] [''a'' \<mapsto> demo_evidence]
   = Inr [(''action'', VStr ''sum''), (''rows'', VStr ''x'')]"
  by code_simp

theorem resolve_bindings_exact_witness:
  "map_of [(''action'', VStr ''sum''), (''rows'', VStr ''x'')] ''action'' = Some (VStr ''sum'') \<and>
   distinct (map fst [(''rows'', ''a.output.items.1'')])"
  using resolve_bindings_exact [OF demo_resolve] by simp

text \<open>Extraction never leaks an annotation into the handler's arguments and touches no other
  argument; and whatever call id the provider sends, a call without its own step id gets one that the
  validator's identifier pattern accepts.\<close>

theorem extraction_clean:
  "case extract_orchestration arguments fallback of (cleaned, step_id, _) \<Rightarrow>
     (\<forall>k. map_of cleaned k = (if k \<in> set plan_keys then None else map_of arguments k)) \<and>
     (truthy (vget_or arguments ''plan_step_id'' (VStr [])) \<or> step_id_ok step_id)"
  by (auto simp: extract_orchestration_def Let_def map_of_filter_keys safe_fallback_ok)

end
