(* ===== verification/Call_Preparation.thy ===== *)
theory Call_Preparation
  imports Semantic_Gate Orchestration
begin

section \<open>Preparing the calls of a reply\<close>

text \<open>
  \<open>_prepare_tool_calls\<close> of \<^verbatim>\<open>core/runtime_engine/loop_preparation.py\<close> with \<^verbatim>\<open>core/runtime_engine/pre_execution_repair.py\<close>: the
  calls become nodes with canonical actions, a deletion may get the path of a verified write the user named, the
  orchestration is validated, the planning gate judges the nodes, and a batch it refuses is repaired once and judged again.
  Nodes are mutated in place by the code; here each step returns the list. The records for the audit are left out.
\<close>

subsection \<open>Repair\<close>

definition repairable_error_codes :: "string list" where
  "repairable_error_codes =
     [''ARG_ENUM_INVALID'', ''ACTION_ALIAS_NOT_NORMALIZED'', ''MISSING_REQUIRED_ARG'', ''ARG_TYPE_MISMATCH'',
      ''ARG_RANGE_INVALID'', ''ARG_LENGTH_INVALID'', ''INVALID_ACTION_ALIAS'', ''NODE_ARG_NORMALIZABLE'',
      ''POTENTIAL_MISSING_INPUT'', ''INVALID_TOOL_ARGUMENTS_JSON'', ''ARG_REFERENCE_KIND_MISMATCH'']"

definition non_repairable_error_codes :: "string list" where
  "non_repairable_error_codes =
     [''FORBIDDEN_COMMAND'', ''POLICY_BLOCKED'', ''CRITICAL_RISK'', ''PATH_TRAVERSAL'', ''FORBIDDEN_ARG'',
      ''SYSTEM_DIRECTORY_WRITE'', ''DANGEROUS_PATH'', ''CREDENTIAL_ACCESS'', ''BUDGET_EXCEEDED'', ''FORBIDDEN_OPERATION'',
      ''DANGEROUS_OPERATION'']"

record repair_event =
  re_repaired :: bool
  re_node_id :: string
  re_original_action :: string
  re_normalized_action :: string
  re_operation :: "string option"
  re_source :: string
  re_attempt :: int
  re_code_before :: string
  re_validation_after :: string

record repair_result =
  rr_repaired :: bool
  rr_strategy :: string
  rr_events :: "repair_event list"
  rr_reason :: string
  rr_attempts :: int

definition can_repair :: "string list \<Rightarrow> bool" where
  "can_repair codes =
     (codes \<noteq> [] \<and> list_ex (\<lambda>c. c \<in> set repairable_error_codes) codes \<and>
      \<not> list_ex (\<lambda>c. c \<in> set non_repairable_error_codes) codes)"

text \<open>The rewrite that the three repair methods, and the normalization before them, make: \<open>None\<close> when the action is no text
  or no alias.\<close>

definition alias_of :: "string \<Rightarrow> pydict \<Rightarrow> alias_resolution option" where
  "alias_of tool args =
     (case vget_or args ''action'' (VStr []) of
        VStr a \<Rightarrow> if a = [] then None
          else let r = resolve_action_alias tool (VStr a) in (if ar_matched r then Some r else None)
      | _ \<Rightarrow> None)"

definition rewrite_action :: "alias_resolution \<Rightarrow> pydict \<Rightarrow> pydict" where
  "rewrite_action r args =
     (let args = AList.update ''action'' (VStr (ar_canonical r)) args in
      case ar_operation r of Some op \<Rightarrow> AList.update ''operation'' (VStr op) args | None \<Rightarrow> args)"

definition repair_event_for :: "semantic_error \<Rightarrow> int \<Rightarrow> alias_resolution option \<Rightarrow> repair_event" where
  "repair_event_for e attempt fix_opt =
     (case fix_opt of
        None \<Rightarrow> \<lparr>re_repaired = False, re_node_id = se_node e, re_original_action = [], re_normalized_action = [],
          re_operation = None, re_source = ''none'', re_attempt = attempt, re_code_before = se_code e, re_validation_after = []\<rparr>
      | Some r \<Rightarrow> \<lparr>re_repaired = True, re_node_id = se_node e, re_original_action = ar_original r,
          re_normalized_action = ar_canonical r, re_operation = ar_operation r, re_source = ar_source r,
          re_attempt = attempt, re_code_before = se_code e, re_validation_after = ''pass''\<rparr>)"

fun find_node :: "planned_node list \<Rightarrow> string \<Rightarrow> planned_node option" where
  "find_node [] i = None"
| "find_node (n # ns) i = (if node_id n = i then Some n else find_node ns i)"

fun alter_node :: "string \<Rightarrow> (planned_node \<Rightarrow> planned_node) \<Rightarrow> planned_node list \<Rightarrow> planned_node list" where
  "alter_node i f [] = []"
| "alter_node i f (n # ns) = (if node_id n = i then f n # ns else n # alter_node i f ns)"

definition set_args :: "pydict \<Rightarrow> planned_node \<Rightarrow> planned_node" where
  "set_args args n = n\<lparr>node_args := args\<rparr>"

lemma set_args_simps [simp]:
  "node_args (set_args args n) = args" "node_tool (set_args args n) = node_tool n" "node_id (set_args args n) = node_id n"
  "pn_bindings (set_args args n) = pn_bindings n" "pn_step_id (set_args args n) = pn_step_id n"
  "pn_depends_on (set_args args n) = pn_depends_on n"
  by (simp_all add: set_args_def)

text \<open>One error: the codes about actions are answered by the alias table, every other one leaves the node alone.\<close>

definition repair_error :: "int \<Rightarrow> semantic_error \<Rightarrow> planned_node list \<times> repair_event list \<Rightarrow> planned_node list \<times> repair_event list" where
  "repair_error attempt e = (\<lambda>(nodes, events).
     (case find_node nodes (se_node e) of
        None \<Rightarrow> (nodes, events)
      | Some n \<Rightarrow>
          (let fix_opt = (if se_code e \<in> {''ARG_ENUM_INVALID'', ''ACTION_ALIAS_NOT_NORMALIZED'', ''INVALID_ACTION_ALIAS'', ''NODE_ARG_NORMALIZABLE''}
                          then alias_of (node_tool n) (node_args n) else None)
           in (case fix_opt of None \<Rightarrow> nodes | Some r \<Rightarrow> alter_node (se_node e) (set_args (rewrite_action r (node_args n))) nodes,
               events @ [repair_event_for e attempt fix_opt]))))"

text \<open>\<open>try_repair\<close> of an engine that has repaired \<open>earlier\<close> batches; the nodes afterwards come second.\<close>

definition try_repair :: "int \<Rightarrow> planned_node list \<Rightarrow> semantic_error list \<Rightarrow> repair_result \<times> planned_node list" where
  "try_repair earlier nodes errors =
     (let codes = map se_code errors;
          refused = (\<lambda>reason. \<lparr>rr_repaired = False, rr_strategy = ''none'', rr_events = [], rr_reason = reason, rr_attempts = 0\<rparr>) in
      case List.find (\<lambda>c. c \<in> set non_repairable_error_codes) codes of
        Some c \<Rightarrow> (refused (''Non-repairable error: '' @ c), nodes)
      | None \<Rightarrow>
          if \<not> can_repair codes
          then (refused (''No repairable errors found in: '' @ py_repr (VList (map VStr codes))), nodes)
          else (let (nodes', events) = fold (repair_error (earlier + 1)) errors (nodes, []);
                    any = list_ex re_repaired events
                in (\<lparr>rr_repaired = any, rr_strategy = ''deterministic'', rr_events = events,
                     rr_reason = (if any then [] else ''Deterministic repair could not fix any errors''), rr_attempts = earlier + 1\<rparr>,
                    nodes')))"

subsection \<open>From calls to nodes\<close>

definition normalized_arguments :: "string \<Rightarrow> pydict \<Rightarrow> pydict \<times> string \<times> bool" where
  "normalized_arguments tool args =
     (case alias_of tool args of
        Some r \<Rightarrow> (rewrite_action r args, ar_original r, True)
      | None \<Rightarrow> (args, [], False))"

definition call_id :: "nat \<Rightarrow> tool_call \<Rightarrow> string" where
  "call_id i c = str_or (tc_id c) (''call_'' @ int_str (int i))"

definition call_to_node :: "nat \<Rightarrow> tool_call \<Rightarrow> planned_node" where
  "call_to_node i c =
     (let tool = dunder_to_dot (tc_name c); (args, original, aliased) = normalized_arguments tool (tc_arguments c) in
      \<lparr>node_id = call_id i c, node_tool = tool, node_args = args, node_retry_count = 0,
       pn_bindings = tc_result_bindings c, pn_action_original = original, pn_from_alias = aliased, pn_step_id = tc_step_id c,
       pn_depends_on = tc_depends_on c, pn_failure_policy = tc_failure_policy c, pn_goal_ids = tc_goal_ids c\<rparr>)"

definition tool_calls_to_nodes :: "tool_call list \<Rightarrow> planned_node list" where
  "tool_calls_to_nodes calls = map (\<lambda>(i, c). call_to_node i c) (enumerate 0 calls)"

definition node_to_call :: "planned_node \<Rightarrow> tool_call" where
  "node_to_call n =
     \<lparr>tc_id = node_id n, tc_name = node_tool n, tc_arguments = node_args n, tc_step_id = pn_step_id n,
      tc_depends_on = pn_depends_on n, tc_result_bindings = pn_bindings n, tc_failure_policy = pn_failure_policy n,
      tc_goal_ids = pn_goal_ids n\<rparr>"

subsection \<open>The path of a deletion\<close>

text \<open>\<open>PurePosixPath(p).name\<close>\<close>

definition posix_name :: "string \<Rightarrow> string" where
  "posix_name p = (case filter (\<lambda>c. c \<noteq> [] \<and> c \<noteq> ''.'') (split_on (CHR ''/'') p) of [] \<Rightarrow> [] | cs \<Rightarrow> last cs)"

text \<open>\<open>basename.split("__", 1)[1]\<close>, when it is there\<close>

fun after_dunder :: "string \<Rightarrow> string option" where
  "after_dunder (c # d # cs) = (if c = CHR ''_'' \<and> d = CHR ''_'' then Some cs else after_dunder (d # cs))"
| "after_dunder _ = None"

definition name_char :: "char \<Rightarrow> bool" where
  "name_char c = (is_alpha c \<or> is_digit c \<or> c \<in> {CHR ''_'', CHR ''.'', CHR ''-''})"

text \<open>The name occurs in the request with no name character before or after it.\<close>

fun named_from :: "bool \<Rightarrow> string \<Rightarrow> string \<Rightarrow> bool" where
  "named_from after_name name [] = (\<not> after_name \<and> name = [])"
| "named_from after_name name (c # cs) =
     (\<not> after_name \<and> starts_with (c # cs) name \<and>
        (case drop (length name) (c # cs) of [] \<Rightarrow> True | d # _ \<Rightarrow> \<not> name_char d) \<or>
      named_from (name_char c) name cs)"

definition explicitly_named :: "string \<Rightarrow> string \<Rightarrow> bool" where
  "explicitly_named request name = named_from False name request"

text \<open>A verified write of the history: its path and the names it goes by.\<close>

definition verified_write :: "pydict \<Rightarrow> (string \<times> string list) option" where
  "verified_write item =
     (let args = dict_of (vget item ''arguments''); path = strip (str_of_or (vget (dict_of (vget item ''output'')) ''filepath'') []);
          filename = strip (str_of_or (vget args ''filename'') []); base = posix_name path in
      if vget item ''ok'' \<noteq> VBool True \<or> vget item ''tool'' \<noteq> VStr ''workspace.file'' \<or>
         lower (str_of_or (vget args ''action'') []) \<notin> {''write'', ''write_artifact''} \<or>
         \<not> is_vdict (vget item ''output'') \<or> path = [] then None
      else Some (path, filter (\<lambda>a. a \<noteq> [])
             ([base] @ (if filename = [] then [] else [posix_name filename]) @
              (case after_dunder base of Some rest \<Rightarrow> [rest] | None \<Rightarrow> []))))"

definition named_writes :: "string \<Rightarrow> pydict list \<Rightarrow> string list" where
  "named_writes request history =
     remdups (map fst (filter (\<lambda>(_, names). list_ex (explicitly_named request) names) (List.map_filter verified_write history)))"

definition fill_delete_path :: "string \<Rightarrow> planned_node \<Rightarrow> planned_node" where
  "fill_delete_path path n =
     (if node_tool n = ''workspace.file'' \<and> lower (str_of_or (vget (node_args n) ''action'') []) = ''delete'' \<and>
         strip (str_of_or (vget (node_args n) ''filepath'') []) = []
      then set_args (AList.update ''filepath'' (VStr path) (node_args n)) n else n)"

definition fill_delete_paths :: "string \<Rightarrow> pydict list \<Rightarrow> planned_node list \<Rightarrow> planned_node list" where
  "fill_delete_paths request history nodes =
     (case named_writes request history of [path] \<Rightarrow> map (fill_delete_path path) nodes | _ \<Rightarrow> nodes)"

subsection \<open>Topology aliases\<close>

definition topology_aliases :: "(string \<times> string) list" where
  "topology_aliases =
     [(''nodes'', ''node_updates''), (''links'', ''link_updates''), (''groups'', ''group_updates''), (''zones'', ''group_updates''),
      (''canvas_items'', ''canvas_item_updates'')]"

definition copy_alias :: "string \<times> string \<Rightarrow> pydict \<Rightarrow> pydict" where
  "copy_alias = (\<lambda>(old, new) args.
     if has_key args old \<and> \<not> truthy (vget args new) then AList.update new (vget args old) args else args)"

definition topology_change_keys :: "string list" where
  "topology_change_keys =
     [''nodes'', ''node_updates'', ''links'', ''link_updates'', ''groups'', ''group_updates'', ''zones'', ''canvas_items'',
      ''canvas_item_updates'', ''remove_node_ids'', ''remove_link_ids'', ''remove_group_ids'', ''remove_canvas_item_ids'']"

definition normalize_topology :: "planned_node \<Rightarrow> planned_node" where
  "normalize_topology n =
     (if node_tool n \<noteq> ''network.operations.topology'' then n
      else (let args = fold copy_alias topology_aliases (node_args n);
                patch = list_ex (\<lambda>k. truthy (vget args k)) topology_change_keys \<or>
                        list_ex (has_key args) [''name'', ''title'', ''description'', ''summary'', ''comment'']
            in set_args (if truthy (vget args ''action'') then args
                         else AList.update ''action'' (VStr (if patch then ''patch'' else ''read'')) args) n))"

subsection \<open>The preparation\<close>

record prepare_context =
  pc_request :: string
  pc_history :: "pydict list"
  pc_evidence :: "string \<rightharpoonup> step_evidence"
  pc_target :: target_validator
  pc_source :: source_validator

datatype preparation =
    Prepared "tool_call list" risk
  | Orchestration_refused orch_error
  | Semantics_refused "semantic_error list" bool

definition planned_nodes :: "prepare_context \<Rightarrow> tool_call list \<Rightarrow> planned_node list" where
  "planned_nodes ctx calls =
     map normalize_topology (fill_delete_paths (pc_request ctx) (pc_history ctx) (tool_calls_to_nodes calls))"

text \<open>A batch that was not repaired is not judged again; nothing has changed in it.\<close>

definition prepare_tool_calls :: "plan_world \<Rightarrow> prepare_context \<Rightarrow> tool_call list \<Rightarrow> preparation" where
  "prepare_tool_calls w ctx calls =
     (case validate_incremental_graph calls (pc_evidence ctx) (Some (pc_target ctx)) (Some (pc_source ctx)) of
        Inl e \<Rightarrow> Orchestration_refused e
      | Inr _ \<Rightarrow>
          (let nodes = planned_nodes ctx calls;
               (errors, risk) = validate_batch w nodes;
               (nodes, errors, risk) =
                 (if errors = [] then (nodes, errors, risk)
                  else let (result, nodes') = try_repair 0 nodes errors in
                    if rr_repaired result then (nodes', validate_batch w nodes') else (nodes', errors, risk))
           in if errors \<noteq> []
              then Semantics_refused errors (list_ex (\<lambda>e. se_code e \<notin> set repairable_error_codes) errors)
              else Prepared (map node_to_call nodes) risk))"

subsection \<open>Rewrites\<close>

lemma resolved_alias:
  assumes "ar_matched (resolve_action_alias tool v)"
  shows "ar_canonical (resolve_action_alias tool v) \<in> set (table_at canonical_actions tool)"
    "\<not> ar_matched (resolve_action_alias tool (VStr (ar_canonical (resolve_action_alias tool v))))"
proof -
  let ?o = "case v of VStr s \<Rightarrow> strip s | _ \<Rightarrow> []"
  from assms obtain c op where row: "?o \<noteq> []" "?o \<notin> set (table_at canonical_actions tool)"
      "map_of (table_at canonical_aliases_by_tool tool) ?o = Some (c, op)"
    by (cases "map_of (table_at canonical_aliases_by_tool tool) ?o")
      (auto simp: resolve_action_alias_def Let_def canonical_aliases_global_def split: if_splits)
  then have "ar_canonical (resolve_action_alias tool v) = c" by (simp add: resolve_action_alias_def Let_def)
  with alias_row [OF row(3)] show "ar_canonical (resolve_action_alias tool v) \<in> set (table_at canonical_actions tool)"
    "\<not> ar_matched (resolve_action_alias tool (VStr (ar_canonical (resolve_action_alias tool v))))"
    by (simp_all add: resolve_action_alias_def Let_def)
qed

lemma alias_of_Some:
  assumes "alias_of tool args = Some r"
  shows "ar_canonical r \<in> set (table_at canonical_actions tool)" "alias_of tool (rewrite_action r args) = None"
    and "k \<notin> {''action'', ''operation''} \<Longrightarrow> map_of (rewrite_action r args) k = map_of args k"
    and "vget (rewrite_action r args) ''action'' = VStr (ar_canonical r)"
proof -
  from assms obtain a where r: "r = resolve_action_alias tool (VStr a)" "ar_matched r"
    by (auto simp: alias_of_def Let_def split: pyval.splits if_splits)
  then show "ar_canonical r \<in> set (table_at canonical_actions tool)" using resolved_alias(1) by blast
  show "vget (rewrite_action r args) ''action'' = VStr (ar_canonical r)"
    by (simp add: rewrite_action_def Let_def split: option.split)
  show "map_of (rewrite_action r args) k = map_of args k" if "k \<notin> {''action'', ''operation''}"
    using that by (simp add: rewrite_action_def Let_def update_conv' split: option.split)
  have "vget_or (rewrite_action r args) ''action'' (VStr []) = VStr (ar_canonical r)"
    by (simp add: rewrite_action_def Let_def split: option.split)
  then show "alias_of tool (rewrite_action r args) = None"
    using resolved_alias(2) r by (simp add: alias_of_def Let_def)
qed

text \<open>A node after a repair: the same, or with its alias rewritten.\<close>

definition action_rewrite :: "planned_node \<Rightarrow> planned_node \<Rightarrow> bool" where
  "action_rewrite n n' =
     (n' = n \<or> (\<exists>r. alias_of (node_tool n) (node_args n) = Some r \<and> n' = set_args (rewrite_action r (node_args n)) n))"

lemma action_rewrite_settled:
  "action_rewrite n n' \<Longrightarrow> alias_of (node_tool n') (node_args n') = Some r \<Longrightarrow> n' = n"
  using alias_of_Some(2) by (auto simp: action_rewrite_def set_args_def)

lemma alter_node_rewrite:
  assumes "list_all2 action_rewrite nodes nodes'" "find_node nodes' i = Some n" "alias_of (node_tool n) (node_args n) = Some r"
  shows "list_all2 action_rewrite nodes (alter_node i (set_args (rewrite_action r (node_args n))) nodes')"
  using assms
proof (induction nodes nodes' rule: list_all2_induct)
  case (Cons m ms m' ms')
  show ?case
  proof (cases "node_id m' = i")
    case True
    with Cons.prems have "m' = n" "m = n" using action_rewrite_settled Cons.hyps(1) by auto
    moreover have "action_rewrite n (set_args (rewrite_action r (node_args n)) n)"
      using Cons.prems(2) by (auto simp: action_rewrite_def)
    ultimately show ?thesis using Cons.hyps True by simp
  qed (use Cons in auto)
qed simp

lemma repair_error_rewrites:
  assumes "list_all2 action_rewrite nodes (fst s)"
    and "list_ex re_repaired (snd s) \<or> fst s = nodes"
  shows "list_all2 action_rewrite nodes (fst (repair_error k e s))"
    and "list_ex re_repaired (snd (repair_error k e s)) \<or> fst (repair_error k e s) = nodes"
  using assms alter_node_rewrite [OF assms(1)]
  by (auto simp: repair_error_def repair_event_for_def Let_def case_prod_unfold split: option.split if_splits)

lemma repairs_rewrite:
  assumes "list_all2 action_rewrite nodes (fst s)" "list_ex re_repaired (snd s) \<or> fst s = nodes"
  shows "list_all2 action_rewrite nodes (fst (fold (repair_error k) es s)) \<and>
    (list_ex re_repaired (snd (fold (repair_error k) es s)) \<or> fst (fold (repair_error k) es s) = nodes)"
  using assms
proof (induction es arbitrary: s)
  case (Cons e es)
  from Cons.IH [OF repair_error_rewrites [OF Cons.prems]] show ?case by simp
qed simp

lemma find_non_repairable: "(List.find P xs = None) = (\<forall>x \<in> set xs. \<not> P x)"
  by (auto simp: find_None_iff)

lemma try_repair_rewrites:
  assumes "(result, nodes') = try_repair k nodes errors"
  shows "list_all2 action_rewrite nodes nodes'" "rr_repaired result \<or> nodes' = nodes"
    and "\<exists>e \<in> set errors. se_code e \<in> set non_repairable_error_codes \<Longrightarrow> \<not> rr_repaired result"
proof -
  have same: "list_all2 action_rewrite nodes nodes" by (simp add: list_all2_refl action_rewrite_def)
  let ?s = "fold (repair_error (k + 1)) errors (nodes, [])"
  have s: "list_all2 action_rewrite nodes (fst ?s)" "list_ex re_repaired (snd ?s) \<or> fst ?s = nodes"
    using repairs_rewrite [of nodes "(nodes, [])"] same by auto
  show "list_all2 action_rewrite nodes nodes'" "rr_repaired result \<or> nodes' = nodes"
    using assms same s by (auto simp: try_repair_def Let_def case_prod_unfold split: option.splits if_splits)
  assume "\<exists>e \<in> set errors. se_code e \<in> set non_repairable_error_codes"
  then have "List.find (\<lambda>c. c \<in> set non_repairable_error_codes) (map se_code errors) \<noteq> None"
    by (auto simp: find_None_iff)
  with assms show "\<not> rr_repaired result" by (auto simp: try_repair_def Let_def)
qed

subsection \<open>Properties\<close>

text \<open>The repair never invents an argument. A node afterwards is the node before, or has an alias of its tool rewritten to the
  canonical action of the schema (with the operation the alias stands for) and nothing else changed; a batch with an error
  about security or policy is refused unchanged.\<close>

theorem repair_rewrites_aliases_only:
  assumes "try_repair k nodes errors = (result, nodes')"
  shows "list_all2 (\<lambda>n n'. n' = n \<or>
      (\<exists>r. alias_of (node_tool n) (node_args n) = Some r \<and> n' = set_args (node_args n') n \<and>
         vget (node_args n') ''action'' = VStr (ar_canonical r) \<and>
         ar_canonical r \<in> set (table_at canonical_actions (node_tool n)) \<and>
         (\<forall>f. f \<notin> {''action'', ''operation''} \<longrightarrow> map_of (node_args n') f = map_of (node_args n) f))) nodes nodes' \<and>
    (\<not> rr_repaired result \<longrightarrow> nodes' = nodes) \<and>
    ((\<exists>e \<in> set errors. se_code e \<in> set non_repairable_error_codes) \<longrightarrow> \<not> rr_repaired result)"
proof -
  note r = try_repair_rewrites [OF assms [symmetric]]
  show ?thesis
    by (intro conjI list.rel_mono_strong [OF r(1)])
      (use alias_of_Some r(2,3) in \<open>fastforce simp: action_rewrite_def\<close>)+
qed

text \<open>Calls that were normalized hold no alias, so the repair leaves them as they are.\<close>

lemma planned_nodes_normalized: "n \<in> set (planned_nodes ctx calls) \<Longrightarrow> alias_of (node_tool n) (node_args n) = None"
proof -
  have norm: "alias_of tool (fst (normalized_arguments tool args)) = None" for tool args
    by (cases "alias_of tool args") (simp_all add: normalized_arguments_def alias_of_Some(2))
  have calls: "alias_of (node_tool n) (node_args n) = None" if "n \<in> set (tool_calls_to_nodes calls)" for n
    using that norm by (auto simp: tool_calls_to_nodes_def call_to_node_def Let_def case_prod_unfold)
  have filled: "alias_of (node_tool (fill_delete_path p n)) (node_args (fill_delete_path p n)) = alias_of (node_tool n) (node_args n)" for p n
    by (simp add: fill_delete_path_def alias_of_def split: pyval.split)
  have "alias_of (node_tool n) (node_args n) = None"
    if "n \<in> set (fill_delete_paths (pc_request ctx) (pc_history ctx) (tool_calls_to_nodes calls))" for n
    using that calls filled by (auto simp: fill_delete_paths_def split: list.splits)
  moreover have "alias_of ''network.operations.topology'' args = None" for args
    by (simp add: alias_of_def resolve_action_alias_def table_at_def canonical_actions_def canonical_aliases_by_tool_def
        canonical_aliases_global_def Let_def split: pyval.split)
  ultimately show "n \<in> set (planned_nodes ctx calls) \<Longrightarrow> alias_of (node_tool n) (node_args n) = None"
    by (auto simp: planned_nodes_def normalize_topology_def set_args_def Let_def)
qed

lemma repair_idle:
  assumes "\<And>n. n \<in> set nodes \<Longrightarrow> alias_of (node_tool n) (node_args n) = None"
  shows "\<not> rr_repaired (fst (try_repair k nodes errors))"
proof -
  have found: "find_node nodes i = Some n \<Longrightarrow> n \<in> set nodes" for i n
    by (induction nodes) (auto split: if_splits)
  have "fst (fold (repair_error j) es (nodes, evs)) = nodes \<and>
      (list_ex re_repaired (snd (fold (repair_error j) es (nodes, evs))) \<longleftrightarrow> list_ex re_repaired evs)" for j es evs
  proof (induction es arbitrary: evs)
    case (Cons e es)
    have "\<exists>ev. repair_error j e (nodes, evs) = (nodes, evs @ ev) \<and> \<not> list_ex re_repaired ev"
      using assms found by (auto simp: repair_error_def repair_event_for_def Let_def split: option.split)
    then obtain ev where "repair_error j e (nodes, evs) = (nodes, evs @ ev)" "\<not> list_ex re_repaired ev" by blast
    with Cons.IH [of "evs @ ev"] show ?case by simp
  qed simp
  then show ?thesis by (auto simp: try_repair_def Let_def case_prod_unfold split: option.split)
qed

text \<open>C23: a reply is prepared exactly when the orchestration accepts its calls and the planning gate accepts every node; the
  prepared calls are those nodes. The repair never has a part in it, since normalized calls hold no alias.\<close>

theorem preparation_exact:
  "prepare_tool_calls w ctx calls = Prepared calls' risk \<longleftrightarrow>
     (\<exists>layers. validate_incremental_graph calls (pc_evidence ctx) (Some (pc_target ctx)) (Some (pc_source ctx)) = Inr layers) \<and>
     (\<forall>n \<in> set (planned_nodes ctx calls). validate_node w n = []) \<and>
     calls' = map node_to_call (planned_nodes ctx calls) \<and> risk = compute_risk_level w (planned_nodes ctx calls)"
proof -
  let ?n = "planned_nodes ctx calls"
  have idle: "\<not> rr_repaired (fst (try_repair 0 ?n (fst (validate_batch w ?n))))"
    by (rule repair_idle) (rule planned_nodes_normalized)
  show ?thesis
  proof (cases "validate_incremental_graph calls (pc_evidence ctx) (Some (pc_target ctx)) (Some (pc_source ctx))")
    case (Inr layers)
    then show ?thesis
      using idle by (auto simp: prepare_tool_calls_def validate_batch_def Let_def case_prod_unfold)
  qed (simp add: prepare_tool_calls_def)
qed


definition search_node :: planned_node where
  "search_node = \<lparr>node_id = ''c1'', node_tool = ''web.manage'',
     node_args = [(''action'', VStr ''web_search''), (''query'', VStr ''ospf'')], node_retry_count = 0, pn_bindings = [],
     pn_action_original = [], pn_from_alias = False, pn_step_id = ''s1'', pn_depends_on = [], pn_failure_policy = ''replan'',
     pn_goal_ids = []\<rparr>"

definition alias_error :: semantic_error where
  "alias_error = \<lparr>se_node = ''c1'', se_code = ''ACTION_ALIAS_NOT_NORMALIZED'', se_details = []\<rparr>"

theorem repair_rewrites_aliases_only_witness:
  "length (snd (try_repair 0 [search_node] [alias_error])) = 1 \<and>
   map (\<lambda>n. vget (node_args n) ''action'') (snd (try_repair 0 [search_node] [alias_error])) = [VStr ''search'']"
proof
  obtain result nodes' where e: "try_repair 0 [search_node] [alias_error] = (result, nodes')" by fastforce
  have "length [search_node] = length nodes'"
    using repair_rewrites_aliases_only [OF e] list_all2_lengthD by blast
  with e show "length (snd (try_repair 0 [search_node] [alias_error])) = 1" by simp
  show "map (\<lambda>n. vget (node_args n) ''action'') (snd (try_repair 0 [search_node] [alias_error])) = [VStr ''search'']"
    by code_simp
qed

definition text_call :: tool_call where
  "text_call = \<lparr>tc_id = ''c1'', tc_name = ''text__analyze'', tc_arguments = text_arguments, tc_step_id = ''s1'', tc_depends_on = [],
     tc_result_bindings = [], tc_failure_policy = ''replan'', tc_goal_ids = []\<rparr>"

definition text_context :: prepare_context where
  "text_context = \<lparr>pc_request = ''match it'', pc_history = [], pc_evidence = \<lambda>_. None, pc_target = \<lambda>_ _ _. True, pc_source = \<lambda>_ _ _. True\<rparr>"

theorem preparation_exact_witness:
  "prepare_tool_calls text_world text_context [text_call] = Prepared [text_call\<lparr>tc_name := ''text.analyze''\<rparr>] Low"
proof -
  have "validate_incremental_graph [text_call] (pc_evidence text_context) (Some (pc_target text_context)) (Some (pc_source text_context)) =
      Inr [[''s1'']]" by code_simp
  moreover have "planned_nodes text_context [text_call] = [text_node]" by code_simp
  moreover have "validate_node text_world text_node = []" "compute_risk_level text_world [text_node] = Low" by code_simp+
  moreover have "node_to_call text_node = text_call\<lparr>tc_name := ''text.analyze''\<rparr>"
    by (simp add: node_to_call_def text_node_def text_call_def)
  ultimately show ?thesis by (simp add: preparation_exact)
qed

end
