(* ===== verification/Batch_Compiler.thy ===== *)
theory Batch_Compiler
  imports Orchestration
begin

section \<open>Compiling scalar calls into batch actions\<close>

text \<open>
  \<^verbatim>\<open>core/runtime_engine/batch_compiler.py\<close>: a tool may declare that a run of scalar calls of one action can be
  sent as one call of a batch action. The compiler groups the eligible calls of a reply, splits each group
  into contiguous runs and the runs into bounded chunks, and replaces every chunk of two or more calls by one. The
  code indexes arguments of a call with the argument name of its neighbour's contract, which raises when the
  two contracts of a run differ, so the compiler is fallible here. The Chinese phrases by which a user forbids
  batching are a list argument.
\<close>

definition user_requires_individual_tool_calls :: "string list \<Rightarrow> string \<Rightarrow> bool" where
  "user_requires_individual_tool_calls chinese_markers user_input =
     list_ex (contains_sub (lower user_input)) (chinese_markers @ [''one call per'', ''individual tool call''])"

subsection \<open>Contracts\<close>

definition str_field :: "string \<Rightarrow> pydict \<Rightarrow> string" where
  "str_field k d = str_of_or (vget d k) []"

definition validated_contract :: "pyval \<Rightarrow> pydict option" where
  "validated_contract raw =
     (case raw of
        VDict d \<Rightarrow>
          (let index_arg = strip (str_field ''index_arg'' d); collect_arg = strip (str_field ''collect_arg'' d) in
           if strip (str_field ''source_action'' d) = [] \<or> strip (str_field ''target_action'' d) = [] then None
           else if (index_arg \<noteq> []) = (collect_arg \<noteq> []) then None
           else (case py_int (vor (vget d ''max_batch_size'') (VInt 8)) of
                   None \<Rightarrow> None
                 | Some n \<Rightarrow>
                     if n < 2 then None
                     else Some (AList.update ''max_batch_size'' (VInt n)
                            (AList.update ''collect_arg'' (VStr collect_arg)
                            (AList.update ''index_arg'' (VStr index_arg)
                            (AList.update ''target_action'' (VStr (py_str (vget d ''target_action'')))
                            (AList.update ''source_action'' (VStr (py_str (vget d ''source_action''))) d)))))))
      | _ \<Rightarrow> None)"

type_synonym tool_registry = "string \<Rightarrow> pydict"

definition batching_contracts :: "tool_registry \<Rightarrow> tool_call \<Rightarrow> pyval list" where
  "batching_contracts registry call =
     list_of (vget (dict_of (vget (registry (dunder_to_dot (tc_name call))) ''metadata'')) ''batching'')"

definition contains_disallowed_batch_action :: "tool_call list \<Rightarrow> tool_registry \<Rightarrow> bool" where
  "contains_disallowed_batch_action calls registry =
     list_ex (\<lambda>call. let action = str_field ''action'' (tc_arguments call) in
       ends_with action ''_batch'' \<or>
       list_ex (\<lambda>raw. case validated_contract raw of
          None \<Rightarrow> False | Some c \<Rightarrow> action = py_str (vget c ''target_action'')) (batching_contracts registry call)) calls"

subsection \<open>Groups\<close>

text \<open>The hashable form of a value: equality of dictionary keys takes a boolean for the integer it equals.\<close>

datatype frozen = FNone | FInt int | FStr string | FTuple "frozen list"

fun freeze :: "pyval \<Rightarrow> frozen" where
  "freeze VNone = FNone"
| "freeze (VBool b) = FInt (if b then 1 else 0)"
| "freeze (VInt i) = FInt i"
| "freeze (VStr s) = FStr s"
| "freeze (VList xs) = FTuple (map freeze xs)"
| "freeze (VDict d) =
     FTuple (map (\<lambda>(k, v). FTuple [FStr k, v]) (sort_key fst (map (\<lambda>(k, v). (k, freeze v)) d)))"

type_synonym group_key = "string \<times> string \<times> string list \<times> frozen list"
type_synonym item = "nat \<times> tool_call \<times> pydict"

definition item_position :: "item \<Rightarrow> nat" where "item_position x = fst x"
definition item_call :: "item \<Rightarrow> tool_call" where "item_call x = fst (snd x)"
definition item_contract :: "item \<Rightarrow> pydict" where "item_contract x = snd (snd x)"

lemma item_simps [simp]:
  "item_position (p, c, k) = p" "item_call (p, c, k) = c" "item_contract (p, c, k) = k"
  by (simp_all add: item_position_def item_call_def item_contract_def)

text \<open>The group of a call under one declared contract, when the contract takes it.\<close>

definition contract_group :: "tool_call \<Rightarrow> pyval \<Rightarrow> (group_key \<times> pydict) option" where
  "contract_group call raw =
     (case validated_contract raw of
        None \<Rightarrow> None
      | Some contract \<Rightarrow>
          (let args = tc_arguments call; source = str_field ''source_action'' contract;
               index_arg = str_field ''index_arg'' contract; collect_arg = str_field ''collect_arg'' contract;
               group_by = map py_str (list_of (vget contract ''group_by'')) in
           if str_field ''action'' args \<noteq> source then None
           else if index_arg \<noteq> [] \<and> py_int (vget args index_arg) = None then None
           else if index_arg = [] \<and> collect_arg \<noteq> [] \<and> vget args collect_arg \<in> {VNone, VStr []} then None
           else Some ((dunder_to_dot (tc_name call), source, group_by,
                       map (\<lambda>k. freeze (vget args k)) group_by), contract)))"

definition referenced_ids :: "tool_call list \<Rightarrow> string list" where
  "referenced_ids calls =
     concat (map tc_depends_on calls) @ concat (map (\<lambda>c. map snd (tc_result_bindings c)) calls)"

definition in_graph :: "tool_call list \<Rightarrow> tool_call \<Rightarrow> bool" where
  "in_graph calls call =
     (tc_id call \<in> set (referenced_ids calls) \<or> tc_depends_on call \<noteq> [] \<or> tc_result_bindings call \<noteq> [])"

definition candidate_of :: "tool_registry \<Rightarrow> tool_call list \<Rightarrow> tool_call \<Rightarrow> (group_key \<times> pydict) option" where
  "candidate_of registry calls call =
     (if in_graph calls call then None else first_some (contract_group call) (batching_contracts registry call))"

text \<open>The candidates dictionary: groups in the order of their first call.\<close>

fun add_candidate :: "group_key \<Rightarrow> item \<Rightarrow> (group_key \<times> item list) list \<Rightarrow> (group_key \<times> item list) list" where
  "add_candidate k x [] = [(k, [x])]"
| "add_candidate k x ((k', xs) # gs) = (if k' = k then (k', xs @ [x]) # gs else (k', xs) # add_candidate k x gs)"

definition collect_candidates :: "tool_registry \<Rightarrow> tool_call list \<Rightarrow> (group_key \<times> item list) list" where
  "collect_candidates registry calls =
     fold (\<lambda>(pos, call) gs. case candidate_of registry calls call of
         None \<Rightarrow> gs
       | Some (k, contract) \<Rightarrow> add_candidate k (pos, call, contract) gs)
       (zip [0..<length calls] calls) []"

subsection \<open>Runs and chunks\<close>

text \<open>\<open>int(call.arguments[key])\<close>\<close>

definition index_value :: "tool_call \<Rightarrow> string \<Rightarrow> int py" where
  "index_value call k =
     (case map_of (tc_arguments call) k of
        None \<Rightarrow> Inl (KeyError k)
      | Some v \<Rightarrow> (case py_int v of
            Some i \<Rightarrow> Inr i
          | None \<Rightarrow> Inl (case v of VStr s \<Rightarrow> ValueError s | _ \<Rightarrow> TypeError k)))"

definition contiguous :: "item \<Rightarrow> item \<Rightarrow> bool py" where
  "contiguous previous x =
     (let adjacent = (item_position x = item_position previous + 1);
          index_arg = str_field ''index_arg'' (item_contract x) in
      if index_arg \<noteq> [] then
        py_bind (index_value (item_call x) index_arg) (\<lambda>i.
        py_bind (index_value (item_call previous) index_arg) (\<lambda>j. Inr (adjacent \<and> i = j + 1)))
      else Inr adjacent)"

fun runs_from :: "item list \<Rightarrow> item list \<Rightarrow> item list list py" where
  "runs_from run [] = Inr [run]"
| "runs_from run (x # xs) =
     py_bind (contiguous (last run) x) (\<lambda>c.
       if c then runs_from (run @ [x]) xs
       else py_bind (runs_from [x] xs) (\<lambda>runs. Inr (run # runs)))"

definition group_runs :: "item list \<Rightarrow> item list list py" where
  "group_runs grouped =
     (case sort_key item_position grouped of [] \<Rightarrow> Inr [] | x # xs \<Rightarrow> runs_from [x] xs)"

function chunks :: "nat \<Rightarrow> 'a list \<Rightarrow> 'a list list" where
  "chunks n xs = (if xs = [] \<or> n = 0 then [] else take n xs # chunks n (drop n xs))"
  by pat_completeness auto
termination by (relation "measure (\<lambda>(n, xs). length xs)") auto

declare chunks.simps [simp del]

definition max_batch_size :: "pydict \<Rightarrow> nat" where
  "max_batch_size contract = (case py_int (vget contract ''max_batch_size'') of Some n \<Rightarrow> nat n | None \<Rightarrow> 0)"

definition run_chunks :: "item list \<Rightarrow> item list list" where
  "run_chunks run = filter (\<lambda>ck. 2 \<le> length ck) (chunks (max_batch_size (item_contract (hd run))) run)"

text \<open>\<open>item[1].arguments[collect_arg]\<close>\<close>

definition collected_value :: "string \<Rightarrow> item \<Rightarrow> pyval py" where
  "collected_value k x = (case map_of (tc_arguments (item_call x)) k of Some v \<Rightarrow> Inr v | None \<Rightarrow> Inl (KeyError k))"

definition compiled_arguments :: "pydict \<Rightarrow> item list \<Rightarrow> pydict py" where
  "compiled_arguments contract ck =
     (let first_call = item_call (hd ck);
          args = AList.update ''action'' (VStr (py_str (vget contract ''target_action''))) (tc_arguments first_call);
          index_arg = str_field ''index_arg'' contract; collect_arg = str_field ''collect_arg'' contract in
      if index_arg \<noteq> [] then
        py_bind (index_value first_call index_arg) (\<lambda>i.
          Inr (AList.update (str_of_or (vget contract ''limit_arg'') ''limit'') (VInt (int (length ck)))
              (AList.update (str_of_or (vget contract ''start_arg'') ''start_index'') (VInt i)
                (AList.delete index_arg args))))
      else
        py_bind (py_map (collected_value collect_arg) ck) (\<lambda>vs.
          Inr (AList.update (str_of_or (vget contract ''collection_arg'') (collect_arg @ ''s'')) (VList vs)
                (AList.delete collect_arg args))))"

text \<open>One replacement: the positions it stands for, the compiled call and the event.\<close>

type_synonym replacement = "nat list \<times> tool_call \<times> pydict"

definition compile_chunk :: "pydict \<Rightarrow> item list \<Rightarrow> replacement py" where
  "compile_chunk contract ck =
     (let first_call = item_call (hd ck) in
      py_bind (compiled_arguments contract ck) (\<lambda>args.
        Inr (map item_position ck,
          \<lparr>tc_id = tc_id first_call, tc_name = tc_name first_call, tc_arguments = args, tc_step_id = [],
           tc_depends_on = [], tc_result_bindings = [], tc_failure_policy = tc_failure_policy first_call,
           tc_goal_ids = []\<rparr>,
          [(''tool_id'', VStr (dunder_to_dot (tc_name first_call))),
           (''source_action'', vget contract ''source_action''), (''target_action'', vget contract ''target_action''),
           (''source_call_count'', VInt (int (length ck))), (''compiled_call_id'', VStr (tc_id first_call))])))"

definition compile_run :: "item list \<Rightarrow> replacement list py" where
  "compile_run run = py_map (compile_chunk (item_contract (hd run))) (run_chunks run)"

definition compile_group :: "group_key \<times> item list \<Rightarrow> replacement list py" where
  "compile_group g =
     py_bind (group_runs (snd g)) (\<lambda>runs. py_bind (py_map compile_run runs) (\<lambda>rss. Inr (concat rss)))"

definition apply_replacements :: "replacement list \<Rightarrow> tool_call list \<Rightarrow> tool_call list" where
  "apply_replacements rs calls =
     (let at = map (\<lambda>(ps, c, e). (Min (set ps), c)) rs; consumed = concat (map fst rs) in
      concat (map (\<lambda>(pos, call). case map_of at pos of
          Some c \<Rightarrow> [c] | None \<Rightarrow> if pos \<in> set consumed then [] else [call])
        (zip [0..<length calls] calls)))"

definition compile_batchable_calls ::
  "tool_call list \<Rightarrow> tool_registry \<Rightarrow> bool \<Rightarrow> (tool_call list \<times> pydict list) py" where
  "compile_batchable_calls calls registry allow_batching =
     (if \<not> allow_batching then Inr (calls, [])
      else py_bind (py_map compile_group (collect_candidates registry calls)) (\<lambda>rss.
        let rs = concat rss in
        if rs = [] then Inr (calls, [])
        else Inr (apply_replacements rs calls, map (snd \<circ> snd) rs)))"

subsection \<open>The replacements tile the calls\<close>

text \<open>Blocks: consecutive members of the reply and the call that stands for them.\<close>

definition tile_ok :: "replacement list \<Rightarrow> tool_call list \<Rightarrow> bool" where
  "tile_ok rs calls =
     (distinct (concat (map fst rs)) \<and>
      (\<forall>(ps, c, e) \<in> set rs. \<exists>p n. ps = [p..<p + n] \<and> 0 < n \<and> p + n \<le> length calls))"

definition starts_at :: "replacement list \<Rightarrow> (nat \<times> tool_call) list" where
  "starts_at rs = map (\<lambda>(ps, c, e). (Min (set ps), c)) rs"

definition emitted :: "replacement list \<Rightarrow> nat \<times> tool_call \<Rightarrow> tool_call list" where
  "emitted rs = (\<lambda>(pos, call). case map_of (starts_at rs) pos of
     Some c \<Rightarrow> [c] | None \<Rightarrow> if pos \<in> set (concat (map fst rs)) then [] else [call])"

lemma apply_replacements_emitted:
  "apply_replacements rs calls = concat (map (\<lambda>i. emitted rs (i, calls ! i)) [0..<length calls])"
proof -
  have "map (emitted rs) (zip [0..<length calls] calls) = map (\<lambda>i. emitted rs (i, calls ! i)) [0..<length calls]"
    by (rule nth_equalityI) auto
  then show ?thesis by (simp add: apply_replacements_def emitted_def starts_at_def Let_def)
qed

lemma distinct_concat_unique:
  "distinct (concat xss) \<Longrightarrow> xs \<in> set xss \<Longrightarrow> ys \<in> set xss \<Longrightarrow> x \<in> set xs \<Longrightarrow> x \<in> set ys \<Longrightarrow> xs = ys"
  by (auto simp: distinct_concat_iff)

lemma upt_min: "0 < (n::nat) \<Longrightarrow> Min {p..<p + n} = p"
  by (intro Min_eqI) auto

lemma tile_interval:
  "tile_ok rs calls \<Longrightarrow> (ps, c, e) \<in> set rs \<Longrightarrow> \<exists>p n. ps = [p..<p + n] \<and> 0 < n \<and> p + n \<le> length calls"
  by (fastforce simp: tile_ok_def)

lemma tile_same:
  assumes "tile_ok rs calls" "(ps, c, e) \<in> set rs" "(ps', c', e') \<in> set rs" "i \<in> set ps" "i \<in> set ps'"
  shows "ps = ps'"
proof -
  from assms(1) have "distinct (concat (map fst rs))" by (simp add: tile_ok_def)
  moreover have "ps \<in> set (map fst rs)" "ps' \<in> set (map fst rs)" using assms(2,3) by force+
  ultimately show ?thesis using distinct_concat_unique assms(4,5) by metis
qed

lemma starts_at_Some:
  "map_of (starts_at rs) i = Some c \<Longrightarrow> \<exists>ps e. (ps, c, e) \<in> set rs \<and> Min (set ps) = i"
  by (force simp: starts_at_def dest!: map_of_SomeD)

lemma starts_at_None: "map_of (starts_at rs) i = None \<longleftrightarrow> (\<forall>(ps, c, e) \<in> set rs. Min (set ps) \<noteq> i)"
  by (force simp: starts_at_def map_of_eq_None_iff)

definition block_of :: "replacement list \<Rightarrow> tool_call list \<Rightarrow> tool_call list \<times> tool_call \<Rightarrow> bool" where
  "block_of rs calls b =
     (fst b = [snd b] \<or> (\<exists>(ps, c, e) \<in> set rs. c = snd b \<and> fst b = map ((!) calls) ps))"

lemma tiles_suffix:
  assumes tile: "tile_ok rs calls"
  shows "n \<le> length calls \<Longrightarrow> (\<And>ps c e. (ps, c, e) \<in> set rs \<Longrightarrow> n \<in> set ps \<Longrightarrow> Min (set ps) = n) \<Longrightarrow>
    \<exists>bs. concat (map fst bs) = drop n calls \<and>
      map snd bs = concat (map (\<lambda>i. emitted rs (i, calls ! i)) [n..<length calls]) \<and> list_all (block_of rs calls) bs"
proof (induction "length calls - n" arbitrary: n rule: less_induct)
  case less
  show ?case
  proof (cases "n = length calls")
    case False
    with less.prems(1) have lt: "n < length calls" by simp
    show ?thesis
    proof (cases "map_of (starts_at rs) n")
      case None
      have "n \<notin> set (concat (map fst rs))" using less.prems(2) None by (fastforce simp: starts_at_None)
      with None have em: "emitted rs (n, calls ! n) = [calls ! n]" by (simp add: emitted_def)
      have "Min (set ps) = Suc n" if "(ps, c, e) \<in> set rs" "Suc n \<in> set ps" for ps c e
      proof -
        from tile_interval [OF tile that(1)] obtain p k where pk: "ps = [p..<p + k]" "0 < k" by blast
        with that(2) have "p = Suc n \<or> n \<in> set ps" by auto
        moreover have "Min (set ps) = p" using pk by (simp add: upt_min)
        ultimately show ?thesis using less.prems(2) that None by (fastforce simp: starts_at_None)
      qed
      with less.hyps [OF diff_less_mono2 [OF lessI lt]] lt obtain bs where
        "concat (map fst bs) = drop (Suc n) calls"
        "map snd bs = concat (map (\<lambda>i. emitted rs (i, calls ! i)) [Suc n..<length calls])"
        "list_all (block_of rs calls) bs" by auto
      with em lt show ?thesis
        by (intro exI [of _ "([calls ! n], calls ! n) # bs"])
          (simp add: block_of_def Cons_nth_drop_Suc upt_conv_Cons)
    next
      case (Some c)
      then obtain ps e where r: "(ps, c, e) \<in> set rs" "Min (set ps) = n" using starts_at_Some by blast
      from tile_interval [OF tile r(1)] r(2) obtain k where
        k: "ps = [n..<n + k]" "0 < k" "n + k \<le> length calls" by (metis set_upt upt_min)
      have inner: "emitted rs (i, calls ! i) = []" if "n < i" "i < n + k" for i
      proof -
        have "map_of (starts_at rs) i = None"
          unfolding starts_at_None
        proof clarify
          fix ps' c' e' assume "(ps', c', e') \<in> set rs" "i = Min (set ps')"
          moreover from tile_interval [OF tile this(1)] this(2) have "i \<in> set ps'" by (auto simp: upt_min)
          ultimately have "ps' = ps" using tile_same [OF tile _ r(1), of ps' c' e' i] that k(1) by simp
          with \<open>i = Min (set ps')\<close> r(2) that show False by simp
        qed
        moreover have "i \<in> set (concat (map fst rs))" using r(1) k(1) that by force
        ultimately show ?thesis by (simp add: emitted_def)
      qed
      have "Min (set ps') = n + k" if "(ps', c', e') \<in> set rs" "n + k \<in> set ps'" for ps' c' e'
      proof -
        from tile_interval [OF tile that(1)] obtain p j where pj: "ps' = [p..<p + j]" "0 < j" by blast
        with that(2) k(2) have "p = n + k \<or> n + k - 1 \<in> set ps'" by auto
        moreover have "n + k - 1 \<notin> set ps'"
        proof
          assume "n + k - 1 \<in> set ps'"
          with tile_same [OF tile that(1) r(1), of "n + k - 1"] k(1,2) have "ps' = ps" by auto
          with that(2) k(1) show False by simp
        qed
        ultimately have "p = n + k" by blast
        with pj show ?thesis by (simp add: upt_min)
      qed
      moreover have "length calls - (n + k) < length calls - n" using k(2) lt by linarith
      ultimately obtain bs where
        bs: "concat (map fst bs) = drop (n + k) calls"
        "map snd bs = concat (map (\<lambda>i. emitted rs (i, calls ! i)) [n + k..<length calls])"
        "list_all (block_of rs calls) bs" using less.hyps [of "n + k"] k(3) by meson
      have "[Suc n..<length calls] = [Suc n..<n + k] @ [n + k..<length calls]"
        using upt_add_eq_append [of "Suc n" "n + k" "length calls - (n + k)"] k by simp
      then have "[n..<length calls] = n # [Suc n..<n + k] @ [n + k..<length calls]"
        using lt by (simp add: upt_conv_Cons)
      moreover have "concat (map (\<lambda>i. emitted rs (i, calls ! i)) [Suc n..<n + k]) = []"
        using inner by (auto simp: concat_eq_Nil_conv)
      moreover have "emitted rs (n, calls ! n) = [c]" using Some by (simp add: emitted_def)
      moreover have "map ((!) calls) ps @ drop (n + k) calls = drop n calls"
        using k by (intro nth_equalityI) (auto simp: nth_append)
      ultimately show ?thesis using bs r(1)
        by (intro exI [of _ "(map ((!) calls) ps, c) # bs"]) (force simp: block_of_def)
    qed
  qed (rule exI [of _ "[]"], simp)
qed

subsection \<open>Candidates\<close>

definition item_ok :: "tool_registry \<Rightarrow> tool_call list \<Rightarrow> group_key \<Rightarrow> item \<Rightarrow> bool" where
  "item_ok registry calls k x =
     (item_position x < length calls \<and> item_call x = calls ! item_position x \<and>
      candidate_of registry calls (item_call x) = Some (k, item_contract x))"

abbreviation all_items :: "(group_key \<times> item list) list \<Rightarrow> item list" where
  "all_items gs \<equiv> concat (map snd gs)"

lemma set_add_candidate:
  "(k', xs) \<in> set (add_candidate k x gs) \<Longrightarrow>
   (k', xs) \<in> set gs \<or> k' = k \<and> (xs = [x] \<or> (\<exists>ys. (k, ys) \<in> set gs \<and> xs = ys @ [x]))"
  by (induction gs rule: add_candidate.induct) (auto split: if_splits)

lemma mset_add_candidate: "mset (all_items (add_candidate k x gs)) = add_mset x (mset (all_items gs))"
  by (induction gs rule: add_candidate.induct) auto

definition group_ok :: "tool_registry \<Rightarrow> tool_call list \<Rightarrow> nat \<Rightarrow> group_key \<Rightarrow> item list \<Rightarrow> bool" where
  "group_ok registry calls n k xs =
     (xs \<noteq> [] \<and> sorted_wrt (<) (map item_position xs) \<and>
      (\<forall>x \<in> set xs. item_ok registry calls k x \<and> item_position x < n))"

definition groups_ok :: "tool_registry \<Rightarrow> tool_call list \<Rightarrow> nat \<Rightarrow> (group_key \<times> item list) list \<Rightarrow> bool" where
  "groups_ok registry calls n gs =
     ((\<forall>k xs. (k, xs) \<in> set gs \<longrightarrow> group_ok registry calls n k xs) \<and>
      distinct (map item_position (all_items gs)))"

lemma distinct_mset_cong: "mset xs = mset ys \<Longrightarrow> distinct xs = distinct ys"
  by (metis mset_eq_imp_distinct_iff)

lemma group_ok_Suc: "group_ok registry calls n k xs \<Longrightarrow> group_ok registry calls (Suc n) k xs"
  by (auto simp: group_ok_def)

lemma group_ok_snoc:
  "group_ok registry calls n k xs \<Longrightarrow> item_ok registry calls k x \<Longrightarrow> item_position x = n \<Longrightarrow>
   group_ok registry calls (Suc n) k (xs @ [x])"
  by (auto simp: group_ok_def sorted_wrt_append)

lemma groups_ok_add:
  assumes ok: "groups_ok registry calls n gs" and n: "n < length calls"
    and cand: "candidate_of registry calls (calls ! n) = Some (k, c)"
  shows "groups_ok registry calls (Suc n) (add_candidate k (n, calls ! n, c) gs)"
proof -
  let ?x = "(n, calls ! n, c)"
  have less: "item_position y < n" if "y \<in> set (all_items gs)" for y
    using ok that by (fastforce simp: groups_ok_def group_ok_def)
  have x: "item_ok registry calls k ?x" using n cand by (simp add: item_ok_def)
  have "mset (map item_position (all_items (add_candidate k ?x gs))) =
      mset (n # map item_position (all_items gs))"
    using mset_add_candidate [of k ?x gs] by simp
  from distinct_mset_cong [OF this] have "distinct (map item_position (all_items (add_candidate k ?x gs)))"
    using ok less by (auto simp: groups_ok_def)
  moreover have "group_ok registry calls (Suc n) k' xs"
    if "(k', xs) \<in> set (add_candidate k ?x gs)" for k' xs
    using set_add_candidate [OF that]
  proof (elim disjE conjE exE)
    assume "(k', xs) \<in> set gs"
    with ok show ?thesis unfolding groups_ok_def by (blast intro: group_ok_Suc)
  next
    fix ys assume "(k, ys) \<in> set gs" "xs = ys @ [?x]" "k' = k"
    moreover from this ok have "group_ok registry calls n k ys" unfolding groups_ok_def by blast
    ultimately show ?thesis using x by (simp add: group_ok_snoc)
  qed (use x in \<open>simp add: group_ok_def\<close>)
  ultimately show ?thesis unfolding groups_ok_def by blast
qed

lemma groups_ok_Suc: "groups_ok registry calls n gs \<Longrightarrow> groups_ok registry calls (Suc n) gs"
  unfolding groups_ok_def by (blast intro: group_ok_Suc)

lemma collect_candidates_ok: "groups_ok registry calls (length calls) (collect_candidates registry calls)"
proof -
  let ?f = "\<lambda>(pos, call) gs. case candidate_of registry calls call of
         None \<Rightarrow> gs | Some (k, contract) \<Rightarrow> add_candidate k (pos, call, contract) gs"
  have "groups_ok registry calls n (fold ?f (take n (zip [0..<length calls] calls)) [])" if "n \<le> length calls" for n
    using that
  proof (induction n)
    case 0
    then show ?case by (simp add: groups_ok_def)
  next
    case (Suc n)
    then have IH: "groups_ok registry calls n (fold ?f (take n (zip [0..<length calls] calls)) [])" by simp
    have "take (Suc n) (zip [0..<length calls] calls) = take n (zip [0..<length calls] calls) @ [(n, calls ! n)]"
      using Suc.prems by (simp add: take_Suc_conv_app_nth)
    with IH groups_ok_add [OF IH] groups_ok_Suc [OF IH] Suc.prems show ?case
      by (simp split: option.split)
  qed
  from this [of "length calls"] show ?thesis by (simp add: collect_candidates_def)
qed

subsection \<open>Runs and chunks of one group\<close>

text \<open>A run is linked when each item is adjacent to the one before, with the next index where there is one.\<close>

fun linked :: "item list \<Rightarrow> bool" where
  "linked (x # y # zs) = (contiguous x y = Inr True \<and> linked (y # zs))"
| "linked _ = True"

lemma linked_snoc: "xs \<noteq> [] \<Longrightarrow> linked (xs @ [y]) \<longleftrightarrow> linked xs \<and> contiguous (last xs) y = Inr True"
  by (induction xs rule: linked.induct) auto

lemma linked_drop: "linked xs \<Longrightarrow> linked (drop n xs)"
proof (induction n arbitrary: xs)
  case (Suc n)
  then show ?case by (cases xs rule: linked.cases) auto
qed simp

lemma linked_take: "linked xs \<Longrightarrow> linked (take n xs)"
proof (induction xs arbitrary: n rule: linked.induct)
  case (1 x y zs)
  show ?case
  proof (cases n)
    case (Suc m)
    with 1 have "linked (take m (y # zs))" by simp
    with Suc 1 show ?thesis by (cases m) auto
  qed simp
qed (auto simp: take_Cons')

lemma contiguous_Inr:
  "contiguous x y = Inr True \<Longrightarrow> item_position y = item_position x + 1"
  by (auto simp: contiguous_def Let_def py_bind_Inr split: if_splits)

lemma linked_positions:
  "linked xs \<Longrightarrow> xs \<noteq> [] \<Longrightarrow>
   map item_position xs = [item_position (hd xs)..<item_position (hd xs) + length xs]"
proof (induction xs rule: linked.induct)
  case (1 x y zs)
  then have "item_position y = item_position x + 1" using contiguous_Inr by simp
  with 1 have "map item_position (y # zs) = [Suc (item_position x)..<item_position x + length (x # y # zs)]" by simp
  then have "map item_position (x # y # zs) =
      item_position x # [Suc (item_position x)..<item_position x + length (x # y # zs)]"
    by (simp only: list.map)
  also have "\<dots> = [item_position x..<item_position x + length (x # y # zs)]"
    by (rule upt_conv_Cons [symmetric]) simp
  finally show ?case by simp
qed auto

lemma runs_from_Inr:
  "runs_from run xs = Inr runs \<Longrightarrow> run \<noteq> [] \<Longrightarrow> linked run \<Longrightarrow>
   concat runs = run @ xs \<and> (\<forall>r \<in> set runs. r \<noteq> [] \<and> linked r)"
proof (induction run xs arbitrary: runs rule: runs_from.induct)
  case (2 run x xs)
  then obtain c where c: "contiguous (last run) x = Inr c" by (auto simp: py_bind_Inr)
  show ?case
  proof (cases c)
    case True
    with 2 c show ?thesis by (auto simp: linked_snoc py_bind_Inr)
  next
    case False
    with 2(3) c obtain rs where "runs_from [x] xs = Inr rs" "runs = run # rs" by (auto simp: py_bind_Inr)
    with 2 c False show ?thesis by (auto simp: py_bind_Inr)
  qed
qed auto

lemma chunks_concat: "0 < n \<Longrightarrow> concat (chunks n xs) = xs"
proof (induction n xs rule: chunks.induct)
  case (1 n xs)
  then show ?case by (subst chunks.simps) auto
qed

lemma chunks_linked:
  "linked xs \<Longrightarrow> ck \<in> set (chunks n xs) \<Longrightarrow> linked ck \<and> length ck \<le> n \<and> set ck \<subseteq> set xs"
proof (induction n xs rule: chunks.induct)
  case (1 n xs)
  show ?case
  proof (cases "xs = [] \<or> n = 0")
    case False
    with 1 consider "ck = take n xs" | "ck \<in> set (chunks n (drop n xs))" by (subst (asm) chunks.simps) auto
    then show ?thesis
    proof cases
      case 1
      then show ?thesis using linked_take [OF "1.prems"(1)] set_take_subset [of n xs] by simp
    next
      case 2
      from "1.IH" [OF False linked_drop [OF "1.prems"(1)] 2] show ?thesis using set_drop_subset [of n xs] by blast
    qed
  qed (use 1 in \<open>simp add: chunks.simps\<close>)
qed

lemma mset_concat_filter: "mset (concat (filter P xss)) \<subseteq># mset (concat xss)"
  by (induction xss) (auto simp: subset_mset.add_increasing)

text \<open>What one replacement of a group stands for.\<close>

definition replaces :: "item list \<Rightarrow> replacement \<Rightarrow> item list \<Rightarrow> bool" where
  "replaces grouped r ck =
     (2 \<le> length ck \<and> linked ck \<and> set ck \<subseteq> set grouped \<and> fst r = map item_position ck \<and>
      (\<exists>contract \<in> item_contract ` set grouped.
         length ck \<le> max_batch_size contract \<and> compile_chunk contract ck = Inr r))"

lemma compile_chunk_positions: "compile_chunk contract ck = Inr r \<Longrightarrow> fst r = map item_position ck"
  by (auto simp: compile_chunk_def Let_def py_bind_Inr)

lemma compile_run_Inr:
  assumes "compile_run run = Inr rs" "linked run" "run \<noteq> []"
  shows "(\<forall>r \<in> set rs. \<exists>ck. replaces run r ck) \<and>
    mset (concat (map fst rs)) \<subseteq># mset (map item_position run)"
proof -
  let ?n = "max_batch_size (item_contract (hd run))"
  have mapped: "py_map (compile_chunk (item_contract (hd run))) (run_chunks run) = Inr rs"
    using assms(1) by (simp add: compile_run_def)
  have "\<exists>ck. replaces run r ck" if "r \<in> set rs" for r
  proof -
    from py_map_member [OF mapped that] obtain ck where ck: "ck \<in> set (run_chunks run)"
      "compile_chunk (item_contract (hd run)) ck = Inr r" by blast
    then have "linked ck \<and> length ck \<le> ?n \<and> set ck \<subseteq> set run" "2 \<le> length ck"
      using chunks_linked [OF assms(2)] by (auto simp: run_chunks_def)
    moreover have "hd run \<in> set run" using assms(3) by simp
    ultimately show ?thesis using ck(2) compile_chunk_positions [OF ck(2)]
      unfolding replaces_def by (intro exI [of _ ck]) blast
  qed
  moreover have "map fst rs = map (map item_position) (run_chunks run)"
    using py_map_map [OF mapped compile_chunk_positions] .
  then have "concat (map fst rs) = map item_position (concat (run_chunks run))" by (simp add: map_concat)
  moreover have "mset (concat (run_chunks run)) \<subseteq># mset run"
  proof (cases "?n = 0")
    case True
    then show ?thesis by (simp add: run_chunks_def chunks.simps)
  next
    case False
    then show ?thesis using mset_concat_filter [of "\<lambda>ck. 2 \<le> length ck" "chunks ?n run"]
      by (simp add: run_chunks_def chunks_concat)
  qed
  ultimately show ?thesis by (simp add: image_mset_subseteq_mono)
qed

lemma replaces_mono: "replaces xs r ck \<Longrightarrow> set xs \<subseteq> set ys \<Longrightarrow> replaces ys r ck"
  unfolding replaces_def by blast

lemma covered_concat:
  assumes "py_map f xs = Inr rss" "\<And>x rs. x \<in> set xs \<Longrightarrow> f x = Inr rs \<Longrightarrow> mset (concat (map fst rs)) \<subseteq># mset (g x)"
  shows "mset (concat (map fst (concat rss))) \<subseteq># mset (concat (map g xs))"
  using assms
proof (induction xs arbitrary: rss)
  case (Cons x xs)
  then obtain rs rest where rs: "f x = Inr rs" "py_map f xs = Inr rest" "rss = rs # rest" by (auto simp: py_bind_Inr)
  with Cons.IH [OF rs(2)] Cons.prems(2) [of x rs] Cons.prems(2) show ?case by (simp add: subset_mset.add_mono)
qed simp

lemma compile_group_Inr:
  assumes "compile_group (k, xs) = Inr rs" "group_ok registry calls n k xs"
  shows "(\<forall>r \<in> set rs. \<exists>ck. replaces xs r ck) \<and> mset (concat (map fst rs)) \<subseteq># mset (map item_position xs)"
proof -
  have "sorted (map item_position xs)" using assms(2)
    by (auto simp: group_ok_def intro: strict_sorted_imp_sorted)
  then have sort: "sort_key item_position xs = xs" by (rule sort_key_id_if_sorted)
  obtain x ys where xs: "xs = x # ys" using assms(2) by (cases xs) (auto simp: group_ok_def)
  from assms(1) sort xs obtain runs rss where r: "runs_from [x] ys = Inr runs" "py_map compile_run runs = Inr rss"
    "rs = concat rss" by (auto simp: compile_group_def group_runs_def py_bind_Inr)
  from runs_from_Inr [OF r(1)] xs have runs: "concat runs = xs" "\<And>r. r \<in> set runs \<Longrightarrow> r \<noteq> [] \<and> linked r" by auto
  have sub: "set run \<subseteq> set xs" if "run \<in> set runs" for run using that runs(1) by auto
  have "\<exists>ck. replaces xs r ck" if "r \<in> set rs" for r
  proof -
    from that r(3) obtain rs' where "rs' \<in> set rss" "r \<in> set rs'" by auto
    moreover from py_map_member [OF r(2) this(1)] obtain run where "run \<in> set runs" "compile_run run = Inr rs'" by blast
    ultimately show ?thesis using compile_run_Inr [of run rs'] runs(2) sub replaces_mono by blast
  qed
  moreover have "mset (concat (map fst rs)) \<subseteq># mset (concat (map (map item_position) runs))"
    unfolding r(3) using compile_run_Inr runs(2) by (intro covered_concat [OF r(2)]) blast
  then have "mset (concat (map fst rs)) \<subseteq># mset (map item_position xs)"
    by (simp add: runs(1) [symmetric] map_concat)
  ultimately show ?thesis by blast
qed

definition all_replacements :: "tool_registry \<Rightarrow> tool_call list \<Rightarrow> replacement list py" where
  "all_replacements registry calls =
     py_bind (py_map compile_group (collect_candidates registry calls)) (\<lambda>rss. Inr (concat rss))"

lemma all_replacements_Inr:
  assumes "all_replacements registry calls = Inr rs"
  shows "tile_ok rs calls"
    and "r \<in> set rs \<Longrightarrow> \<exists>k xs ck. (k, xs) \<in> set (collect_candidates registry calls) \<and> replaces xs r ck"
proof -
  let ?gs = "collect_candidates registry calls"
  from assms obtain rss where rss: "py_map compile_group ?gs = Inr rss" "rs = concat rss"
    by (auto simp: all_replacements_def py_bind_Inr)
  have ok: "group_ok registry calls (length calls) (fst g) (snd g)" if "g \<in> set ?gs" for g
    using that collect_candidates_ok [of registry calls] unfolding groups_ok_def by (metis prod.collapse)
  have from_group: "\<exists>k xs ck. (k, xs) \<in> set ?gs \<and> replaces xs r ck" if r: "r \<in> set rs" for r
  proof -
    from r rss(2) obtain rs' where rs': "rs' \<in> set rss" "r \<in> set rs'" by auto
    from py_map_member [OF rss(1) rs'(1)] obtain g where g: "g \<in> set ?gs" "compile_group g = Inr rs'" by blast
    with compile_group_Inr [of "fst g" "snd g" rs'] ok [OF g(1)] rs'(2) have "\<exists>ck. replaces (snd g) r ck" by auto
    with g(1) show ?thesis by (metis prod.collapse)
  qed
  then show "r \<in> set rs \<Longrightarrow> \<exists>k xs ck. (k, xs) \<in> set ?gs \<and> replaces xs r ck" .
  have "mset (concat (map fst rs)) \<subseteq># mset (concat (map (\<lambda>g. map item_position (snd g)) ?gs))"
    unfolding rss(2) using compile_group_Inr ok by (intro covered_concat [OF rss(1)]) (metis prod.collapse)
  moreover have "concat (map (\<lambda>g. map item_position (snd g)) ?gs) = map item_position (all_items ?gs)"
    by (simp add: map_concat comp_def)
  ultimately have sub: "mset (concat (map fst rs)) \<subseteq># mset (map item_position (all_items ?gs))" by metis
  have "distinct (map item_position (all_items ?gs))" using collect_candidates_ok [of registry calls] by (simp add: groups_ok_def)
  with sub have dist: "distinct (concat (map fst rs))" by (rule distinct_submset)
  have "\<exists>p n. ps = [p..<p + n] \<and> 0 < n \<and> p + n \<le> length calls" if "(ps, c, e) \<in> set rs" for ps c e
  proof -
    from from_group [OF that] obtain k xs ck where kx: "(k, xs) \<in> set ?gs" "replaces xs (ps, c, e) ck" by blast
    then have ck: "2 \<le> length ck" "linked ck" "set ck \<subseteq> set xs" "ps = map item_position ck"
      by (auto simp: replaces_def)
    then have "ck \<noteq> []" by auto
    then have ps: "ps = [item_position (hd ck)..<item_position (hd ck) + length ck]"
      using linked_positions [OF ck(2)] ck(4) by simp
    have "\<forall>i \<in> set ps. i < length calls"
      using ck(3,4) ok [OF kx(1)] by (auto simp: group_ok_def item_ok_def)
    with ps \<open>ck \<noteq> []\<close> have "item_position (hd ck) + length ck \<le> length calls"
      by (cases "length ck") (auto simp: Suc_le_eq)
    with ps \<open>ck \<noteq> []\<close> show ?thesis by auto
  qed
  with dist show "tile_ok rs calls" unfolding tile_ok_def by blast
qed

subsection \<open>Calls under an unambiguous registry\<close>

text \<open>No tool of the reply declares two valid contracts for one source action.\<close>

definition unambiguous :: "tool_registry \<Rightarrow> tool_call list \<Rightarrow> bool" where
  "unambiguous registry calls =
     list_all (\<lambda>c. list_all (\<lambda>a. list_all (\<lambda>b.
        case (validated_contract a, validated_contract b) of
          (Some x, Some y) \<Rightarrow> str_field ''source_action'' x = str_field ''source_action'' y \<longrightarrow> x = y
        | _ \<Rightarrow> True) (batching_contracts registry c)) (batching_contracts registry c)) calls"

lemma contract_group_Some:
  "contract_group call raw = Some (k, contract) \<Longrightarrow>
   validated_contract raw = Some contract \<and> fst k = dunder_to_dot (tc_name call) \<and>
   fst (snd k) = str_field ''source_action'' contract \<and>
   (str_field ''index_arg'' contract \<noteq> [] \<longrightarrow> py_int (vget (tc_arguments call) (str_field ''index_arg'' contract)) \<noteq> None) \<and>
   (str_field ''index_arg'' contract = [] \<longrightarrow> str_field ''collect_arg'' contract \<noteq> [] \<longrightarrow>
      vget (tc_arguments call) (str_field ''collect_arg'' contract) \<noteq> VNone)"
  by (auto simp: contract_group_def Let_def split: option.splits if_splits)

lemma candidate_of_Some:
  "candidate_of registry calls call = Some (k, contract) \<Longrightarrow>
   \<not> in_graph calls call \<and> (\<exists>raw \<in> set (batching_contracts registry call). contract_group call raw = Some (k, contract))"
  by (auto simp: candidate_of_def dest: first_some_Some split: if_splits)

lemma unambiguousD:
  assumes "unambiguous registry calls" "c \<in> set calls" "d \<in> set calls"
    "candidate_of registry calls c = Some (k, x)" "candidate_of registry calls d = Some (k, y)"
  shows "x = y"
proof -
  from candidate_of_Some [OF assms(4)] obtain a where
    a: "a \<in> set (batching_contracts registry c)" "contract_group c a = Some (k, x)" by blast
  from candidate_of_Some [OF assms(5)] obtain b where
    b: "b \<in> set (batching_contracts registry d)" "contract_group d b = Some (k, y)" by blast
  note A = contract_group_Some [OF a(2)] and B = contract_group_Some [OF b(2)]
  have "batching_contracts registry d = batching_contracts registry c"
    using A B by (simp add: batching_contracts_def)
  with b(1) have "b \<in> set (batching_contracts registry c)" by simp
  with assms(1,2) a(1) have "case (validated_contract a, validated_contract b) of
          (Some x, Some y) \<Rightarrow> str_field ''source_action'' x = str_field ''source_action'' y \<longrightarrow> x = y
        | _ \<Rightarrow> True" unfolding unambiguous_def list_all_iff by blast
  with A B show ?thesis by simp
qed

lemma validated_contract_fields:
  assumes "validated_contract raw = Some c"
  shows "(str_field ''index_arg'' c \<noteq> []) \<noteq> (str_field ''collect_arg'' c \<noteq> [])" "2 \<le> max_batch_size c"
proof -
  have str: "str_of_or (VStr s) [] = s" for s by (cases s) (simp_all add: str_of_or_def vor_def)
  have int: "py_int (VInt n) = Some n" for n by (simp add: py_int_def)
  show "(str_field ''index_arg'' c \<noteq> []) \<noteq> (str_field ''collect_arg'' c \<noteq> [])" "2 \<le> max_batch_size c"
    using assms by (auto simp: validated_contract_def Let_def str_field_def str max_batch_size_def int
        split: pyval.splits if_splits option.splits)
qed

text \<open>A merged call: the arguments that stand for the members, and the identity of the first.\<close>

definition merged_arguments :: "pydict \<Rightarrow> tool_call list \<Rightarrow> pydict \<Rightarrow> bool" where
  "merged_arguments contract ms args' =
     (let index_arg = str_field ''index_arg'' contract; collect_arg = str_field ''collect_arg'' contract;
          args = AList.update ''action'' (VStr (py_str (vget contract ''target_action''))) (tc_arguments (hd ms)) in
      if index_arg \<noteq> []
      then (\<exists>i. (\<forall>j < length ms. py_int (vget (tc_arguments (ms ! j)) index_arg) = Some (i + int j)) \<and>
         args' = AList.update (str_of_or (vget contract ''limit_arg'') ''limit'') (VInt (int (length ms)))
           (AList.update (str_of_or (vget contract ''start_arg'') ''start_index'') (VInt i)
             (AList.delete index_arg args)))
      else args' = AList.update (str_of_or (vget contract ''collection_arg'') (collect_arg @ ''s''))
           (VList (map (\<lambda>m. vget (tc_arguments m) collect_arg) ms)) (AList.delete collect_arg args))"

definition merged_call :: "tool_registry \<Rightarrow> tool_call list \<Rightarrow> tool_call list \<Rightarrow> tool_call \<Rightarrow> bool" where
  "merged_call registry calls ms c =
     (2 \<le> length ms \<and> (\<forall>m \<in> set ms. \<not> in_graph calls m) \<and>
      (\<exists>k contract. (\<forall>m \<in> set ms. candidate_of registry calls m = Some (k, contract)) \<and>
         length ms \<le> max_batch_size contract \<and> tc_id c = tc_id (hd ms) \<and> tc_name c = tc_name (hd ms) \<and>
         tc_failure_policy c = tc_failure_policy (hd ms) \<and> merged_arguments contract ms (tc_arguments c)))"

lemma index_value_vget: "index_value c k = Inr i \<longleftrightarrow> map_of (tc_arguments c) k \<noteq> None \<and> py_int (vget (tc_arguments c) k) = Some i"
  by (auto simp: index_value_def vget_def vget_or_def split: option.splits)

lemma py_int_present: "py_int (vget d k) \<noteq> None \<Longrightarrow> map_of d k \<noteq> None"
  by (auto simp: vget_def vget_or_def py_int_def split: option.splits)

lemma index_value_total: "py_int (vget (tc_arguments c) k) \<noteq> None \<Longrightarrow> \<exists>i. index_value c k = Inr i"
  using py_int_present [of "tc_arguments c" k] by (auto simp: index_value_vget)

lemma linked_indices:
  "linked xs \<Longrightarrow> (\<And>x. x \<in> set xs \<Longrightarrow> item_contract x = contract) \<Longrightarrow> str_field ''index_arg'' contract = a \<Longrightarrow>
   a \<noteq> [] \<Longrightarrow> j < length xs \<Longrightarrow> index_value (item_call (hd xs)) a = Inr i \<Longrightarrow>
   index_value (item_call (xs ! j)) a = Inr (i + int j)"
proof (induction xs arbitrary: i j rule: linked.induct)
  case (1 x y zs)
  have y: "index_value (item_call y) a = Inr (i + 1)"
    using 1 by (auto simp: contiguous_def Let_def py_bind_Inr)
  show ?case
  proof (cases j)
    case (Suc m)
    with "1.IH" [of m "i + 1"] "1.prems" y show ?thesis by (simp add: add.assoc)
  qed (use 1 in simp)
qed auto

lemma merged_replacement:
  assumes unamb: "unambiguous registry calls" and grp: "group_ok registry calls n k xs" and rep: "replaces xs (ps, c, e) ck"
  shows "merged_call registry calls (map ((!) calls) ps) c"
proof -
  from rep obtain contract where R: "2 \<le> length ck" "linked ck" "set ck \<subseteq> set xs" "ps = map item_position ck"
    "contract \<in> item_contract ` set xs" "length ck \<le> max_batch_size contract"
    "compile_chunk contract ck = Inr (ps, c, e)" by (auto simp: replaces_def)
  have item: "item_call x = calls ! item_position x" "item_call x \<in> set calls"
    "candidate_of registry calls (item_call x) = Some (k, item_contract x)" if "x \<in> set xs" for x
    using grp that by (auto simp: group_ok_def item_ok_def)
  have same: "item_contract x = contract" if "x \<in> set xs" for x
  proof -
    from R(5) obtain y where y: "y \<in> set xs" "contract = item_contract y" by blast
    from unambiguousD [OF unamb item(2) [OF that] item(2) [OF y(1)] item(3) [OF that] item(3) [OF y(1)]] y(2)
    show ?thesis by simp
  qed
  have members: "map ((!) calls) ps = map item_call ck" using R(3,4) item(1) by auto
  have ne: "ck \<noteq> []" using R(1) by auto
  then have hd: "hd (map item_call ck) = item_call (hd ck)" by (simp add: hd_map)
  have cand: "candidate_of registry calls m = Some (k, contract)" if "m \<in> set (map item_call ck)" for m
    using that R(3) item(3) same by fastforce
  have graph: "\<not> in_graph calls m" if "m \<in> set (map item_call ck)" for m using candidate_of_Some [OF cand [OF that]] by blast
  from R(7) obtain args where args: "compiled_arguments contract ck = Inr args" "tc_arguments c = args"
    "tc_id c = tc_id (item_call (hd ck))" "tc_name c = tc_name (item_call (hd ck))"
    "tc_failure_policy c = tc_failure_policy (item_call (hd ck))"
    by (auto simp: compile_chunk_def Let_def py_bind_Inr)
  have same': "item_contract x = contract" if "x \<in> set ck" for x using that R(3) same by blast
  have merged: ?thesis if "merged_arguments contract (map item_call ck) (tc_arguments c)"
    unfolding merged_call_def members hd
    using that cand graph R(1,6) args(3-5) by (intro conjI exI [of _ k] exI [of _ contract] ballI) (simp_all only: length_map not_False_eq_True)
  show ?thesis
  proof (cases "str_field ''index_arg'' contract = []")
    case True
    with args(1) obtain vs where vs: "py_map (collected_value (str_field ''collect_arg'' contract)) ck = Inr vs"
      by (auto simp: compiled_arguments_def Let_def py_bind_Inr)
    let ?arg = "\<lambda>x. vget (tc_arguments (item_call x)) (str_field ''collect_arg'' contract)"
    have "v = ?arg x" if "collected_value (str_field ''collect_arg'' contract) x = Inr v" for x v
      using that by (simp add: collected_value_def vget_def vget_or_def split: option.splits)
    from py_map_map [where g = "\<lambda>v. v" and h = ?arg, OF vs this] have "vs = map ?arg ck" by simp
    with True vs args have "merged_arguments contract (map item_call ck) (tc_arguments c)"
      by (simp add: merged_arguments_def compiled_arguments_def Let_def comp_def hd)
    then show ?thesis by (rule merged)
  next
    case False
    with args(1) obtain i where i: "index_value (item_call (hd ck)) (str_field ''index_arg'' contract) = Inr i"
      by (auto simp: compiled_arguments_def Let_def py_bind_Inr)
    have "\<forall>j < length ck. py_int (vget (tc_arguments (map item_call ck ! j)) (str_field ''index_arg'' contract)) = Some (i + int j)"
      using linked_indices [OF R(2) same' refl False _ i] by (simp add: index_value_vget)
    with False i args have "merged_arguments contract (map item_call ck) (tc_arguments c)"
      by (auto simp: merged_arguments_def compiled_arguments_def Let_def hd intro!: exI [of _ i])
    then show ?thesis by (rule merged)
  qed
qed

lemma group_ok_member:
  "(k, xs) \<in> set (collect_candidates registry calls) \<Longrightarrow> group_ok registry calls (length calls) k xs"
  using collect_candidates_ok [of registry calls] unfolding groups_ok_def by blast

lemma contiguous_total:
  assumes "unambiguous registry calls" "group_ok registry calls n k xs" "x \<in> set xs" "y \<in> set xs"
  shows "\<exists>b. contiguous x y = Inr b"
proof -
  have item: "item_call z \<in> set calls" "candidate_of registry calls (item_call z) = Some (k, item_contract z)"
    if "z \<in> set xs" for z using assms(2) that by (auto simp: group_ok_def item_ok_def)
  have eq: "item_contract x = item_contract y"
    by (rule unambiguousD [OF assms(1) item(1) [OF assms(3)] item(1) [OF assms(4)] item(2) [OF assms(3)] item(2) [OF assms(4)]])
  have "\<exists>i. index_value (item_call z) (str_field ''index_arg'' (item_contract z)) = Inr i"
    if "z \<in> set xs" "str_field ''index_arg'' (item_contract z) \<noteq> []" for z
    using candidate_of_Some [OF item(2) [OF that(1)]] that(2)
    by (auto intro!: index_value_total dest!: contract_group_Some)
  from this [OF assms(3)] this [OF assms(4)] eq show ?thesis by (auto simp: contiguous_def Let_def)
qed

lemma compile_chunk_total:
  assumes "unambiguous registry calls" "group_ok registry calls n k xs" "set ck \<subseteq> set xs" "ck \<noteq> []" "z \<in> set xs"
  shows "\<exists>r. compile_chunk (item_contract z) ck = Inr r"
proof -
  have item: "item_call z \<in> set calls" "candidate_of registry calls (item_call z) = Some (k, item_contract z)"
    if "z \<in> set xs" for z using assms(2) that by (auto simp: group_ok_def item_ok_def)
  let ?c = "item_contract z"
  have eq: "item_contract x = ?c" if "x \<in> set xs" for x
    by (rule unambiguousD [OF assms(1) item(1) [OF that] item(1) [OF assms(5)] item(2) [OF that] item(2) [OF assms(5)]])
  have grp: "\<exists>raw. contract_group (item_call x) raw = Some (k, ?c)" if "x \<in> set ck" for x
  proof -
    have x: "x \<in> set xs" using that assms(3) by blast
    from candidate_of_Some [OF item(2) [OF x]] eq [OF x] show ?thesis by auto
  qed
  have "\<exists>args. compiled_arguments ?c ck = Inr args"
  proof (cases "str_field ''index_arg'' ?c = []")
    case True
    have "\<exists>v. collected_value (str_field ''collect_arg'' ?c) x = Inr v" if "x \<in> set ck" for x
    proof -
      from grp [OF that] obtain raw where "contract_group (item_call x) raw = Some (k, ?c)" by blast
      note G = contract_group_Some [OF this]
      from G validated_contract_fields(1) True have "vget (tc_arguments (item_call x)) (str_field ''collect_arg'' ?c) \<noteq> VNone"
        by blast
      then show ?thesis by (auto simp: collected_value_def vget_def vget_or_def split: option.splits)
    qed
    then obtain vs where "py_map (collected_value (str_field ''collect_arg'' ?c)) ck = Inr vs"
      using py_map_total [of ck "collected_value (str_field ''collect_arg'' ?c)"] by blast
    with True show ?thesis by (simp add: compiled_arguments_def Let_def)
  next
    case False
    from grp [of "hd ck"] assms(4) obtain raw where "contract_group (item_call (hd ck)) raw = Some (k, ?c)" by auto
    from contract_group_Some [OF this] False have
      "\<exists>i. index_value (item_call (hd ck)) (str_field ''index_arg'' ?c) = Inr i"
      by (auto intro!: index_value_total)
    with False show ?thesis by (auto simp: compiled_arguments_def Let_def)
  qed
  then show ?thesis by (auto simp: compile_chunk_def Let_def)
qed

lemma runs_from_total:
  assumes "\<And>x y. x \<in> A \<Longrightarrow> y \<in> A \<Longrightarrow> \<exists>b. contiguous x y = Inr b"
  shows "run \<noteq> [] \<Longrightarrow> set run \<subseteq> A \<Longrightarrow> set xs \<subseteq> A \<Longrightarrow> \<exists>runs. runs_from run xs = Inr runs"
proof (induction run xs rule: runs_from.induct)
  case (2 run x xs)
  then obtain b where b: "contiguous (last run) x = Inr b" using assms [of "last run" x] by (meson in_mono last_in_set list.set_intros(1))
  from b 2 show ?case
  proof (cases b)
    case False
    with 2 have "\<exists>runs. runs_from [x] xs = Inr runs" by simp
    with b False show ?thesis by (auto simp: py_bind_Inr)
  qed auto
qed simp

lemma all_replacements_total:
  assumes "unambiguous registry calls"
  shows "\<exists>rs. all_replacements registry calls = Inr rs"
proof -
  let ?gs = "collect_candidates registry calls"
  have "\<exists>rs. compile_group g = Inr rs" if "g \<in> set ?gs" for g
  proof -
    obtain k xs where g: "g = (k, xs)" by (cases g)
    with that have ok: "group_ok registry calls (length calls) k xs" by (simp add: group_ok_member)
    have "sorted (map item_position xs)" using ok by (auto simp: group_ok_def intro: strict_sorted_imp_sorted)
    then have sort: "sort_key item_position xs = xs" by (rule sort_key_id_if_sorted)
    obtain x ys where xs: "xs = x # ys" using ok by (cases xs) (auto simp: group_ok_def)
    have "\<exists>runs. runs_from [x] ys = Inr runs"
      by (rule runs_from_total [where A = "set xs"]) (use contiguous_total [OF assms ok] xs in auto)
    then obtain runs where runs: "runs_from [x] ys = Inr runs" by blast
    from runs_from_Inr [OF this] xs have R: "concat runs = xs" "\<And>r. r \<in> set runs \<Longrightarrow> r \<noteq> [] \<and> linked r" by auto
    have "\<exists>rs. compile_run run = Inr rs" if "run \<in> set runs" for run
      unfolding compile_run_def
    proof (rule py_map_total)
      fix ck assume "ck \<in> set (run_chunks run)"
      then have "2 \<le> length ck" "set ck \<subseteq> set run" using chunks_linked R(2) [OF that] by (auto simp: run_chunks_def)
      moreover have "set run \<subseteq> set xs" using that R(1) by auto
      moreover have "hd run \<in> set run" using R(2) [OF that] by simp
      ultimately show "\<exists>r. compile_chunk (item_contract (hd run)) ck = Inr r"
        using compile_chunk_total [OF assms ok, of ck "hd run"] by fastforce
    qed
    then obtain rss where "py_map compile_run runs = Inr rss" using py_map_total [of runs compile_run] by blast
    moreover from sort xs runs have "group_runs xs = Inr runs" by (simp add: group_runs_def)
    ultimately show ?thesis by (simp add: compile_group_def g)
  qed
  then obtain rss where "py_map compile_group ?gs = Inr rss" using py_map_total [of ?gs compile_group] by blast
  then show ?thesis by (simp add: all_replacements_def)
qed


definition demo_registry_batch :: tool_registry where
  "demo_registry_batch t =
     (if t = ''web.manage'' then
        [(''metadata'', VDict [(''batching'', VList [VDict
            [(''source_action'', VStr ''weather''), (''target_action'', VStr ''weather_batch''),
             (''collect_arg'', VStr ''location''), (''collection_arg'', VStr ''locations''),
             (''max_batch_size'', VInt 10), (''group_by'', VList [VStr ''days''])]])])]
      else [])"

definition demo_weather :: "string \<Rightarrow> string \<Rightarrow> string \<Rightarrow> tool_call" where
  "demo_weather cid step place = \<lparr>tc_id = cid, tc_name = ''web.manage'',
     tc_arguments = [(''action'', VStr ''weather''), (''location'', VStr place), (''days'', VInt 3)],
     tc_step_id = step, tc_depends_on = [], tc_result_bindings = [], tc_failure_policy = ''replan'', tc_goal_ids = []\<rparr>"

definition demo_reply :: "tool_call list" where
  "demo_reply = [demo_weather ''call_1'' ''a'' ''Oslo'', demo_weather ''call_2'' ''b'' ''Rome'',
     (demo_call ''report'' [''a'', ''b''])\<lparr>tc_id := ''call_3''\<rparr>]"


text \<open>Batching can break a plan the validator accepts. A call counts as referenced when its \<open>id\<close> is named by a
  dependency, but dependencies name step ids; so the two annotated calls below, on which the third depends, are
  merged into one call without a step id, and the reply that was valid is refused for its unknown
  dependencies.\<close>

theorem batching_breaks_dependents:
  "validate_incremental_graph demo_reply (\<lambda>_. None) None None = Inr [[''a'', ''b''], [''report'']] \<and>
   (\<exists>compiled events. compile_batchable_calls demo_reply demo_registry_batch True = Inr (compiled, events) \<and>
      validate_incremental_graph compiled (\<lambda>_. None) None None = Inl (UnknownDependencies ''report'' [''a'', ''b'']))"
proof (intro conjI)
  show "validate_incremental_graph demo_reply (\<lambda>_. None) None None = Inr [[''a'', ''b''], [''report'']]" by code_simp
  have "compile_batchable_calls demo_reply demo_registry_batch True =
      Inr ([\<lparr>tc_id = ''call_1'', tc_name = ''web.manage'',
        tc_arguments = [(''action'', VStr ''weather_batch''), (''days'', VInt 3),
          (''locations'', VList [VStr ''Oslo'', VStr ''Rome''])],
        tc_step_id = [], tc_depends_on = [], tc_result_bindings = [], tc_failure_policy = ''replan'', tc_goal_ids = []\<rparr>,
       (demo_call ''report'' [''a'', ''b''])\<lparr>tc_id := ''call_3''\<rparr>],
      [[(''tool_id'', VStr ''web.manage''), (''source_action'', VStr ''weather''),
        (''target_action'', VStr ''weather_batch''), (''source_call_count'', VInt 2),
        (''compiled_call_id'', VStr ''call_1'')]])" by code_simp
  moreover have "validate_incremental_graph
      [\<lparr>tc_id = ''call_1'', tc_name = ''web.manage'',
        tc_arguments = [(''action'', VStr ''weather_batch''), (''days'', VInt 3),
          (''locations'', VList [VStr ''Oslo'', VStr ''Rome''])],
        tc_step_id = [], tc_depends_on = [], tc_result_bindings = [], tc_failure_policy = ''replan'', tc_goal_ids = []\<rparr>,
       (demo_call ''report'' [''a'', ''b''])\<lparr>tc_id := ''call_3''\<rparr>] (\<lambda>_. None) None None =
      Inl (UnknownDependencies ''report'' [''a'', ''b''])" by code_simp
  ultimately show "\<exists>compiled events. compile_batchable_calls demo_reply demo_registry_batch True = Inr (compiled, events) \<and>
      validate_incremental_graph compiled (\<lambda>_. None) None None = Inl (UnknownDependencies ''report'' [''a'', ''b''])"
    by blast
qed

end
