(* ===== verification/Lifecycle.thy ===== *)
theory Lifecycle
  imports Lz_Prelude
begin

section \<open>Stores of things that have a lifecycle\<close>

text \<open>
  The contract the durable stores of the program share. A store holds things under keys; each thing has a phase
  (its status with what must not change once it is final). Every operation keeps a thing, never takes it back to a
  phase of smaller rank, and leaves a final phase as it is. Clients rely on the facts for whole runs, proved here
  once; the stores interpret the locale on their own operations.
\<close>

locale lifecycle =
  fixes step :: "'c \<Rightarrow> 'c \<Rightarrow> bool"
    and phase :: "'c \<Rightarrow> 'k \<Rightarrow> 'p option"
    and rank :: "'p \<Rightarrow> nat"
    and final :: "'p \<Rightarrow> bool"
  assumes step_keeps: "step c c' \<Longrightarrow> phase c k = Some p \<Longrightarrow>
      \<exists>p'. phase c' k = Some p' \<and> rank p \<le> rank p' \<and> (final p \<longrightarrow> p' = p)"
begin

lemma run_keeps:
  "step\<^sup>*\<^sup>* c c' \<Longrightarrow> phase c k = Some p \<Longrightarrow>
   \<exists>p'. phase c' k = Some p' \<and> rank p \<le> rank p' \<and> (final p \<longrightarrow> p' = p)"
proof (induction rule: rtranclp_induct)
  case (step d d')
  then obtain q where q: "phase d k = Some q" "rank p \<le> rank q" "final p \<longrightarrow> q = p" by blast
  from step_keeps [OF step.hyps(2) q(1)] obtain p' where
    "phase d' k = Some p'" "rank q \<le> rank p'" "final q \<longrightarrow> p' = q" by blast
  with q(2,3) show ?case by (intro exI [of _ p']) auto
qed simp

lemma final_absorbing: "step\<^sup>*\<^sup>* c c' \<Longrightarrow> phase c k = Some p \<Longrightarrow> final p \<Longrightarrow> phase c' k = Some p"
  using run_keeps by metis

lemma never_back: "step\<^sup>*\<^sup>* c c' \<Longrightarrow> phase c k = Some p \<Longrightarrow> phase c' k = Some q \<Longrightarrow> rank p \<le> rank q"
  using run_keeps by (metis option.inject)

lemma final_once:
  "step\<^sup>*\<^sup>* c d \<Longrightarrow> step\<^sup>*\<^sup>* c e \<Longrightarrow> phase c k = Some p \<Longrightarrow> final p \<Longrightarrow> phase d k = phase e k"
  by (simp add: final_absorbing)

end

text \<open>Stores whose operations keep the contract only in states that satisfy an invariant, which they preserve.\<close>

locale guarded_lifecycle =
  fixes step :: "'c \<Rightarrow> 'c \<Rightarrow> bool"
    and ok :: "'c \<Rightarrow> bool"
    and phase :: "'c \<Rightarrow> 'k \<Rightarrow> 'p option"
    and rank :: "'p \<Rightarrow> nat"
    and final :: "'p \<Rightarrow> bool"
  assumes ok_step: "ok c \<Longrightarrow> step c c' \<Longrightarrow> ok c'"
    and guarded_step_keeps: "ok c \<Longrightarrow> step c c' \<Longrightarrow> phase c k = Some p \<Longrightarrow>
      \<exists>p'. phase c' k = Some p' \<and> rank p \<le> rank p' \<and> (final p \<longrightarrow> p' = p)"

sublocale guarded_lifecycle \<subseteq> guarded: lifecycle "\<lambda>c c'. ok c \<and> step c c'" phase rank final
  by unfold_locales (use guarded_step_keeps in blast)

context guarded_lifecycle
begin

lemma ok_run: "step\<^sup>*\<^sup>* c c' \<Longrightarrow> ok c \<Longrightarrow> ok c'"
  by (induction rule: rtranclp_induct) (auto intro: ok_step)

lemma guarded_run: "step\<^sup>*\<^sup>* c c' \<Longrightarrow> ok c \<Longrightarrow> (\<lambda>c c'. ok c \<and> step c c')\<^sup>*\<^sup>* c c'"
proof (induction rule: rtranclp_induct)
  case (step d d')
  with ok_run have "ok d \<and> step d d'" by blast
  with step.IH [OF step.prems] show ?case by (rule rtranclp.rtrancl_into_rtrancl)
qed simp

lemma reached_final: "ok c \<Longrightarrow> step\<^sup>*\<^sup>* c c' \<Longrightarrow> phase c k = Some p \<Longrightarrow> final p \<Longrightarrow> phase c' k = Some p"
  using guarded.final_absorbing guarded_run by blast

lemma reached_never_back: "ok c \<Longrightarrow> step\<^sup>*\<^sup>* c c' \<Longrightarrow> phase c k = Some p \<Longrightarrow> phase c' k = Some q \<Longrightarrow> rank p \<le> rank q"
  using guarded.never_back guarded_run by blast

end

end
