(* ===== verification/Operation_Ledger.thy ===== *)
theory Operation_Ledger
  imports Py_Value Lifecycle
begin

section \<open>The ledger of side-effecting operations\<close>

text \<open>
  \<^verbatim>\<open>core/runtime_engine/operation_ledger.py\<close>: one JSON record per side-effecting call, planned before it runs,
  started, finished, linked to a durable resource, and settled from evidence. The ledger of a workspace is an
  association list from operation ids (file names) to records, each function takes it and returns it updated;
  a function holds the record's lock from its read to its write, so it is one step. The hash, the JSON text of
  the arguments, the redaction of stored text, the reading of an ISO time and the lookup of the linked jobs and
  subagents are the \<open>ledger_env\<close>. A fixed Chinese sentence of a summary is a field of it too.
\<close>

type_synonym ledger = "(string \<times> pydict) list"

record ledger_env =
  le_sha256 :: "string \<Rightarrow> string"
  le_dumps :: "pydict \<Rightarrow> string"
  le_redact :: "string \<Rightarrow> string"
  le_time :: "string \<Rightarrow> int option"
  le_resource :: "string \<Rightarrow> string \<Rightarrow> (string \<times> string) option"
  le_manual_text :: string
  le_not_started_text :: string
  le_indeterminate_text :: string

record run_context =
  rc_workspace_id :: string
  rc_request_id :: string
  rc_session_id :: string
  rc_risk_level :: pyval

definition operation_id :: "ledger_env \<Rightarrow> string \<Rightarrow> string \<Rightarrow> string \<Rightarrow> string" where
  "operation_id env workspace_id turn_id call_id =
     ''op_'' @ take 24 (le_sha256 env (workspace_id @ '':'' @ turn_id @ '':'' @ call_id))"

definition is_hex_lower :: "char \<Rightarrow> bool" where
  "is_hex_lower c = (is_digit c \<or> c \<in> set ''abcdef'')"

definition operation_path_ok :: "string \<Rightarrow> bool" where
  "operation_path_ok op_id =
     (length op_id = 27 \<and> starts_with op_id ''op_'' \<and> list_all is_hex_lower (drop 3 op_id))"

definition arguments_digest :: "ledger_env \<Rightarrow> pydict \<Rightarrow> string" where
  "arguments_digest env arguments = le_sha256 env (le_dumps env arguments)"

definition operation_file :: "ledger \<Rightarrow> string \<Rightarrow> pydict py" where
  "operation_file ledger op_id =
     (if \<not> operation_path_ok op_id then Inl (ValueError ''invalid_operation_id'')
      else case map_of ledger op_id of None \<Rightarrow> Inl (FileNotFoundError op_id) | Some r \<Rightarrow> Inr r)"

definition status_of :: "pydict \<Rightarrow> string" where
  "status_of r = str_of_or (vget r ''status'') []"

definition update_all :: "(string \<times> pyval) list \<Rightarrow> pydict \<Rightarrow> pydict" where
  "update_all new r = fold (\<lambda>(k, v). AList.update k v) new r"

subsection \<open>Planning, starting and finishing\<close>

definition plan_operation ::
  "ledger_env \<Rightarrow> string \<Rightarrow> run_context \<Rightarrow> string \<Rightarrow> string \<Rightarrow> pydict \<Rightarrow> ledger \<Rightarrow> (ledger \<times> pydict) py" where
  "plan_operation env now ctx tool_id call_id arguments ledger =
     (let op_id = operation_id env (rc_workspace_id ctx) (rc_request_id ctx) call_id in
      if \<not> operation_path_ok op_id then Inl (ValueError ''invalid_operation_id'')
      else case map_of ledger op_id of
        Some r \<Rightarrow> Inr (ledger, r)
      | None \<Rightarrow>
          (let r = [(''schema'', VStr ''lzcore.operation_ledger.v1''), (''operation_id'', VStr op_id),
                    (''turn_id'', VStr (rc_request_id ctx)), (''workspace_id'', VStr (rc_workspace_id ctx)),
                    (''session_id'', VStr (rc_session_id ctx)), (''canonical_tool'', VStr tool_id),
                    (''call_id'', VStr call_id), (''arguments_sha256'', VStr (arguments_digest env arguments)),
                    (''read_only'', VBool False), (''risk_level'', VStr (str_of_or (rc_risk_level ctx) ''unknown'')),
                    (''idempotency'', VStr ''unknown''), (''status'', VStr ''planned''),
                    (''planned_at'', VStr now), (''updated_at'', VStr now)]
           in Inr (AList.update op_id r ledger, r)))"

definition start_operation :: "string \<Rightarrow> string \<Rightarrow> ledger \<Rightarrow> (ledger \<times> pydict) py" where
  "start_operation now op_id ledger =
     py_bind (operation_file ledger op_id) (\<lambda>r.
       if vget r ''status'' \<noteq> VStr ''planned'' then Inr (ledger, r)
       else (let r = update_all [(''status'', VStr ''running''), (''started_at'', VStr now), (''updated_at'', VStr now)] r
             in Inr (AList.update op_id r ledger, r)))"

record operation_result =
  or_ok :: bool
  or_execution_may_continue :: bool
  or_output :: pydict
  or_error_code :: string
  or_error :: string

definition live_statuses :: "string list" where
  "live_statuses = [''planned'', ''running'', ''unknown'']"

definition terminal_statuses :: "string list" where
  "terminal_statuses = [''succeeded'', ''failed'', ''blocked'', ''reconciled'', ''indeterminate'']"

text \<open>\<open>record.get("status") in {...}\<close>\<close>

definition status_in :: "string list \<Rightarrow> pydict \<Rightarrow> bool" where
  "status_in statuses r = (vget r ''status'' \<in> VStr ` set statuses)"

definition finish_status :: "operation_result \<Rightarrow> string" where
  "finish_status result =
     (if or_execution_may_continue result then ''unknown''
      else if vget (or_output result) ''executed'' = VBool False then ''blocked''
      else if or_ok result then ''succeeded'' else ''failed'')"

definition finish_operation ::
  "ledger_env \<Rightarrow> string \<Rightarrow> string \<Rightarrow> operation_result \<Rightarrow> ledger \<Rightarrow> (ledger \<times> pydict) py" where
  "finish_operation env now op_id result ledger =
     py_bind (operation_file ledger op_id) (\<lambda>r.
       if \<not> status_in live_statuses r then Inr (ledger, r)
       else (let status = finish_status result in
         if vget r ''status'' = VStr ''unknown'' \<and> status = ''unknown'' then Inr (ledger, r)
         else (let r = update_all
                 [(''status'', VStr status), (''finished_at'', VStr now), (''updated_at'', VStr now),
                  (''error_code'', VStr (take 120 (or_error_code result))),
                  (''error'', VStr (take 500 (le_redact env (or_error result)))),
                  (''result_summary'', VStr (take 800 (le_redact env
                     (str_of_or (vget (or_output result) ''summary'') []))))] r
               in Inr (AList.update op_id r ledger, r))))"

definition link_operation_resource ::
  "string \<Rightarrow> string \<Rightarrow> string \<Rightarrow> string \<Rightarrow> ledger \<Rightarrow> (ledger \<times> pydict option) py" where
  "link_operation_resource now op_id resource_kind resource_id ledger =
     (let kind = lower (strip resource_kind); identifier = strip resource_id in
      if kind = [] \<or> identifier = [] then Inr (ledger, None)
      else if \<not> operation_path_ok op_id then Inl (ValueError ''invalid_operation_id'')
      else case map_of ledger op_id of
        None \<Rightarrow> Inr (ledger, None)
      | Some r \<Rightarrow>
          (let current_kind = str_of_or (vget r ''resource_kind'') []; current_id = str_of_or (vget r ''resource_id'') [] in
           if (current_kind \<noteq> [] \<or> current_id \<noteq> []) \<and> (current_kind \<noteq> kind \<or> current_id \<noteq> identifier)
           then Inl (RuntimeError ''operation_resource_conflict'')
           else (let r = update_all [(''resource_kind'', VStr kind), (''resource_id'', VStr identifier),
                                     (''updated_at'', VStr now)] r
                 in Inr (AList.update op_id r ledger, Some r))))"

subsection \<open>Settling\<close>

record settlement =
  st_status :: string
  st_resolved_by :: string
  st_error_code :: string
  st_error :: string
  st_result_summary :: string
  st_resource_kind :: string
  st_resource_id :: string
  st_resolution_reason :: string
  st_require_unresolved :: bool

definition settle_operation ::
  "ledger_env \<Rightarrow> string \<Rightarrow> string \<Rightarrow> settlement \<Rightarrow> ledger \<Rightarrow> (ledger \<times> pydict) py" where
  "settle_operation env now op_id s ledger =
     (if st_status s \<notin> set terminal_statuses then Inl (ValueError ''invalid_operation_resolution_status'')
      else py_bind (operation_file ledger op_id) (\<lambda>r.
        let current = status_of r; good = st_status s \<in> {''succeeded'', ''reconciled''} in
        if current \<in> set terminal_statuses then
          (if st_require_unresolved s then Inl (RuntimeError ''operation_already_resolved'') else Inr (ledger, r))
        else if current \<notin> set live_statuses then Inl (RuntimeError ''operation_not_resolvable'')
        else
          (let r = update_all
             [(''status'', VStr (st_status s)),
              (''finished_at'', VStr (str_of_or (vget r ''finished_at'') now)), (''resolved_at'', VStr now),
              (''resolved_by'', VStr (take 80 (str_or (st_resolved_by s) ''system''))),
              (''resolution_reason'', VStr (take 500 (le_redact env (st_resolution_reason s)))),
              (''error_code'', VStr (if good then [] else take 120 (st_error_code s))),
              (''error'', VStr (if good then [] else take 500 (le_redact env (st_error s)))),
              (''result_summary'', VStr (take 800 (le_redact env (st_result_summary s)))),
              (''updated_at'', VStr now)] r;
            r = (if st_resource_kind s \<noteq> [] \<and> st_resource_id s \<noteq> []
                 then update_all [(''resource_kind'', VStr (take 80 (st_resource_kind s))),
                                  (''resource_id'', VStr (take 160 (st_resource_id s)))] r
                 else r)
           in Inr (AList.update op_id r ledger, r))))"

definition blank_settlement :: settlement where
  "blank_settlement = \<lparr>st_status = [], st_resolved_by = [], st_error_code = [], st_error = [], st_result_summary = [],
     st_resource_kind = [], st_resource_id = [], st_resolution_reason = [], st_require_unresolved = False\<rparr>"

definition resolve_operation_manually ::
  "ledger_env \<Rightarrow> string \<Rightarrow> string \<Rightarrow> string \<Rightarrow> string \<Rightarrow> ledger \<Rightarrow> (ledger \<times> pydict) py" where
  "resolve_operation_manually env now op_id status reason ledger =
     (if strip reason = [] then Inl (ValueError ''resolution_reason_required'')
      else settle_operation env now op_id
        (blank_settlement\<lparr>st_status := status, st_resolved_by := ''manual'', st_resolution_reason := strip reason,
           st_result_summary := le_manual_text env, st_require_unresolved := True\<rparr>) ledger)"

subsection \<open>Listing and reconciliation\<close>

definition public_fields :: "string list" where
  "public_fields =
     [''schema'', ''operation_id'', ''turn_id'', ''workspace_id'', ''session_id'', ''canonical_tool'', ''call_id'',
      ''read_only'', ''risk_level'', ''idempotency'', ''status'', ''planned_at'', ''started_at'', ''finished_at'',
      ''updated_at'', ''error_code'', ''resource_kind'', ''resource_id'', ''resolved_at'', ''resolved_by'',
      ''resolution_reason'']"

definition public_operation_record :: "ledger_env \<Rightarrow> pydict \<Rightarrow> pydict" where
  "public_operation_record env r =
     update_all [(''error'', VStr (take 500 (le_redact env (str_of_or (vget r ''error'') [])))),
                 (''result_summary'', VStr (take 800 (le_redact env (str_of_or (vget r ''result_summary'') []))))]
       (concat (map (\<lambda>k. case map_of r k of None \<Rightarrow> [] | Some v \<Rightarrow> [(k, v)]) public_fields))"

text \<open>\<open>list_json_records\<close>: the records, the last updated first, at most 5000.\<close>

definition updated_key :: "pydict \<Rightarrow> string" where
  "updated_key r = py_str (vor (vget r ''updated_at'') (vor (vget r ''created_at'') (VStr [])))"

definition list_json_records :: "ledger \<Rightarrow> nat \<Rightarrow> pydict list" where
  "list_json_records ledger limit = take (max 1 (min limit 5000)) (rev (sort_key updated_key (rev (map snd ledger))))"

definition list_operations :: "ledger_env \<Rightarrow> string \<Rightarrow> nat \<Rightarrow> ledger \<Rightarrow> pydict list" where
  "list_operations env status limit ledger =
     (let records = list_json_records ledger 5000;
          records = (if status \<noteq> [] then filter (\<lambda>r. status_of r = status) records else records)
      in map (public_operation_record env) (take (max 1 (min limit 5000)) records))"

definition count_status :: "pydict \<Rightarrow> (string \<times> nat) list \<Rightarrow> (string \<times> nat) list" where
  "count_status r counts =
     (let state = str_of_or (vget r ''status'') ''unknown''
      in AList.update state ((case map_of counts state of Some n \<Rightarrow> n | None \<Rightarrow> 0) + 1) counts)"

definition operation_counts :: "ledger_env \<Rightarrow> ledger \<Rightarrow> (string \<times> nat) list" where
  "operation_counts env ledger = fold count_status (list_operations env [] 5000 ledger) []"

definition started_before :: "ledger_env \<Rightarrow> pydict \<Rightarrow> string \<Rightarrow> bool" where
  "started_before env r boundary =
     (let candidate = py_str (vor (vget r ''started_at'') (vor (vget r ''planned_at'')
                        (vor (vget r ''updated_at'') (VStr []))))
      in boundary \<noteq> [] \<and> candidate \<noteq> [] \<and>
         (case (le_time env candidate, le_time env boundary) of (Some a, Some b) \<Rightarrow> a < b | _ \<Rightarrow> False))"

record outcome =
  oc_checked :: nat
  oc_resolved :: nat
  oc_pending :: nat
  oc_indeterminate :: nat

definition find_resource :: "ledger_env \<Rightarrow> pydict \<Rightarrow> (string \<times> string) option" where
  "find_resource env r =
     (let kind = str_of_or (vget r ''resource_kind'') [] in
      if kind \<in> {''subagent'', ''job''} then le_resource env kind (str_of_or (vget r ''resource_id'') []) else None)"

definition resource_settlement :: "pydict \<Rightarrow> string \<Rightarrow> string \<Rightarrow> settlement" where
  "resource_settlement r resource_status summary =
     (let kind = str_of_or (vget r ''resource_kind'') []; ok = (resource_status = ''succeeded'') in
      blank_settlement\<lparr>st_status := (if ok then ''succeeded'' else ''failed''), st_resolved_by := ''durable_resource'',
        st_resource_kind := kind, st_resource_id := str_of_or (vget r ''resource_id'') [],
        st_result_summary := summary,
        st_error_code := (if ok then [] else upper kind @ ''_'' @ upper resource_status)\<rparr>)"

definition startup_settlement :: "ledger_env \<Rightarrow> bool \<Rightarrow> settlement" where
  "startup_settlement env planned =
     blank_settlement\<lparr>st_status := (if planned then ''blocked'' else ''indeterminate''),
       st_resolved_by := ''startup_reconciliation'',
       st_result_summary := (if planned then le_not_started_text env else le_indeterminate_text env),
       st_error_code := (if planned then ''OPERATION_NOT_STARTED_BEFORE_RESTART''
                         else ''OPERATION_RESULT_INDETERMINATE_AFTER_RESTART''),
       st_error := (if planned then ''operation was not started before backend restart''
                    else ''operation result cannot be determined after backend restart''),
       st_resolution_reason := ''previous_process_has_no_live_reconciliation_source''\<rparr>"

text \<open>\<open>str(record["operation_id"])\<close>\<close>

definition record_operation_id :: "pydict \<Rightarrow> string py" where
  "record_operation_id r =
     (case map_of r ''operation_id'' of None \<Rightarrow> Inl (KeyError ''operation_id'') | Some v \<Rightarrow> Inr (py_str v))"

definition reconcile_one ::
  "ledger_env \<Rightarrow> string \<Rightarrow> string \<Rightarrow> pydict \<Rightarrow> ledger \<times> outcome \<Rightarrow> (ledger \<times> outcome) py" where
  "reconcile_one env now boundary r st =
     (case st of (ledger, oc) \<Rightarrow>
      if \<not> status_in live_statuses r then Inr st
      else
        (let oc = oc\<lparr>oc_checked := oc_checked oc + 1\<rparr>; res = find_resource env r;
             pending = Inr (ledger, oc\<lparr>oc_pending := oc_pending oc + 1\<rparr>) in
         if (case res of Some (s, _) \<Rightarrow> s \<in> {''succeeded'', ''failed'', ''cancelled'', ''canceled''} | None \<Rightarrow> False)
         then (case res of
             Some (s, summary) \<Rightarrow>
               py_bind (record_operation_id r) (\<lambda>op_id.
               py_bind (settle_operation env now op_id (resource_settlement r s summary) ledger) (\<lambda>(ledger, _).
                 Inr (ledger, oc\<lparr>oc_resolved := oc_resolved oc + 1\<rparr>)))
           | None \<Rightarrow> pending)
         else if res \<noteq> None then pending
         else if \<not> started_before env r boundary then pending
         else
           (let planned = (vget r ''status'' = VStr ''planned'') in
            py_bind (record_operation_id r) (\<lambda>op_id.
            py_bind (settle_operation env now op_id (startup_settlement env planned) ledger) (\<lambda>(ledger, _).
              Inr (ledger, oc\<lparr>oc_resolved := oc_resolved oc + 1,
                             oc_indeterminate := oc_indeterminate oc + (if planned then 0 else 1)\<rparr>))))))"

text \<open>The loop over the listed records; the \<open>i\<close>-th one sees the time \<open>clock i\<close>.\<close>

fun reconcile_loop ::
  "ledger_env \<Rightarrow> (nat \<Rightarrow> string) \<Rightarrow> nat \<Rightarrow> string \<Rightarrow> pydict list \<Rightarrow> ledger \<times> outcome \<Rightarrow> (ledger \<times> outcome) py" where
  "reconcile_loop env clock i boundary [] st = Inr st"
| "reconcile_loop env clock i boundary (r # rs) st =
     py_bind (reconcile_one env (clock i) boundary r st) (reconcile_loop env clock (Suc i) boundary rs)"

definition reconcile_operations ::
  "ledger_env \<Rightarrow> (nat \<Rightarrow> string) \<Rightarrow> string \<Rightarrow> ledger \<Rightarrow> (ledger \<times> outcome) py" where
  "reconcile_operations env clock boundary ledger =
     reconcile_loop env clock 0 boundary (list_operations env [] 5000 ledger)
       (ledger, \<lparr>oc_checked = 0, oc_resolved = 0, oc_pending = 0, oc_indeterminate = 0\<rparr>)"

subsection \<open>The lifecycle of a record\<close>

text \<open>Every way the program changes the ledger of a workspace.\<close>

inductive ledger_step :: "ledger_env \<Rightarrow> ledger \<Rightarrow> ledger \<Rightarrow> bool" for env where
  plan: "plan_operation env now ctx t c args l = Inr (l', r) \<Longrightarrow> ledger_step env l l'"
| start: "start_operation now i l = Inr (l', r) \<Longrightarrow> ledger_step env l l'"
| finish: "finish_operation env now i res l = Inr (l', r) \<Longrightarrow> ledger_step env l l'"
| link: "link_operation_resource now i kind rid l = Inr (l', r') \<Longrightarrow> ledger_step env l l'"
| settle: "settle_operation env now i s l = Inr (l', r) \<Longrightarrow> ledger_step env l l'"
| resolve: "resolve_operation_manually env now i st reason l = Inr (l', r) \<Longrightarrow> ledger_step env l l'"
| reconcile: "reconcile_operations env clock boundary l = Inr (l', oc) \<Longrightarrow> ledger_step env l l'"

text \<open>The status, and what the record says about the outcome and the call.\<close>

type_synonym phase_t = "string \<times> pyval list"

definition outcome_fields :: "string list" where
  "outcome_fields =
     [''finished_at'', ''error_code'', ''error'', ''result_summary'', ''resolved_at'', ''resolved_by'',
      ''resolution_reason'', ''canonical_tool'', ''arguments_sha256'', ''started_at'']"

definition phase_of :: "pydict \<Rightarrow> phase_t" where
  "phase_of r = (status_of r, map (vget r) outcome_fields)"

definition op_phase :: "ledger \<Rightarrow> string \<Rightarrow> phase_t option" where
  "op_phase l i = map_option phase_of (map_of l i)"

definition op_rank :: "phase_t \<Rightarrow> nat" where
  "op_rank p = (if fst p = ''planned'' then 0 else if fst p = ''running'' then 1 else if fst p = ''unknown'' then 2 else 3)"

definition op_final :: "phase_t \<Rightarrow> bool" where
  "op_final p = (fst p \<notin> set live_statuses)"

lemma str_of_or_VStr [simp]: "str_of_or (VStr s) d = str_or s d"
  by (cases s) (simp_all add: str_of_or_def vor_def)

lemma str_or_Nil [simp]: "str_or s [] = s"
  by (cases s) simp_all

lemma update_all_simps [simp]:
  "update_all [] r = r" "update_all ((k, v) # new) r = update_all new (AList.update k v r)"
  by (simp_all add: update_all_def)

lemma op_phase_update: "op_phase (AList.update i r l) k = (if k = i then Some (phase_of r) else op_phase l k)"
  by (simp add: op_phase_def update_conv')

lemma status_in_iff: "status_in ss r \<longleftrightarrow> (\<exists>s \<in> set ss. vget r ''status'' = VStr s)"
  by (auto simp: status_in_def)

text \<open>An update of one record that keeps its phase, or moves a live record forward.\<close>

definition moves :: "pydict \<Rightarrow> pydict \<Rightarrow> bool" where
  "moves r r' = (op_rank (phase_of r) \<le> op_rank (phase_of r') \<and> (op_final (phase_of r) \<longrightarrow> phase_of r' = phase_of r))"

lemma moves_refl [simp]: "moves r r"
  by (simp add: moves_def)

lemma moves_live: "status_of r \<in> set live_statuses \<Longrightarrow> op_rank (phase_of r) \<le> op_rank (phase_of r') \<Longrightarrow> moves r r'"
  by (simp add: moves_def op_final_def phase_of_def)

lemma moves_trans: "moves r s \<Longrightarrow> moves s t \<Longrightarrow> moves r t"
  by (auto simp: moves_def)

definition keeps :: "ledger \<Rightarrow> ledger \<Rightarrow> bool" where
  "keeps l l' = (\<forall>i r. map_of l i = Some r \<longrightarrow> (\<exists>r'. map_of l' i = Some r' \<and> moves r r'))"

lemma keeps_refl [simp]: "keeps l l"
  by (simp add: keeps_def)

lemma keeps_trans: "keeps l m \<Longrightarrow> keeps m n \<Longrightarrow> keeps l n"
  unfolding keeps_def by (blast intro: moves_trans)

lemma keeps_update: "map_of l i = Some r \<Longrightarrow> moves r r' \<Longrightarrow> keeps l (AList.update i r' l)"
  by (auto simp: keeps_def update_conv')

lemma keeps_new: "map_of l i = None \<Longrightarrow> keeps l (AList.update i r' l)"
  by (auto simp: keeps_def update_conv')

lemma operation_file_Inr: "operation_file l i = Inr r \<longleftrightarrow> operation_path_ok i \<and> map_of l i = Some r"
  by (auto simp: operation_file_def split: option.splits)

lemma start_keeps: "start_operation now i l = Inr (l', r) \<Longrightarrow> keeps l l'"
proof -
  assume eq: "start_operation now i l = Inr (l', r)"
  then obtain r0 where r0: "map_of l i = Some r0" "l' = l \<or> l' = AList.update i r l \<and>
      vget r0 ''status'' = VStr ''planned'' \<and> vget r ''status'' = VStr ''running''"
    by (auto simp: start_operation_def py_bind_Inr operation_file_Inr Let_def split: if_splits)
  then show ?thesis
    by (auto simp: op_rank_def phase_of_def status_of_def live_statuses_def intro!: keeps_update moves_live)
qed

lemma finish_status_cases: "finish_status res \<in> {''unknown'', ''blocked'', ''succeeded'', ''failed''}"
  by (simp add: finish_status_def)

lemma finish_keeps: "finish_operation env now i res l = Inr (l', r) \<Longrightarrow> keeps l l'"
proof -
  assume eq: "finish_operation env now i res l = Inr (l', r)"
  then obtain r0 where r0: "map_of l i = Some r0"
    by (auto simp: finish_operation_def py_bind_Inr operation_file_Inr split: if_splits)
  from eq r0 consider "l' = l" | "l' = AList.update i r l" "status_in live_statuses r0"
      "vget r0 ''status'' = VStr ''unknown'' \<Longrightarrow> finish_status res \<noteq> ''unknown''" "status_of r = finish_status res"
    by (auto simp: finish_operation_def py_bind_Inr operation_file_Inr Let_def status_of_def split: if_splits)
  then show ?thesis
  proof cases
    case 2
    from 2(2) obtain st where st: "st \<in> set live_statuses" "vget r0 ''status'' = VStr st" by (auto simp: status_in_iff)
    then have "status_of r0 = st" by (simp add: status_of_def)
    moreover have "op_rank (phase_of r0) \<le> op_rank (phase_of r)"
      using st 2(3,4) finish_status_cases [of res] \<open>status_of r0 = st\<close>
      by (auto simp: op_rank_def phase_of_def live_statuses_def)
    ultimately show ?thesis using 2(1) r0 st(1) by (auto intro!: keeps_update moves_live)
  qed simp
qed

lemma link_keeps: "link_operation_resource now i kind rid l = Inr (l', r') \<Longrightarrow> keeps l l'"
  by (auto simp: link_operation_resource_def Let_def moves_def phase_of_def status_of_def outcome_fields_def
      split: if_splits option.splits intro!: keeps_update)

lemma settle_keeps: "settle_operation env now i s l = Inr (l', r) \<Longrightarrow> keeps l l'"
proof -
  assume eq: "settle_operation env now i s l = Inr (l', r)"
  then obtain r0 where r0: "map_of l i = Some r0"
    by (auto simp: settle_operation_def py_bind_Inr operation_file_Inr split: if_splits)
  have terminal: "s' \<in> set terminal_statuses \<Longrightarrow> s' \<noteq> ''planned'' \<and> s' \<noteq> ''running'' \<and> s' \<noteq> ''unknown''" for s'
    by (auto simp: terminal_statuses_def)
  from eq r0 consider "l' = l" | "l' = AList.update i r l" "status_of r0 \<in> set live_statuses" "status_of r = st_status s"
      "st_status s \<in> set terminal_statuses"
    by (auto simp: settle_operation_def py_bind_Inr operation_file_Inr Let_def status_of_def split: if_splits)
  then show ?thesis
  proof cases
    case 2
    from 2(3,4) terminal have "op_rank (phase_of r0) \<le> op_rank (phase_of r)" by (auto simp: op_rank_def phase_of_def)
    with 2 r0 show ?thesis by (auto intro!: keeps_update moves_live)
  qed simp
qed

lemma reconcile_one_keeps: "reconcile_one env now b r (l, oc) = Inr (l', oc') \<Longrightarrow> keeps l l'"
  by (auto simp: reconcile_one_def Let_def py_bind_Inr settle_keeps split: if_splits option.splits prod.splits)

lemma reconcile_loop_keeps: "reconcile_loop env clock i b rs (l, oc) = Inr (l', oc') \<Longrightarrow> keeps l l'"
proof (induction rs arbitrary: i l oc)
  case (Cons r rs)
  then obtain m oc1 where "reconcile_one env (clock i) b r (l, oc) = Inr (m, oc1)"
    "reconcile_loop env clock (Suc i) b rs (m, oc1) = Inr (l', oc')" by (auto simp: py_bind_Inr)
  with Cons.IH reconcile_one_keeps keeps_trans show ?case by blast
qed simp

lemma ledger_step_keeps: "ledger_step env l l' \<Longrightarrow> keeps l l'"
proof (induction rule: ledger_step.induct)
  case (plan now ctx t c args l l' r)
  then show ?case by (auto simp: plan_operation_def Let_def split: if_splits option.splits intro: keeps_new)
next
  case (reconcile clock boundary l l' oc)
  then show ?case by (auto simp: reconcile_operations_def dest: reconcile_loop_keeps)
next
  case (resolve now i st reason l l' r)
  then show ?case by (auto simp: resolve_operation_manually_def dest: settle_keeps split: if_splits)
qed (auto dest: start_keeps finish_keeps link_keeps settle_keeps)

interpretation op: lifecycle "ledger_step env" op_phase op_rank op_final for env
proof
  fix l l' k p
  assume "ledger_step env l l'" "op_phase l k = Some p"
  with ledger_step_keeps [of env l l'] show "\<exists>p'. op_phase l' k = Some p' \<and> op_rank p \<le> op_rank p' \<and> (op_final p \<longrightarrow> p' = p)"
    unfolding op_phase_def keeps_def moves_def by fastforce
qed

definition demo_ledger_env :: ledger_env where
  "demo_ledger_env = \<lparr>le_sha256 = (\<lambda>s. replicate 64 CHR ''a''), le_dumps = (\<lambda>d. ''{}''), le_redact = id,
     le_time = (\<lambda>s. if s = [] then None else Some (int (length s))), le_resource = (\<lambda>_ _. None),
     le_manual_text = ''checked'', le_not_started_text = ''not started'', le_indeterminate_text = ''unknown''\<rparr>"

definition demo_id :: string where "demo_id = ''op_'' @ replicate 24 CHR ''a''"

definition demo_planned :: pydict where
  "demo_planned = [(''operation_id'', VStr demo_id), (''status'', VStr ''planned''), (''planned_at'', VStr ''t'')]"

definition demo_ledger :: ledger where "demo_ledger = [(demo_id, demo_planned)]"

definition demo_done :: pydict where
  "demo_done = [(''operation_id'', VStr demo_id), (''status'', VStr ''succeeded''), (''error_code'', VStr [])]"

text \<open>C19: a settled operation stays settled: whatever the program does to the ledger afterwards, a record whose status
  is not planned, running or unknown keeps its status, its outcome, its resolution and the digest of its call.\<close>

theorem settled_operation_frozen:
  assumes "(ledger_step env)\<^sup>*\<^sup>* l l'" and "map_of l i = Some r" and "status_of r \<notin> set live_statuses"
  shows "\<exists>r'. map_of l' i = Some r' \<and> status_of r' = status_of r \<and> (\<forall>f \<in> set outcome_fields. vget r' f = vget r f)"
  using op.final_absorbing [OF assms(1), of i "phase_of r"] assms(2,3)
  by (auto simp: op_phase_def op_final_def phase_of_def)

theorem settled_operation_frozen_witness:
  "\<exists>l'. start_operation ''t2'' demo_id [(demo_id, demo_done)] = Inr (l', demo_done) \<and>
     (\<exists>r'. map_of l' demo_id = Some r' \<and> status_of r' = ''succeeded'')"
proof -
  have start: "start_operation ''t2'' demo_id [(demo_id, demo_done)] = Inr ([(demo_id, demo_done)], demo_done)"
    by code_simp
  then have "(ledger_step demo_ledger_env)\<^sup>*\<^sup>* [(demo_id, demo_done)] [(demo_id, demo_done)]"
    by (intro r_into_rtranclp) (rule ledger_step.start)
  moreover have "status_of demo_done = ''succeeded''" "status_of demo_done \<notin> set live_statuses" by code_simp+
  ultimately show ?thesis using settled_operation_frozen [of demo_ledger_env _ _ demo_id demo_done] start by force
qed

text \<open>An operation never goes back: along any run its status only moves forward through planned, running,
  unknown and a terminal one, and its record is never lost.\<close>

theorem operation_never_back:
  assumes "(ledger_step env)\<^sup>*\<^sup>* l l'" and "map_of l i = Some r"
  shows "\<exists>r'. map_of l' i = Some r' \<and> op_rank (phase_of r) \<le> op_rank (phase_of r')"
  using op.run_keeps [OF assms(1), of i "phase_of r"] assms(2) by (auto simp: op_phase_def)

theorem operation_never_back_witness:
  "\<exists>l' r. start_operation ''t2'' demo_id demo_ledger = Inr (l', r) \<and>
     (\<exists>r'. map_of l' demo_id = Some r' \<and> 0 \<le> op_rank (phase_of r'))"
proof -
  let ?r = "[(''operation_id'', VStr demo_id), (''status'', VStr ''running''), (''planned_at'', VStr ''t''),
    (''started_at'', VStr ''t2''), (''updated_at'', VStr ''t2'')]"
  have start: "start_operation ''t2'' demo_id demo_ledger = Inr ([(demo_id, ?r)], ?r)" by code_simp
  then have "(ledger_step demo_ledger_env)\<^sup>*\<^sup>* demo_ledger [(demo_id, ?r)]" by (intro r_into_rtranclp) (rule ledger_step.start)
  from operation_never_back [OF this, of demo_id demo_planned] start show ?thesis by (auto simp: demo_ledger_def)
qed

subsection \<open>What reconciliation settles\<close>

definition record_ok :: "string \<Rightarrow> pydict \<Rightarrow> bool" where
  "record_ok i r = (operation_path_ok i \<and> map_of r ''operation_id'' = Some (VStr i) \<and>
     status_in (live_statuses @ terminal_statuses) r)"

definition ledger_ok :: "ledger \<Rightarrow> bool" where
  "ledger_ok l = (distinct (map fst l) \<and> list_all (\<lambda>(i, r). record_ok i r) l)"

definition live :: "pydict \<Rightarrow> bool" where "live r = status_in live_statuses r"

text \<open>The evidence for closing a record: its resource ended, or it has none and began before the boundary.\<close>

definition closable :: "ledger_env \<Rightarrow> string \<Rightarrow> pydict \<Rightarrow> bool" where
  "closable env b r =
     (case find_resource env r of
        Some (s, _) \<Rightarrow> s \<in> {''succeeded'', ''failed'', ''cancelled'', ''canceled''}
      | None \<Rightarrow> started_before env r b)"

lemma map_of_projection:
  "map_of (concat (map (\<lambda>k. case map_of r k of None \<Rightarrow> [] | Some v \<Rightarrow> [(k, v)]) fs)) k =
   (if k \<in> set fs then map_of r k else None)"
  by (induction fs) (auto split: option.splits simp: map_add_def)

lemma public_fields_kept:
  "k \<in> set public_fields \<Longrightarrow> map_of (public_operation_record env r) k = map_of r k"
  unfolding public_operation_record_def
  by (simp add: map_of_projection update_conv' del: map_of.simps) (auto simp: public_fields_def)

lemma vget_public: "k \<in> set public_fields \<Longrightarrow> vget (public_operation_record env r) k = vget r k"
  by (simp add: vget_def vget_or_def public_fields_kept)

lemma public_simps [simp]:
  "vget (public_operation_record env r) ''status'' = vget r ''status''"
  "vget (public_operation_record env r) ''resource_kind'' = vget r ''resource_kind''"
  "vget (public_operation_record env r) ''resource_id'' = vget r ''resource_id''"
  "find_resource env (public_operation_record env r) = find_resource env r"
  "started_before env (public_operation_record env r) b = started_before env r b"
  "status_in ss (public_operation_record env r) = status_in ss r"
  "resource_settlement (public_operation_record env r) s t = resource_settlement r s t"
  "record_operation_id (public_operation_record env r) = record_operation_id r"
  by (simp_all add: vget_public public_fields_kept public_fields_def find_resource_def started_before_def status_in_def
      resource_settlement_def record_operation_id_def Let_def cong: if_cong)

lemma settle_live:
  assumes "record_ok i r" "live r" "map_of l i = Some r" "st_status s \<in> set terminal_statuses"
  shows "\<exists>r'. settle_operation env now i s l = Inr (AList.update i r' l, r') \<and> vget r' ''status'' = VStr (st_status s)"
proof -
  from assms(2) obtain st where st: "st \<in> set live_statuses" "vget r ''status'' = VStr st"
    by (auto simp: live_def status_in_iff)
  then have "status_of r \<in> set live_statuses" "status_of r \<notin> set terminal_statuses"
    by (auto simp: status_of_def live_statuses_def terminal_statuses_def)
  with assms show ?thesis
    by (simp add: settle_operation_def operation_file_def record_ok_def Let_def)
qed

definition closed_by :: "ledger_env \<Rightarrow> string \<Rightarrow> pydict \<Rightarrow> pydict \<Rightarrow> bool" where
  "closed_by env b r r' = (if live r \<and> closable env b r then status_in terminal_statuses r' else r' = r)"

lemma reconcile_one_record:
  assumes ok: "record_ok i r" and at: "map_of l i = Some r"
  shows "\<exists>r' oc'. reconcile_one env now b (public_operation_record env r) (l, oc) =
      Inr (if live r \<and> closable env b r then AList.update i r' l else l, oc') \<and> closed_by env b r r' \<and>
    oc_checked oc' = oc_checked oc + (if live r then 1 else 0) \<and>
    oc_resolved oc' = oc_resolved oc + (if live r \<and> closable env b r then 1 else 0) \<and>
    oc_pending oc' = oc_pending oc + (if live r \<and> \<not> closable env b r then 1 else 0) \<and>
    oc_indeterminate oc' - oc_indeterminate oc \<le> oc_resolved oc' - oc_resolved oc"
proof (cases "live r \<and> closable env b r")
  case True
  have op_id: "record_operation_id r = Inr i" using ok by (simp add: record_ok_def record_operation_id_def)
  show ?thesis
  proof (cases "find_resource env r")
    case None
    let ?s = "startup_settlement env (vget r ''status'' = VStr ''planned'')"
    have "st_status ?s \<in> set terminal_statuses" by (simp add: startup_settlement_def terminal_statuses_def)
    from settle_live [OF ok _ at this, of env now] True this obtain r' where
      "settle_operation env now i ?s l = Inr (AList.update i r' l, r')" "status_in terminal_statuses r'"
      by (auto simp: status_in_iff)
    with True None op_id show ?thesis
      by (intro exI [of _ r']) (simp add: reconcile_one_def Let_def live_def closable_def closed_by_def)
  next
    case (Some sm)
    obtain s m where sm: "sm = (s, m)" by (cases sm)
    let ?s = "resource_settlement r s m"
    have "st_status ?s \<in> set terminal_statuses" by (simp add: resource_settlement_def Let_def terminal_statuses_def)
    from settle_live [OF ok _ at this, of env now] True this obtain r' where
      "settle_operation env now i ?s l = Inr (AList.update i r' l, r')" "status_in terminal_statuses r'"
      by (auto simp: status_in_iff)
    with True Some sm op_id show ?thesis
      by (intro exI [of _ r']) (simp add: reconcile_one_def Let_def live_def closable_def closed_by_def)
  qed
next
  case False
  then show ?thesis
    by (intro exI [of _ r]) (auto simp: reconcile_one_def Let_def live_def closable_def closed_by_def
        split: option.splits)
qed

definition id_of :: "pydict \<Rightarrow> string" where
  "id_of r = py_str (vget r ''operation_id'')"

lemma record_ok_id: "record_ok i r \<Longrightarrow> id_of r = i"
  by (simp add: record_ok_def id_of_def vget_def vget_or_def)

definition tally_records :: "(pydict \<Rightarrow> bool) \<Rightarrow> pydict list \<Rightarrow> nat" where
  "tally_records p rs = length (filter p rs)"

lemma reconcile_loop_records:
  assumes "distinct (map id_of rs)" "\<And>r. r \<in> set rs \<Longrightarrow> record_ok (id_of r) r \<and> map_of l (id_of r) = Some r"
  shows "\<exists>l' oc'. reconcile_loop env clock n b (map (public_operation_record env) rs) (l, oc) = Inr (l', oc') \<and>
    (\<forall>i. i \<notin> id_of ` set rs \<longrightarrow> map_of l' i = map_of l i) \<and>
    (\<forall>r \<in> set rs. \<exists>r'. map_of l' (id_of r) = Some r' \<and> closed_by env b r r') \<and>
    oc_checked oc' = oc_checked oc + tally_records live rs \<and>
    oc_resolved oc' = oc_resolved oc + tally_records (\<lambda>r. live r \<and> closable env b r) rs \<and>
    oc_pending oc' = oc_pending oc + tally_records (\<lambda>r. live r \<and> \<not> closable env b r) rs \<and>
    oc_indeterminate oc' - oc_indeterminate oc \<le> oc_resolved oc' - oc_resolved oc"
  using assms
proof (induction rs arbitrary: l oc n)
  case Nil
  then show ?case by (simp add: tally_records_def)
next
  case (Cons r rs)
  let ?i = "id_of r"
  have r: "record_ok ?i r" "map_of l ?i = Some r" using Cons.prems(2) by auto
  from reconcile_one_record [OF r, of env "clock n" b oc] obtain r' oc1 where
    one: "reconcile_one env (clock n) b (public_operation_record env r) (l, oc) =
        Inr (if live r \<and> closable env b r then AList.update ?i r' l else l, oc1)" (is "_ = Inr (?m, _)")
      "closed_by env b r r'"
      "oc_checked oc1 = oc_checked oc + (if live r then 1 else 0)"
      "oc_resolved oc1 = oc_resolved oc + (if live r \<and> closable env b r then 1 else 0)"
      "oc_pending oc1 = oc_pending oc + (if live r \<and> \<not> closable env b r then 1 else 0)"
      "oc_indeterminate oc1 - oc_indeterminate oc \<le> oc_resolved oc1 - oc_resolved oc" by blast
  have at: "map_of ?m ?i = Some r'" using r(2) one(2) by (auto simp: update_conv' closed_by_def)
  have others: "map_of ?m j = map_of l j" if "j \<noteq> ?i" for j using that by (simp add: update_conv')
  have fresh: "?i \<notin> id_of ` set rs" using Cons.prems(1) by auto
  have "record_ok (id_of q) q \<and> map_of ?m (id_of q) = Some q" if "q \<in> set rs" for q
  proof -
    have "id_of q \<noteq> ?i" using that fresh by (metis image_eqI)
    with others [of "id_of q"] Cons.prems(2) [of q] that show ?thesis by simp
  qed
  with Cons.IH [where l = ?m and oc = oc1 and n = "Suc n"] Cons.prems(1) obtain l' oc' where
    rest: "reconcile_loop env clock (Suc n) b (map (public_operation_record env) rs) (?m, oc1) = Inr (l', oc')"
      "\<forall>i. i \<notin> id_of ` set rs \<longrightarrow> map_of l' i = map_of ?m i"
      "\<forall>q \<in> set rs. \<exists>q'. map_of l' (id_of q) = Some q' \<and> closed_by env b q q'"
      "oc_checked oc' = oc_checked oc1 + tally_records live rs"
      "oc_resolved oc' = oc_resolved oc1 + tally_records (\<lambda>r. live r \<and> closable env b r) rs"
      "oc_pending oc' = oc_pending oc1 + tally_records (\<lambda>r. live r \<and> \<not> closable env b r) rs"
      "oc_indeterminate oc' - oc_indeterminate oc1 \<le> oc_resolved oc' - oc_resolved oc1" by auto
  have "reconcile_loop env clock n b (map (public_operation_record env) (r # rs)) (l, oc) = Inr (l', oc')"
    using one(1) rest(1) by simp
  moreover have "map_of l' i = map_of l i" if "i \<notin> id_of ` set (r # rs)" for i
    using that rest(2) others [of i] by simp
  moreover have "\<exists>q'. map_of l' (id_of q) = Some q' \<and> closed_by env b q q'" if "q \<in> set (r # rs)" for q
  proof (cases "q = r")
    case True
    with rest(2) fresh at one(2) show ?thesis by auto
  qed (use that rest(3) in auto)
  moreover have "oc_indeterminate oc' - oc_indeterminate oc \<le> oc_resolved oc' - oc_resolved oc"
    using one(4,6) rest(5,7) by linarith
  ultimately show ?case using one(3-5) rest(4-6)
    by (intro exI [of _ l'] exI [of _ oc']) (simp add: tally_records_def)
qed

lemma tally_mset: "mset rs = mset rs' \<Longrightarrow> tally_records p rs = tally_records p rs'"
  unfolding tally_records_def by (metis mset_filter size_mset)



end
