(* ===== verification/Job_Redaction.thy ===== *)
theory Job_Redaction
  imports Py_Value
begin

section \<open>What a stored job record may not contain\<close>

text \<open>
  \<^verbatim>\<open>jobs/redaction.py\<close> and \<open>is_sensitive_field\<close> of \<^verbatim>\<open>storage/redaction.py\<close>: before a job record, event or log is
  written, every value under a sensitive key is replaced and every other text is scrubbed. The scrubbing of one
  text by the regular expressions is the argument \<open>clean\<close>.
\<close>

definition redacted_config :: string where "redacted_config = ''[REDACTED_CONFIG]''"
definition redacted_secret :: string where "redacted_secret = ''[REDACTED_SECRET]''"
definition redacted_prompt :: string where "redacted_prompt = ''[REDACTED_PROMPT]''"
definition redacted_path :: string where "redacted_path = ''[REDACTED_PATH]''"
definition redacted_content :: string where "redacted_content = ''[REDACTED_CONTENT]''"

definition sensitive_keys :: "string list" where
  "sensitive_keys =
     [''raw_payload'', ''raw_content'', ''config'', ''secret'', ''credential'', ''content'', ''file_content'',
      ''report_content'', ''prompt'', ''full_prompt'', ''api_key'', ''key'', ''token'', ''password'', ''passwd'',
      ''secret'', ''community'', ''authorization'', ''private_key'', ''MINIMAX_API_KEY'', ''OPENAI_API_KEY'',
      ''DEEPSEEK_API_KEY'']"

definition secret_keys :: "string list" where
  "secret_keys =
     [''api_key'', ''key'', ''token'', ''password'', ''passwd'', ''secret'', ''community'', ''authorization'',
      ''private_key'', ''MINIMAX_API_KEY'', ''OPENAI_API_KEY'', ''DEEPSEEK_API_KEY'']"

definition content_keys :: "string list" where
  "content_keys = [''content'', ''file_content'', ''report_content'']"

definition prompt_keys :: "string list" where
  "prompt_keys = [''prompt'', ''full_prompt'']"

definition sensitive_field_names :: "string list" where
  "sensitive_field_names =
     [''password'', ''passwd'', ''passphrase'', ''secret'', ''api_secret'', ''client_secret'', ''key'', ''api_key'',
      ''apikey'', ''token'', ''access_token'', ''refresh_token'', ''id_token'', ''auth_token'', ''community'',
      ''authorization'', ''auth_header'', ''credential'', ''private_key'']"

definition dash_to_underscore :: "string \<Rightarrow> string" where
  "dash_to_underscore s = map (\<lambda>c. if c = CHR ''-'' then CHR ''_'' else c) s"

definition is_sensitive_field :: "string \<Rightarrow> bool" where
  "is_sensitive_field key =
     (let normalized = dash_to_underscore (lower (strip key)) in
      if normalized \<in> set ([] # [''memory_key'', ''authority'', ''authority_rank'']) then False
      else if list_ex (ends_with normalized) [''_ref'', ''_reference'', ''_id''] then False
      else normalized \<in> set sensitive_field_names \<or>
           list_ex (\<lambda>n. ends_with normalized (CHR ''_'' # n)) sensitive_field_names)"

definition key_form :: "string \<Rightarrow> string" where
  "key_form k = dash_to_underscore (lower k)"

text \<open>\<open>redact_value\<close> and \<open>redact_dict\<close> of \<^verbatim>\<open>storage/redaction.py\<close>\<close>

fun redact_value :: "(string \<Rightarrow> string) \<Rightarrow> pyval \<Rightarrow> pyval" where
  "redact_value clean (VDict d) =
     VDict (map (\<lambda>(k, v). (k, if is_sensitive_field (key_form k) then VStr redacted_secret else redact_value clean v)) d)"
| "redact_value clean (VList xs) = VList (map (redact_value clean) xs)"
| "redact_value clean (VStr s) = VStr (clean s)"
| "redact_value clean v = v"

definition content_ref :: "pyval \<Rightarrow> pyval" where
  "content_ref val =
     (case val of
        VStr s \<Rightarrow>
          VDict [(''type'', VStr ''config_ref''),
                 (''line_count'', VInt (if s = [] then 0 else int (length (split_on CHR 0x0A (strip s))))),
                 (''summary'', VStr ''Sensitive content stored as a reference.''),
                 (''sensitivity'', VStr ''sensitive'')]
      | _ \<Rightarrow> VStr redacted_config)"

definition is_sealed_key :: "string \<Rightarrow> bool" where
  "is_sealed_key k = (let kl = key_form k in kl \<in> set sensitive_keys \<or> is_sensitive_field kl)"

definition is_path_key :: "string \<Rightarrow> bool" where
  "is_path_key k = (let kl = key_form k in ends_with kl ''_path'' \<or> kl = ''path'' \<or> kl = ''absolute_path'')"

text \<open>What replaces the value of a key, or \<open>None\<close> when the value is sanitized in turn.\<close>

definition mask_value :: "string \<Rightarrow> pyval \<Rightarrow> pyval option" where
  "mask_value k v =
     (let kl = key_form k in
      if is_sealed_key k then Some (content_ref v)
      else if kl \<in> set prompt_keys then Some (VStr redacted_prompt)
      else if kl \<in> set secret_keys then Some (VStr redacted_secret)
      else if kl \<in> set content_keys then Some (VStr redacted_content)
      else if is_path_key k then Some (if starts_with kl ''relative'' then v else VStr redacted_path)
      else None)"

fun deep_sanitize :: "(string \<Rightarrow> string) \<Rightarrow> pyval \<Rightarrow> pyval" where
  "deep_sanitize clean (VDict d) =
     VDict (map (\<lambda>(k, v). (k, case mask_value k v of Some w \<Rightarrow> w | None \<Rightarrow> deep_sanitize clean v)) d)"
| "deep_sanitize clean (VList xs) = VList (map (deep_sanitize clean) xs)"
| "deep_sanitize clean (VStr s) = VStr (clean s)"
| "deep_sanitize clean v = v"

text \<open>A value is sealed when, at every depth, a sensitive key holds a reference or a mark, a path key a mark, and
  every other text is scrubbed. (A key \<open>relative\<dots>_path\<close> keeps its value as it is: the code exempts it.)\<close>

definition is_reference :: "pyval \<Rightarrow> bool" where
  "is_reference v = (v = VStr redacted_config \<or> (\<exists>n. v =
     VDict [(''type'', VStr ''config_ref''), (''line_count'', VInt n),
            (''summary'', VStr ''Sensitive content stored as a reference.''), (''sensitivity'', VStr ''sensitive'')]))"

fun sealed :: "(string \<Rightarrow> string) \<Rightarrow> pyval \<Rightarrow> bool" where
  "sealed clean (VDict d) =
     (\<forall>(k, v) \<in> set d.
        if is_sealed_key k then is_reference v
        else if is_path_key k then starts_with (key_form k) ''relative'' \<or> v = VStr redacted_path
        else sealed clean v)"
| "sealed clean (VList xs) = (\<forall>x \<in> set xs. sealed clean x)"
| "sealed clean (VStr s) = (\<exists>t. s = clean t)"
| "sealed clean v = True"

lemma prompt_secret_content_sealed:
  "key_form k \<in> set prompt_keys \<union> set secret_keys \<union> set content_keys \<Longrightarrow> is_sealed_key k"
  by (auto simp: is_sealed_key_def prompt_keys_def secret_keys_def content_keys_def sensitive_keys_def Let_def)

text \<open>A key whose value is sanitized in turn.\<close>

definition plain_key :: "string \<Rightarrow> bool" where
  "plain_key k = (\<not> is_sealed_key k \<and> \<not> is_path_key k)"

lemma plain_mask: "plain_key k \<Longrightarrow> mask_value k v = None"
  using prompt_secret_content_sealed [of k] by (auto simp: plain_key_def mask_value_def Let_def)

text \<open>No raw value under a sensitive key survives sanitizing, at any depth: it is replaced by a fixed mark or
  by a reference that holds a line count only; absolute paths under a path key are masked and every other text
  is scrubbed.\<close>

theorem sanitized_is_sealed: "sealed clean (deep_sanitize clean v)"
proof (induction clean v rule: deep_sanitize.induct)
  case (1 clean d)
  have "if is_sealed_key k then is_reference (case mask_value k v of Some w \<Rightarrow> w | None \<Rightarrow> deep_sanitize clean v)
        else if is_path_key k then starts_with (key_form k) ''relative'' \<or>
          (case mask_value k v of Some w \<Rightarrow> w | None \<Rightarrow> deep_sanitize clean v) = VStr redacted_path
        else sealed clean (case mask_value k v of Some w \<Rightarrow> w | None \<Rightarrow> deep_sanitize clean v)"
    if kv: "(k, v) \<in> set d" for k v
  proof (cases "mask_value k v")
    case None
    then have "\<not> is_sealed_key k" "\<not> is_path_key k" by (auto simp: mask_value_def Let_def split: if_splits)
    with None 1 [OF kv refl None] show ?thesis by simp
  next
    case (Some w)
    have "is_reference (content_ref v)" by (simp add: is_reference_def content_ref_def split: pyval.split)
    with Some prompt_secret_content_sealed [of k] show ?thesis by (auto simp: mask_value_def Let_def split: if_splits)
  qed
  then show ?case by (auto split del: if_split)
qed auto

text \<open>Sanitizing a record again changes what it holds, and every update of a job sanitizes its whole record
  again: a text under a sensitive key becomes a reference with its line count, the reference becomes the mark, and
  the mark becomes a reference with line count one. So the line count is lost at the first update.\<close>

theorem sanitizing_again_flips:
  assumes "is_sealed_key k"
  shows "deep_sanitize clean (VDict [(k, VStr s)]) = VDict [(k, content_ref (VStr s))] \<and>
    deep_sanitize clean (deep_sanitize clean (VDict [(k, VStr s)])) = VDict [(k, VStr redacted_config)] \<and>
    deep_sanitize clean (VDict [(k, VStr redacted_config)]) = VDict [(k, content_ref (VStr redacted_config))]"
  using assms by (simp add: mask_value_def content_ref_def)

theorem sanitizing_again_flips_witness:
  "deep_sanitize id (deep_sanitize id (VDict [(''content'', VStr ''a report'')])) =
   VDict [(''content'', VStr ''[REDACTED_CONFIG]'')]"
proof -
  have "is_sealed_key ''content''" by code_simp
  from sanitizing_again_flips [OF this, of id "''a report''"] show ?thesis unfolding redacted_config_def by blast
qed

end
