(* ===== verification/Job_Store.thy ===== *)
theory Job_Store
  imports Job_Redaction Lifecycle
begin

section \<open>Durable jobs\<close>

text \<open>
  \<^verbatim>\<open>jobs/schemas.py\<close>, \<^verbatim>\<open>jobs/store.py\<close> and \<^verbatim>\<open>jobs/manager.py\<close>: the job records of one workspace, their events, the
  index of job ids, the statistics of the workspace, and the state machine over them. Every function that reads
  and writes a record does it under the record's lock, so it is one step on the \<open>job_state\<close>. Each call of
  \<open>now_iso\<close> is an argument. The identifiers were checked at the boundary; the event ids and timestamps, and
  the fields of a record no function of these files reads or writes, are left out.
\<close>

record job =
  job_id :: string
  workspace_id :: string
  job_type :: string
  job_title :: string
  job_status :: string
  progress :: pydict
  payload :: pydict
  output_artifacts :: "string list"
  run_ids :: "string list"
  trace_ids :: "string list"
  created_by :: string
  created_at :: string
  updated_at :: string
  started_at :: string
  finished_at :: string
  cancel_requested :: bool
  retry_count :: nat
  max_retries :: nat
  job_error :: string
  result_summary :: pydict
  job_metadata :: pydict

record job_event =
  ev_job_id :: string
  ev_workspace_id :: string
  ev_type :: string
  ev_message :: string
  ev_progress :: pydict

text \<open>\<open>job_stats\<close> of the workspace state; a state also holds the job ids sent to the queue and the links to operations
  asked of the ledger.\<close>

record job_stats =
  jobs_count :: nat
  status_counts :: "(string \<times> nat) list"
  last_job_id :: string
  recent_jobs :: "(string \<times> string \<times> string \<times> string \<times> string) list"

record job_state =
  js_jobs :: "(string \<times> job) list"
  js_events :: "job_event list"
  js_index :: "string list"
  js_stats :: job_stats
  js_sent :: "string list"
  js_links :: "(string \<times> string) list"

text \<open>
  The files of the sessions: the metadata file (\<open>None\<close>: there is none, \<open>Some None\<close>: it is corrupt) and the
  directory. \<open>je_clean\<close> scrubs one text, \<open>je_workspace\<close> is the workspace, \<open>je_percent\<close> is the percentage a
  floating-point quotient truncates to.
\<close>

record job_env =
  je_workspace :: string
  je_clean :: "string \<Rightarrow> string"
  je_session_meta :: "string \<Rightarrow> pydict option option"
  je_session_dir :: "string \<Rightarrow> bool"
  je_percent :: "int \<Rightarrow> int \<Rightarrow> int"

definition job_statuses :: "string list" where
  "job_statuses = [''created'', ''queued'', ''running'', ''succeeded'', ''failed'', ''cancelled'', ''paused'']"

definition enabled_job_types :: "string list" where
  "enabled_job_types =
     [''agent_run'', ''export_report'', ''knowledge_index'', ''generic_agent_task'', ''workflow_run'',
      ''network_inspection'']"

text \<open>\<open>JobProgress().as_dict()\<close>\<close>

definition initial_progress :: "string \<Rightarrow> pydict" where
  "initial_progress now =
     [(''current'', VInt 0), (''total'', VInt 0), (''percent'', VInt 0), (''message'', VStr []),
      (''current_step'', VStr []), (''updated_at'', VStr now)]"

definition sanitize_dict :: "(string \<Rightarrow> string) \<Rightarrow> pydict \<Rightarrow> pydict" where
  "sanitize_dict clean d = dict_of (deep_sanitize clean (VDict d))"

lemma vget_sanitize: "plain_key k \<Longrightarrow> vget (sanitize_dict c d) k = deep_sanitize c (vget d k)"
proof -
  assume plain: "plain_key k"
  have "map_of (map (\<lambda>(k, v). (k, case mask_value k v of Some w \<Rightarrow> w | None \<Rightarrow> deep_sanitize c v)) d) k =
      map_option (deep_sanitize c) (map_of d k)"
    by (induction d) (auto simp: plain_mask [OF plain])
  then show ?thesis by (simp add: sanitize_dict_def vget_def vget_or_def split: option.split)
qed

lemma dict_of_sanitize: "dict_of (deep_sanitize c v) = sanitize_dict c (dict_of v)"
  by (cases v) (simp_all add: sanitize_dict_def dict_of_def)

text \<open>The sanitized record, field by field.\<close>

definition sanitize_job :: "job_env \<Rightarrow> job \<Rightarrow> job" where
  "sanitize_job env j =
     (let c = je_clean env; sd = sanitize_dict c in
      \<lparr>job_id = c (job_id j), workspace_id = c (workspace_id j), job_type = c (job_type j), job_title = c (job_title j),
       job_status = c (job_status j), progress = sd (progress j), payload = sd (payload j),
       output_artifacts = map c (output_artifacts j), run_ids = map c (run_ids j), trace_ids = map c (trace_ids j),
       created_by = c (created_by j), created_at = c (created_at j), updated_at = c (updated_at j),
       started_at = c (started_at j), finished_at = c (finished_at j), cancel_requested = cancel_requested j,
       retry_count = retry_count j, max_retries = max_retries j, job_error = c (job_error j),
       result_summary = sd (result_summary j), job_metadata = sd (job_metadata j)\<rparr>)"

subsection \<open>Sessions, listing and statistics\<close>

definition session_exists :: "job_env \<Rightarrow> string \<Rightarrow> bool" where
  "session_exists env sid =
     (if sid = [] then False
      else if je_session_meta env sid = None \<and> \<not> je_session_dir env sid then False
      else (case je_session_meta env sid of
              Some (Some d) \<Rightarrow> vget_or d ''status'' (VStr ''active'') \<noteq> VStr ''deleted''
            | _ \<Rightarrow> True))"

definition job_listed :: "job_env \<Rightarrow> string \<Rightarrow> string \<Rightarrow> job \<Rightarrow> bool" where
  "job_listed env status jtype j =
     (workspace_id j = je_workspace env \<and> (status = [] \<or> job_status j = status) \<and> (jtype = [] \<or> job_type j = jtype) \<and>
      (job_type j = ''agent_run'' \<longrightarrow>
        (let sid = vget_or (payload j) ''session_id'' (VStr []) in
         \<not> truthy sid \<or> session_exists env (py_str sid))))"

definition job_order :: "job \<Rightarrow> string" where
  "job_order j = str_or (updated_at j) (created_at j)"

definition list_jobs :: "job_env \<Rightarrow> string \<Rightarrow> string \<Rightarrow> nat \<Rightarrow> job_state \<Rightarrow> job list" where
  "list_jobs env status jtype limit st =
     take limit (rev (sort_key job_order (rev
       (map (sanitize_job env) (filter (job_listed env status jtype) (map snd (js_jobs st)))))))"

definition workspace_stats :: "job_env \<Rightarrow> job_state \<Rightarrow> job_stats" where
  "workspace_stats env st =
     (let jobs = list_jobs env [] [] 500 st; count = (\<lambda>s. length (filter (\<lambda>j. job_status j = s) jobs)) in
      \<lparr>jobs_count = length jobs,
       status_counts = map (\<lambda>s. (s, count s)) [''queued'', ''running'', ''succeeded'', ''failed'', ''cancelled''],
       last_job_id = (case jobs of [] \<Rightarrow> [] | j # _ \<Rightarrow> job_id j),
       recent_jobs = map (\<lambda>j. (job_id j, job_type j, job_title j, job_status j, updated_at j)) (take 5 jobs)\<rparr>)"

definition update_workspace_stats :: "job_env \<Rightarrow> job_state \<Rightarrow> job_state" where
  "update_workspace_stats env st = st\<lparr>js_stats := workspace_stats env st\<rparr>"

definition update_index :: "string \<Rightarrow> job_state \<Rightarrow> job_state" where
  "update_index jid st = (if jid \<in> set (js_index st) then st else st\<lparr>js_index := js_index st @ [jid]\<rparr>)"

definition remove_from_index :: "string \<Rightarrow> job_state \<Rightarrow> job_state" where
  "remove_from_index jid st = st\<lparr>js_index := filter (\<lambda>i. i \<noteq> jid) (js_index st)\<rparr>"

definition append_event_progress ::
  "job_env \<Rightarrow> string \<Rightarrow> string \<Rightarrow> string \<Rightarrow> pydict \<Rightarrow> job_state \<Rightarrow> job_state" where
  "append_event_progress env jid etype msg p st =
     st\<lparr>js_events := js_events st @ [\<lparr>ev_job_id = je_clean env jid, ev_workspace_id = je_clean env (je_workspace env),
        ev_type = je_clean env etype, ev_message = je_clean env msg, ev_progress = sanitize_dict (je_clean env) p\<rparr>]\<rparr>"

definition append_event :: "job_env \<Rightarrow> string \<Rightarrow> string \<Rightarrow> string \<Rightarrow> job_state \<Rightarrow> job_state" where
  "append_event env jid etype msg = append_event_progress env jid etype msg []"

definition put_job :: "string \<Rightarrow> job \<Rightarrow> job_state \<Rightarrow> job_state" where
  "put_job jid j st = st\<lparr>js_jobs := AList.update jid j (js_jobs st)\<rparr>"

definition get_job :: "string \<Rightarrow> job_state \<Rightarrow> job option" where
  "get_job jid st = (if jid = [] then None else map_of (js_jobs st) jid)"

subsection \<open>The store\<close>

definition store_create :: "job_env \<Rightarrow> job \<Rightarrow> job_state \<Rightarrow> job_state \<times> job" where
  "store_create env j st =
     (let safe = sanitize_job env j; st = put_job (job_id j) safe st; st = update_index (job_id safe) st;
          st = append_event env (job_id safe) ''job_created'' (''Job created: '' @ job_title safe) st
      in (update_workspace_stats env st, safe))"

text \<open>\<open>update_job\<close>: the patch is a function on records.\<close>

definition update_job ::
  "job_env \<Rightarrow> string \<Rightarrow> string \<Rightarrow> (job \<Rightarrow> job) \<Rightarrow> job_state \<Rightarrow> job_state \<times> job option" where
  "update_job env now jid patch st =
     (case get_job jid st of
        None \<Rightarrow> (st, None)
      | Some j \<Rightarrow>
          (let safe = sanitize_job env ((patch j)\<lparr>updated_at := now\<rparr>)
           in (update_workspace_stats env (put_job jid safe st), Some safe)))"

definition claim_job_for_execution :: "job_env \<Rightarrow> string \<Rightarrow> string \<Rightarrow> job_state \<Rightarrow> job_state \<times> job option" where
  "claim_job_for_execution env now jid st =
     (case get_job jid st of
        None \<Rightarrow> (st, None)
      | Some j \<Rightarrow>
          if job_status j \<noteq> ''queued'' then (st, None)
          else (let safe = sanitize_job env (j\<lparr>job_status := ''running'', started_at := now, finished_at := [],
                      job_error := [], cancel_requested := False, updated_at := now\<rparr>);
                    st = update_workspace_stats env (update_index (job_id safe) (put_job jid safe st))
                in (append_event env jid ''job_started'' ''Job started'' st, Some safe)))"

definition lease_expired_turn :: "string \<Rightarrow> string \<Rightarrow> string \<Rightarrow> pydict \<Rightarrow> pydict" where
  "lease_expired_turn now lease_id jid turn =
     AList.update ''unknown_outcome''
       (VDict [(''tool_id'', VStr ''jobs.worker''), (''call_id'', VStr (str_or lease_id jid)),
               (''error_code'', VStr ''WORKER_LEASE_EXPIRED''), (''execution_may_continue'', VBool True)])
       (AList.update ''finished_at'' (VStr now)
         (AList.update ''error'' (VStr ''worker_lease_expired'') (AList.update ''status'' (VStr ''failed'') turn)))"

definition fence_reclaimed_running_job ::
  "job_env \<Rightarrow> string \<Rightarrow> string \<Rightarrow> string \<Rightarrow> int \<Rightarrow> job_state \<Rightarrow> job_state \<times> job option" where
  "fence_reclaimed_running_job env now jid lease_id attempt st =
     (if attempt \<le> 1 then (st, None)
      else case get_job jid st of
        None \<Rightarrow> (st, None)
      | Some j \<Rightarrow>
          if job_status j \<noteq> ''running'' then (st, None)
          else (let turn = lease_expired_turn now lease_id jid (dict_of (vget (job_metadata j) ''active_turn''));
                    safe = sanitize_job env (j\<lparr>job_status := ''failed'', finished_at := now,
                      job_error := ''worker_lease_expired'',
                      job_metadata := AList.update ''active_turn'' (VDict turn) (job_metadata j), updated_at := now\<rparr>);
                    st = update_workspace_stats env (update_index (job_id safe) (put_job jid safe st))
                in (append_event env jid ''job_failed'' ''Job lease expired; outcome requires reconciliation'' st,
                    Some safe)))"

definition active_client_request :: "job \<Rightarrow> string" where
  "active_client_request j = str_of_or (vget (dict_of (vget (job_metadata j) ''active_turn'')) ''client_request_id'') []"

definition request_job_cancellation ::
  "job_env \<Rightarrow> string \<Rightarrow> string \<Rightarrow> string \<Rightarrow> job_state \<Rightarrow> job_state \<times> job option \<times> bool" where
  "request_job_cancellation env now jid expected_request st =
     (let expected = strip expected_request in
      case get_job jid st of
        None \<Rightarrow> (st, None, False)
      | Some j \<Rightarrow>
          if job_status j \<noteq> ''running'' then (st, Some j, False)
          else if expected \<noteq> [] \<and> strip (active_client_request j) \<noteq> expected then (st, Some j, False)
          else if cancel_requested j then (st, Some j, False)
          else (let safe = sanitize_job env (j\<lparr>cancel_requested := True, updated_at := now\<rparr>)
                in (update_workspace_stats env (put_job jid safe st), Some safe, True)))"

definition delete_job :: "job_env \<Rightarrow> string \<Rightarrow> string \<Rightarrow> bool \<Rightarrow> job_state \<Rightarrow> (job_state \<times> bool) py" where
  "delete_job env now jid soft st =
     (if jid = [] then Inl (ValueError ''job_id is required for delete_job'')
      else if soft then
        (let (st, res) = update_job env now jid (\<lambda>j. j\<lparr>job_status := ''cancelled'', cancel_requested := True\<rparr>) st
         in Inr (st, res \<noteq> None))
      else if map_of (js_jobs st) jid = None then Inr (st, False)
      else (let st = st\<lparr>js_jobs := AList.delete jid (js_jobs st),
                        js_events := filter (\<lambda>e. ev_job_id e \<noteq> jid) (js_events st)\<rparr>
            in Inr (update_workspace_stats env (remove_from_index jid st), True)))"

definition get_next_queued_job :: "job_state \<Rightarrow> job option" where
  "get_next_queued_job st = List.find (\<lambda>j. job_status j = ''queued'') (map snd (sort_key fst (js_jobs st)))"

subsection \<open>Recovery after a restart\<close>

text \<open>The Chinese labels of a cancelled and of a failed turn, and the message of a cancelled one.\<close>

record labels =
  lb_cancelled :: string
  lb_failed :: string
  lb_cancelled_message :: string

definition recovery_patch :: "labels \<Rightarrow> string \<Rightarrow> job \<Rightarrow> job" where
  "recovery_patch lb finished j =
     (let cancelled = cancel_requested j; status = (if cancelled then ''cancelled'' else ''failed'');
          label = (if cancelled then lb_cancelled lb else lb_failed lb);
          err = (if cancelled then lb_cancelled_message lb else ''backend_restart_during_job'');
          turn = dict_of (vget (job_metadata j) ''active_turn'');
          j' = j\<lparr>job_status := status, finished_at := finished, job_error := (if cancelled then [] else err),
                cancel_requested := cancelled\<rparr> in
      if vget turn ''status'' = VStr ''running'' then
        (let turn = fold (\<lambda>(k, v). AList.update k v)
               [(''status'', VStr status), (''stage'', VStr (if cancelled then ''turn_cancelled'' else ''turn_failed'')),
                (''stage_label'', VStr label), (''updated_at'', VStr finished), (''finished_at'', VStr finished),
                (''error'', VStr err)] turn
         in j'\<lparr>job_metadata := AList.update ''active_turn'' (VDict turn) (job_metadata j),
              progress := [(''current'', VInt 4), (''total'', VInt 4), (''percent'', VInt 100), (''message'', VStr label),
                           (''current_step'', VStr label), (''updated_at'', VStr finished)]\<rparr>)
      else j')"

definition recovered :: "string \<Rightarrow> job \<Rightarrow> bool" where
  "recovered boundary j = (job_status j = ''running'' \<and> updated_at j < boundary)"

definition recover_one ::
  "job_env \<Rightarrow> labels \<Rightarrow> string \<Rightarrow> string \<Rightarrow> string \<Rightarrow> string \<times> job \<Rightarrow> job_state \<times> nat \<Rightarrow> job_state \<times> nat" where
  "recover_one env lb now finished boundary entry acc =
     (case (entry, acc) of ((jid, j), (st, n)) \<Rightarrow>
      if \<not> recovered boundary j then (st, n)
      else (let target = str_or (job_id j) jid; (st, res) = update_job env now target (recovery_patch lb finished) st in
        case res of
          None \<Rightarrow> (st, n)
        | Some _ \<Rightarrow>
            ((if cancel_requested j
              then append_event env target ''job_cancelled'' ''Job cancelled during backend restart recovery'' st
              else st), n + 1)))"

definition reconcile_running_jobs ::
  "job_env \<Rightarrow> labels \<Rightarrow> string \<Rightarrow> string \<Rightarrow> string \<Rightarrow> job_state \<Rightarrow> job_state \<times> nat" where
  "reconcile_running_jobs env lb now finished boundary st =
     fold (recover_one env lb now finished boundary) (js_jobs st) (st, 0)"

end
