(* ===== verification/Job_Manager.thy ===== *)
theory Job_Manager
  imports Job_Store
begin

section \<open>The job state machine\<close>

text \<open>
  \<^verbatim>\<open>jobs/manager.py\<close> over the store, and the two functions that run a job: \<open>run_job\<close> of \<^verbatim>\<open>jobs/runner.py\<close> and the
  part of \<open>_run_once\<close> of \<^verbatim>\<open>jobs/worker.py\<close> that follows a claim. The body of a job (the agent, a report, an index, a
  workflow, an inspection) is an argument. Logs and metrics are left out. \<open>clock k\<close> is the \<open>k\<close>-th time read.
\<close>

definition allowed_transitions :: "(string \<times> string list) list" where
  "allowed_transitions =
     [(''created'', [''queued'', ''cancelled'']), (''queued'', [''running'', ''cancelled'', ''failed'']),
      (''running'', [''succeeded'', ''failed'', ''cancelled'', ''paused'']),
      (''paused'', [''running'', ''cancelled'', ''failed'']), (''failed'', [''queued'', ''running'', ''cancelled'']),
      (''succeeded'', [''running'']), (''cancelled'', [''running''])]"

definition planned_transitions :: "(string \<times> string list) list" where
  "planned_transitions = [(''created'', [''running''])]"

definition lookup_list :: "('a \<times> 'b list) list \<Rightarrow> 'a \<Rightarrow> 'b list" where
  "lookup_list t k = (case map_of t k of None \<Rightarrow> [] | Some xs \<Rightarrow> xs)"

definition transition_allowed :: "string \<Rightarrow> string \<Rightarrow> bool" where
  "transition_allowed current target =
     (current = target \<or> target \<in> set (lookup_list allowed_transitions current @ lookup_list planned_transitions current))"

definition check_transition :: "string \<Rightarrow> string \<Rightarrow> unit py" where
  "check_transition current target =
     py_require (transition_allowed current target) (ValueError (''invalid_transition: '' @ current @ '' -> '' @ target))"

type_synonym clock = "nat \<Rightarrow> string"

subsection \<open>Creating and enqueueing\<close>

definition transition_job ::
  "job_env \<Rightarrow> string \<Rightarrow> string \<Rightarrow> string \<Rightarrow> string \<Rightarrow> string \<Rightarrow> job_state \<Rightarrow> job_state \<times> job option" where
  "transition_job env now jid target etype msg st =
     (let (st, res) = update_job env now jid (\<lambda>j. j\<lparr>job_status := target\<rparr>) st
      in ((if res \<noteq> None then append_event env jid etype msg st else st), res))"

definition enqueue_job :: "job_env \<Rightarrow> clock \<Rightarrow> string \<Rightarrow> job_state \<Rightarrow> (job_state \<times> job option) py" where
  "enqueue_job env clock jid st =
     (case get_job jid st of
        None \<Rightarrow> Inl (ValueError ''job not found'')
      | Some j \<Rightarrow>
          py_bind (check_transition (job_status j) ''queued'') (\<lambda>_.
            let (st, res) = transition_job env (clock 0) jid ''queued'' ''job_queued'' ''Job queued'' st
            in Inr (st\<lparr>js_sent := js_sent st @ [jid]\<rparr>, res)))"

text \<open>The request of \<open>create_job\<close>; the id is a fresh one, the operation is that of the running tool call.\<close>

record job_request =
  rq_id :: string
  rq_type :: string
  rq_title :: string
  rq_payload :: pydict
  rq_created_by :: string
  rq_enqueue :: bool
  rq_metadata :: pydict
  rq_operation :: "(string \<times> string) option"

definition new_job :: "job_env \<Rightarrow> clock \<Rightarrow> job_request \<Rightarrow> job" where
  "new_job env clock q =
     \<lparr>job_id = rq_id q, workspace_id = je_workspace env, job_type = rq_type q,
      job_title = str_or (rq_title q) (rq_type q @ '' job''), job_status = ''created'',
      progress = initial_progress (clock 0), payload = rq_payload q, output_artifacts = [], run_ids = [],
      trace_ids = [], created_by = rq_created_by q, created_at = clock 1, updated_at = clock 2, started_at = [],
      finished_at = [], cancel_requested = False, retry_count = 0, max_retries = 3, job_error = [],
      result_summary = [], job_metadata = rq_metadata q\<rparr>"

definition create_job :: "job_env \<Rightarrow> clock \<Rightarrow> job_request \<Rightarrow> job_state \<Rightarrow> (job_state \<times> job option) py" where
  "create_job env clock q st =
     (if rq_type q \<notin> set enabled_job_types then Inl (ValueError (''unsupported job_type: '' @ rq_type q))
      else
        (let (st, j) = store_create env (new_job env clock q) st;
             st = (case rq_operation q of
                     Some (ws, op) \<Rightarrow> if ws = je_workspace env then st\<lparr>js_links := js_links st @ [(op, job_id j)]\<rparr> else st
                   | None \<Rightarrow> st)
         in if rq_enqueue q then enqueue_job env (\<lambda>k. clock (k + 3)) (job_id j) st else Inr (st, Some j)))"

subsection \<open>Cancelling and retrying\<close>

definition cancel_job :: "job_env \<Rightarrow> clock \<Rightarrow> string \<Rightarrow> string \<Rightarrow> job_state \<Rightarrow> (job_state \<times> job option) py" where
  "cancel_job env clock jid expected st =
     (case get_job jid st of
        None \<Rightarrow> Inl (ValueError ''job not found'')
      | Some j \<Rightarrow>
          if job_status j = ''queued'' then
            py_bind (check_transition (job_status j) ''cancelled'') (\<lambda>_.
              Inr (transition_job env (clock 0) jid ''cancelled'' ''job_cancelled'' []
                (append_event env jid ''job_cancelled'' ''Job cancelled from queue'' st)))
          else if job_status j = ''running'' then
            (let (st, res, applied) = request_job_cancellation env (clock 0) jid expected st in
             if expected \<noteq> [] \<and> \<not> applied \<and>
                (case res of Some r \<Rightarrow> job_status r = ''running'' \<and> active_client_request r \<noteq> expected | None \<Rightarrow> False)
             then Inl (ValueError ''stale_turn'')
             else if \<not> applied then Inr (st, (case res of None \<Rightarrow> Some j | Some r \<Rightarrow> Some r))
             else Inr (append_event env jid ''job_cancel_requested'' ''Cancel requested'' st, res))
          else Inr (st, Some j))"

definition retry_job :: "job_env \<Rightarrow> clock \<Rightarrow> string \<Rightarrow> bool \<Rightarrow> job_state \<Rightarrow> (job_state \<times> job option) py" where
  "retry_job env clock jid force st =
     (case get_job jid st of
        None \<Rightarrow> Inl (ValueError ''job not found'')
      | Some j \<Rightarrow>
          py_bind (if force then Inr () else check_transition (job_status j) ''queued'') (\<lambda>_.
          py_bind (py_require (\<not> retry_count j \<ge> max_retries j) (ValueError ''retry_limit_exceeded'')) (\<lambda>_.
            let (st, res) = update_job env (clock 0) jid
                  (\<lambda>r. r\<lparr>retry_count := retry_count j + 1, job_status := ''queued'', job_error := [],
                        cancel_requested := False\<rparr>) st;
                st = st\<lparr>js_sent := js_sent st @ [jid]\<rparr>
            in Inr (append_event env jid ''job_retried'' (''Retry #'' @ nat_digits (retry_count j + 1)) st, res))))"

subsection \<open>Marking and progress\<close>

definition mark_running :: "job_env \<Rightarrow> clock \<Rightarrow> string \<Rightarrow> job_state \<Rightarrow> (job_state \<times> job option) py" where
  "mark_running env clock jid st =
     (case get_job jid st of
        None \<Rightarrow> Inl (ValueError ''job not found'')
      | Some j \<Rightarrow>
          py_bind (check_transition (job_status j) ''running'') (\<lambda>_.
            let (st, res) = transition_job env (clock 1) jid ''running'' ''job_started'' ''Job started'' st in
            if res \<noteq> None
            then Inr (fst (update_job env (clock 2) jid
                   (\<lambda>r. r\<lparr>started_at := clock 0, finished_at := [], job_error := [], cancel_requested := False\<rparr>) st), res)
            else Inr (st, res)))"

definition mark_finished ::
  "job_env \<Rightarrow> clock \<Rightarrow> string \<Rightarrow> string \<Rightarrow> (job \<Rightarrow> job) \<Rightarrow> string \<Rightarrow> string \<Rightarrow> job_state \<Rightarrow> (job_state \<times> job option) py" where
  "mark_finished env clock jid target extra etype msg st =
     (case get_job jid st of
        None \<Rightarrow> Inr (st, None)
      | Some j \<Rightarrow>
          py_bind (check_transition (job_status j) target) (\<lambda>_.
            let (st, res) = update_job env (clock 1) jid
                  (\<lambda>r. extra (r\<lparr>job_status := target, finished_at := clock 0\<rparr>)) st
            in Inr ((if res \<noteq> None then append_event env jid etype msg st else st), res)))"

definition mark_succeeded :: "job_env \<Rightarrow> clock \<Rightarrow> string \<Rightarrow> pydict \<Rightarrow> job_state \<Rightarrow> (job_state \<times> job option) py" where
  "mark_succeeded env clock jid summary =
     mark_finished env clock jid ''succeeded''
       (\<lambda>r. if summary \<noteq> [] then r\<lparr>result_summary := summary\<rparr> else r) ''job_succeeded'' ''Job succeeded''"

definition mark_failed :: "job_env \<Rightarrow> clock \<Rightarrow> string \<Rightarrow> string \<Rightarrow> pydict \<Rightarrow> job_state \<Rightarrow> (job_state \<times> job option) py" where
  "mark_failed env clock jid error summary =
     (let error = take 500 error in
      mark_finished env clock jid ''failed''
        (\<lambda>r. let r = r\<lparr>job_error := error\<rparr> in if summary \<noteq> [] then r\<lparr>result_summary := summary\<rparr> else r)
        ''job_failed'' (''Job failed: '' @ take 100 error))"

definition mark_cancelled :: "job_env \<Rightarrow> clock \<Rightarrow> string \<Rightarrow> string \<Rightarrow> job_state \<Rightarrow> (job_state \<times> job option) py" where
  "mark_cancelled env clock jid msg =
     mark_finished env clock jid ''cancelled'' (\<lambda>r. r\<lparr>cancel_requested := True\<rparr>) ''job_cancelled'' msg"

definition progress_int :: "string \<Rightarrow> pydict \<Rightarrow> int" where
  "progress_int k d = (case vget d k of VInt i \<Rightarrow> i | _ \<Rightarrow> 0)"

definition update_progress ::
  "job_env \<Rightarrow> clock \<Rightarrow> string \<Rightarrow> int option \<Rightarrow> int option \<Rightarrow> string \<Rightarrow> string \<Rightarrow> job_state \<Rightarrow> job_state" where
  "update_progress env clock jid current whole msg step st =
     (case get_job jid st of
        None \<Rightarrow> st
      | Some j \<Rightarrow>
          (let p = progress j;
               p = (case current of Some c \<Rightarrow> AList.update ''current'' (VInt c) p | None \<Rightarrow> p);
               p = (case whole of Some t \<Rightarrow> AList.update ''total'' (VInt t) p | None \<Rightarrow> p);
               p = (case whole of
                      Some t \<Rightarrow> if t \<noteq> 0 then AList.update ''percent'' (VInt (min 100 (je_percent env (progress_int ''current'' p) t))) p
                                else p
                    | None \<Rightarrow> p);
               p = (if msg \<noteq> [] then AList.update ''message'' (VStr msg) p else p);
               p = (if step \<noteq> [] then AList.update ''current_step'' (VStr step) p else p);
               p = AList.update ''updated_at'' (VStr (clock 0)) p;
               st = fst (update_job env (clock 1) jid (\<lambda>r. r\<lparr>progress := p\<rparr>) st);
               text = str_or msg (''Progress: '' @ py_str (vget_or p ''current'' (VInt 0)) @ ''/'' @
                                  py_str (vget_or p ''total'' (VInt 0)))
           in append_event_progress env jid ''job_progress'' text p st))"

subsection \<open>Running\<close>

text \<open>
  What the body of a job does: it returns the state it leaves, and the text of the exception it raised. The two
  checks of the lease are the arguments \<open>lost\<close>; \<open>finalize\<close> is the clean-up of a network inspection, which never
  raises.
\<close>

record job_body =
  jb_run :: "job \<Rightarrow> job_state \<Rightarrow> job_state \<times> string option"
  jb_lost :: "nat \<Rightarrow> bool"
  jb_redact :: "string \<Rightarrow> string"
  jb_finalize :: "job \<Rightarrow> job_state \<Rightarrow> job_state"

definition run_failed ::
  "job_env \<Rightarrow> clock \<Rightarrow> job_body \<Rightarrow> string \<Rightarrow> string \<Rightarrow> job_state \<Rightarrow> job_state \<times> py_error option" where
  "run_failed env clock body jid err st =
     (case mark_failed env clock jid (str_or (take 300 (jb_redact body err)) ''job_execution_failed'') [] st of
        Inl e \<Rightarrow> (st, Some e)
      | Inr (st, _) \<Rightarrow> (st, None))"

text \<open>The part of the guarded block after the body returned: the state, and the text of the exception it raised.\<close>

definition finish_run :: "job_env \<Rightarrow> clock \<Rightarrow> job_body \<Rightarrow> string \<Rightarrow> job_state \<Rightarrow> job_state \<times> string option" where
  "finish_run env clock body jid st =
     (if jb_lost body 0 then (st, None)
      else case get_job jid st of
        None \<Rightarrow> (st, None)
      | Some final \<Rightarrow>
          if job_status final \<in> {''failed'', ''cancelled''} \<or> jb_lost body 1 then (st, None)
          else (case mark_succeeded env clock jid
                  (AList.update ''artifact_count'' (VInt (int (length (output_artifacts final))))
                    (AList.update ''run_count'' (VInt (int (length (run_ids final)))) (result_summary final))) st of
                  Inr (st, _) \<Rightarrow> (st, None)
                | Inl e \<Rightarrow> (st, Some (error_text e))))"

text \<open>\<open>run_job\<close> returns the state, and the exception that leaves it: the one of \<open>mark_failed\<close> in the handler.\<close>

definition run_job ::
  "job_env \<Rightarrow> clock \<Rightarrow> job_body \<Rightarrow> string \<Rightarrow> job_state \<Rightarrow> job_state \<times> py_error option" where
  "run_job env clock body jid st =
     (let (st, claimed) = claim_job_for_execution env (clock 0) jid st in
      case claimed of
        None \<Rightarrow> (st, None)
      | Some j \<Rightarrow>
          (let (st, raised) = jb_run body j st;
               (st, raised) = (case raised of Some e \<Rightarrow> (st, Some e)
                               | None \<Rightarrow> finish_run env (\<lambda>k. clock (k + 1)) body jid st);
               (st, escaped) = (case raised of None \<Rightarrow> (st, None)
                                | Some e \<Rightarrow> run_failed env (\<lambda>k. clock (k + 3)) body jid e st)
           in (if job_type j = ''network_inspection'' then jb_finalize body j st else st, escaped)))"

text \<open>\<open>_run_once\<close> after the claim; the third check of the lease is the one after \<open>run_job\<close>.\<close>

datatype delivery_outcome = Lease_expired | Missing | Lease_lost | Worker_error py_error | Completed

definition deliver ::
  "job_env \<Rightarrow> clock \<Rightarrow> job_body \<Rightarrow> string \<Rightarrow> string \<Rightarrow> int \<Rightarrow> job_state \<Rightarrow> job_state \<times> delivery_outcome" where
  "deliver env clock body jid lease_id attempt st =
     (let present = get_job jid st; (st, fenced) = fence_reclaimed_running_job env (clock 0) jid lease_id attempt st in
      if fenced \<noteq> None then (st, Lease_expired)
      else if present = None then (st, Missing)
      else (let (st, escaped) = run_job env (\<lambda>k. clock (k + 1)) body jid st in
        (st, if jb_lost body 2 then Lease_lost
             else case escaped of Some e \<Rightarrow> Worker_error e | None \<Rightarrow> Completed)))"

subsection \<open>Well-formed states\<close>

text \<open>The scrubbing of texts leaves the statuses and the job ids as they are.\<close>

definition env_ok :: "job_env \<Rightarrow> bool" where
  "env_ok env = list_all (\<lambda>s. je_clean env s = s) job_statuses"

definition job_ok :: "job_env \<Rightarrow> string \<Rightarrow> job \<Rightarrow> bool" where
  "job_ok env i j = (i \<noteq> [] \<and> job_id j = i \<and> je_clean env i = i \<and> job_status j \<in> set job_statuses)"

definition jobs_ok :: "job_env \<Rightarrow> (string \<times> job) list \<Rightarrow> bool" where
  "jobs_ok env js = (distinct (map fst js) \<and> list_all (\<lambda>(i, j). job_ok env i j) js)"

definition state_ok :: "job_env \<Rightarrow> job_state \<Rightarrow> bool" where
  "state_ok env st =
     (jobs_ok env (js_jobs st) \<and> distinct (js_index st) \<and> set (js_index st) = fst ` set (js_jobs st) \<and>
      js_stats st = workspace_stats env st)"

definition status_map :: "job_state \<Rightarrow> string \<Rightarrow> string option" where
  "status_map st i = map_option job_status (map_of (js_jobs st) i)"

lemma stats_cong: "js_jobs st = js_jobs st' \<Longrightarrow> workspace_stats env st = workspace_stats env st'"
  by (simp add: workspace_stats_def list_jobs_def)

lemma frames [simp]:
  "js_jobs (append_event env i t m st) = js_jobs st" "js_index (append_event env i t m st) = js_index st"
  "js_stats (append_event env i t m st) = js_stats st" "js_jobs (update_index i st) = js_jobs st"
  "js_jobs (remove_from_index i st) = js_jobs st" "js_jobs (update_workspace_stats env st) = js_jobs st"
  "js_index (update_workspace_stats env st) = js_index st" "js_jobs (put_job i j st) = AList.update i j (js_jobs st)"
  "js_index (put_job i j st) = js_index st" "js_stats (update_workspace_stats env st) = workspace_stats env st"
  "js_stats (update_index i st) = js_stats st"
  "js_jobs (append_event_progress env i t m p st) = js_jobs st"
  "js_index (append_event_progress env i t m p st) = js_index st"
  "js_stats (append_event_progress env i t m p st) = js_stats st"
  by (simp_all add: append_event_def append_event_progress_def update_index_def remove_from_index_def update_workspace_stats_def put_job_def)

lemma get_job_event [simp]:
  "get_job i (append_event env k t m st) = get_job i st" "get_job i (append_event_progress env k t m p st) = get_job i st"
  by (simp_all add: get_job_def)

lemma state_ok_cong:
  "js_jobs st' = js_jobs st \<Longrightarrow> js_index st' = js_index st \<Longrightarrow> js_stats st' = js_stats st \<Longrightarrow>
   state_ok env st' = state_ok env st"
  using stats_cong [of st' st env] by (simp add: state_ok_def)

lemma jobs_ok_update: "jobs_ok env js \<Longrightarrow> job_ok env i j \<Longrightarrow> jobs_ok env (AList.update i j js)"
proof -
  assume ok: "jobs_ok env js" "job_ok env i j"
  then have dist: "distinct (map fst (AList.update i j js))" by (simp add: jobs_ok_def distinct_update)
  have "job_ok env i' j'" if "(i', j') \<in> set (AList.update i j js)" for i' j'
  proof -
    from map_of_is_SomeI [OF dist that] have "map_of (AList.update i j js) i' = Some j'" .
    with ok show ?thesis by (auto simp: map_of_update_iff jobs_ok_def list_all_iff split: if_splits dest!: map_of_SomeD)
  qed
  with dist show ?thesis by (auto simp: jobs_ok_def list_all_iff)
qed

lemma jobs_ok_at: "jobs_ok env js \<Longrightarrow> map_of js i = Some j \<Longrightarrow> job_ok env i j"
  by (auto simp: jobs_ok_def list_all_iff dest!: map_of_SomeD)

lemma keys_update: "fst ` set (AList.update i j js) = insert i (fst ` set js)"
  using dom_update [of i j js] by (simp add: dom_map_of_conv_image_fst)

lemma state_ok_put:
  assumes "state_ok env st" "map_of (js_jobs st) i = Some j" "job_ok env i j'"
  shows "state_ok env (update_workspace_stats env (put_job i j' st))"
proof -
  have "i \<in> fst ` set (js_jobs st)" using assms(2) by (force dest: map_of_SomeD)
  then have "fst ` set (AList.update i j' (js_jobs st)) = fst ` set (js_jobs st)" by (simp add: keys_update insert_absorb)
  moreover have "workspace_stats env (update_workspace_stats env (put_job i j' st)) = workspace_stats env (put_job i j' st)"
    by (rule stats_cong) simp
  ultimately show ?thesis using assms(1,3) by (simp add: state_ok_def jobs_ok_update)
qed

lemma index_present: "state_ok env st \<Longrightarrow> map_of (js_jobs st) i = Some j \<Longrightarrow> i \<in> set (js_index st)"
  by (auto simp: state_ok_def dest: map_of_SomeD intro: rev_image_eqI)

lemma status_map_put: "status_map (update_workspace_stats env (put_job i j st)) = (status_map st)(i \<mapsto> job_status j)"
  by (rule ext) (simp add: status_map_def map_of_update_iff)

lemma status_map_cong: "js_jobs st' = js_jobs st \<Longrightarrow> status_map st' = status_map st"
  by (rule ext) (simp add: status_map_def)

lemma sanitize_job_ok:
  "env_ok env \<Longrightarrow> job_ok env i j \<Longrightarrow> job_ok env i (sanitize_job env j) \<and> job_status (sanitize_job env j) = job_status j"
  by (auto simp: sanitize_job_def Let_def job_ok_def env_ok_def list_all_iff)

lemma get_job_Some: "get_job i st = Some j \<longleftrightarrow> i \<noteq> [] \<and> map_of (js_jobs st) i = Some j"
  by (auto simp: get_job_def)

text \<open>The effect of \<open>update_job\<close>, when the patch keeps the id and gives a known status.\<close>

definition patch_ok :: "(job \<Rightarrow> job) \<Rightarrow> string option \<Rightarrow> bool" where
  "patch_ok patch target =
     (\<forall>j. job_id (patch j) = job_id j \<and> job_status (patch j) = (case target of None \<Rightarrow> job_status j | Some s \<Rightarrow> s))"

lemma update_job_effect:
  assumes "env_ok env" "state_ok env st" "patch_ok patch target" "target = None \<or> (\<exists>s \<in> set job_statuses. target = Some s)"
    and upd: "update_job env now i patch st = (st', res)"
  shows "state_ok env st' \<and> (res = None \<longrightarrow> st' = st \<and> get_job i st = None) \<and>
    (\<forall>r. res = Some r \<longrightarrow> map_of (js_jobs st') i = Some r \<and> (\<exists>j. map_of (js_jobs st) i = Some j)) \<and>
    status_map st' = (case (res, target) of (Some _, Some s) \<Rightarrow> (status_map st)(i \<mapsto> s) | _ \<Rightarrow> status_map st)"
proof (cases "get_job i st")
  case None
  with upd assms(2) show ?thesis by (simp add: update_job_def)
next
  case (Some j)
  then have j: "map_of (js_jobs st) i = Some j" by (simp add: get_job_Some)
  let ?r = "sanitize_job env ((patch j)\<lparr>updated_at := now\<rparr>)"
  have ok: "job_ok env i j" using assms(2) j jobs_ok_at by (auto simp: state_ok_def)
  have "job_ok env i ((patch j)\<lparr>updated_at := now\<rparr>)"
    using ok assms(3,4) by (auto simp: job_ok_def patch_ok_def split: option.splits)
  from sanitize_job_ok [OF assms(1) this] have r: "job_ok env i ?r" "job_status ?r = job_status (patch j)" by auto
  from upd Some have st': "st' = update_workspace_stats env (put_job i ?r st)" "res = Some ?r"
    by (simp_all add: update_job_def Let_def)
  have "(status_map st)(i \<mapsto> job_status (patch j)) =
      (case target of None \<Rightarrow> status_map st | Some s \<Rightarrow> (status_map st)(i \<mapsto> s))"
    using assms(3) j by (auto simp: patch_ok_def status_map_def fun_upd_idem split: option.splits)
  with state_ok_put [OF assms(2) j r(1)] st' j r(2) show ?thesis
    by (simp add: status_map_put map_of_update_iff)
qed

subsection \<open>Every operation takes a permitted transition\<close>

definition fine :: "job_env \<Rightarrow> job_state \<Rightarrow> job_state \<Rightarrow> bool" where
  "fine env st st' =
     (state_ok env st' \<and> (\<forall>i a b. status_map st i = Some a \<longrightarrow> status_map st' i = Some b \<longrightarrow> transition_allowed a b))"

lemma transition_refl [simp]: "transition_allowed a a"
  by (simp add: transition_allowed_def)

lemma fine_refl: "state_ok env st \<Longrightarrow> fine env st st"
  by (auto simp: fine_def)

lemma fine_upd:
  "state_ok env st' \<Longrightarrow> status_map st' = (status_map st)(i \<mapsto> s) \<Longrightarrow> (\<And>a. status_map st i = Some a \<Longrightarrow> transition_allowed a s) \<Longrightarrow>
   fine env st st'"
  by (auto simp: fine_def split: if_splits)

lemma fine_same: "state_ok env st' \<Longrightarrow> status_map st' = status_map st \<Longrightarrow> fine env st st'"
  by (auto simp: fine_def)

lemma fine_event:
  "fine env st (append_event env i t m st') = fine env st st'"
  "fine env st (append_event_progress env i t m p st') = fine env st st'"
  using state_ok_cong [of "append_event env i t m st'" st' env] status_map_cong [of "append_event env i t m st'" st']
    state_ok_cong [of "append_event_progress env i t m p st'" st' env]
    status_map_cong [of "append_event_progress env i t m p st'" st']
  by (simp_all add: fine_def)

lemma fine_sent: "fine env st (st'\<lparr>js_sent := x\<rparr>) = fine env st st'" "fine env st (st'\<lparr>js_links := y\<rparr>) = fine env st st'"
  using state_ok_cong [of "st'\<lparr>js_sent := x\<rparr>" st' env] status_map_cong [of "st'\<lparr>js_sent := x\<rparr>" st']
    state_ok_cong [of "st'\<lparr>js_links := y\<rparr>" st' env] status_map_cong [of "st'\<lparr>js_links := y\<rparr>" st']
  by (simp_all add: fine_def)

lemma state_ok_event [simp]: "state_ok env (append_event env i t m st) = state_ok env st"
  by (rule state_ok_cong) simp_all

lemma check_transition_Inr: "check_transition a b = Inr u \<longleftrightarrow> transition_allowed a b"
  by (simp add: check_transition_def py_require_Inr)

lemma status_map_get: "get_job i st = Some j \<Longrightarrow> status_map st i = Some (job_status j)"
  by (simp add: get_job_Some status_map_def)

lemma update_fine:
  assumes "env_ok env" "state_ok env st" "patch_ok patch (Some s)" "s \<in> set job_statuses"
    "update_job env now i patch st = (st', res)" "get_job i st = Some j" "transition_allowed (job_status j) s"
  shows "fine env st st'"
  using update_job_effect [OF assms(1-3) _ assms(5)] assms(4,6,7) status_map_get [OF assms(6)] fine_refl [OF assms(2)]
  by (cases res) (auto intro: fine_upd)

lemma update_same:
  assumes "env_ok env" "state_ok env st" "patch_ok patch None" "update_job env now i patch st = (st', res)"
  shows "fine env st st' \<and> status_map st' = status_map st"
  using update_job_effect [OF assms(1-3) _ assms(4)] by (cases res) (auto intro: fine_same)

lemma transition_fine:
  assumes "env_ok env" "state_ok env st" "s \<in> set job_statuses" "transition_job env now i s t m st = (st', res)"
    "get_job i st = Some j" "transition_allowed (job_status j) s"
  shows "fine env st st'"
proof -
  obtain st1 r where upd: "update_job env now i (\<lambda>j. j\<lparr>job_status := s\<rparr>) st = (st1, r)" by fastforce
  have "fine env st st1" by (rule update_fine [OF assms(1,2) _ assms(3) upd assms(5,6)]) (simp add: patch_ok_def)
  with upd assms(4) show ?thesis by (auto simp: transition_job_def fine_event)
qed

lemma known_statuses:
  "''queued'' \<in> set job_statuses" "''running'' \<in> set job_statuses" "''cancelled'' \<in> set job_statuses"
  "''failed'' \<in> set job_statuses" "''succeeded'' \<in> set job_statuses" "''created'' \<in> set job_statuses"
  by (simp_all add: job_statuses_def)

lemma known_transitions:
  "transition_allowed ''queued'' ''running''" "transition_allowed ''running'' ''failed''"
  "transition_allowed ''running'' ''cancelled''"
  by code_simp+

lemma enqueue_fine:
  "env_ok env \<Longrightarrow> state_ok env st \<Longrightarrow> enqueue_job env clock i st = Inr (st', r) \<Longrightarrow> fine env st st'"
  by (auto simp: enqueue_job_def py_bind_Inr check_transition_Inr Let_def fine_sent split: option.splits prod.splits)
    (metis transition_fine known_statuses(1))

lemma put_fine:
  assumes "state_ok env st" "map_of (js_jobs st) i = Some j" "job_ok env i j'" "transition_allowed (job_status j) (job_status j')"
  shows "fine env st (update_workspace_stats env (put_job i j' st))"
  using state_ok_put [OF assms(1-3)] assms(2,4) by (intro fine_upd [OF _ status_map_put]) (auto simp: status_map_def)

lemma reindex: "state_ok env st \<Longrightarrow> map_of (js_jobs st) i = Some j \<Longrightarrow> update_index i (put_job i j' st) = put_job i j' st"
  using index_present by (simp add: update_index_def)

lemma claim_fine:
  assumes "env_ok env" "state_ok env st" "claim_job_for_execution env now i st = (st', r)"
  shows "fine env st st'"
proof (cases "get_job i st")
  case (Some j)
  show ?thesis
  proof (cases "job_status j = ''queued''")
    case True
    from Some have j: "map_of (js_jobs st) i = Some j" by (simp add: get_job_Some)
    with assms(2) have ok: "job_ok env i j" by (auto simp: state_ok_def dest: jobs_ok_at)
    let ?j = "j\<lparr>job_status := ''running'', started_at := now, finished_at := [], job_error := [],
      cancel_requested := False, updated_at := now\<rparr>"
    have "job_ok env i ?j" using ok known_statuses by (simp add: job_ok_def)
    note safe = sanitize_job_ok [OF assms(1) this]
    then have "job_id (sanitize_job env ?j) = i" by (simp add: job_ok_def)
    with Some True assms(3) reindex [OF assms(2) j] have
      "st' = append_event env i ''job_started'' ''Job started'' (update_workspace_stats env (put_job i (sanitize_job env ?j) st))"
      by (simp add: claim_job_for_execution_def Let_def)
    with put_fine [OF assms(2) j, of "sanitize_job env ?j"] safe True known_transitions(1) show ?thesis
      by (simp add: fine_event)
  qed (use Some assms in \<open>auto simp: claim_job_for_execution_def fine_refl\<close>)
qed (use assms in \<open>auto simp: claim_job_for_execution_def fine_refl\<close>)

lemma fence_fine:
  assumes "env_ok env" "state_ok env st" "fence_reclaimed_running_job env now i lease attempt st = (st', r)"
  shows "fine env st st'"
proof (cases "get_job i st")
  case (Some j)
  show ?thesis
  proof (cases "attempt > 1 \<and> job_status j = ''running''")
    case True
    from Some have j: "map_of (js_jobs st) i = Some j" by (simp add: get_job_Some)
    with assms(2) have ok: "job_ok env i j" by (auto simp: state_ok_def dest: jobs_ok_at)
    let ?j = "j\<lparr>job_status := ''failed'', finished_at := now, job_error := ''worker_lease_expired'',
      job_metadata := AList.update ''active_turn''
        (VDict (lease_expired_turn now lease i (dict_of (vget (job_metadata j) ''active_turn'')))) (job_metadata j),
      updated_at := now\<rparr>"
    have "job_ok env i ?j" using ok known_statuses by (simp add: job_ok_def)
    note safe = sanitize_job_ok [OF assms(1) this]
    then have "job_id (sanitize_job env ?j) = i" by (simp add: job_ok_def)
    with Some True assms(3) reindex [OF assms(2) j] have
      "st' = append_event env i ''job_failed'' ''Job lease expired; outcome requires reconciliation''
         (update_workspace_stats env (put_job i (sanitize_job env ?j) st))"
      by (simp add: fence_reclaimed_running_job_def Let_def)
    with put_fine [OF assms(2) j, of "sanitize_job env ?j"] safe True known_transitions(2) show ?thesis
      by (simp add: fine_event)
  qed (use Some assms in \<open>auto simp: fence_reclaimed_running_job_def fine_refl split: if_splits\<close>)
qed (use assms in \<open>auto simp: fence_reclaimed_running_job_def fine_refl split: if_splits\<close>)

lemma request_fine:
  assumes "env_ok env" "state_ok env st" "request_job_cancellation env now i expected st = (st', r, b)"
  shows "fine env st st' \<and> (\<not> b \<longrightarrow> st' = st)"
proof (cases "b")
  case True
  with assms(3) obtain j where j: "get_job i st = Some j" "job_status j = ''running''"
    "st' = update_workspace_stats env (put_job i (sanitize_job env (j\<lparr>cancel_requested := True, updated_at := now\<rparr>)) st)"
    by (auto simp: request_job_cancellation_def Let_def split: option.splits if_splits)
  from j(1) have at: "map_of (js_jobs st) i = Some j" by (simp add: get_job_Some)
  with assms(2) have "job_ok env i j" by (auto simp: state_ok_def dest: jobs_ok_at)
  then have "job_ok env i (j\<lparr>cancel_requested := True, updated_at := now\<rparr>)" by (simp add: job_ok_def)
  from sanitize_job_ok [OF assms(1) this] put_fine [OF assms(2) at] j(3) True show ?thesis by simp
next
  case False
  with assms(3) have "st' = st" by (auto simp: request_job_cancellation_def Let_def split: option.splits if_splits)
  with False assms(2) fine_refl show ?thesis by auto
qed

lemma cancel_fine:
  assumes "env_ok env" "state_ok env st" "cancel_job env clock i expected st = Inr (st', r)"
  shows "fine env st st'"
proof -
  from assms(3) obtain j where j: "get_job i st = Some j" by (auto simp: cancel_job_def split: option.splits)
  let ?st = "append_event env i ''job_cancelled'' ''Job cancelled from queue'' st"
  consider (queued) "job_status j = ''queued''" "transition_allowed (job_status j) ''cancelled''"
      "transition_job env (clock 0) i ''cancelled'' ''job_cancelled'' [] ?st = (st', r)"
    | (running) st1 res b where "request_job_cancellation env (clock 0) i expected st = (st1, res, b)"
        "st' = st1 \<or> st' = append_event env i ''job_cancel_requested'' ''Cancel requested'' st1"
    | (unchanged) "st' = st"
    using assms(3) j
    by (auto simp: cancel_job_def py_bind_Inr check_transition_Inr Let_def split: if_splits prod.splits)
  then show ?thesis
  proof cases
    case queued
    have "get_job i ?st = Some j" "state_ok env ?st" using j assms(2) by simp_all
    from transition_fine [OF assms(1) this(2) known_statuses(3) queued(3) this(1) queued(2)]
    show ?thesis by (simp add: fine_def status_map_def)
  next
    case running
    from request_fine [OF assms(1,2) running(1)] running(2) show ?thesis by (auto simp: fine_event)
  qed (simp add: fine_refl assms(2))
qed

lemma retry_fine:
  assumes "env_ok env" "state_ok env st" "retry_job env clock i False st = Inr (st', r)"
  shows "fine env st st'"
proof -
  from assms(3) obtain j where j: "get_job i st = Some j" "transition_allowed (job_status j) ''queued''"
    by (auto simp: retry_job_def py_bind_Inr check_transition_Inr split: option.splits)
  obtain st1 res where upd: "update_job env (clock 0) i (\<lambda>r. r\<lparr>retry_count := retry_count j + 1,
      job_status := ''queued'', job_error := [], cancel_requested := False\<rparr>) st = (st1, res)" by fastforce
  have "fine env st st1"
    by (rule update_fine [OF assms(1,2) _ known_statuses(1) upd j]) (simp add: patch_ok_def)
  with upd assms(3) j(1) show ?thesis
    by (auto simp: retry_job_def py_bind_Inr Let_def fine_event fine_sent)
qed

lemma running_fine:
  assumes "env_ok env" "state_ok env st" "mark_running env clock i st = Inr (st', r)"
  shows "fine env st st'"
proof -
  from assms(3) obtain j where j: "get_job i st = Some j" "transition_allowed (job_status j) ''running''"
    by (auto simp: mark_running_def py_bind_Inr check_transition_Inr split: option.splits)
  obtain st1 res where tr: "transition_job env (clock 1) i ''running'' ''job_started'' ''Job started'' st = (st1, res)"
    by fastforce
  note first = transition_fine [OF assms(1,2) known_statuses(2) tr j]
  then have ok1: "state_ok env st1" by (simp add: fine_def)
  obtain st2 r2 where upd: "update_job env (clock 2) i
      (\<lambda>r. r\<lparr>started_at := clock 0, finished_at := [], job_error := [], cancel_requested := False\<rparr>) st1 = (st2, r2)"
    by fastforce
  have "fine env st1 st2 \<and> status_map st2 = status_map st1"
    by (rule update_same [OF assms(1) ok1 _ upd]) (simp add: patch_ok_def)
  then have "fine env st st2" using first by (simp add: fine_def)
  with first upd tr assms(3) j(1) show ?thesis
    by (auto simp: mark_running_def py_bind_Inr Let_def split: if_splits)
qed

lemma finished_fine:
  assumes "env_ok env" "state_ok env st" "s \<in> set job_statuses" "patch_ok extra None"
    "mark_finished env clock i s extra t m st = Inr (st', r)"
  shows "fine env st st'"
proof (cases "get_job i st")
  case None
  with assms(2,5) show ?thesis by (simp add: mark_finished_def fine_refl)
next
  case (Some j)
  with assms(5) have allowed: "transition_allowed (job_status j) s"
    by (auto simp: mark_finished_def py_bind_Inr check_transition_Inr)
  obtain st1 res where upd:
    "update_job env (clock 1) i (\<lambda>r. extra (r\<lparr>job_status := s, finished_at := clock 0\<rparr>)) st = (st1, res)" by fastforce
  have "fine env st st1"
    by (rule update_fine [OF assms(1,2) _ assms(3) upd Some allowed]) (use assms(4) in \<open>simp add: patch_ok_def\<close>)
  with upd assms(5) Some show ?thesis
    by (auto simp: mark_finished_def py_bind_Inr Let_def fine_event split: if_splits)
qed

lemma progress_fine: "env_ok env \<Longrightarrow> state_ok env st \<Longrightarrow> fine env st (update_progress env clock i c w m s st)"
proof (cases "get_job i st")
  case (Some j)
  assume ok: "env_ok env" "state_ok env st"
  have "fine env st (fst (update_job env now i (\<lambda>r. r\<lparr>progress := p\<rparr>) st))" for now p
    using update_same [OF ok, of "\<lambda>r. r\<lparr>progress := p\<rparr>" now i] by (auto simp: patch_ok_def split: prod.splits intro: prod.exhaust_sel)
  with Some show ?thesis by (simp add: update_progress_def Let_def fine_event)
qed (simp add: update_progress_def fine_refl)

lemma store_create_effect:
  assumes "store_create env j st = (st', r)"
  shows "r = sanitize_job env j \<and> js_jobs st' = AList.update (job_id j) r (js_jobs st) \<and>
    js_index st' = js_index (update_index (job_id r) st) \<and> js_stats st' = workspace_stats env st'"
proof -
  let ?r = "sanitize_job env j"
  define u where "u = append_event env (job_id ?r) ''job_created'' (''Job created: '' @ job_title ?r)
    (update_index (job_id ?r) (put_job (job_id j) ?r st))"
  have "r = ?r" "st' = update_workspace_stats env u" using assms by (auto simp: store_create_def Let_def u_def)
  moreover have "workspace_stats env (update_workspace_stats env u) = workspace_stats env u" by (rule stats_cong) simp
  ultimately show ?thesis by (simp add: u_def update_index_def)
qed

lemma create_fine:
  assumes "env_ok env" "state_ok env st" "create_job env clock q st = Inr (st', r)"
    and fresh: "map_of (js_jobs st) (rq_id q) = None" "rq_id q \<noteq> []" "je_clean env (rq_id q) = rq_id q"
  shows "fine env st st'"
proof -
  let ?i = "rq_id q" and ?j = "new_job env clock q"
  have "job_ok env ?i ?j" using fresh known_statuses(6) by (simp add: job_ok_def new_job_def)
  note safe = sanitize_job_ok [OF assms(1) this]
  let ?safe = "sanitize_job env ?j"
  have id: "job_id ?j = ?i" "job_id ?safe = ?i" using safe by (auto simp: new_job_def job_ok_def)
  obtain st1 where st1: "store_create env ?j st = (st1, ?safe)" "js_jobs st1 = AList.update ?i ?safe (js_jobs st)"
      "js_index st1 = js_index st @ [?i]" "js_stats st1 = workspace_stats env st1"
  proof -
    have "?i \<notin> set (js_index st)" using assms(2) fresh(1) by (auto simp: state_ok_def map_of_eq_None_iff)
    then have "js_index (update_index ?i st) = js_index st @ [?i]" by (simp add: update_index_def)
    with store_create_effect [OF prod.collapse [symmetric], of env ?j st] that id show ?thesis by (metis prod.collapse)
  qed
  have ok1: "state_ok env st1"
    using assms(2) st1(2-4) safe fresh(1) by (auto simp: state_ok_def jobs_ok_update keys_update map_of_eq_None_iff)
  have same: "status_map st1 = (status_map st)(?i \<mapsto> job_status ?safe)"
    using st1(2) by (intro ext) (simp add: status_map_def map_of_update_iff)
  have none: "status_map st ?i = None" using fresh(1) by (simp add: status_map_def)
  define st2 where "st2 = (case rq_operation q of
      Some (ws, op) \<Rightarrow> if ws = je_workspace env then st1\<lparr>js_links := js_links st1 @ [(op, job_id ?safe)]\<rparr> else st1
    | None \<Rightarrow> st1)"
  have st2: "state_ok env st2" "status_map st2 = status_map st1"
    using ok1 state_ok_cong [of st2 st1 env] status_map_cong [of st2 st1]
    by (auto simp: st2_def split: option.splits)
  have end_state: "state_ok env st' \<and> (\<forall>k. k \<noteq> ?i \<longrightarrow> status_map st' k = status_map st2 k)"
  proof (cases "rq_enqueue q")
    case True
    with assms(3) st1(1) have enq: "enqueue_job env (\<lambda>k. clock (k + 3)) ?i st2 = Inr (st', r)"
      by (auto simp: create_job_def Let_def st2_def [symmetric] id split: if_splits)
    have "fine env st2 st'" by (rule enqueue_fine [OF assms(1) st2(1) enq])
    moreover have "status_map st' k = status_map st2 k" if "k \<noteq> ?i" for k
      using enq that by (auto simp: enqueue_job_def py_bind_Inr Let_def transition_job_def update_job_def status_map_def
          map_of_update_iff split: option.splits prod.splits if_splits)
    ultimately show ?thesis by (simp add: fine_def)
  next
    case False
    with assms(3) st1(1) have "st' = st2" by (auto simp: create_job_def Let_def st2_def [symmetric] split: if_splits)
    with st2 show ?thesis by simp
  qed
  have "transition_allowed a b" if "status_map st k = Some a" "status_map st' k = Some b" for k a b
  proof -
    have "k \<noteq> ?i" using that(1) none by auto
    with end_state st2(2) same that show ?thesis by simp
  qed
  with end_state show ?thesis by (auto simp: fine_def)
qed

lemma delete_ok: "jobs_ok env js \<Longrightarrow> jobs_ok env (AList.delete i js)"
proof -
  assume ok: "jobs_ok env js"
  have "set (AList.delete i js) \<subseteq> set js" by (auto simp: AList.delete_eq)
  moreover have "distinct (map fst (AList.delete i js))" using ok by (simp add: jobs_ok_def distinct_delete)
  ultimately show ?thesis using ok by (auto simp: jobs_ok_def list_all_iff)
qed

lemma delete_fine:
  assumes "state_ok env st" "delete_job env now i False st = Inr (st', b)"
  shows "fine env st st'"
proof (cases "map_of (js_jobs st) i = None \<or> i = []")
  case True
  with assms show ?thesis by (auto simp: delete_job_def fine_refl split: if_splits)
next
  case False
  let ?st = "remove_from_index i (st\<lparr>js_jobs := AList.delete i (js_jobs st),
    js_events := filter (\<lambda>e. ev_job_id e \<noteq> i) (js_events st)\<rparr>)"
  from False assms(2) have st': "st' = update_workspace_stats env ?st" by (auto simp: delete_job_def Let_def)
  have "workspace_stats env (update_workspace_stats env ?st) = workspace_stats env ?st" by (rule stats_cong) simp
  moreover have "jobs_ok env (AList.delete i (js_jobs st))"
    using assms(1) delete_ok by (simp add: state_ok_def)
  moreover have "fst ` set (AList.delete i (js_jobs st)) = fst ` set (js_jobs st) - {i}"
    by (auto simp: AList.delete_eq)
  ultimately have "state_ok env st'"
    using assms(1) by (auto simp: state_ok_def st' remove_from_index_def update_workspace_stats_def)
  moreover have "status_map st' = (status_map st)(i := None)"
    by (rule ext) (simp add: status_map_def st' remove_from_index_def delete_conv')
  ultimately show ?thesis by (auto simp: fine_def split: if_splits)
qed

lemma recovery_patch_fields:
  "job_id (recovery_patch lb f j) = job_id j"
  "job_status (recovery_patch lb f j) = (if cancel_requested j then ''cancelled'' else ''failed'')"
  "finished_at (recovery_patch lb f j) = f" "cancel_requested (recovery_patch lb f j) = cancel_requested j"
  by (simp_all add: recovery_patch_def Let_def)

definition recovered_job :: "job_env \<Rightarrow> labels \<Rightarrow> string \<Rightarrow> string \<Rightarrow> job \<Rightarrow> job" where
  "recovered_job env lb now f j = sanitize_job env ((recovery_patch lb f j)\<lparr>updated_at := now\<rparr>)"

lemma recover_one_record:
  assumes "env_ok env" "state_ok env st" "map_of (js_jobs st) i = Some j"
  obtains st' where "recover_one env lb now f b (i, j) (st, n) = (st', n + (if recovered b j then 1 else 0))"
    "fine env st st'"
    "js_jobs st' = (if recovered b j then AList.update i (recovered_job env lb now f j) (js_jobs st) else js_jobs st)"
proof (cases "recovered b j")
  case True
  from assms have ok: "job_ok env i j" by (auto simp: state_ok_def dest: jobs_ok_at)
  then have i: "i \<noteq> []" "job_id j = i" by (auto simp: job_ok_def)
  let ?j = "recovered_job env lb now f j"
  have "job_ok env i ((recovery_patch lb f j)\<lparr>updated_at := now\<rparr>)"
    using ok known_statuses by (simp add: job_ok_def recovery_patch_fields)
  from sanitize_job_ok [OF assms(1) this] have safe: "job_ok env i ?j"
    "job_status ?j = (if cancel_requested j then ''cancelled'' else ''failed'')"
    by (simp_all add: recovered_job_def recovery_patch_fields)
  define st1 where "st1 = update_workspace_stats env (put_job i ?j st)"
  have "fine env st st1"
    unfolding st1_def by (rule put_fine [OF assms(2,3) safe(1)])
      (use True safe(2) known_transitions in \<open>simp add: recovered_def\<close>)
  moreover have "update_job env now i (recovery_patch lb f) st = (st1, Some ?j)"
    using assms(3) i(1) by (simp add: update_job_def get_job_def recovered_job_def st1_def Let_def)
  moreover have "str_or (job_id j) i = i" using i by (simp add: str_or_def)
  ultimately show ?thesis
    using True that by (cases "cancel_requested j") (simp_all add: recover_one_def fine_event st1_def)
qed (use assms that in \<open>auto simp: recover_one_def fine_refl\<close>)

lemma recover_fold:
  assumes "env_ok env" "state_ok env st" "distinct (map fst es)" "\<And>i j. (i, j) \<in> set es \<Longrightarrow> map_of (js_jobs st) i = Some j"
  shows "\<exists>st'. fold (recover_one env lb now f b) es (st, n) = (st', n + length (filter (recovered b \<circ> snd) es)) \<and>
    state_ok env st' \<and>
    (\<forall>i. map_of (js_jobs st') i = (case map_of es i of
       Some j \<Rightarrow> Some (if recovered b j then recovered_job env lb now f j else j)
     | None \<Rightarrow> map_of (js_jobs st) i))"
  using assms(2-4)
proof (induction es arbitrary: st n)
  case Nil
  then show ?case by simp
next
  case (Cons e es)
  obtain i j where e: "e = (i, j)" by fastforce
  have j: "map_of (js_jobs st) i = Some j" using Cons.prems(3) e by simp
  obtain st1 where st1: "recover_one env lb now f b (i, j) (st, n) = (st1, n + (if recovered b j then 1 else 0))"
    "fine env st st1"
    "js_jobs st1 = (if recovered b j then AList.update i (recovered_job env lb now f j) (js_jobs st) else js_jobs st)"
    using recover_one_record [OF assms(1) Cons.prems(1) j] by blast
  have i: "i \<notin> fst ` set es" using Cons.prems(2) e by auto
  have rest: "map_of (js_jobs st1) k = Some l" if "(k, l) \<in> set es" for k l
    using Cons.prems(3) [of k l] that i st1(3) by (force simp: map_of_update_iff)
  have ok1: "state_ok env st1" and dist: "distinct (map fst es)" using st1(2) Cons.prems(2) by (simp_all add: fine_def)
  obtain st' where st': "fold (recover_one env lb now f b) es (st1, n + (if recovered b j then 1 else 0)) =
        (st', n + (if recovered b j then 1 else 0) + length (filter (recovered b \<circ> snd) es))"
      "state_ok env st'"
      "\<forall>k. map_of (js_jobs st') k = (case map_of es k of
         Some j \<Rightarrow> Some (if recovered b j then recovered_job env lb now f j else j)
       | None \<Rightarrow> map_of (js_jobs st1) k)"
    using Cons.IH [OF ok1 dist rest] by blast
  have "map_of es i = None" using i by (simp add: map_of_eq_None_iff)
  with st'(3) st1(3) j have at: "map_of (js_jobs st') k = (case map_of (e # es) k of
         Some j \<Rightarrow> Some (if recovered b j then recovered_job env lb now f j else j)
       | None \<Rightarrow> map_of (js_jobs st) k)" for k
    by (auto simp: e map_of_update_iff split: option.splits)
  show ?case using st'(1,2) at st1(1) by (intro exI [of _ st']) (simp add: e comp_def)
qed

lemma recover_all:
  assumes "env_ok env" "state_ok env st" "reconcile_running_jobs env lb now f b st = (st', n)"
  shows "n = length (filter (recovered b \<circ> snd) (js_jobs st)) \<and> fine env st st' \<and>
    (\<forall>i. map_of (js_jobs st') i =
       map_option (\<lambda>j. if recovered b j then recovered_job env lb now f j else j) (map_of (js_jobs st) i))"
proof -
  have dist: "distinct (map fst (js_jobs st))" using assms(2) by (simp add: state_ok_def jobs_ok_def)
  from recover_fold [OF assms(1,2) dist, of lb now f b 0] map_of_is_SomeI [OF dist] assms(3)
  have n: "n = length (filter (recovered b \<circ> snd) (js_jobs st))" and ok: "state_ok env st'" and
    at: "map_of (js_jobs st') i =
       map_option (\<lambda>j. if recovered b j then recovered_job env lb now f j else j) (map_of (js_jobs st) i)" for i
    by (auto simp: reconcile_running_jobs_def split: option.splits)
  have "transition_allowed a c" if "status_map st i = Some a" "status_map st' i = Some c" for i a c
  proof -
    from that(1) obtain j where j: "map_of (js_jobs st) i = Some j" "job_status j = a" by (auto simp: status_map_def)
    then have "job_ok env i j" using assms(2) by (auto simp: state_ok_def dest: jobs_ok_at)
    then have "job_ok env i ((recovery_patch lb f j)\<lparr>updated_at := now\<rparr>)"
      using known_statuses by (simp add: job_ok_def recovery_patch_fields)
    from sanitize_job_ok [OF assms(1) this] j at [of i] that(2) known_transitions show ?thesis
      by (auto simp: status_map_def recovered_job_def recovery_patch_fields recovered_def split: if_splits)
  qed
  with n ok at show ?thesis by (simp add: fine_def)
qed

subsection \<open>Runs of the store\<close>

text \<open>
  One completed call. An enqueued job of \<open>create\<close> has a fresh id that the scrubbing leaves alone; \<open>retry\<close> is not
  forced and \<open>delete\<close> is the hard one. A call that raises is no step.
\<close>

inductive job_step :: "job_env \<Rightarrow> job_state \<Rightarrow> job_state \<Rightarrow> bool" for env where
  create: "create_job env clock q st = Inr (st', r) \<Longrightarrow> map_of (js_jobs st) (rq_id q) = None \<Longrightarrow> rq_id q \<noteq> [] \<Longrightarrow>
    je_clean env (rq_id q) = rq_id q \<Longrightarrow> job_step env st st'"
| enqueue: "enqueue_job env clock i st = Inr (st', r) \<Longrightarrow> job_step env st st'"
| cancel: "cancel_job env clock i expected st = Inr (st', r) \<Longrightarrow> job_step env st st'"
| retry: "retry_job env clock i False st = Inr (st', r) \<Longrightarrow> job_step env st st'"
| start: "mark_running env clock i st = Inr (st', r) \<Longrightarrow> job_step env st st'"
| succeed: "mark_succeeded env clock i summary st = Inr (st', r) \<Longrightarrow> job_step env st st'"
| fail: "mark_failed env clock i err summary st = Inr (st', r) \<Longrightarrow> job_step env st st'"
| cancelled: "mark_cancelled env clock i msg st = Inr (st', r) \<Longrightarrow> job_step env st st'"
| progress: "job_step env st (update_progress env clock i current whole msg step st)"
| claim: "claim_job_for_execution env now i st = (st', r) \<Longrightarrow> job_step env st st'"
| fence: "fence_reclaimed_running_job env now i lease attempt st = (st', r) \<Longrightarrow> job_step env st st'"
| request: "request_job_cancellation env now i expected st = (st', r, b) \<Longrightarrow> job_step env st st'"
| delete: "delete_job env now i False st = Inr (st', b) \<Longrightarrow> job_step env st st'"
| recover: "reconcile_running_jobs env lb now finished boundary st = (st', n) \<Longrightarrow> job_step env st st'"

inductive_cases job_stepE: "job_step env st st'"

lemma job_step_fine: "job_step env st st' \<Longrightarrow> env_ok env \<Longrightarrow> state_ok env st \<Longrightarrow> fine env st st'"
proof (induction rule: job_step.induct)
  case (succeed clock i summary st st' r)
  from finished_fine [OF succeed(2,3) known_statuses(5) _ succeed(1) [unfolded mark_succeeded_def]] show ?case
    by (simp add: patch_ok_def)
next
  case (fail clock i err summary st st' r)
  from finished_fine [OF fail(2,3) known_statuses(4) _ fail(1) [unfolded mark_failed_def Let_def]] show ?case
    by (simp add: patch_ok_def)
next
  case (cancelled clock i msg st st' r)
  from finished_fine [OF cancelled(2,3) known_statuses(3) _ cancelled(1) [unfolded mark_cancelled_def]] show ?case
    by (simp add: patch_ok_def)
qed (blast intro: create_fine enqueue_fine cancel_fine retry_fine running_fine progress_fine claim_fine fence_fine
      delete_fine dest: request_fine recover_all)+

lemma run_state_ok: "(job_step env)\<^sup>*\<^sup>* st st' \<Longrightarrow> env_ok env \<Longrightarrow> state_ok env st \<Longrightarrow> state_ok env st'"
  by (induction rule: rtranclp_induct) (auto dest: job_step_fine simp: fine_def)

subsection \<open>Properties\<close>

lemmas job_ops =
  get_job_def put_job_def append_event_def append_event_progress_def update_index_def update_workspace_stats_def
  remove_from_index_def Let_def

definition demo_env :: job_env where
  "demo_env = \<lparr>je_workspace = ''default'', je_clean = (\<lambda>s. s), je_session_meta = (\<lambda>_. None),
     je_session_dir = (\<lambda>_. False), je_percent = (\<lambda>c t. (100 * c) div t)\<rparr>"

definition demo_labels :: labels where
  "demo_labels = \<lparr>lb_cancelled = ''cancelled'', lb_failed = ''failed'', lb_cancelled_message = ''cancelled.''\<rparr>"

definition demo_job :: job where
  "demo_job = \<lparr>job_id = ''j1'', workspace_id = ''default'', job_type = ''export_report'', job_title = ''report'',
     job_status = ''queued'', progress = [], payload = [], output_artifacts = [], run_ids = [], trace_ids = [],
     created_by = ''user'', created_at = ''t0'', updated_at = ''t1'', started_at = [], finished_at = [],
     cancel_requested = False, retry_count = 0, max_retries = 3, job_error = [], result_summary = [], job_metadata = []\<rparr>"

definition demo_queued :: job_state where
  "demo_queued = update_workspace_stats demo_env
     \<lparr>js_jobs = [(''j1'', demo_job)], js_events = [], js_index = [''j1''],
      js_stats = \<lparr>jobs_count = 0, status_counts = [], last_job_id = [], recent_jobs = []\<rparr>, js_sent = [], js_links = []\<rparr>"

definition demo_running :: job_state where
  "demo_running = fst (claim_job_for_execution demo_env ''t2'' ''j1'' demo_queued)"

definition claimed_job :: "job_env \<Rightarrow> string \<Rightarrow> job \<Rightarrow> job" where
  "claimed_job env now j = sanitize_job env (j\<lparr>job_status := ''running'', started_at := now, finished_at := [],
     job_error := [], cancel_requested := False, updated_at := now\<rparr>)"

lemma claimed_job_fields:
  "env_ok env \<Longrightarrow> job_ok env i j \<Longrightarrow> job_ok env i (claimed_job env now j) \<and> job_status (claimed_job env now j) = ''running''"
  using sanitize_job_ok [of env i "j\<lparr>job_status := ''running'', started_at := now, finished_at := [],
     job_error := [], cancel_requested := False, updated_at := now\<rparr>"] known_statuses
  by (simp add: claimed_job_def job_ok_def)

lemma claim_effect:
  assumes "env_ok env" "state_ok env st" "claim_job_for_execution env now i st = (st', r)"
  shows "(case r of
      None \<Rightarrow> st' = st \<and> (i = [] \<or> status_map st i \<noteq> Some ''queued'')
    | Some c \<Rightarrow> (\<exists>j. map_of (js_jobs st) i = Some j \<and> job_status j = ''queued'' \<and> c = claimed_job env now j \<and>
        js_jobs st' = AList.update i c (js_jobs st)))"
  using assms(3)
  by (auto simp: claim_job_for_execution_def get_job_def Let_def status_map_def claimed_job_def split: option.splits if_splits)

lemma demo_ok: "env_ok demo_env" "state_ok demo_env demo_queued"
proof -
  show "env_ok demo_env" by (simp add: env_ok_def list_all_iff demo_env_def)
  have "workspace_stats demo_env (update_workspace_stats demo_env st) = workspace_stats demo_env st" for st
    by (rule stats_cong) simp
  then show "state_ok demo_env demo_queued"
    by (simp add: state_ok_def jobs_ok_def demo_queued_def job_ok_def demo_job_def demo_env_def job_statuses_def)
qed

lemma demo_claim: "claim_job_for_execution demo_env ''t2'' ''j1'' demo_queued = (demo_running, Some (claimed_job demo_env ''t2'' demo_job))"
  by (simp add: demo_running_def claim_job_for_execution_def get_job_def demo_queued_def Let_def demo_job_def claimed_job_def)

lemma demo_jobs:
  "js_jobs demo_queued = [(''j1'', demo_job)]" "js_jobs demo_running = [(''j1'', claimed_job demo_env ''t2'' demo_job)]"
  "status_map demo_queued ''j1'' = Some ''queued''" "status_map demo_running ''j1'' = Some ''running''"
  "state_ok demo_env demo_running"
proof -
  show jobs: "js_jobs demo_queued = [(''j1'', demo_job)]" by (simp add: demo_queued_def)
  show r: "js_jobs demo_running = [(''j1'', claimed_job demo_env ''t2'' demo_job)]"
    using claim_effect [OF demo_ok demo_claim] jobs by simp
  show "status_map demo_queued ''j1'' = Some ''queued''" by (simp add: status_map_def jobs demo_job_def)
  show "status_map demo_running ''j1'' = Some ''running''"
    by (simp add: status_map_def r claimed_job_def sanitize_job_def demo_env_def Let_def)
  show "state_ok demo_env demo_running" using claim_fine [OF demo_ok demo_claim] by (simp add: fine_def)
qed



text \<open>A restart recovers exactly the interrupted jobs. \<open>reconcile_running_jobs\<close> rewrites the running jobs last
  written before the boundary and no other record; each becomes \<open>cancelled\<close> if its cancellation was requested and
  \<open>failed\<close> otherwise, with the moment of the recovery as its end; the number returned is the number of jobs
  rewritten, and none of them would be recovered by a second run with the same boundary.\<close>

theorem restart_recovery_exact:
  assumes "env_ok env" "state_ok env st" "reconcile_running_jobs env lb now f b st = (st', n)"
  shows "n = length (filter (\<lambda>(i, j). recovered b j) (js_jobs st)) \<and>
    (\<forall>i. \<not> (\<exists>j. map_of (js_jobs st) i = Some j \<and> recovered b j) \<longrightarrow> map_of (js_jobs st') i = map_of (js_jobs st) i) \<and>
    (\<forall>i j. map_of (js_jobs st) i = Some j \<longrightarrow> recovered b j \<longrightarrow>
       (\<exists>r. map_of (js_jobs st') i = Some r \<and>
          job_status r = (if cancel_requested j then ''cancelled'' else ''failed'') \<and>
          finished_at r = je_clean env f \<and> cancel_requested r = cancel_requested j \<and> \<not> recovered b r))"
proof -
  note all = recover_all [OF assms]
  have "filter (recovered b \<circ> snd) (js_jobs st) = filter (\<lambda>(i, j). recovered b j) (js_jobs st)"
    by (simp add: comp_def case_prod_beta')
  moreover have "job_status (recovered_job env lb now f j) = (if cancel_requested j then ''cancelled'' else ''failed'')"
    if "map_of (js_jobs st) i = Some j" for i j
  proof -
    from that assms(2) have "job_ok env i j" by (auto simp: state_ok_def dest: jobs_ok_at)
    then have "job_ok env i ((recovery_patch lb f j)\<lparr>updated_at := now\<rparr>)"
      using known_statuses by (simp add: job_ok_def recovery_patch_fields)
    from sanitize_job_ok [OF assms(1) this] show ?thesis by (simp add: recovered_job_def recovery_patch_fields)
  qed
  moreover have "finished_at (recovered_job env lb now f j) = je_clean env f"
    "cancel_requested (recovered_job env lb now f j) = cancel_requested j" for j
    by (simp_all add: recovered_job_def sanitize_job_def Let_def recovery_patch_fields)
  moreover have "\<not> recovered b (recovered_job env lb now f j)" if "map_of (js_jobs st) i = Some j" for i j
    using calculation(2) [OF that] by (simp add: recovered_def)
  moreover have "map_of (js_jobs st') i = map_of (js_jobs st) i"
    if "\<not> (\<exists>j. map_of (js_jobs st) i = Some j \<and> recovered b j)" for i
    using all that by (cases "map_of (js_jobs st) i") auto
  moreover have "map_of (js_jobs st') i = Some (recovered_job env lb now f j)"
    if "map_of (js_jobs st) i = Some j" "recovered b j" for i j
    using all that by simp
  ultimately show ?thesis using all by (intro conjI allI impI) (simp_all add: recovered_def)
qed

theorem restart_recovery_exact_witness:
  "status_map (fst (reconcile_running_jobs demo_env demo_labels ''t9'' ''t8'' ''t5'' demo_running)) ''j1'' = Some ''failed''"
proof -
  obtain st' n where st': "reconcile_running_jobs demo_env demo_labels ''t9'' ''t8'' ''t5'' demo_running = (st', n)"
    by fastforce
  let ?j = "claimed_job demo_env ''t2'' demo_job"
  have "recovered ''t5'' ?j" "\<not> cancel_requested ?j" by code_simp+
  with restart_recovery_exact [OF demo_ok(1) demo_jobs(5) st'] demo_jobs(2) st' show ?thesis by (force simp: status_map_def)
qed

text \<open>C28: the body of a job runs only for a queued job. When a delivered job is not queued the result does not depend
  on the body; the only record written is that of a running job delivered again (attempt above one), which becomes
  \<open>failed\<close> without being run a second time.\<close>

theorem body_runs_only_from_queue:
  assumes "env_ok env" "state_ok env st" "status_map st i \<noteq> Some ''queued''"
    "deliver env clock body i lease attempt st = (st', out)"
  shows "fst (deliver env clock body' i lease attempt st) = st' \<and>
    status_map st' i = (if status_map st i = Some ''running'' \<and> 1 < attempt then Some ''failed'' else status_map st i) \<and>
    (status_map st i = Some ''running'' \<and> 1 < attempt \<longleftrightarrow> out = Lease_expired) \<and>
    (out \<noteq> Lease_expired \<longrightarrow> st' = st)"
proof (cases "get_job i st")
  case None
  then have "status_map st i = None"
    using assms(2) jobs_ok_at [of env "js_jobs st" i]
    by (cases "map_of (js_jobs st) i") (auto simp: get_job_def status_map_def state_ok_def job_ok_def split: if_splits)
  with None assms(4) show ?thesis
    by (auto simp: deliver_def fence_reclaimed_running_job_def split: if_splits)
next
  case (Some j)
  then have s: "status_map st i = Some (job_status j)" by (rule status_map_get)
  obtain st1 r where f: "fence_reclaimed_running_job env (clock 0) i lease attempt st = (st1, r)" by fastforce
  show ?thesis
  proof (cases "job_status j = ''running'' \<and> 1 < attempt")
    case True
    from Some have at: "map_of (js_jobs st) i = Some j" by (simp add: get_job_Some)
    with assms(2) have ok: "job_ok env i j" by (auto simp: state_ok_def dest: jobs_ok_at)
    let ?j = "j\<lparr>job_status := ''failed'', finished_at := clock 0, job_error := ''worker_lease_expired'',
      job_metadata := AList.update ''active_turn''
        (VDict (lease_expired_turn (clock 0) lease i (dict_of (vget (job_metadata j) ''active_turn'')))) (job_metadata j),
      updated_at := clock 0\<rparr>"
    have "job_ok env i ?j" using ok known_statuses by (simp add: job_ok_def)
    from sanitize_job_ok [OF assms(1) this] have "job_status (sanitize_job env ?j) = ''failed''" by simp
    moreover have "js_jobs st1 = AList.update i (sanitize_job env ?j) (js_jobs st)" "r \<noteq> None"
      using f True Some by (auto simp: fence_reclaimed_running_job_def Let_def)
    ultimately show ?thesis using True s assms(4) f
      by (auto simp: deliver_def status_map_def map_of_update_iff split: if_splits)
  next
    case False
    with f Some have "st1 = st" "r = None" by (auto simp: fence_reclaimed_running_job_def split: if_splits)
    moreover have "run_job env c b i st = (st, None)" for c b
      using Some assms(3) s by (simp add: run_job_def claim_job_for_execution_def)
    ultimately show ?thesis using False s Some f assms(4) by (auto simp: deliver_def split: if_splits)
  qed
qed

definition demo_body :: "bool \<Rightarrow> job_body" where
  "demo_body fails = \<lparr>jb_run = (\<lambda>j st. (st, if fails then Some ''boom'' else None)), jb_lost = (\<lambda>_. False),
     jb_redact = (\<lambda>s. s), jb_finalize = (\<lambda>j st. st)\<rparr>"

theorem body_runs_only_from_queue_witness:
  "fst (deliver demo_env (\<lambda>_. ''t3'') (demo_body False) ''j1'' ''l1'' 2 demo_running) =
   fst (deliver demo_env (\<lambda>_. ''t3'') (demo_body True) ''j1'' ''l1'' 2 demo_running) \<and>
   status_map (fst (deliver demo_env (\<lambda>_. ''t3'') (demo_body True) ''j1'' ''l1'' 2 demo_running)) ''j1'' = Some ''failed''"
proof -
  have "status_map demo_running ''j1'' \<noteq> Some ''queued''" by (simp add: demo_jobs(4))
  from body_runs_only_from_queue [OF demo_ok(1) demo_jobs(5) this prod.collapse [symmetric],
      of "\<lambda>_. ''t3''" "demo_body True" "''l1''" 2 "demo_body False"]
  show ?thesis by (simp add: demo_jobs(4))
qed

lemma mark_settles:
  assumes "env_ok env" "state_ok env st" "status_map st i = Some ''running''" "i \<noteq> []"
    "patch_ok extra None" "s \<in> set job_statuses" "transition_allowed ''running'' s"
  shows "\<exists>st' r. mark_finished env ck i s extra t m st = Inr (st', r) \<and> state_ok env st' \<and> status_map st' i = Some s"
proof -
  from assms(3,4) obtain l where l: "get_job i st = Some l" "job_status l = ''running''"
    by (auto simp: status_map_def get_job_def)
  obtain st2 r where upd:
    "update_job env (ck 1) i (\<lambda>x. extra (x\<lparr>job_status := s, finished_at := ck 0\<rparr>)) st = (st2, r)" by fastforce
  have "patch_ok (\<lambda>x. extra (x\<lparr>job_status := s, finished_at := ck 0\<rparr>)) (Some s)" using assms(5) by (simp add: patch_ok_def)
  from update_job_effect [OF assms(1,2) this _ upd] assms(6) l have
    "state_ok env st2" "status_map st2 i = Some s" "r \<noteq> None"
    by (auto split: option.splits)
  moreover have "check_transition (job_status l) s = Inr ()"
    using assms(7) l by (simp add: check_transition_def py_require_def)
  ultimately show ?thesis
    using l upd by (simp add: mark_finished_def Let_def status_map_cong [of "append_event env i t m st2" st2])
qed

lemma mark_running_job:
  assumes "env_ok env" "state_ok env st" "status_map st i = Some ''running''" "i \<noteq> []"
  shows "\<exists>st' r. mark_succeeded env ck i d st = Inr (st', r) \<and> state_ok env st' \<and> status_map st' i = Some ''succeeded''"
    "\<exists>st' r. mark_failed env ck i e d st = Inr (st', r) \<and> state_ok env st' \<and> status_map st' i = Some ''failed''"
proof -
  have "transition_allowed ''running'' ''succeeded''" by code_simp
  then show "\<exists>st' r. mark_succeeded env ck i d st = Inr (st', r) \<and> state_ok env st' \<and> status_map st' i = Some ''succeeded''"
    unfolding mark_succeeded_def by (intro mark_settles assms) (simp_all add: patch_ok_def known_statuses)
  show "\<exists>st' r. mark_failed env ck i e d st = Inr (st', r) \<and> state_ok env st' \<and> status_map st' i = Some ''failed''"
    unfolding mark_failed_def Let_def
    by (intro mark_settles assms) (simp_all add: patch_ok_def known_statuses known_transitions)
qed

text \<open>How a run of a queued job ends. When the body keeps the store consistent and leaves the job running, the
  job is \<open>failed\<close> if the body raised, stays \<open>running\<close> if the lease was lost before the result was
  recorded, and is \<open>succeeded\<close> otherwise; no exception leaves \<open>run_job\<close>.\<close>

theorem run_job_settles:
  assumes "env_ok env" "state_ok env st" "i \<noteq> []" "map_of (js_jobs st) i = Some j" "job_status j = ''queued''"
    "job_type j \<noteq> ''network_inspection''" "je_clean env (job_type j) = job_type j"
    "jb_run body (claimed_job env (clock 0) j) (fst (claim_job_for_execution env (clock 0) i st)) = (st\<^sub>1, raised)"
    "state_ok env st\<^sub>1" "status_map st\<^sub>1 i = Some ''running''"
    "run_job env clock body i st = (st', escaped)"
  shows "state_ok env st' \<and> escaped = None \<and>
    status_map st' i = Some (if raised \<noteq> None then ''failed''
                             else if jb_lost body 0 \<or> jb_lost body 1 then ''running'' else ''succeeded'')"
proof -
  let ?c = "claimed_job env (clock 0) j"
  obtain st0 where claim: "claim_job_for_execution env (clock 0) i st = (st0, Some ?c)"
    using assms(3-5) by (simp add: claim_job_for_execution_def get_job_def Let_def claimed_job_def)
  with assms(8) have body: "jb_run body ?c st0 = (st\<^sub>1, raised)" by simp
  have type: "job_type ?c \<noteq> ''network_inspection''"
    using assms(6,7) by (simp add: claimed_job_def sanitize_job_def Let_def)
  note mark = mark_running_job [OF assms(1,9,10,3)]
  show ?thesis
  proof (cases raised)
    case (Some e)
    obtain st2 r where m: "mark_failed env (\<lambda>k. clock (k + 3)) i
        (str_or (take 300 (jb_redact body e)) ''job_execution_failed'') [] st\<^sub>1 = Inr (st2, r)"
      "state_ok env st2" "status_map st2 i = Some ''failed''"
      using mark(2) by blast
    have "run_job env clock body i st = (st2, None)"
      using claim body type Some m(1) by (simp add: run_job_def run_failed_def)
    with m Some assms(11) show ?thesis by simp
  next
    case None
    from assms(3,10) obtain l where l: "get_job i st\<^sub>1 = Some l" "job_status l = ''running''"
      by (auto simp: status_map_def get_job_def)
    let ?d = "AList.update ''artifact_count'' (VInt (int (length (output_artifacts l))))
                    (AList.update ''run_count'' (VInt (int (length (run_ids l)))) (result_summary l))"
    obtain st2 r where m: "mark_succeeded env (\<lambda>k. clock (k + 1)) i ?d st\<^sub>1 = Inr (st2, r)"
      "state_ok env st2" "status_map st2 i = Some ''succeeded''"
      using mark(1) by blast
    have "run_job env clock body i st = (if jb_lost body 0 \<or> jb_lost body 1 then st\<^sub>1 else st2, None)"
      using claim body type None m(1) l by (simp add: run_job_def finish_run_def)
    with m None assms(9-11) show ?thesis by (simp split: if_splits)
  qed
qed

theorem run_job_settles_witness:
  "status_map (fst (run_job demo_env (\<lambda>_. ''t2'') (demo_body True) ''j1'' demo_queued)) ''j1'' = Some ''failed'' \<and>
   status_map (fst (run_job demo_env (\<lambda>_. ''t2'') (demo_body False) ''j1'' demo_queued)) ''j1'' = Some ''succeeded''"
proof -
  have run: "status_map (fst (run_job demo_env (\<lambda>_. ''t2'') (demo_body b) ''j1'' demo_queued)) ''j1'' =
      Some (if b then ''failed'' else ''succeeded'')" for b
  proof -
    have j: "map_of (js_jobs demo_queued) ''j1'' = Some demo_job" by (simp add: demo_jobs(1))
    have t: "job_status demo_job = ''queued''" "job_type demo_job \<noteq> ''network_inspection''"
      "je_clean demo_env (job_type demo_job) = job_type demo_job"
      by (simp_all add: demo_job_def demo_env_def)
    have b: "jb_run (demo_body b) (claimed_job demo_env ''t2'' demo_job)
        (fst (claim_job_for_execution demo_env ''t2'' ''j1'' demo_queued)) = (demo_running, if b then Some ''boom'' else None)"
      by (simp add: demo_body_def demo_claim)
    from run_job_settles [where clock = "\<lambda>_. ''t2''" and body = "demo_body b", OF demo_ok _ j t b demo_jobs(5,4)
      prod.collapse [symmetric]]
    show ?thesis by (simp add: demo_body_def split: if_splits)
  qed
  show ?thesis using run [of True] run [of False] by simp
qed

text \<open>An accepted cancellation is recorded once and outlives the process. After a running job accepted a request,
  no further request is applied or changes the store, whichever turn it names; and a restart whose boundary lies after
  the request ends the job as \<open>cancelled\<close>.\<close>

theorem accepted_cancellation_sticks:
  assumes "env_ok env" "state_ok env st" "request_job_cancellation env now i expected st = (st\<^sub>1, Some r, True)"
  shows "status_map st\<^sub>1 i = Some ''running'' \<and>
    request_job_cancellation env now' i expected' st\<^sub>1 = (st\<^sub>1, Some r, False) \<and>
    (updated_at r < b \<longrightarrow> status_map (fst (reconcile_running_jobs env lb t f b st\<^sub>1)) i = Some ''cancelled'')"
proof -
  from assms(3) obtain j where j: "get_job i st = Some j" "job_status j = ''running''"
    "r = sanitize_job env (j\<lparr>cancel_requested := True, updated_at := now\<rparr>)"
    "st\<^sub>1 = update_workspace_stats env (put_job i r st)"
    by (auto simp: request_job_cancellation_def Let_def split: option.splits if_splits)
  from j(1) have "map_of (js_jobs st) i = Some j" "i \<noteq> []" by (auto simp: get_job_Some)
  with assms(2) have "job_ok env i j" by (auto simp: state_ok_def dest: jobs_ok_at)
  then have "job_ok env i (j\<lparr>cancel_requested := True, updated_at := now\<rparr>)" by (simp add: job_ok_def)
  from sanitize_job_ok [OF assms(1) this] j(2,3) have r: "job_status r = ''running''" by simp
  have c: "cancel_requested r" by (simp add: j(3) sanitize_job_def Let_def)
  have at: "map_of (js_jobs st\<^sub>1) i = Some r" by (simp add: j(4) map_of_update_iff)
  have ok: "state_ok env st\<^sub>1" using request_fine [OF assms] by (simp add: fine_def)
  obtain st2 n where rec: "reconcile_running_jobs env lb t f b st\<^sub>1 = (st2, n)" by fastforce
  have "job_ok env i r" using ok at by (auto simp: state_ok_def dest: jobs_ok_at)
  then have "job_ok env i ((recovery_patch lb f r)\<lparr>updated_at := t\<rparr>)"
    using known_statuses by (simp add: job_ok_def recovery_patch_fields)
  from sanitize_job_ok [OF assms(1) this] have "job_status (recovered_job env lb t f r) = ''cancelled''"
    using c by (simp add: recovered_job_def recovery_patch_fields)
  with recover_all [OF assms(1) ok rec] at r have
    "updated_at r < b \<longrightarrow> status_map st2 i = Some ''cancelled''" by (simp add: status_map_def recovered_def)
  with at r c rec \<open>i \<noteq> []\<close> show ?thesis
    by (simp add: status_map_def request_job_cancellation_def get_job_def Let_def)
qed

theorem accepted_cancellation_sticks_witness:
  "\<exists>st r. request_job_cancellation demo_env ''t3'' ''j1'' [] demo_running = (st, Some r, True) \<and>
     status_map (fst (reconcile_running_jobs demo_env demo_labels ''t9'' ''t8'' ''t5'' st)) ''j1'' = Some ''cancelled''"
proof -
  define c where "c = (claimed_job demo_env ''t2'' demo_job)\<lparr>cancel_requested := True, updated_at := ''t3''\<rparr>"
  have "job_status (claimed_job demo_env ''t2'' demo_job) = ''running'' \<and>
      \<not> cancel_requested (claimed_job demo_env ''t2'' demo_job)"
    by code_simp
  then obtain st where st: "request_job_cancellation demo_env ''t3'' ''j1'' [] demo_running = (st, Some (sanitize_job demo_env c), True)"
    by (simp add: request_job_cancellation_def get_job_def demo_jobs(2) Let_def c_def strip_def)
  have "updated_at (sanitize_job demo_env c) < ''t5''" unfolding c_def by code_simp
  with accepted_cancellation_sticks [OF demo_ok(1) demo_jobs(5) st, of "''t4''" "[]" "''t5''" demo_labels "''t9''" "''t8''"] st
  show ?thesis by blast
qed

text \<open>The soft deletion does not go through the table. \<open>delete_job\<close> with \<open>soft\<close> (its default) writes
  \<open>cancelled\<close> over any status, so a job that succeeded becomes a cancelled one, a transition the table of the manager
  refuses.\<close>

theorem soft_delete_overwrites_success:
  assumes "env_ok env" "state_ok env st" "status_map st i = Some ''succeeded''" "delete_job env now i True st = Inr (st', b)"
  shows "b \<and> status_map st' i = Some ''cancelled'' \<and> (\<exists>e. check_transition ''succeeded'' ''cancelled'' = Inl e)"
proof -
  from assms(3) obtain j where at: "map_of (js_jobs st) i = Some j" by (auto simp: status_map_def)
  with assms(2) have "i \<noteq> []" by (auto simp: state_ok_def job_ok_def dest: jobs_ok_at)
  obtain st1 r where upd: "update_job env now i (\<lambda>j. j\<lparr>job_status := ''cancelled'', cancel_requested := True\<rparr>) st = (st1, r)"
    by fastforce
  have "patch_ok (\<lambda>j. j\<lparr>job_status := ''cancelled'', cancel_requested := True\<rparr>) (Some ''cancelled'')"
    by (simp add: patch_ok_def)
  from update_job_effect [OF assms(1,2) this _ upd] known_statuses(3) at \<open>i \<noteq> []\<close>
  have "r \<noteq> None" "status_map st1 i = Some ''cancelled''" by (auto simp: get_job_def split: option.splits)
  moreover have "\<not> transition_allowed ''succeeded'' ''cancelled''" by code_simp
  ultimately show ?thesis using assms(4) upd \<open>i \<noteq> []\<close>
    by (simp add: delete_job_def check_transition_def py_require_def)
qed

lemma demo_succeeded: obtains st r where "mark_succeeded demo_env (\<lambda>_. ''t3'') ''j1'' [] demo_running = Inr (st, r)"
    "state_ok demo_env st" "status_map st ''j1'' = Some ''succeeded''"
  using mark_running_job(1) [OF demo_ok(1) demo_jobs(5,4), of "\<lambda>_. ''t3''" "[]"] by auto

theorem soft_delete_overwrites_success_witness:
  "\<exists>st st'. status_map st ''j1'' = Some ''succeeded'' \<and> delete_job demo_env ''t4'' ''j1'' True st = Inr (st', True) \<and>
     status_map st' ''j1'' = Some ''cancelled''"
proof -
  obtain st r where st: "state_ok demo_env st" "status_map st ''j1'' = Some ''succeeded''" by (rule demo_succeeded)
  obtain st' b where d: "delete_job demo_env ''t4'' ''j1'' True st = Inr (st', b)"
    by (cases "delete_job demo_env ''t4'' ''j1'' True st") (auto simp: delete_job_def Let_def split: prod.splits)
  from soft_delete_overwrites_success [OF demo_ok(1) st d] st(2) d show ?thesis by auto
qed

end
