(* ===== verification/Work_Queue.thy ===== *)
theory Work_Queue
  imports Lz_Prelude "HOL-Library.Multiset"
begin

section \<open>Queues that conserve their deliveries\<close>

text \<open>
  The contract between a work queue and the workers. A step carries a label, which says the work it accepts and the
  work it settles; what a state still owes changes by exactly that. The facts for whole runs are proved here once.
\<close>

inductive labelled_run :: "('l \<Rightarrow> 'q \<Rightarrow> 'q \<Rightarrow> bool) \<Rightarrow> 'l list \<Rightarrow> 'q \<Rightarrow> 'q \<Rightarrow> bool" for step where
  stop: "labelled_run step [] q q"
| more: "step l q q' \<Longrightarrow> labelled_run step ls q' q'' \<Longrightarrow> labelled_run step (l # ls) q q''"

inductive_simps labelled_run_simps: "labelled_run step [] q q'" "labelled_run step (l # ls) q q'"

lemma labelled_run_append:
  "labelled_run step (ls @ ls') q q' \<longleftrightarrow> (\<exists>p. labelled_run step ls q p \<and> labelled_run step ls' p q')"
  by (induction ls arbitrary: q) (auto simp: labelled_run_simps)

definition labels_of :: "('l \<Rightarrow> 'k option) \<Rightarrow> 'l list \<Rightarrow> 'k multiset" where
  "labels_of f ls = mset (concat (map (\<lambda>l. case f l of None \<Rightarrow> [] | Some k \<Rightarrow> [k]) ls))"

definition label_of :: "('l \<Rightarrow> 'k option) \<Rightarrow> 'l \<Rightarrow> 'k multiset" where
  "label_of f l = (case f l of None \<Rightarrow> {#} | Some k \<Rightarrow> {#k#})"

lemma labels_of_simps [simp]:
  "labels_of f [] = {#}" "labels_of f (l # ls) = label_of f l + labels_of f ls"
  by (simp_all add: labels_of_def label_of_def split: option.splits)

locale work_queue =
  fixes step :: "'l \<Rightarrow> 'q \<Rightarrow> 'q \<Rightarrow> bool"
    and ok :: "'q \<Rightarrow> bool"
    and owed :: "'q \<Rightarrow> 'k multiset"
    and accepts :: "'l \<Rightarrow> 'k option"
    and settles :: "'l \<Rightarrow> 'k option"
  assumes step_ok: "step l q q' \<Longrightarrow> ok q \<Longrightarrow> ok q'"
    and step_owed: "step l q q' \<Longrightarrow> ok q \<Longrightarrow> owed q' + label_of settles l = owed q + label_of accepts l"
begin

lemma conserved:
  "labelled_run step ls q q' \<Longrightarrow> ok q \<Longrightarrow> ok q' \<and> owed q' + labels_of settles ls = owed q + labels_of accepts ls"
proof (induction rule: labelled_run.induct)
  case (more l q q' ls q'')
  from step_ok [OF more.hyps(1) more.prems] more.IH have
    rest: "ok q''" "owed q'' + labels_of settles ls = owed q' + labels_of accepts ls" by auto
  have "owed q'' + (label_of settles l + labels_of settles ls) = (owed q'' + labels_of settles ls) + label_of settles l"
    by (simp add: ac_simps)
  also have "\<dots> = (owed q' + label_of settles l) + labels_of accepts ls" unfolding rest(2) by (simp add: ac_simps)
  also have "\<dots> = owed q + (label_of accepts l + labels_of accepts ls)"
    unfolding step_owed [OF more.hyps(1) more.prems] by (simp add: ac_simps)
  finally show ?case using rest(1) by simp
qed simp

lemma nothing_lost:
  "labelled_run step ls q q' \<Longrightarrow> ok q \<Longrightarrow> k \<in># owed q \<Longrightarrow> k \<notin># labels_of settles ls \<Longrightarrow> k \<in># owed q'"
  using conserved [of ls q q'] by (metis add_cancel_right_right union_iff)

lemma settled_was_accepted:
  "labelled_run step ls q q' \<Longrightarrow> ok q \<Longrightarrow> owed q = {#} \<Longrightarrow> labels_of settles ls \<subseteq># labels_of accepts ls"
  using conserved [of ls q q'] by (metis empty_neutral(1) mset_subset_eq_add_right)

end

end
