(* ===== verification/Job_Queue.thy ===== *)
theory Job_Queue
  imports Job_Manager Work_Queue
begin

section \<open>The queue of deliveries\<close>

text \<open>
  \<^verbatim>\<open>jobs/queue.py\<close>: the Redis queue (a list of queued payloads, a list of payloads being processed, a hash of leases)
  and the queue over the files, and the iteration of a worker (\<open>_run_once\<close> of \<^verbatim>\<open>jobs/worker.py\<close>) over them. Each
  Redis command and each Lua script is one step. A payload is the JSON text of a delivery, which determines it; any
  other text in the lists is \<open>Junk\<close>. The id of a lease is the payload. Times are in ticks.
\<close>

record delivery =
  dl_workspace :: string
  dl_job :: string
  dl_attempt :: int
  dl_principal :: string

datatype queue_payload = Delivery delivery | Junk string

datatype lease = Lease string int | Bad_lease string

record queue_receipt =
  rc_workspace :: string
  rc_job :: string
  rc_lease :: queue_payload
  rc_attempt :: int
  rc_principal :: string

record redis_queue =
  qs_queued :: "queue_payload list"
  qs_processing :: "queue_payload list"
  qs_leases :: "(queue_payload \<times> lease) list"

definition empty_queue :: redis_queue where
  "empty_queue = \<lparr>qs_queued = [], qs_processing = [], qs_leases = []\<rparr>"

definition delivery_payload :: "string \<Rightarrow> string \<Rightarrow> int \<Rightarrow> string \<Rightarrow> queue_payload" where
  "delivery_payload ws jid attempt owner =
     Delivery \<lparr>dl_workspace = ws, dl_job = jid, dl_attempt = attempt, dl_principal = owner\<rparr>"

definition redis_enqueue :: "string \<Rightarrow> string \<Rightarrow> string \<Rightarrow> redis_queue \<Rightarrow> redis_queue \<times> queue_receipt" where
  "redis_enqueue owner ws jid q =
     (let p = delivery_payload ws jid 1 owner
      in (q\<lparr>qs_queued := p # qs_queued q\<rparr>,
          \<lparr>rc_workspace = ws, rc_job = jid, rc_lease = p, rc_attempt = 1, rc_principal = []\<rparr>))"

text \<open>The script moves the last queued payload to the head of the payloads being processed and writes its lease.\<close>

definition claim_script :: "string \<Rightarrow> int \<Rightarrow> redis_queue \<Rightarrow> redis_queue \<times> queue_payload option" where
  "claim_script worker now q =
     (if qs_queued q = [] then (q, None)
      else (let p = last (qs_queued q)
            in (q\<lparr>qs_queued := butlast (qs_queued q), qs_processing := p # qs_processing q,
                  qs_leases := AList.update p (Lease worker now) (qs_leases q)\<rparr>, Some p)))"

definition receipt_of :: "delivery \<Rightarrow> queue_receipt" where
  "receipt_of d = \<lparr>rc_workspace = dl_workspace d, rc_job = dl_job d, rc_lease = Delivery d, rc_attempt = dl_attempt d,
     rc_principal = dl_principal d\<rparr>"

definition redis_claim :: "string \<Rightarrow> int \<Rightarrow> redis_queue \<Rightarrow> redis_queue \<times> queue_receipt option py" where
  "redis_claim worker now q =
     (let (q, res) = claim_script worker now q in
      (q, case res of
            None \<Rightarrow> Inr None
          | Some (Delivery d) \<Rightarrow> Inr (Some (receipt_of d))
          | Some (Junk s) \<Rightarrow> if s = [] then Inr None else Inl (ValueError s)))"

definition redis_ack :: "queue_receipt \<Rightarrow> redis_queue \<Rightarrow> redis_queue" where
  "redis_ack r q =
     q\<lparr>qs_processing := remove1 (rc_lease r) (qs_processing q), qs_leases := AList.delete (rc_lease r) (qs_leases q)\<rparr>"

definition redis_retry :: "queue_receipt \<Rightarrow> redis_queue \<Rightarrow> redis_queue" where
  "redis_retry r q =
     (let q = redis_ack r q; p = delivery_payload (rc_workspace r) (rc_job r) (rc_attempt r + 1) (rc_principal r)
      in q\<lparr>qs_queued := p # qs_queued q\<rparr>)"

definition redis_heartbeat :: "string \<Rightarrow> int \<Rightarrow> queue_receipt \<Rightarrow> redis_queue \<Rightarrow> redis_queue \<times> bool" where
  "redis_heartbeat worker now r q =
     (if rc_lease r \<notin> fst ` set (qs_leases q) then (q, False)
      else (q\<lparr>qs_leases := AList.update (rc_lease r) (Lease worker now) (qs_leases q)\<rparr>, True))"

text \<open>One entry of the loop of \<open>reclaim_stale\<close>: whether it is stale, with the delivery it holds, and what is done.\<close>

definition stale_entry :: "int \<Rightarrow> int \<Rightarrow> queue_payload \<times> lease \<Rightarrow> bool \<times> delivery option" where
  "stale_entry now max_age entry =
     (case entry of
        (Delivery d, Lease w h) \<Rightarrow> (now - h > max 1 max_age, Some d)
      | _ \<Rightarrow> (True, None))"

definition reclaim_script :: "queue_payload \<Rightarrow> lease \<Rightarrow> delivery \<Rightarrow> redis_queue \<Rightarrow> redis_queue \<times> nat" where
  "reclaim_script p raw d q =
     (if map_of (qs_leases q) p \<noteq> Some raw then (q, 0)
      else (q\<lparr>qs_leases := AList.delete p (qs_leases q), qs_processing := remove1 p (qs_processing q),
              qs_queued := delivery_payload (dl_workspace d) (dl_job d) (dl_attempt d + 1) (dl_principal d) # qs_queued q\<rparr>, 1))"

definition reclaim_entry :: "int \<Rightarrow> int \<Rightarrow> queue_payload \<times> lease \<Rightarrow> redis_queue \<times> nat \<Rightarrow> redis_queue \<times> nat" where
  "reclaim_entry now max_age entry acc =
     (let (q, n) = acc; (p, raw) = entry in
      if \<not> fst (stale_entry now max_age entry) then (q, n)
      else (case snd (stale_entry now max_age entry) of
          Some d \<Rightarrow>
            if dl_workspace d = [] \<or> dl_job d = []
            then (q\<lparr>qs_leases := AList.delete p (qs_leases q), qs_processing := remove1 p (qs_processing q)\<rparr>, n)
            else (let (q, moved) = reclaim_script p raw d q in (q, n + moved))
        | None \<Rightarrow> (q\<lparr>qs_leases := AList.delete p (qs_leases q), qs_processing := remove1 p (qs_processing q)\<rparr>, n)))"

definition reclaim_stale :: "int \<Rightarrow> int \<Rightarrow> redis_queue \<Rightarrow> redis_queue \<times> nat" where
  "reclaim_stale now max_age q = fold (reclaim_entry now max_age) (qs_leases q) (q, 0)"

subsection \<open>The queue over the files\<close>

text \<open>The stores of a principal by workspace, read from the last workspace name on.\<close>

definition next_queued_in :: "(string \<times> job_state) list \<Rightarrow> job option" where
  "next_queued_in wss = first_some (\<lambda>(ws, st). get_next_queued_job st) (rev (sort_key fst wss))"

definition file_receipt :: "string \<Rightarrow> job \<Rightarrow> queue_receipt" where
  "file_receipt owner j =
     \<lparr>rc_workspace = workspace_id j, rc_job = job_id j, rc_lease = Junk (''file:'' @ job_id j),
      rc_attempt = int (retry_count j) + 1, rc_principal = owner\<rparr>"

definition file_claim :: "string list \<Rightarrow> (string \<Rightarrow> (string \<times> job_state) list) \<Rightarrow> queue_receipt option" where
  "file_claim principals stores =
     first_some (\<lambda>p. map_option (file_receipt p) (next_queued_in (stores p))) (fromkeys principals)"

subsection \<open>One iteration of a worker\<close>

text \<open>
  Over the store of the workspace of the receipt (\<open>store\<close> gives it with its environment). \<open>None\<close> is the idle
  iteration; the receipt is acknowledged, given back or left to its lease as \<open>_run_once\<close> does after the delivery.
\<close>

definition settle_delivery :: "queue_receipt \<Rightarrow> delivery_outcome \<Rightarrow> redis_queue \<Rightarrow> redis_queue" where
  "settle_delivery r out q =
     (case out of
        Lease_expired \<Rightarrow> redis_ack r q
      | Missing \<Rightarrow> redis_ack r q
      | Completed \<Rightarrow> redis_ack r q
      | Worker_error _ \<Rightarrow> redis_retry r q
      | Lease_lost \<Rightarrow> q)"

definition lease_text :: "(queue_payload \<Rightarrow> string) \<Rightarrow> queue_receipt \<Rightarrow> string" where
  "lease_text show r = show (rc_lease r)"

definition work_once ::
  "job_env \<Rightarrow> clock \<Rightarrow> (queue_payload \<Rightarrow> string) \<Rightarrow> job_body \<Rightarrow> string \<Rightarrow> int \<Rightarrow> int \<Rightarrow> job_state \<times> redis_queue \<Rightarrow>
   (job_state \<times> redis_queue) \<times> (queue_receipt \<times> delivery_outcome) option py" where
  "work_once env clock show body worker now lease_seconds system =
     (let (st, q) = system; (q, _) = reclaim_stale now (max 30 lease_seconds) q; (q, res) = redis_claim worker now q in
      case res of
        Inl e \<Rightarrow> ((st, q), Inl e)
      | Inr None \<Rightarrow> ((st, q), Inr None)
      | Inr (Some r) \<Rightarrow>
          (let (st, out) = deliver env clock body (rc_job r) (lease_text show r) (rc_attempt r) st
           in ((st, settle_delivery r out q), Inr (Some (r, out)))))"

subsection \<open>Well-formed queues\<close>

text \<open>A job is known by its owner, its workspace and its id.\<close>

type_synonym job_key = "string \<times> string \<times> string"

fun payload_key :: "queue_payload \<Rightarrow> job_key" where
  "payload_key (Delivery d) = (dl_principal d, dl_workspace d, dl_job d)"
| "payload_key (Junk s) = ([], [], s)"

fun proper_payload :: "queue_payload \<Rightarrow> bool" where
  "proper_payload (Delivery d) = (dl_workspace d \<noteq> [] \<and> dl_job d \<noteq> [])"
| "proper_payload (Junk s) = False"

fun is_lease :: "lease \<Rightarrow> bool" where
  "is_lease (Lease w h) = True"
| "is_lease (Bad_lease s) = False"

definition payloads :: "redis_queue \<Rightarrow> queue_payload list" where
  "payloads q = qs_queued q @ qs_processing q"

definition owed_jobs :: "redis_queue \<Rightarrow> job_key multiset" where
  "owed_jobs q = mset (map payload_key (payloads q))"

definition queue_ok :: "redis_queue \<Rightarrow> bool" where
  "queue_ok q =
     (list_all proper_payload (payloads q) \<and> distinct (map payload_key (payloads q)) \<and>
      distinct (map fst (qs_leases q)) \<and> fst ` set (qs_leases q) = set (qs_processing q) \<and>
      list_all (is_lease \<circ> snd) (qs_leases q))"

lemma payload_key_simp [simp]: "payload_key (delivery_payload ws j n w) = (w, ws, j)" "proper_payload (delivery_payload ws j n w) = (ws \<noteq> [] \<and> j \<noteq> [])"
  by (simp_all add: delivery_payload_def)

lemma receipt_fields [simp]:
  "rc_lease (receipt_of d) = Delivery d" "rc_workspace (receipt_of d) = dl_workspace d" "rc_job (receipt_of d) = dl_job d"
  "rc_attempt (receipt_of d) = dl_attempt d" "rc_principal (receipt_of d) = dl_principal d"
  by (simp_all add: receipt_of_def)

lemma queue_ok_processing: "queue_ok q \<Longrightarrow> distinct (qs_processing q)"
  by (auto simp: queue_ok_def payloads_def distinct_map)

lemma delete_fst: "fst ` set (AList.delete k xs) = fst ` set xs - {k}"
  by (auto simp: AList.delete_eq)

lemma push_effect:
  assumes "queue_ok q" "proper_payload p" "payload_key p \<notin># owed_jobs q"
  shows "queue_ok (q\<lparr>qs_queued := p # qs_queued q\<rparr>) \<and>
    owed_jobs (q\<lparr>qs_queued := p # qs_queued q\<rparr>) = add_mset (payload_key p) (owed_jobs q)"
  using assms by (simp add: queue_ok_def owed_jobs_def payloads_def)

lemma drop_effect:
  assumes "queue_ok q"
  defines "q' \<equiv> \<lambda>p. q\<lparr>qs_processing := remove1 p (qs_processing q), qs_leases := AList.delete p (qs_leases q)\<rparr>"
  shows "queue_ok (q' p)"
    "owed_jobs (q' p) + (if p \<in> set (qs_processing q) then {#payload_key p#} else {#}) = owed_jobs q"
proof -
  have sub: "mset (map payload_key (payloads (q' p))) + (if p \<in> set (qs_processing q) then {#payload_key p#} else {#}) =
      mset (map payload_key (payloads q))"
    by (auto simp: payloads_def q'_def remove1_idem image_mset_Diff dest!: multi_member_split [of p "mset (qs_processing q)", simplified])
  then show "owed_jobs (q' p) + (if p \<in> set (qs_processing q) then {#payload_key p#} else {#}) = owed_jobs q"
    by (simp add: owed_jobs_def)
  from sub have "mset (map payload_key (payloads (q' p))) \<subseteq># mset (map payload_key (payloads q))"
    by (metis mset_subset_eq_add_left)
  then have "distinct (map payload_key (payloads (q' p)))"
    using assms(1) distinct_submset [of "map payload_key (payloads (q' p))" "map payload_key (payloads q)"]
    by (simp add: queue_ok_def)
  moreover have "set (payloads (q' p)) \<subseteq> set (payloads q)"
    by (auto simp: payloads_def q'_def dest: notin_set_remove1)
  moreover have "set (remove1 p (qs_processing q)) = set (qs_processing q) - {p}"
    using queue_ok_processing [OF assms(1)] by (rule set_remove1_eq)
  moreover have "set (AList.delete p (qs_leases q)) \<subseteq> set (qs_leases q)" by (auto simp: AList.delete_eq)
  ultimately show "queue_ok (q' p)"
    using assms(1) delete_fst [of p "qs_leases q"]
    by (auto simp: queue_ok_def q'_def distinct_delete list_all_iff)
qed

lemma set_update_subset: "set (AList.update k v xs) \<subseteq> insert (k, v) (set xs)"
  by (induction xs) auto

lemma claim_script_effect:
  assumes "queue_ok q" "claim_script worker now q = (q', r)"
  shows "queue_ok q' \<and> owed_jobs q' = owed_jobs q \<and>
    (case r of None \<Rightarrow> q' = q \<and> qs_queued q = [] | Some p \<Rightarrow> qs_queued q = qs_queued q' @ [p] \<and> proper_payload p \<and> p \<in> set (qs_processing q'))"
proof (cases "qs_queued q = []")
  case True
  with assms show ?thesis by (simp add: claim_script_def)
next
  case False
  then obtain ys p where q: "qs_queued q = ys @ [p]" by (metis rev_exhaust)
  with assms(2) have q': "q' = q\<lparr>qs_queued := ys, qs_processing := p # qs_processing q,
      qs_leases := AList.update p (Lease worker now) (qs_leases q)\<rparr>" "r = Some p"
    by (auto simp: claim_script_def Let_def)
  have owed: "owed_jobs q' = owed_jobs q" by (simp add: owed_jobs_def payloads_def q q')
  have "distinct (map payload_key (payloads q'))"
    using assms(1) by (auto simp: queue_ok_def payloads_def q q')
  moreover have "list_all (is_lease \<circ> snd) (AList.update p (Lease worker now) (qs_leases q))"
    using assms(1) set_update_subset [of p "Lease worker now" "qs_leases q"] by (auto simp: queue_ok_def list_all_iff)
  moreover have "fst ` set (AList.update p (Lease worker now) (qs_leases q)) = insert p (set (qs_processing q))"
    using assms(1) by (simp add: keys_update queue_ok_def)
  ultimately have "queue_ok q'"
    using assms(1) by (simp add: queue_ok_def payloads_def q q' distinct_update)
  with owed q q' assms(1) show ?thesis by (simp add: queue_ok_def payloads_def)
qed

lemma ack_effect:
  "queue_ok q \<Longrightarrow> queue_ok (redis_ack r q)"
  "queue_ok q \<Longrightarrow> rc_lease r \<in> set (qs_processing q) \<Longrightarrow> add_mset (payload_key (rc_lease r)) (owed_jobs (redis_ack r q)) = owed_jobs q"
  "rc_lease r \<notin> set (qs_processing q) \<Longrightarrow> queue_ok q \<Longrightarrow> redis_ack r q = q"
proof -
  assume ok: "queue_ok q"
  from drop_effect [OF ok, of "rc_lease r"] show "queue_ok (redis_ack r q)"
    "rc_lease r \<in> set (qs_processing q) \<Longrightarrow> add_mset (payload_key (rc_lease r)) (owed_jobs (redis_ack r q)) = owed_jobs q"
    by (simp_all add: redis_ack_def)
  assume "rc_lease r \<notin> set (qs_processing q)"
  with ok show "redis_ack r q = q" by (simp add: redis_ack_def queue_ok_def remove1_idem)
qed

lemma owed_distinct: "queue_ok q \<Longrightarrow> count (owed_jobs q) k \<le> 1"
proof -
  assume "queue_ok q"
  then have "distinct (map payload_key (payloads q))" by (simp add: queue_ok_def)
  then have "count (mset (map payload_key (payloads q))) k = (if k \<in> set (map payload_key (payloads q)) then 1 else 0)"
    by (rule distinct_count_atmost_1 [THEN iffD1, rule_format])
  then show ?thesis by (simp add: owed_jobs_def)
qed

lemma processing_proper: "queue_ok q \<Longrightarrow> Delivery d \<in> set (qs_processing q) \<Longrightarrow> dl_workspace d \<noteq> [] \<and> dl_job d \<noteq> []"
proof -
  assume "queue_ok q" "Delivery d \<in> set (qs_processing q)"
  then have "proper_payload (Delivery d)" by (auto simp: queue_ok_def payloads_def list_all_iff simp del: proper_payload.simps)
  then show ?thesis by simp
qed

text \<open>A payload that leaves the processing list comes back with the next attempt.\<close>

definition next_attempt :: "delivery \<Rightarrow> queue_payload" where
  "next_attempt d = delivery_payload (dl_workspace d) (dl_job d) (dl_attempt d + 1) (dl_principal d)"

lemma requeue_effect:
  assumes "queue_ok q" "Delivery d \<in> set (qs_processing q)"
  defines "q' \<equiv> q\<lparr>qs_processing := remove1 (Delivery d) (qs_processing q), qs_leases := AList.delete (Delivery d) (qs_leases q),
    qs_queued := next_attempt d # qs_queued q\<rparr>"
  shows "queue_ok q' \<and> owed_jobs q' = owed_jobs q"
proof -
  let ?r = "q\<lparr>qs_processing := remove1 (Delivery d) (qs_processing q), qs_leases := AList.delete (Delivery d) (qs_leases q)\<rparr>"
  have r: "queue_ok ?r" "add_mset (payload_key (Delivery d)) (owed_jobs ?r) = owed_jobs q"
    using drop_effect [OF assms(1), of "Delivery d"] assms(2) by simp_all
  have key: "payload_key (next_attempt d) = payload_key (Delivery d)" by (simp add: next_attempt_def)
  have "payload_key (next_attempt d) \<notin># owed_jobs ?r"
    using owed_distinct [OF assms(1), of "payload_key (Delivery d)"] unfolding key r(2) [symmetric]
    by (simp add: not_in_iff)
  moreover have "proper_payload (next_attempt d)"
    using processing_proper [OF assms(1,2)] by (simp add: next_attempt_def)
  ultimately show ?thesis using push_effect [OF r(1), of "next_attempt d"] r(2) key by (simp add: q'_def)
qed

lemma retry_effect:
  "queue_ok q \<Longrightarrow> Delivery d \<in> set (qs_processing q) \<Longrightarrow>
   queue_ok (redis_retry (receipt_of d) q) \<and> owed_jobs (redis_retry (receipt_of d) q) = owed_jobs q"
  using requeue_effect [of q d] by (simp add: redis_retry_def redis_ack_def next_attempt_def Let_def)

lemma heartbeat_effect:
  assumes "queue_ok q"
  shows "queue_ok (fst (redis_heartbeat w now r q)) \<and> owed_jobs (fst (redis_heartbeat w now r q)) = owed_jobs q"
proof (cases "rc_lease r \<in> fst ` set (qs_leases q)")
  case True
  let ?l = "AList.update (rc_lease r) (Lease w now) (qs_leases q)"
  have "fst ` set ?l = set (qs_processing q)" using assms True by (simp add: keys_update queue_ok_def insert_absorb)
  moreover have "list_all (is_lease \<circ> snd) ?l"
    using assms set_update_subset [of "rc_lease r" "Lease w now" "qs_leases q"] by (auto simp: queue_ok_def list_all_iff)
  ultimately show ?thesis
    using assms True by (simp add: redis_heartbeat_def queue_ok_def payloads_def owed_jobs_def distinct_update)
qed (use assms in \<open>simp add: redis_heartbeat_def\<close>)

lemma reclaim_script_effect:
  assumes "queue_ok q"
  shows "queue_ok (fst (reclaim_script (Delivery d) raw d q)) \<and>
    owed_jobs (fst (reclaim_script (Delivery d) raw d q)) = owed_jobs q"
proof (cases "map_of (qs_leases q) (Delivery d) = Some raw")
  case True
  then have "Delivery d \<in> fst ` set (qs_leases q)" by (force dest: map_of_SomeD)
  then have "Delivery d \<in> set (qs_processing q)" using assms by (simp add: queue_ok_def)
  from requeue_effect [OF assms this] True show ?thesis by (cases q) (simp add: reclaim_script_def next_attempt_def)
qed (use assms in \<open>simp add: reclaim_script_def\<close>)

lemma reclaim_entry_effect:
  assumes "queue_ok q" "reclaim_entry now age (Delivery d, Lease w h) (q, n) = (q', m)"
  shows "queue_ok q' \<and> owed_jobs q' = owed_jobs q"
proof (cases "dl_workspace d = [] \<or> dl_job d = []")
  case True
  then have p: "Delivery d \<notin> set (qs_processing q)" using processing_proper [OF assms(1)] by blast
  with ack_effect(3) [of "receipt_of d" q] assms(1) have
    "q\<lparr>qs_leases := AList.delete (Delivery d) (qs_leases q), qs_processing := remove1 (Delivery d) (qs_processing q)\<rparr> = q"
    by (cases q) (simp add: redis_ack_def)
  with True assms(2) have "q' = q" by (auto simp: reclaim_entry_def stale_entry_def Let_def split: if_splits)
  with assms(1) show ?thesis by simp
next
  case False
  with assms reclaim_script_effect [OF assms(1), of d "Lease w h"] show ?thesis
    by (auto simp: reclaim_entry_def stale_entry_def Let_def split: if_splits prod.splits)
qed

subsection \<open>The queue as a work queue\<close>

datatype queue_action = Accept job_key | Settle job_key | Internal

primrec accepted_key :: "queue_action \<Rightarrow> job_key option" where
  "accepted_key (Accept k) = Some k"
| "accepted_key (Settle k) = None"
| "accepted_key Internal = None"

primrec settled_key :: "queue_action \<Rightarrow> job_key option" where
  "settled_key (Accept k) = None"
| "settled_key (Settle k) = Some k"
| "settled_key Internal = None"

text \<open>
  A call of the queue by a client. A job is enqueued when the queue owes no delivery of it, and given back by a worker
  that still holds it; an acknowledgement may come late, for a delivery reclaimed meanwhile. An entry of
  \<open>reclaim_stale\<close> may come from an old reading of the leases, with any calls of the other clients in between.
\<close>

inductive redis_step :: "queue_action \<Rightarrow> redis_queue \<Rightarrow> redis_queue \<Rightarrow> bool" where
  enqueue: "(who, ws, jid) \<notin># owed_jobs q \<Longrightarrow> ws \<noteq> [] \<Longrightarrow> jid \<noteq> [] \<Longrightarrow> redis_enqueue who ws jid q = (q', r) \<Longrightarrow>
    redis_step (Accept (who, ws, jid)) q q'"
| claim: "redis_claim worker now q = (q', res) \<Longrightarrow> redis_step Internal q q'"
| ack: "Delivery d \<in> set (qs_processing q) \<Longrightarrow> redis_step (Settle (payload_key (Delivery d))) q (redis_ack (receipt_of d) q)"
| late_ack: "Delivery d \<notin> set (qs_processing q) \<Longrightarrow> redis_step Internal q (redis_ack (receipt_of d) q)"
| give_back: "Delivery d \<in> set (qs_processing q) \<Longrightarrow> redis_step Internal q (redis_retry (receipt_of d) q)"
| heartbeat: "redis_heartbeat worker now r q = (q', b) \<Longrightarrow> redis_step Internal q q'"
| reclaim: "reclaim_entry now age (Delivery d, Lease w h) (q, n) = (q', m) \<Longrightarrow> redis_step Internal q q'"

inductive_cases redis_stepE: "redis_step l q q'"

lemma redis_step_effect:
  "redis_step l q q' \<Longrightarrow> queue_ok q \<Longrightarrow>
   queue_ok q' \<and> owed_jobs q' + label_of settled_key l = owed_jobs q + label_of accepted_key l"
proof (induction rule: redis_step.induct)
  case (enqueue who ws jid q q' r)
  with push_effect [of q "delivery_payload ws jid 1 who"] show ?case
    by (auto simp: redis_enqueue_def Let_def label_of_def)
next
  case (claim worker now q q' res)
  obtain q1 r where "claim_script worker now q = (q1, r)" by fastforce
  with claim_script_effect [OF claim(2) this] claim(1) show ?case by (auto simp: redis_claim_def label_of_def)
next
  case (ack d q)
  from ack_effect(1) [OF ack(2)] ack_effect(2) [OF ack(2), of "receipt_of d"] ack(1) show ?case by (simp add: label_of_def)
next
  case (late_ack d q)
  with ack_effect(3) [of "receipt_of d" q] show ?case by (simp add: label_of_def)
next
  case (give_back d q)
  with retry_effect show ?case by (simp add: label_of_def)
next
  case (heartbeat worker now r q q' b)
  with heartbeat_effect [of q worker now r] show ?case by (simp add: label_of_def)
next
  case (reclaim now age d w h q n q' m)
  with reclaim_entry_effect show ?case by (simp add: label_of_def)
qed

interpretation rq: work_queue redis_step queue_ok owed_jobs accepted_key settled_key
  by unfold_locales (use redis_step_effect in blast)+

lemma empty_queue_ok: "queue_ok empty_queue" "owed_jobs empty_queue = {#}"
  by (simp_all add: queue_ok_def empty_queue_def payloads_def owed_jobs_def)

subsection \<open>Reclaiming\<close>

definition stale_lease :: "int \<Rightarrow> int \<Rightarrow> queue_payload \<times> lease \<Rightarrow> bool" where
  "stale_lease now age e = fst (stale_entry now age e)"

primrec delivery_of :: "queue_payload \<Rightarrow> delivery" where
  "delivery_of (Delivery d) = d"
| "delivery_of (Junk s) = \<lparr>dl_workspace = [], dl_job = s, dl_attempt = 0, dl_principal = []\<rparr>"

definition after_reclaim :: "(queue_payload \<times> lease) list \<Rightarrow> redis_queue \<Rightarrow> redis_queue" where
  "after_reclaim ss q =
     q\<lparr>qs_queued := rev (map (next_attempt \<circ> delivery_of \<circ> fst) ss) @ qs_queued q,
       qs_processing := filter (\<lambda>p. p \<notin> fst ` set ss) (qs_processing q),
       qs_leases := filter (\<lambda>e. fst e \<notin> fst ` set ss) (qs_leases q)\<rparr>"

lemma after_reclaim_Nil: "after_reclaim [] q = q"
  by (simp add: after_reclaim_def)

lemma after_reclaim_Cons: "after_reclaim ss (after_reclaim [e] q) = after_reclaim (e # ss) q"
  by (cases q) (simp add: after_reclaim_def filter_filter conj_commute)

lemma map_of_filter_key: "p \<noteq> k \<Longrightarrow> map_of (filter (\<lambda>e. fst e \<noteq> k) xs) p = map_of xs p"
  by (induction xs) auto

definition live_entry :: "redis_queue \<Rightarrow> queue_payload \<times> lease \<Rightarrow> bool" where
  "live_entry q e = (map_of (qs_leases q) (fst e) = Some (snd e) \<and> proper_payload (fst e) \<and> is_lease (snd e))"

lemma reclaim_stale_entry:
  assumes "live_entry q e" "stale_lease now age e" "distinct (qs_processing q)"
  shows "reclaim_entry now age e (q, n) = (after_reclaim [e] q, Suc n)"
proof -
  obtain p raw where e: "e = (p, raw)" by fastforce
  from assms(1) e obtain d where d: "p = Delivery d" "dl_workspace d \<noteq> []" "dl_job d \<noteq> []"
    by (cases p) (auto simp: live_entry_def)
  from assms(1) e obtain w h where w: "raw = Lease w h" by (cases raw) (auto simp: live_entry_def)
  have "map_of (qs_leases q) (Delivery d) = Some (Lease w h)" using assms(1) e d w by (simp add: live_entry_def)
  moreover have "fst (stale_entry now age (Delivery d, Lease w h))" using assms(2) e d w by (simp add: stale_lease_def)
  moreover have "AList.delete (Delivery d) (qs_leases q) = filter (\<lambda>e. fst e \<noteq> Delivery d) (qs_leases q)"
    by (simp add: AList.delete_eq case_prod_beta' eq_commute [of "Delivery d"])
  moreover have "remove1 (Delivery d) (qs_processing q) = filter (\<lambda>p. p \<noteq> Delivery d) (qs_processing q)"
    using assms(3) by (simp add: distinct_remove1_removeAll removeAll_filter_not_eq eq_commute [of "Delivery d"])
  ultimately show ?thesis
    using d by (cases q) (simp add: reclaim_entry_def stale_entry_def e w reclaim_script_def next_attempt_def after_reclaim_def)
qed

lemma reclaim_fold:
  assumes "distinct (map fst es)" "list_all (live_entry q) es" "distinct (qs_processing q)"
  shows "fold (reclaim_entry now age) es (q, n) =
    (after_reclaim (filter (stale_lease now age) es) q, n + length (filter (stale_lease now age) es))"
  using assms
proof (induction es arbitrary: q n)
  case Nil
  then show ?case by (simp add: after_reclaim_Nil)
next
  case (Cons e es)
  show ?case
  proof (cases "stale_lease now age e")
    case False
    then have "reclaim_entry now age e (q, n) = (q, n)" by (simp add: reclaim_entry_def stale_lease_def Let_def split: prod.splits)
    with False Cons.IH [of q n] Cons.prems show ?thesis by simp
  next
    case True
    have "reclaim_entry now age e (q, n) = (after_reclaim [e] q, Suc n)"
      using reclaim_stale_entry True Cons.prems by simp
    moreover have "live_entry (after_reclaim [e] q) e'" if "e' \<in> set es" for e'
    proof -
      have "fst e' \<noteq> fst e" using Cons.prems(1) that by (metis distinct.simps(2) image_eqI list.simps(9) set_map)
      with that Cons.prems(2) show ?thesis by (auto simp: live_entry_def after_reclaim_def map_of_filter_key list_all_iff)
    qed
    then have "fold (reclaim_entry now age) es (after_reclaim [e] q, Suc n) =
        (after_reclaim (filter (stale_lease now age) es) (after_reclaim [e] q), Suc n + length (filter (stale_lease now age) es))"
      using Cons.prems by (intro Cons.IH) (auto simp: list_all_iff after_reclaim_def)
    ultimately show ?thesis using True by (simp add: after_reclaim_Cons)
  qed
qed

lemma leases_live: "queue_ok q \<Longrightarrow> list_all (live_entry q) (qs_leases q)"
  by (auto simp: queue_ok_def live_entry_def list_all_iff payloads_def dest: bspec [where x = "(_, _)"])

lemma lease_forms: "queue_ok q \<Longrightarrow> e \<in> set (qs_leases q) \<Longrightarrow> \<exists>d w h. e = (Delivery d, Lease w h)"
proof -
  assume "queue_ok q" "e \<in> set (qs_leases q)"
  then have "fst e \<in> set (qs_processing q)" "is_lease (snd e)" by (auto simp: queue_ok_def list_all_iff)
  with \<open>queue_ok q\<close> have "proper_payload (fst e)" by (auto simp: queue_ok_def payloads_def list_all_iff)
  with \<open>is_lease (snd e)\<close> show ?thesis by (cases e; cases "fst e"; cases "snd e") auto
qed

lemma reclaim_fold_ok:
  "queue_ok q \<Longrightarrow> (\<And>e. e \<in> set es \<Longrightarrow> \<exists>d w h. e = (Delivery d, Lease w h)) \<Longrightarrow>
   queue_ok (fst (fold (reclaim_entry now age) es (q, n))) \<and> owed_jobs (fst (fold (reclaim_entry now age) es (q, n))) = owed_jobs q"
proof (induction es arbitrary: q n)
  case (Cons e es)
  obtain d w h where e: "e = (Delivery d, Lease w h)" using Cons.prems(2) [of e] by auto
  obtain q1 m where step: "reclaim_entry now age e (q, n) = (q1, m)" by fastforce
  from reclaim_entry_effect [OF Cons.prems(1) step [unfolded e]] have "queue_ok q1" "owed_jobs q1 = owed_jobs q" by auto
  with Cons.IH [of q1 m] Cons.prems(2) step show ?case by simp
qed simp

lemma reclaim_stale_effect:
  assumes "queue_ok q" "reclaim_stale now age q = (q', n)"
  shows "queue_ok q' \<and> owed_jobs q' = owed_jobs q \<and> q' = after_reclaim (filter (stale_lease now age) (qs_leases q)) q \<and>
    n = length (filter (stale_lease now age) (qs_leases q))"
proof -
  have "distinct (map fst (qs_leases q))" using assms(1) by (simp add: queue_ok_def)
  from reclaim_fold [OF this leases_live queue_ok_processing, OF assms(1) assms(1), of now age 0]
    reclaim_fold_ok [OF assms(1) lease_forms [OF assms(1)], of "qs_leases q" now age 0] assms(2)
  show ?thesis by (simp add: reclaim_stale_def)
qed

subsection \<open>Properties\<close>


definition demo_delivery :: delivery where
  "demo_delivery = \<lparr>dl_workspace = ''default'', dl_job = ''j1'', dl_attempt = 1, dl_principal = ''u1''\<rparr>"

definition demo_waiting :: redis_queue where
  "demo_waiting = fst (redis_enqueue ''u1'' ''default'' ''j1'' empty_queue)"

definition demo_held :: redis_queue where
  "demo_held = fst (redis_claim ''A'' 0 demo_waiting)"

lemma demo_run:
  "labelled_run redis_step [Accept (''u1'', ''default'', ''j1''), Internal] empty_queue demo_held"
proof -
  have "redis_step (Accept (''u1'', ''default'', ''j1'')) empty_queue demo_waiting"
    unfolding demo_waiting_def by (rule redis_step.enqueue [OF _ _ _ prod.collapse [symmetric]]) (simp_all add: empty_queue_ok)
  moreover have "redis_step Internal demo_waiting demo_held"
    unfolding demo_held_def by (rule redis_step.claim [OF prod.collapse [symmetric]])
  ultimately show ?thesis by (auto simp: labelled_run_simps)
qed

lemma demo_queues:
  "qs_processing demo_held = [Delivery demo_delivery]" "qs_leases demo_held = [(Delivery demo_delivery, Lease ''A'' 0)]"
  "qs_queued demo_held = []" "queue_ok demo_held" "queue_ok demo_waiting"
proof -
  show "qs_processing demo_held = [Delivery demo_delivery]" "qs_leases demo_held = [(Delivery demo_delivery, Lease ''A'' 0)]"
    "qs_queued demo_held = []"
    by (simp_all add: demo_held_def demo_waiting_def redis_enqueue_def redis_claim_def claim_script_def Let_def empty_queue_def
        delivery_payload_def demo_delivery_def)
  show "queue_ok demo_held" using rq.conserved [OF demo_run empty_queue_ok(1)] by simp
  show "queue_ok demo_waiting"
    using push_effect [OF empty_queue_ok(1), of "delivery_payload ''default'' ''j1'' 1 ''u1''"] empty_queue_ok(2)
    by (simp add: demo_waiting_def redis_enqueue_def Let_def)
qed


text \<open>A reclaim takes exactly the expired leases. \<open>reclaim_stale\<close> gives back each delivery whose last heartbeat
  is older than the maximal age (at least one tick), with its next attempt, and returns their number; every other
  delivery keeps its place and its lease, and the jobs owed are the same.\<close>

theorem reclaim_exact:
  assumes "queue_ok q" "reclaim_stale now age q = (q', n)"
  shows "queue_ok q' \<and> owed_jobs q' = owed_jobs q \<and>
    n = length (filter (stale_lease now age) (qs_leases q)) \<and>
    (\<forall>d w h. map_of (qs_leases q) (Delivery d) = Some (Lease w h) \<longrightarrow>
       (if now - h > max 1 age then Delivery d \<notin> set (qs_processing q') \<and> map_of (qs_leases q') (Delivery d) = None \<and>
          next_attempt d \<in> set (qs_queued q')
        else Delivery d \<in> set (qs_processing q') \<and> map_of (qs_leases q') (Delivery d) = Some (Lease w h)))"
proof -
  note eff = reclaim_stale_effect [OF assms]
  define ss where "ss = filter (stale_lease now age) (qs_leases q)"
  have in_ss: "(p, raw) \<in> set ss \<longleftrightarrow> (p, raw) \<in> set (qs_leases q) \<and> stale_lease now age (p, raw)" for p raw
    by (simp add: ss_def)
  have f: "qs_queued q' = rev (map (next_attempt \<circ> delivery_of \<circ> fst) ss) @ qs_queued q"
    "qs_processing q' = filter (\<lambda>p. p \<notin> fst ` set ss) (qs_processing q)"
    "qs_leases q' = filter (\<lambda>e. fst e \<notin> fst ` set ss) (qs_leases q)"
    using eff by (simp_all add: after_reclaim_def ss_def)
  have keys: "fst ` set (qs_leases q) = set (qs_processing q)" "distinct (map fst (qs_leases q))"
    using assms(1) by (auto simp: queue_ok_def)
  have "if now - h > max 1 age then Delivery d \<notin> set (qs_processing q') \<and> map_of (qs_leases q') (Delivery d) = None \<and>
          next_attempt d \<in> set (qs_queued q')
        else Delivery d \<in> set (qs_processing q') \<and> map_of (qs_leases q') (Delivery d) = Some (Lease w h)"
    if at: "map_of (qs_leases q) (Delivery d) = Some (Lease w h)" for d w h
  proof (cases "now - h > max 1 age")
    case True
    then have "(Delivery d, Lease w h) \<in> set ss"
      using map_of_SomeD [OF at] by (simp add: in_ss stale_lease_def stale_entry_def)
    then have "Delivery d \<in> fst ` set ss" "next_attempt d \<in> set (map (next_attempt \<circ> delivery_of \<circ> fst) ss)" by force+
    moreover have "fst e \<notin> fst ` set ss" if "e \<in> set (qs_leases q')" for e using that by (simp add: f)
    ultimately have "Delivery d \<notin> fst ` set (qs_leases q')" by (metis imageE)
    moreover have "Delivery d \<notin> set (qs_processing q')" using \<open>Delivery d \<in> fst ` set ss\<close> by (simp add: f)
    moreover have "next_attempt d \<in> set (qs_queued q')"
      using \<open>next_attempt d \<in> set (map _ ss)\<close> unfolding f by simp
    ultimately have "Delivery d \<notin> set (qs_processing q')" "Delivery d \<notin> fst ` set (qs_leases q')" "next_attempt d \<in> set (qs_queued q')"
      by blast+
    with True show ?thesis by (simp add: map_of_eq_None_iff)
  next
    case False
    have no: "Delivery d \<notin> fst ` set ss"
    proof
      assume "Delivery d \<in> fst ` set ss"
      then obtain raw where raw: "(Delivery d, raw) \<in> set (qs_leases q)" "stale_lease now age (Delivery d, raw)"
        using in_ss by fastforce
      from map_of_is_SomeI [OF keys(2) raw(1)] at have "raw = Lease w h" by simp
      with raw(2) False show False by (simp add: stale_lease_def stale_entry_def)
    qed
    have "Delivery d \<in> set (qs_processing q)" using map_of_SomeD [OF at] keys(1) by force
    with no have "Delivery d \<in> set (qs_processing q')" by (simp add: f)
    moreover have "(Delivery d, Lease w h) \<in> set (qs_leases q')" using map_of_SomeD [OF at] no by (simp add: f)
    then have "map_of (qs_leases q') (Delivery d) = Some (Lease w h)" using eff by (auto simp: queue_ok_def)
    ultimately show ?thesis using False by simp
  qed
  with eff show ?thesis by blast
qed

theorem reclaim_exact_witness:
  "next_attempt demo_delivery \<in> set (qs_queued (fst (reclaim_stale 200 120 demo_held)))"
  using reclaim_exact [OF demo_queues(4) prod.collapse [symmetric], of 200 120] by (simp add: demo_queues(2))

text \<open>An iteration of a worker settles what it claimed. The claimed delivery is dropped when the iteration ended
  with a completed, a missing or an already fenced job; it is queued again with its next attempt when the worker failed;
  and it stays with its lease, to be reclaimed, when the lease was lost. No other delivery is lost or added.\<close>

theorem work_once_settles:
  assumes "queue_ok q" "work_once env clock show body worker now secs (st, q) = ((st', q'), Inr (Some (r, out)))"
  shows "queue_ok q' \<and>
    (if out = Lease_lost then owed_jobs q' = owed_jobs q \<and> rc_lease r \<in> set (qs_processing q')
     else if \<exists>e. out = Worker_error e
     then owed_jobs q' = owed_jobs q \<and> delivery_payload (rc_workspace r) (rc_job r) (rc_attempt r + 1) (rc_principal r) \<in> set (qs_queued q')
     else add_mset (payload_key (rc_lease r)) (owed_jobs q') = owed_jobs q)"
proof -
  obtain q1 n where q1: "reclaim_stale now (max 30 secs) q = (q1, n)" by fastforce
  obtain q2 res where q2: "claim_script worker now q1 = (q2, res)" by fastforce
  from assms(2) q1 q2 obtain d where d: "res = Some (Delivery d)" "r = receipt_of d" "q' = settle_delivery r out q2"
    by (auto simp: work_once_def redis_claim_def Let_def split: prod.splits option.splits queue_payload.splits if_splits sum.splits)
  have ok: "queue_ok q2" "owed_jobs q2 = owed_jobs q" "Delivery d \<in> set (qs_processing q2)"
    using claim_script_effect [OF _ q2] reclaim_stale_effect [OF assms(1) q1] d(1) by auto
  have "delivery_payload (rc_workspace r) (rc_job r) (rc_attempt r + 1) (rc_principal r) \<in> set (qs_queued (redis_retry r q2))"
    by (simp add: redis_retry_def Let_def)
  with ok ack_effect(1,2) [OF ok(1), of r] retry_effect [OF ok(1,3)] d show ?thesis
    by (cases out) (simp_all add: settle_delivery_def)
qed

theorem work_once_settles_witness:
  "\<exists>st q. work_once demo_env (\<lambda>_. ''t3'') (\<lambda>_. ''lease'') (demo_body False) ''A'' 0 120 (demo_queued\<lparr>js_jobs := []\<rparr>, demo_waiting) =
     ((st, q), Inr (Some (receipt_of demo_delivery, Missing))) \<and> owed_jobs q = {#}"
proof -
  have q: "demo_waiting = \<lparr>qs_queued = [Delivery demo_delivery], qs_processing = [], qs_leases = []\<rparr>"
    by (simp add: demo_waiting_def redis_enqueue_def Let_def empty_queue_def delivery_payload_def demo_delivery_def)
  have reclaim: "reclaim_stale 0 (max 30 120) demo_waiting = (demo_waiting, 0)" by (simp add: reclaim_stale_def q)
  have claim: "redis_claim ''A'' 0 demo_waiting = (demo_held, Inr (Some (receipt_of demo_delivery)))"
    by (simp add: demo_held_def q redis_claim_def claim_script_def Let_def)
  have "deliver demo_env (\<lambda>_. ''t3'') (demo_body False) ''j1'' ''lease'' 1 (demo_queued\<lparr>js_jobs := []\<rparr>) =
      (demo_queued\<lparr>js_jobs := []\<rparr>, Missing)"
    by (simp add: deliver_def fence_reclaimed_running_job_def get_job_def)
  then have w: "work_once demo_env (\<lambda>_. ''t3'') (\<lambda>_. ''lease'') (demo_body False) ''A'' 0 120 (demo_queued\<lparr>js_jobs := []\<rparr>, demo_waiting) =
     ((demo_queued\<lparr>js_jobs := []\<rparr>, redis_ack (receipt_of demo_delivery) demo_held), Inr (Some (receipt_of demo_delivery, Missing)))"
    unfolding work_once_def reclaim using claim by (simp add: reclaim [simplified] lease_text_def settle_delivery_def)
      (simp add: demo_delivery_def)
  from work_once_settles [OF demo_queues(5) w] w show ?thesis by (simp add: owed_jobs_def payloads_def q)
qed


end
