(* ===== verification/Job_Lifecycle.thy ===== *)
theory Job_Lifecycle
  imports Job_Manager
begin

section \<open>The turns of a session\<close>

text \<open>
  \<^verbatim>\<open>jobs/lifecycle.py\<close>: the job of a session, the claim of a turn under a client's request id, the snapshot of the
  running turn that a refreshed browser reads, and the attachment of the finished run. One workspace and one session;
  the lock of the session makes a claim one step. The registry holds a record per request under the digest of its id;
  an empty record is a file that cannot be read. \<open>te_time\<close> parses a timestamp, \<open>te_session\<close> and \<open>te_run\<close> read the
  records of the session and of the runs. The Chinese texts are a record of labels. Broadcasts, logs and the turn log
  are left out; a read of the clock is an argument, as before.
\<close>

record turn_labels = labels +
  tl_understand :: string
  tl_evidence :: string
  tl_analyse :: string
  tl_advise :: string
  tl_prefix :: string
  tl_rounds :: "nat \<Rightarrow> int \<Rightarrow> string"

record turn_env =
  te_jobs :: job_env
  te_labels :: turn_labels
  te_session_id :: string
  te_digest :: "string \<Rightarrow> string"
  te_time :: "string \<Rightarrow> int option"
  te_session :: "pydict option"
  te_run :: "string \<Rightarrow> pydict option"

record turn_state =
  ts_jobs :: job_state
  ts_registry :: "(string \<times> pydict) list"
  ts_inputs :: "(string \<times> string) list"

record turn_claim =
  tc_job :: string
  should_execute :: bool
  tc_status :: string
  tc_run_id :: string
  tc_trace_id :: string
  tc_error :: string

definition registry_ttl :: int where "registry_ttl = 7 * 24 * 60 * 60"
definition registry_limit :: nat where "registry_limit = 256"
definition registry_terminal :: "string list" where "registry_terminal = [''succeeded'', ''failed'', ''cancelled'']"

definition blank_claim :: turn_claim where
  "blank_claim = \<lparr>tc_job = [], should_execute = True, tc_status = [], tc_run_id = [], tc_trace_id = [], tc_error = []\<rparr>"

subsection \<open>The registry of requests\<close>

definition text_at :: "pydict \<Rightarrow> string \<Rightarrow> string" where
  "text_at r k = str_of_or (vget r k) []"

definition record_timestamp :: "turn_env \<Rightarrow> pydict \<Rightarrow> int option" where
  "record_timestamp env r =
     first_some (\<lambda>k. let v = strip (text_at r k) in if v = [] then None else te_time env v)
       [''finished_at'', ''updated_at'', ''created_at'']"

definition active_turn :: "job \<Rightarrow> pydict" where
  "active_turn j = dict_of (vget (job_metadata j) ''active_turn'')"

text \<open>The state a running record is projected to, with its error; \<open>None\<close> when it stays running.\<close>

definition projected_status :: "turn_env \<Rightarrow> string \<Rightarrow> job option \<Rightarrow> (string \<times> string) option" where
  "projected_status env request_id job =
     (let status = (case job of None \<Rightarrow> [] | Some j \<Rightarrow> job_status j);
          cancelled = (case job of None \<Rightarrow> False | Some j \<Rightarrow> cancel_requested j \<or> job_status j = ''cancelled'');
          active_request = (case job of None \<Rightarrow> [] | Some j \<Rightarrow> text_at (active_turn j) ''client_request_id'') in
      if active_request \<noteq> [] \<and> active_request \<noteq> request_id then Some (''failed'', ''turn_execution_interrupted'')
      else if cancelled then Some (''cancelled'', lb_cancelled_message (te_labels env))
      else if status = ''succeeded'' then Some (''succeeded'', [])
      else if status = ''failed''
      then Some (''failed'', str_or (case job of None \<Rightarrow> [] | Some j \<Rightarrow> job_error j) ''backend_restart_during_job'')
      else None)"

definition reconcile_record :: "turn_env \<Rightarrow> clock \<Rightarrow> job_state \<Rightarrow> string \<Rightarrow> pydict \<Rightarrow> pydict" where
  "reconcile_record env clock jobs request_id r =
     (if text_at r ''status'' \<noteq> ''running'' then r
      else (let job = get_job (text_at r ''job_id'') jobs in
        case projected_status env request_id job of
          None \<Rightarrow> r
        | Some (status, err) \<Rightarrow>
            (let finished = (case job of None \<Rightarrow> [] | Some j \<Rightarrow> finished_at j);
                 r = merge_dict r [(''status'', VStr status), (''updated_at'', VStr (clock 0)),
                       (''finished_at'', VStr (str_or finished (clock 1)))]
             in if err \<noteq> [] then AList.update ''error'' (VStr (take 240 err)) r else r)))"

text \<open>One file of the directory, then the whole of it; a file reads the clock twice at most.\<close>

definition record_terminal :: "pydict \<Rightarrow> bool" where
  "record_terminal r = (text_at r ''status'' \<in> set registry_terminal)"

definition sweep_record ::
  "turn_env \<Rightarrow> clock \<Rightarrow> job_state \<Rightarrow> int \<Rightarrow> string \<times> pydict \<Rightarrow> (string \<times> pydict) list" where
  "sweep_record env clock jobs cutoff entry =
     (let (file, r) = entry in
      if r = [] then []
      else (let r = reconcile_record env clock jobs (text_at r ''client_request_id'') r in
        if record_terminal r \<and> (case record_timestamp env r of None \<Rightarrow> True | Some t \<Rightarrow> t < cutoff) then []
        else [(file, r)]))"

definition drop_excess :: "turn_env \<Rightarrow> (string \<times> pydict) list \<Rightarrow> (string \<times> pydict) list" where
  "drop_excess env reg =
     (let terminal = filter (\<lambda>(f, r). record_terminal r) reg;
          ordered = sort_key (\<lambda>(f, r). case record_timestamp env r of None \<Rightarrow> 0 | Some t \<Rightarrow> t) terminal;
          excess = map fst (take (length ordered - registry_limit) ordered)
      in filter (\<lambda>(f, r). f \<notin> set excess) reg)"

fun sweep_registry ::
  "turn_env \<Rightarrow> clock \<Rightarrow> job_state \<Rightarrow> int \<Rightarrow> (string \<times> pydict) list \<Rightarrow> (string \<times> pydict) list" where
  "sweep_registry env clock jobs cutoff [] = []"
| "sweep_registry env clock jobs cutoff (entry # entries) =
     sweep_record env clock jobs cutoff entry @ sweep_registry env (\<lambda>k. clock (k + 2)) jobs cutoff entries"

definition prune_registry :: "turn_env \<Rightarrow> clock \<Rightarrow> job_state \<Rightarrow> (string \<times> pydict) list \<Rightarrow> (string \<times> pydict) list" where
  "prune_registry env clock jobs reg =
     (case record_timestamp env [(''updated_at'', VStr (clock 0))] of
        None \<Rightarrow> reg
      | Some now \<Rightarrow> drop_excess env (sweep_registry env (\<lambda>k. clock (k + 1)) jobs (now - registry_ttl) reg))"

subsection \<open>The job of a session\<close>

definition of_session :: "string \<Rightarrow> job \<Rightarrow> bool" where
  "of_session sid j = (vget (payload j) ''session_id'' = VStr sid)"

definition line_feed_to_space :: "string \<Rightarrow> string" where
  "line_feed_to_space s = map (\<lambda>c. if c = CHR 0x0A then CHR '' '' else c) s"

definition job_title_for :: "turn_env \<Rightarrow> string \<Rightarrow> string" where
  "job_title_for env user_input =
     (let title = (if user_input \<noteq> [] then line_feed_to_space (take 40 user_input) else ''agent_run'') in
      case te_session env of
        None \<Rightarrow> title
      | Some s \<Rightarrow> if truthy (vget s ''title'') then py_str (vget s ''title'') else title)"

text \<open>\<open>fresh\<close> is the id of a new job, \<open>op\<close> the operation of the running tool call.\<close>

definition session_job_request ::
  "turn_env \<Rightarrow> string \<Rightarrow> (string \<times> string) option \<Rightarrow> string \<Rightarrow> job_request" where
  "session_job_request env fresh op user_input =
     \<lparr>rq_id = fresh, rq_type = ''agent_run'', rq_title = job_title_for env user_input,
      rq_payload = [(''session_id'', VStr (te_session_id env))], rq_created_by = ''api'', rq_enqueue = False,
      rq_metadata = [], rq_operation = op\<rparr>"

definition find_or_create_job ::
  "turn_env \<Rightarrow> clock \<Rightarrow> string \<Rightarrow> (string \<times> string) option \<Rightarrow> string \<Rightarrow> job_state \<Rightarrow> (job_state \<times> string) py" where
  "find_or_create_job env clock fresh op user_input st =
     (let found = (case List.find (of_session (te_session_id env)) (list_jobs (te_jobs env) [] [] 500 st) of
                     Some j \<Rightarrow> job_id j | None \<Rightarrow> []) in
      if found \<noteq> [] then Inr (st, found)
      else py_bind (create_job (te_jobs env) clock (session_job_request env fresh op user_input) st) (\<lambda>(st, res).
        Inr (st, (case res of Some j \<Rightarrow> job_id j | None \<Rightarrow> []))))"

definition ensure_running :: "turn_env \<Rightarrow> clock \<Rightarrow> string \<Rightarrow> job_state \<Rightarrow> job_state" where
  "ensure_running env clock jid st =
     (case get_job jid st of
        None \<Rightarrow> st
      | Some j \<Rightarrow>
          if job_status j \<in> {''created'', ''queued'', ''failed'', ''succeeded'', ''cancelled''}
          then (case mark_running (te_jobs env) clock jid st of Inr (st, _) \<Rightarrow> st | Inl _ \<Rightarrow> st)
          else st)"

definition turn_progress :: "int \<Rightarrow> string \<Rightarrow> string \<Rightarrow> string \<Rightarrow> pydict" where
  "turn_progress current msg label now =
     [(''current'', VInt current), (''total'', VInt 4), (''percent'', VInt (25 * current)), (''message'', VStr msg),
      (''current_step'', VStr label), (''updated_at'', VStr now)]"

definition fresh_turn :: "turn_env \<Rightarrow> clock \<Rightarrow> string \<Rightarrow> pydict" where
  "fresh_turn env clock request_id =
     [(''client_request_id'', VStr request_id), (''session_id'', VStr (te_session_id env)), (''status'', VStr ''running''),
      (''stage'', VStr ''turn_started''), (''stage_label'', VStr (tl_understand (te_labels env))),
      (''started_at'', VStr (clock 0)), (''updated_at'', VStr (clock 1)), (''events'', VList []),
      (''tool_calls'', VList []), (''run_id'', VStr []), (''trace_id'', VStr []), (''error'', VStr [])]"

definition begin_session_turn ::
  "turn_env \<Rightarrow> clock \<Rightarrow> string \<Rightarrow> (string \<times> string) option \<Rightarrow> string \<Rightarrow> string \<Rightarrow> job_state \<Rightarrow> (job_state \<times> string) py" where
  "begin_session_turn env clock fresh op user_input request_id st =
     (if te_session_id env = [] then Inr (st, [])
      else py_bind (find_or_create_job env clock fresh op user_input st) (\<lambda>(st, jid).
        if jid = [] then Inr (st, [])
        else
          (let st = ensure_running env (\<lambda>k. clock (k + 3)) jid st; lb = te_labels env in
           case get_job jid st of
             None \<Rightarrow> Inr (st, jid)
           | Some j \<Rightarrow>
               (let md = AList.update ''active_turn'' (VDict (fresh_turn env (\<lambda>k. clock (k + 6)) request_id)) (job_metadata j);
                    p = turn_progress 1 (tl_prefix lb @ tl_understand lb) (tl_understand lb) (clock 8)
                in Inr (fst (update_job (te_jobs env) (clock 9) jid (\<lambda>r. r\<lparr>job_metadata := md, progress := p\<rparr>) st), jid)))))"

subsection \<open>Claiming a turn\<close>

definition running_turn :: "turn_env \<Rightarrow> job_state \<Rightarrow> turn_claim option" where
  "running_turn env st =
     first_some (\<lambda>summary.
       if text_at (payload summary) ''session_id'' \<noteq> te_session_id env then None
       else (case get_job (job_id summary) st of
           None \<Rightarrow> None
         | Some j \<Rightarrow>
             if job_status j \<noteq> ''running'' \<or> text_at (active_turn j) ''status'' \<noteq> ''running'' then None
             else Some \<lparr>tc_job = job_id summary, should_execute = False, tc_status = ''conflict'',
                        tc_run_id = text_at (active_turn j) ''run_id'', tc_trace_id = text_at (active_turn j) ''trace_id'',
                        tc_error = ''session_turn_in_progress''\<rparr>))
       (list_jobs (te_jobs env) [] [] 500 st)"

text \<open>The claim that repeats what the registry holds of the request.\<close>

definition known_claim :: "pydict \<Rightarrow> string \<Rightarrow> string \<Rightarrow> turn_claim" where
  "known_claim r status err =
     \<lparr>tc_job = text_at r ''job_id'', should_execute = False, tc_status = status, tc_run_id = text_at r ''run_id'',
      tc_trace_id = text_at r ''trace_id'', tc_error = err\<rparr>"

definition request_record :: "turn_env \<Rightarrow> clock \<Rightarrow> string \<Rightarrow> string \<Rightarrow> string \<Rightarrow> pydict" where
  "request_record env clock request_id user_input jid =
     [(''client_request_id'', VStr request_id), (''input_sha256'', VStr (te_digest env user_input)),
      (''session_id'', VStr (te_session_id env)), (''workspace_id'', VStr (je_workspace (te_jobs env))),
      (''job_id'', VStr jid), (''status'', VStr ''running''), (''created_at'', VStr (clock 0)),
      (''updated_at'', VStr (clock 1)), (''run_id'', VStr []), (''trace_id'', VStr []), (''error'', VStr [])]"

definition accept_turn ::
  "turn_env \<Rightarrow> clock \<Rightarrow> string \<Rightarrow> string \<Rightarrow> (string \<times> string) option \<Rightarrow> string \<Rightarrow> string \<Rightarrow> turn_state \<Rightarrow> (turn_state \<times> turn_claim) py" where
  "accept_turn env clock fresh ephemeral op user_input request_id st =
     py_bind (begin_session_turn env clock fresh op user_input request_id (ts_jobs st)) (\<lambda>(jobs, jid).
       let jid = (if jid = [] then ''job-turn-'' @ ephemeral else jid) in
       Inr (st\<lparr>ts_jobs := jobs,
               ts_inputs := ts_inputs st @ [(''request_'' @ te_digest env request_id, user_input)],
               ts_registry := AList.update (te_digest env request_id)
                 (request_record env (\<lambda>k. clock (k + 10)) request_id user_input jid) (ts_registry st)\<rparr>,
            blank_claim\<lparr>tc_job := jid\<rparr>))"

definition claim_session_turn ::
  "turn_env \<Rightarrow> clock \<Rightarrow> clock \<Rightarrow> string \<Rightarrow> string \<Rightarrow> (string \<times> string) option \<Rightarrow> string \<Rightarrow> string \<Rightarrow> turn_state \<Rightarrow>
   (turn_state \<times> turn_claim) py" where
  "claim_session_turn env prune_clock clock fresh ephemeral op user_input client_request_id st =
     (let request_id = strip client_request_id in
      if te_session_id env = [] then Inr (st, blank_claim)
      else if request_id = [] then
        (case running_turn env (ts_jobs st) of
           Some c \<Rightarrow> Inr (st, c)
         | None \<Rightarrow> py_bind (begin_session_turn env clock fresh op user_input [] (ts_jobs st)) (\<lambda>(jobs, jid).
             Inr (st\<lparr>ts_jobs := jobs\<rparr>, blank_claim\<lparr>tc_job := jid\<rparr>)))
      else if length request_id > 256 then Inl (ValueError ''client_request_id too long'')
      else
        (let st = st\<lparr>ts_registry := prune_registry env prune_clock (ts_jobs st) (ts_registry st)\<rparr>;
             file = te_digest env request_id in
         case map_of (ts_registry st) file of
           Some r \<Rightarrow>
             if r = [] then
               (case running_turn env (ts_jobs st) of
                  Some c \<Rightarrow> Inr (st, c)
                | None \<Rightarrow> accept_turn env clock fresh ephemeral op user_input request_id st)
             else if text_at r ''input_sha256'' \<noteq> [] \<and> text_at r ''input_sha256'' \<noteq> te_digest env user_input
             then Inr (st, known_claim r ''conflict'' ''client_request_payload_mismatch'')
             else (let r' = reconcile_record env clock (ts_jobs st) request_id r;
                       st = (if r' = r then st else st\<lparr>ts_registry := AList.update file r' (ts_registry st)\<rparr>)
                   in Inr (st, known_claim r' (str_of_or (vget r' ''status'') ''running'') (text_at r' ''error'')))
         | None \<Rightarrow>
             (case running_turn env (ts_jobs st) of
                Some c \<Rightarrow> Inr (st, c)
              | None \<Rightarrow> accept_turn env clock fresh ephemeral op user_input request_id st)))"

definition finish_claimed_session_turn ::
  "turn_env \<Rightarrow> clock \<Rightarrow> clock \<Rightarrow> clock \<Rightarrow> string \<Rightarrow> string \<Rightarrow> string \<Rightarrow> string \<Rightarrow> bool \<Rightarrow> string \<Rightarrow> turn_state \<Rightarrow> turn_state" where
  "finish_claimed_session_turn env prune_clock clock prune_clock' client_request_id jid run_id trace_id ok err st =
     (let request_id = strip client_request_id in
      if te_session_id env = [] \<or> request_id = [] then st
      else
        (let st = st\<lparr>ts_registry := prune_registry env prune_clock (ts_jobs st) (ts_registry st)\<rparr>;
             file = te_digest env request_id;
             r = (case map_of (ts_registry st) file of None \<Rightarrow> [] | Some r \<Rightarrow> r) in
         if r = [] \<or> jid \<noteq> [] \<and> text_at r ''job_id'' \<noteq> jid then st
         else
           (let cancelled = (case get_job jid (ts_jobs st) of
                  None \<Rightarrow> False | Some j \<Rightarrow> cancel_requested j \<or> job_status j = ''cancelled'');
                r = merge_dict r
                  [(''status'', VStr (if cancelled then ''cancelled'' else if ok then ''succeeded'' else ''failed'')),
                   (''updated_at'', VStr (clock 0)), (''finished_at'', VStr (clock 1)), (''run_id'', VStr run_id),
                   (''trace_id'', VStr trace_id),
                   (''error'', VStr (take 240 (if cancelled then lb_cancelled_message (te_labels env) else err)))];
                reg = AList.update file r (ts_registry st)
            in st\<lparr>ts_registry := prune_registry env prune_clock' (ts_jobs st) reg\<rparr>)))"

subsection \<open>The snapshot of the running turn\<close>

definition understand_stages :: "string list" where
  "understand_stages =
     [''turn_started'', ''planner_started'', ''planner_completed'', ''graph_compiled'', ''structural_validated'',
      ''semantic_validated'', ''semantic_invalid'', ''pre_repair_started'', ''pre_repair_completed'', ''risk_assessed'',
      ''budget_ok'', ''cognitive_initialized'', ''cognitive_goal_normalized'', ''cognitive_plan_selected'',
      ''provider_retrying'']"

definition evidence_stages :: "string list" where
  "evidence_stages =
     [''execution_started'', ''orchestration_planned'', ''orchestration_layer_started'', ''orchestration_layer_completed'',
      ''tool_call'', ''tool_result'', ''execution_completed'', ''repair_attempt'', ''cognitive_evidence_registered'']"

definition analyse_stages :: "string list" where
  "analyse_stages =
     [''merge_completed'', ''cognitive_gap_detected'', ''cognitive_decision_made'', ''cognitive_reflection_started'',
      ''cognitive_reflection_completed'', ''model_started'']"

definition advise_stages :: "string list" where
  "advise_stages =
     [''response_started'', ''response_completed'', ''turn_completed'', ''cognitive_model_state_recorded'']"

definition stage_progress :: "turn_labels \<Rightarrow> string \<Rightarrow> (int \<times> string) option" where
  "stage_progress lb stage =
     (if stage \<in> set understand_stages then Some (1, tl_understand lb)
      else if stage \<in> set evidence_stages then Some (2, tl_evidence lb)
      else if stage \<in> set analyse_stages then Some (3, tl_analyse lb)
      else if stage \<in> set advise_stages then Some (4, tl_advise lb)
      else None)"

text \<open>\<open>int(v or d)\<close>, which may raise.\<close>

definition int_or :: "pyval \<Rightarrow> int \<Rightarrow> int py" where
  "int_or v d = (case py_int (vor v (VInt d)) of Some i \<Rightarrow> Inr i | None \<Rightarrow> Inl (ValueError (py_str v)))"

definition event_stage :: "pydict \<Rightarrow> string" where
  "event_stage e = py_str (vor (vget e ''type'') (vor (vget e ''name'') (VStr ''event'')))"

definition event_scope :: "pydict \<Rightarrow> string" where
  "event_scope e = lower (text_at e ''stream_scope'')"

text \<open>The step and the label an event asks for; \<open>at\<close> is the step of the stored progress.\<close>

definition stage_target :: "turn_labels \<Rightarrow> job \<Rightarrow> int \<Rightarrow> pydict \<Rightarrow> int \<times> string" where
  "stage_target lb j at e =
     (let stage = event_stage e; scope = event_scope e; active = active_turn j in
      if stage \<in> {''model_started'', ''model_completed''} then
        (if scope = ''planner'' then (1, tl_understand lb)
         else if scope = ''response'' then (4, tl_advise lb)
         else if truthy (vget active ''tool_calls'') then (3, tl_analyse lb) else (1, tl_understand lb))
      else (case stage_progress lb stage of
          Some t \<Rightarrow> t
        | None \<Rightarrow> (at, str_of_or (vget (progress j) ''current_step'') (tl_understand lb))))"

definition never_backward :: "job \<Rightarrow> int \<Rightarrow> int \<times> string \<Rightarrow> int \<times> string" where
  "never_backward j at target =
     (let (current, label) = target in
      if current < at then (at, str_of_or (vget (progress j) ''current_step'') label) else (current, label))"

definition event_tool :: "pydict \<Rightarrow> string" where
  "event_tool e =
     (if event_stage e \<in> {''tool_call'', ''tool_result''}
      then py_str (vor (vget e ''tool_id'') (vor (vget e ''name'') (VStr []))) else [])"

definition compact_event :: "pydict \<Rightarrow> int \<Rightarrow> pydict" where
  "compact_event e elapsed =
     (let stage = event_stage e; scope = event_scope e; tool = event_tool e;
          c = [(''type'', VStr stage), (''timestamp'', vget e ''timestamp''), (''elapsed_ms'', VInt elapsed)];
          c = (if scope \<noteq> [] then AList.update ''stream_scope'' (VStr scope) c else c) in
      if tool = [] then c
      else
        (let c = merge_dict c [(''tool_id'', VStr tool), (''call_id'', VStr (text_at e ''call_id''))] in
         if stage = ''tool_result'' then
           merge_dict c
             [(''ok'', VBool (truthy (vget_or e ''ok'' (VBool (vget e ''status'' = VStr ''ok''))))),
              (''summary'', VStr (take 240 (py_str (vor (vget e ''summary'') (vor (vget e ''message'') (VStr []))))))]
         else c))"

definition tool_matches :: "string \<Rightarrow> string \<Rightarrow> pydict \<Rightarrow> bool" where
  "tool_matches call_id tool item =
     ((call_id \<noteq> [] \<and> vget item ''call_id'' = VStr call_id) \<or>
      (call_id = [] \<and> vget item ''tool_id'' = VStr tool \<and> vget item ''status'' = VStr ''running''))"

fun merge_tool :: "string \<Rightarrow> string \<Rightarrow> pydict \<Rightarrow> pydict list \<Rightarrow> pydict list" where
  "merge_tool call_id tool entry [] = [entry]"
| "merge_tool call_id tool entry (t # ts) =
     (if tool_matches call_id tool t then merge_dict t entry # ts else t # merge_tool call_id tool entry ts)"

definition tool_entry :: "pydict \<Rightarrow> pydict \<Rightarrow> pydict" where
  "tool_entry e compact =
     (let result = (event_stage e = ''tool_result'') in
      [(''call_id'', VStr (text_at e ''call_id'')), (''tool_id'', VStr (event_tool e)),
       (''status'', VStr (if result \<and> truthy (vget compact ''ok'') then ''done''
                          else if result then ''failed'' else ''running'')),
       (''ok'', vget_or compact ''ok'' (VBool False)), (''summary'', vget_or compact ''summary'' (VStr []))])"

definition dicts_of :: "pyval \<Rightarrow> pydict list" where
  "dicts_of v = map dict_of (filter is_vdict (list_of v))"

definition stage_turn :: "string \<Rightarrow> pydict \<Rightarrow> pydict \<Rightarrow> pydict \<Rightarrow> string \<Rightarrow> pydict" where
  "stage_turn now active e compact label =
     (let events = last_n 80 (dicts_of (vget active ''events'') @ [compact]);
          tools = dicts_of (vget active ''tool_calls'');
          active = AList.update ''events'' (VList (map VDict events)) active;
          active = (if event_tool e \<noteq> []
            then AList.update ''tool_calls'' (VList (map VDict (last_n 24
                   (merge_tool (text_at e ''call_id'') (event_tool e) (tool_entry e compact) tools)))) active
            else active)
      in merge_dict active [(''stage'', VStr (event_stage e)), (''stage_label'', VStr label), (''updated_at'', VStr now)])"

definition update_session_turn_stage ::
  "turn_env \<Rightarrow> clock \<Rightarrow> string \<Rightarrow> pydict \<Rightarrow> job_state \<Rightarrow> job_state py" where
  "update_session_turn_stage env clock jid e st =
     (case get_job jid st of
        None \<Rightarrow> Inr st
      | Some j \<Rightarrow>
          if vget (active_turn j) ''status'' \<noteq> VStr ''running'' then Inr st
          else
            py_bind (int_or (vget (progress j) ''current'') 1) (\<lambda>at.
            py_bind (int_or (vget e ''elapsed_ms'') 0) (\<lambda>elapsed.
              let lb = te_labels env; (current, label) = never_backward j at (stage_target lb j at e);
                  active = stage_turn (clock 0) (active_turn j) e (compact_event e elapsed) label;
                  md = AList.update ''active_turn'' (VDict active) (job_metadata j);
                  p = turn_progress current (tl_prefix lb @ label) label (clock 1)
              in Inr (fst (update_job (te_jobs env) (clock 2) jid (\<lambda>r. r\<lparr>job_metadata := md, progress := p\<rparr>) st)))))"

text \<open>\<open>realtime_callback\<close> of \<^verbatim>\<open>backend/ws/agent_ws.py\<close> sends every event of the running turn here, but the tokens and
  the heartbeats, and goes on when the update raises.\<close>

definition persist_stage :: "turn_env \<Rightarrow> clock \<Rightarrow> string \<Rightarrow> pydict \<Rightarrow> job_state \<Rightarrow> job_state" where
  "persist_stage env clock jid e st =
     (if vget e ''type'' \<in> {VStr ''token'', VStr ''heartbeat''} \<or> jid = [] \<or>
         vget_or e ''type'' (vget_or e ''name'' (VStr ''event'')) = VStr ''heartbeat'' then st
      else case update_session_turn_stage env clock jid e st of Inr st' \<Rightarrow> st' | Inl _ \<Rightarrow> st)"

definition persist_stages :: "turn_env \<Rightarrow> string \<Rightarrow> (clock \<times> pydict) list \<Rightarrow> job_state \<Rightarrow> job_state" where
  "persist_stages env jid events st = fold (\<lambda>(clock, e). persist_stage env clock jid e) events st"

subsection \<open>The end of a turn\<close>

definition finish_session_turn_snapshot ::
  "turn_env \<Rightarrow> clock \<Rightarrow> string \<Rightarrow> string \<Rightarrow> string \<Rightarrow> string \<Rightarrow> bool \<Rightarrow> string \<Rightarrow> pydict \<Rightarrow> job_state \<Rightarrow> job_state" where
  "finish_session_turn_snapshot env clock jid client_request_id run_id trace_id ok err unknown_outcome st =
     (case get_job jid st of
        None \<Rightarrow> st
      | Some j \<Rightarrow>
          (let lb = te_labels env; cancelled = cancel_requested j; active = active_turn j;
               active_request = text_at active ''client_request_id'' in
           if client_request_id \<noteq> [] \<and> active_request \<noteq> [] \<and> active_request \<noteq> client_request_id then st
           else
             (let status = (if cancelled then ''cancelled'' else if ok then ''succeeded'' else ''failed'');
                  stage = (if cancelled then ''turn_cancelled'' else if ok then ''turn_completed'' else ''turn_failed'');
                  label = (if cancelled then lb_cancelled lb else if ok then tl_advise lb else lb_failed lb);
                  active = merge_dict active
                    [(''status'', VStr status), (''stage'', VStr stage), (''stage_label'', VStr label),
                     (''updated_at'', VStr (clock 0)), (''finished_at'', VStr (clock 1)), (''run_id'', VStr run_id),
                     (''trace_id'', VStr trace_id),
                     (''error'', VStr (take 240 (if cancelled then lb_cancelled_message lb else err)))];
                  active = (if unknown_outcome \<noteq> [] then AList.update ''unknown_outcome'' (VDict unknown_outcome) active
                            else AList.delete ''unknown_outcome'' active);
                  md = AList.update ''active_turn'' (VDict active) (job_metadata j);
                  p = turn_progress 4 label label (clock 2);
                  st = fst (update_job (te_jobs env) (clock 3) jid (\<lambda>r. r\<lparr>job_metadata := md, progress := p\<rparr>) st)
              in if cancelled then
                   (case mark_cancelled (te_jobs env) (\<lambda>k. clock (k + 4)) jid ''Agent turn cancelled'' st of
                      Inr (st, _) \<Rightarrow> st | Inl _ \<Rightarrow> st)
                 else st)))"

definition finish_turn ::
  "turn_env \<Rightarrow> clock \<Rightarrow> string \<Rightarrow> string \<Rightarrow> bool \<Rightarrow> string \<Rightarrow> bool \<Rightarrow> job_state \<Rightarrow> job_state" where
  "finish_turn env clock jid run_id run_ok err cancelled st =
     (let summary = [(''latest_run_id'', VStr run_id)];
          res = (if cancelled then mark_cancelled (te_jobs env) clock jid ''Agent turn cancelled'' st
                 else if run_ok then mark_succeeded (te_jobs env) clock jid summary st
                 else mark_failed (te_jobs env) clock jid (str_or err ''agent_turn_failed'') summary st)
      in case res of Inr (st, _) \<Rightarrow> st | Inl _ \<Rightarrow> st)"

definition add_new :: "'a list \<Rightarrow> 'a list \<Rightarrow> 'a list" where
  "add_new xs ys = fold (\<lambda>y xs. if y \<in> set xs then xs else xs @ [y]) ys xs"

text \<open>The texts of a list; the identifiers the stores hold are texts.\<close>

definition texts_of :: "pyval list \<Rightarrow> string list" where
  "texts_of vs = filter (\<lambda>s. s \<noteq> []) (map (\<lambda>v. case v of VStr s \<Rightarrow> s | _ \<Rightarrow> []) vs)"

definition artifact_ids :: "pydict \<Rightarrow> string list" where
  "artifact_ids run =
     texts_of (map (\<lambda>ref. case ref of VDict d \<Rightarrow> vget d ''artifact_id'' | v \<Rightarrow> v) (list_of (vget run ''artifact_refs'')))"

definition merged_run_ids :: "turn_env \<Rightarrow> string \<Rightarrow> job \<Rightarrow> string list" where
  "merged_run_ids env run_id j =
     add_new (add_new (run_ids j) (texts_of (list_of (vget (case te_session env of None \<Rightarrow> [] | Some s \<Rightarrow> s) ''run_ids''))))
       [run_id]"

definition merge_run_id ::
  "turn_env \<Rightarrow> clock \<Rightarrow> string \<Rightarrow> string \<Rightarrow> int \<Rightarrow> job_state \<Rightarrow> job_state" where
  "merge_run_id env clock jid run_id tool_calls st =
     (if run_id = [] then st
      else case get_job jid st of
        None \<Rightarrow> st
      | Some j \<Rightarrow>
          (let ids = merged_run_ids env run_id j;
               arts = add_new (output_artifacts j)
                 (concat (map (\<lambda>rid. case te_run env rid of None \<Rightarrow> [] | Some r \<Rightarrow> artifact_ids r) ids));
               run = (case te_run env run_id of None \<Rightarrow> [] | Some r \<Rightarrow> r);
               traces = (if text_at run ''trace_id'' \<noteq> [] then add_new (trace_ids j) [text_at run ''trace_id''] else trace_ids j);
               started = py_str (vor (vget run ''started_at'') (vor (vget run ''created_at'') (VStr [])));
               st = fst (update_job (te_jobs env) (clock 0) jid
                 (\<lambda>r. let r = r\<lparr>run_ids := ids, trace_ids := traces, output_artifacts := arts\<rparr>
                      in if started \<noteq> [] then r\<lparr>started_at := started\<rparr> else r) st)
           in update_progress (te_jobs env) (\<lambda>k. clock (k + 1)) jid (Some (int (length ids))) None
                (tl_rounds (te_labels env) (length ids) tool_calls) [] st))"

definition attach_run_to_session_job ::
  "turn_env \<Rightarrow> clock \<Rightarrow> string \<Rightarrow> (string \<times> string) option \<Rightarrow> string \<Rightarrow> int \<Rightarrow> string \<Rightarrow> bool \<Rightarrow> string \<Rightarrow> job_state \<Rightarrow>
   (job_state \<times> string) py" where
  "attach_run_to_session_job env clock fresh op run_id tool_calls user_input run_ok err st =
     (if te_session_id env = [] then Inr (st, [])
      else py_bind (find_or_create_job env clock fresh op user_input st) (\<lambda>(st, jid).
        if jid = [] then Inr (st, [])
        else
          (let cancelled = (case get_job jid st of None \<Rightarrow> False | Some j \<Rightarrow> cancel_requested j);
               st = (if cancelled then st else ensure_running env (\<lambda>k. clock (k + 3)) jid st);
               st = merge_run_id env (\<lambda>k. clock (k + 6)) jid run_id tool_calls st
           in Inr (finish_turn env (\<lambda>k. clock (k + 9)) jid run_id run_ok err cancelled st, jid))))"

subsection \<open>Facts\<close>

lemma text_at_simps [simp]: "text_at (AList.update k v r) k' = (if k' = k then str_of_or v [] else text_at r k')"
  by (simp add: text_at_def)

lemma str_of_or_text [simp]: "str_of_or (VStr s) [] = s" "str_of_or VNone d = d"
  by (simp_all add: str_of_or_def vor_def)

lemma stages_distinct: "distinct (understand_stages @ evidence_stages @ analyse_stages @ advise_stages)"
  by code_simp

text \<open>The registry keeps one record per file.\<close>

definition registry_ok :: "(string \<times> pydict) list \<Rightarrow> bool" where
  "registry_ok reg = distinct (map fst reg)"

lemma reconcile_nonempty: "r \<noteq> [] \<Longrightarrow> reconcile_record env clock jobs rid r \<noteq> []"
  by (auto simp: reconcile_record_def Let_def merge_dict_def split: option.splits)

lemma sweep_record_cases:
  "sweep_record env clock jobs cutoff (f, r) = [] \<or>
   (r \<noteq> [] \<and> sweep_record env clock jobs cutoff (f, r) = [(f, reconcile_record env clock jobs (text_at r ''client_request_id'') r)])"
  by (auto simp: sweep_record_def Let_def)

lemma sweep_keys: "set (map fst (sweep_registry env clock jobs cutoff reg)) \<subseteq> set (map fst reg)"
proof (induction reg arbitrary: clock)
  case (Cons e es)
  obtain f r where "e = (f, r)" by fastforce
  with Cons.IH [of "\<lambda>k. clock (k + 2)"] sweep_record_cases [of env clock jobs cutoff f r] show ?case by auto
qed simp

lemma sweep_distinct: "registry_ok reg \<Longrightarrow> registry_ok (sweep_registry env clock jobs cutoff reg)"
proof (induction reg arbitrary: clock)
  case (Cons e es)
  obtain f r where e: "e = (f, r)" by fastforce
  have "f \<notin> set (map fst (sweep_registry env (\<lambda>k. clock (k + 2)) jobs cutoff es))"
    using Cons.prems e sweep_keys [of env "\<lambda>k. clock (k + 2)" jobs cutoff es] by (auto simp: registry_ok_def)
  moreover have "distinct (map fst (sweep_registry env (\<lambda>k. clock (k + 2)) jobs cutoff es))"
    using Cons.IH [of "\<lambda>k. clock (k + 2)"] Cons.prems by (simp add: registry_ok_def)
  moreover have "map fst (sweep_record env clock jobs cutoff (f, r)) \<in> {[], [f]}"
    using sweep_record_cases [of env clock jobs cutoff f r] by auto
  ultimately show ?case using e by (auto simp: registry_ok_def simp del: set_map)
qed (simp add: registry_ok_def)

definition fresh_record :: "turn_env \<Rightarrow> int \<Rightarrow> pydict \<Rightarrow> bool" where
  "fresh_record env cutoff r = (case record_timestamp env r of None \<Rightarrow> False | Some t \<Rightarrow> cutoff \<le> t)"

lemma sweep_member:
  "(f, r') \<in> set (sweep_registry env clock jobs cutoff reg) \<Longrightarrow>
   \<exists>r ck. (f, r) \<in> set reg \<and> r \<noteq> [] \<and> r' = reconcile_record env ck jobs (text_at r ''client_request_id'') r \<and>
     (record_terminal r' \<longrightarrow> fresh_record env cutoff r')"
proof (induction reg arbitrary: clock)
  case (Cons e es)
  obtain f0 r0 where e: "e = (f0, r0)" by fastforce
  from Cons.prems consider (here) "(f, r') \<in> set (sweep_record env clock jobs cutoff (f0, r0))"
    | (there) "(f, r') \<in> set (sweep_registry env (\<lambda>k. clock (k + 2)) jobs cutoff es)"
    using e by auto
  then show ?case
  proof cases
    case here
    then have "f = f0" "r0 \<noteq> []" "r' = reconcile_record env clock jobs (text_at r0 ''client_request_id'') r0"
        "record_terminal r' \<longrightarrow> fresh_record env cutoff r'"
      by (auto simp: sweep_record_def fresh_record_def Let_def split: if_splits option.splits)
    with e show ?thesis by auto
  next
    case there
    from Cons.IH [OF this] show ?thesis by auto
  qed
qed simp

lemma sweep_keeps:
  "(f, r) \<in> set reg \<Longrightarrow> r \<noteq> [] \<Longrightarrow>
   \<exists>ck. let r' = reconcile_record env ck jobs (text_at r ''client_request_id'') r in
     (record_terminal r' \<longrightarrow> fresh_record env cutoff r') \<longrightarrow> (f, r') \<in> set (sweep_registry env clock jobs cutoff reg)"
proof (induction reg arbitrary: clock)
  case (Cons e es)
  show ?case
  proof (cases "(f, r) = e")
    case True
    define r' where "r' = reconcile_record env clock jobs (text_at r ''client_request_id'') r"
    have "(record_terminal r' \<longrightarrow> fresh_record env cutoff r') \<longrightarrow> (f, r') \<in> set (sweep_record env clock jobs cutoff (f, r))"
      using Cons.prems(2) by (auto simp: sweep_record_def fresh_record_def r'_def [symmetric] Let_def split: option.splits)
    then have "let r' = reconcile_record env clock jobs (text_at r ''client_request_id'') r in
        (record_terminal r' \<longrightarrow> fresh_record env cutoff r') \<longrightarrow> (f, r') \<in> set (sweep_record env clock jobs cutoff e)"
      by (simp only: Let_def r'_def True)
    then show ?thesis by (intro exI [of _ clock]) (simp add: Let_def)
  next
    case False
    then have "(f, r) \<in> set es" using Cons.prems(1) by auto
    from Cons.IH [OF this Cons.prems(2), of "\<lambda>k. clock (k + 2)"] obtain ck where
      "let r' = reconcile_record env ck jobs (text_at r ''client_request_id'') r in
        (record_terminal r' \<longrightarrow> fresh_record env cutoff r') \<longrightarrow>
        (f, r') \<in> set (sweep_registry env (\<lambda>k. clock (k + 2)) jobs cutoff es)" by blast
    then show ?thesis by (intro exI [of _ ck]) (simp add: Let_def)
  qed
qed simp

definition stamp :: "turn_env \<Rightarrow> pydict \<Rightarrow> int" where
  "stamp env r = (case record_timestamp env r of None \<Rightarrow> 0 | Some t \<Rightarrow> t)"

definition terminal_records :: "(string \<times> pydict) list \<Rightarrow> (string \<times> pydict) list" where
  "terminal_records reg = filter (\<lambda>e. record_terminal (snd e)) reg"

definition by_age :: "turn_env \<Rightarrow> (string \<times> pydict) list \<Rightarrow> (string \<times> pydict) list" where
  "by_age env reg = sort_key (\<lambda>e. stamp env (snd e)) (terminal_records reg)"

lemma drop_excess_eq:
  "drop_excess env reg =
     filter (\<lambda>e. fst e \<notin> fst ` set (take (length (by_age env reg) - registry_limit) (by_age env reg))) reg"
  by (simp add: drop_excess_def Let_def by_age_def terminal_records_def stamp_def case_prod_beta')

lemma kept_terminal:
  assumes "registry_ok reg"
  shows "mset (terminal_records (drop_excess env reg)) = mset (drop (length (by_age env reg) - registry_limit) (by_age env reg))"
proof -
  define n where "n = length (by_age env reg) - registry_limit"
  let ?o = "by_age env reg"
  let ?keep = "\<lambda>e. fst e \<notin> fst ` set (take n ?o)"
  have same: "mset ?o = mset (terminal_records reg)" by (simp add: by_age_def)
  have "distinct (map fst (terminal_records reg))"
    using assms by (simp add: registry_ok_def terminal_records_def distinct_map_filter)
  then have "distinct (map fst ?o)" using same by (metis mset_eq_imp_distinct_iff mset_map)
  then have "distinct (map fst (take n ?o @ drop n ?o))" by simp
  then have disj: "fst ` set (take n ?o) \<inter> fst ` set (drop n ?o) = {}" by (simp only: map_append distinct_append set_map)
  have "mset (terminal_records (drop_excess env reg)) = filter_mset ?keep (mset (terminal_records reg))"
    by (simp add: terminal_records_def drop_excess_eq n_def filter_filter conj_commute flip: mset_filter)
  also have "\<dots> = mset (filter ?keep ?o)" by (simp add: same)
  also have "filter ?keep ?o = filter ?keep (take n ?o) @ filter ?keep (drop n ?o)"
    by (metis append_take_drop_id filter_append)
  also have "filter ?keep (take n ?o) = []" by (simp add: filter_empty_conv)
  also have "filter ?keep (drop n ?o) = drop n ?o" using disj by (intro filter_True) blast
  also have "[] @ drop n ?o = drop n ?o" by simp
  finally show ?thesis by (simp add: n_def)
qed

lemma dropped_older:
  assumes "registry_ok reg" "e \<in> set (terminal_records reg)" "e \<notin> set (drop_excess env reg)"
  shows "length (terminal_records (drop_excess env reg)) = registry_limit \<and>
    (\<forall>k \<in> set (terminal_records (drop_excess env reg)). stamp env (snd e) \<le> stamp env (snd k))"
proof -
  define n where "n = length (by_age env reg) - registry_limit"
  let ?o = "by_age env reg"
  note kept = kept_terminal [OF assms(1), of env, folded n_def]
  have set: "set (terminal_records (drop_excess env reg)) = set (drop n ?o)" using kept by (rule mset_eq_setD)
  have len: "length (terminal_records (drop_excess env reg)) = length ?o - n"
    using kept by (metis length_drop size_mset)
  from assms(2) have "e \<in> set ?o" by (simp add: by_age_def)
  moreover have "e \<in> set reg" "record_terminal (snd e)" using assms(2) by (auto simp: terminal_records_def)
  then have "e \<notin> set (drop n ?o)" using assms(3) set by (auto simp: terminal_records_def)
  ultimately have e: "e \<in> set (take n ?o)" by (metis Un_iff append_take_drop_id set_append)
  then have "n \<noteq> 0" by (cases n) simp_all
  then have "length ?o - n = registry_limit" by (simp add: n_def)
  moreover have "sorted (map (\<lambda>x. stamp env (snd x)) (take n ?o @ drop n ?o))" by (simp add: by_age_def)
  then have "stamp env (snd e) \<le> stamp env (snd k)" if "k \<in> set (drop n ?o)" for k
    using e that by (simp only: map_append sorted_append) auto
  ultimately show ?thesis using set len by simp
qed

lemma terminal_fixed: "record_terminal r \<Longrightarrow> reconcile_record env ck jobs rid r = r"
  by (auto simp: record_terminal_def registry_terminal_def reconcile_record_def)

lemma registry_ok_filter: "registry_ok reg \<Longrightarrow> registry_ok (filter P reg)"
  by (simp add: registry_ok_def distinct_map_filter)

lemma drop_excess_running: "e \<in> set reg \<Longrightarrow> \<not> record_terminal (snd e) \<Longrightarrow> registry_ok reg \<Longrightarrow> e \<in> set (drop_excess env reg)"
proof -
  assume e: "e \<in> set reg" "\<not> record_terminal (snd e)" "registry_ok reg"
  have "fst e \<noteq> fst x" if "x \<in> set (by_age env reg)" for x
  proof
    assume same: "fst e = fst x"
    from that have "x \<in> set reg" "record_terminal (snd x)" by (auto simp: by_age_def terminal_records_def)
    with e same show False by (metis eq_key_imp_eq_value prod.collapse registry_ok_def)
  qed
  with e(1) show ?thesis by (auto simp: drop_excess_eq dest!: in_set_takeD)
qed

text \<open>A record that stays as it is under every prune at a time \<open>fresh_at\<close> allows.\<close>

definition fresh_at :: "turn_env \<Rightarrow> string \<Rightarrow> int \<Rightarrow> bool" where
  "fresh_at env now t =
     (case record_timestamp env [(''updated_at'', VStr now)] of None \<Rightarrow> True | Some n \<Rightarrow> n - registry_ttl \<le> t)"

lemma sweep_length: "length (sweep_registry env clock jobs cutoff reg) \<le> length reg"
proof (induction reg arbitrary: clock)
  case (Cons e es)
  obtain f r where e: "e = (f, r)" by fastforce
  from sweep_record_cases [of env clock jobs cutoff f r] have "length (sweep_record env clock jobs cutoff e) \<le> 1"
    using e by auto
  with Cons.IH [of "\<lambda>k. clock (k + 2)"] show ?case by simp
qed simp

lemma drop_excess_small: "length reg \<le> registry_limit \<Longrightarrow> drop_excess env reg = reg"
proof -
  assume "length reg \<le> registry_limit"
  moreover have "length (by_age env reg) \<le> length reg" by (simp add: by_age_def terminal_records_def)
  ultimately show ?thesis by (simp add: drop_excess_eq)
qed

lemma prune_length: "length (prune_registry env clock jobs reg) \<le> length reg"
  using sweep_length order_trans
  by (fastforce simp: prune_registry_def drop_excess_def Let_def split: option.splits intro: le_trans [OF length_filter_le])

lemma prune_ok: "registry_ok reg \<Longrightarrow> registry_ok (prune_registry env clock jobs reg)"
  by (simp add: prune_registry_def drop_excess_eq registry_ok_filter sweep_distinct split: option.split)

lemma prune_keeps:
  assumes "registry_ok reg" "length reg \<le> registry_limit" "map_of reg f = Some r" "r \<noteq> []"
    "\<And>ck. reconcile_record env ck jobs (text_at r ''client_request_id'') r = r"
    "record_terminal r \<Longrightarrow> record_timestamp env r = Some t \<and> fresh_at env (clock 0) t"
  shows "map_of (prune_registry env clock jobs reg) f = Some r"
proof (cases "record_timestamp env [(''updated_at'', VStr (clock 0))]")
  case None
  with assms(3) show ?thesis by (simp add: prune_registry_def)
next
  case (Some now)
  let ?cut = "now - registry_ttl"
  define sw where "sw = sweep_registry env (\<lambda>k. clock (k + 1)) jobs ?cut reg"
  have "fresh_record env ?cut r" if "record_terminal r"
    using assms(6) [OF that] Some by (simp add: fresh_record_def fresh_at_def)
  then have "(f, r) \<in> set sw"
    using sweep_keeps [OF map_of_SomeD [OF assms(3)] assms(4), of env jobs ?cut "\<lambda>k. clock (k + 1)"] assms(5)
    by (simp add: sw_def Let_def)
  moreover have "registry_ok sw" using sweep_distinct [OF assms(1)] by (simp add: sw_def)
  ultimately have "map_of sw f = Some r" by (simp add: registry_ok_def)
  moreover have "length sw \<le> registry_limit"
    using sweep_length [of env "\<lambda>k. clock (k + 1)" jobs ?cut reg] assms(2) by (simp add: sw_def)
  moreover have "prune_registry env clock jobs reg = drop_excess env sw" by (simp add: prune_registry_def sw_def Some)
  ultimately show ?thesis by (simp add: drop_excess_small)
qed

text \<open>What a claim that executes leaves, and what a claim under a known request id returns.\<close>

lemma running_turn_refuses: "running_turn env st = Some c \<Longrightarrow> \<not> should_execute c"
  by (auto simp: running_turn_def dest!: first_some_Some split: if_splits option.splits)

lemma accept_turn_Inr:
  assumes "accept_turn env clock fresh eph op text rid st = Inr (st', c)"
  shows "\<exists>jobs jid. jid \<noteq> [] \<and> c = blank_claim\<lparr>tc_job := jid\<rparr> \<and> st' = st\<lparr>ts_jobs := jobs,
      ts_inputs := ts_inputs st @ [(''request_'' @ te_digest env rid, text)],
      ts_registry := AList.update (te_digest env rid) (request_record env (\<lambda>k. clock (k + 10)) rid text jid) (ts_registry st)\<rparr>"
proof -
  from assms obtain jobs k where "begin_session_turn env clock fresh op text rid (ts_jobs st) = Inr (jobs, k)"
    by (auto simp: accept_turn_def py_bind_Inr)
  with assms show ?thesis
    by (intro exI [of _ jobs] exI [of _ "if k = [] then ''job-turn-'' @ eph else k"]) (simp add: accept_turn_def Let_def)
qed

lemma claim_executes:
  assumes "claim_session_turn env pc clock fresh eph op text crid st = Inr (st', c)" "should_execute c"
    "te_session_id env \<noteq> []" "strip crid \<noteq> []"
  shows "\<exists>jobs jid. jid \<noteq> [] \<and> tc_job c = jid \<and> st' = st\<lparr>ts_jobs := jobs,
      ts_inputs := ts_inputs st @ [(''request_'' @ te_digest env (strip crid), text)],
      ts_registry := AList.update (te_digest env (strip crid))
        (request_record env (\<lambda>k. clock (k + 10)) (strip crid) text jid) (prune_registry env pc (ts_jobs st) (ts_registry st))\<rparr>"
proof -
  let ?st = "st\<lparr>ts_registry := prune_registry env pc (ts_jobs st) (ts_registry st)\<rparr>"
  have "accept_turn env clock fresh eph op text (strip crid) ?st = Inr (st', c)"
    using assms running_turn_refuses [of env "ts_jobs st"]
    by (auto simp: claim_session_turn_def Let_def known_claim_def split: if_splits option.splits)
  from accept_turn_Inr [OF this] show ?thesis by force
qed

lemma claim_known:
  assumes "map_of (prune_registry env pc (ts_jobs st) (ts_registry st)) (te_digest env (strip crid)) = Some r" "r \<noteq> []"
    "te_session_id env \<noteq> []" "strip crid \<noteq> []" "length (strip crid) \<le> 256"
    "text_at r ''input_sha256'' = te_digest env text"
    "\<And>ck. reconcile_record env ck (ts_jobs st) (strip crid) r = r"
  shows "claim_session_turn env pc clock fresh eph op text crid st =
    Inr (st\<lparr>ts_registry := prune_registry env pc (ts_jobs st) (ts_registry st)\<rparr>,
         known_claim r (str_of_or (vget r ''status'') ''running'') (text_at r ''error''))"
  using assms by (simp add: claim_session_turn_def)

lemma registry_ok_update: "registry_ok reg \<Longrightarrow> registry_ok (AList.update f r reg)"
  by (simp add: registry_ok_def distinct_update)

lemma length_update_known: "map_of reg f \<noteq> None \<Longrightarrow> length (AList.update f r reg) = length reg"
proof -
  assume "map_of reg f \<noteq> None"
  then have "map fst (AList.update f r reg) = map fst reg" by (auto simp: update_keys dest: map_of_SomeD intro: rev_image_eqI)
  then show ?thesis by (metis length_map)
qed

text \<open>The record of a running request, and the one \<open>finish_claimed_session_turn\<close> makes of it.\<close>

definition finished_record ::
  "turn_env \<Rightarrow> clock \<Rightarrow> bool \<Rightarrow> string \<Rightarrow> string \<Rightarrow> bool \<Rightarrow> string \<Rightarrow> pydict \<Rightarrow> pydict" where
  "finished_record env clock cancelled run_id trace_id ok err r = merge_dict r
     [(''status'', VStr (if cancelled then ''cancelled'' else if ok then ''succeeded'' else ''failed'')),
      (''updated_at'', VStr (clock 0)), (''finished_at'', VStr (clock 1)), (''run_id'', VStr run_id),
      (''trace_id'', VStr trace_id),
      (''error'', VStr (take 240 (if cancelled then lb_cancelled_message (te_labels env) else err)))]"

lemma text_at_Cons: "text_at ((k, v) # d) k' = (if k' = k then str_of_or v [] else text_at d k')"
  by (simp add: text_at_def vget_def vget_or_def)

lemma text_at_Nil [simp]: "text_at [] k = []"
  by (simp add: text_at_def vget_def vget_or_def)

lemma finished_timestamp:
  assumes "text_at r ''finished_at'' = v" "record_timestamp env [(''finished_at'', VStr v)] = Some t"
  shows "record_timestamp env r = Some t"
proof -
  from assms(2) have "strip v \<noteq> [] \<and> te_time env (strip v) = Some t"
    by (simp add: record_timestamp_def text_at_Cons Let_def strip_def split: if_splits option.splits)
  with assms(1) show ?thesis by (simp add: record_timestamp_def Let_def)
qed

lemma request_record_fields:
  assumes "r = request_record env clock rid text jid"
  shows "r \<noteq> []" "text_at r ''status'' = ''running''" "text_at r ''job_id'' = jid" "text_at r ''client_request_id'' = rid"
    "text_at r ''input_sha256'' = te_digest env text" "text_at r ''run_id'' = []" "text_at r ''error'' = []"
    "vget r ''status'' = VStr ''running''"
  using assms by (simp_all add: request_record_def text_at_Cons vget_def vget_or_def)

lemma finished_record_fields:
  assumes "r' = finished_record env clock cancelled run_id trace_id ok err r"
  shows "r' \<noteq> []" "text_at r' ''status'' = (if cancelled then ''cancelled'' else if ok then ''succeeded'' else ''failed'')"
    "text_at r' ''job_id'' = text_at r ''job_id''" "text_at r' ''client_request_id'' = text_at r ''client_request_id''"
    "text_at r' ''input_sha256'' = text_at r ''input_sha256''" "text_at r' ''run_id'' = run_id"
    "vget r' ''status'' = VStr (if cancelled then ''cancelled'' else if ok then ''succeeded'' else ''failed'')"
    "record_timestamp env [(''finished_at'', VStr (clock 1))] = Some t \<Longrightarrow> record_timestamp env r' = Some t"
proof -
  have "text_at r' ''finished_at'' = clock 1" using assms by (simp add: finished_record_def merge_dict_def)
  then show "record_timestamp env [(''finished_at'', VStr (clock 1))] = Some t \<Longrightarrow> record_timestamp env r' = Some t"
    by (rule finished_timestamp)
qed (use assms in \<open>simp_all add: finished_record_def merge_dict_def\<close>)

lemma finish_claimed_known:
  assumes "map_of (prune_registry env pc (ts_jobs st) (ts_registry st)) (te_digest env (strip crid)) = Some r" "r \<noteq> []"
    "te_session_id env \<noteq> []" "strip crid \<noteq> []" "text_at r ''job_id'' = jid"
  shows "finish_claimed_session_turn env pc clock pc' crid jid run_id trace_id ok err st =
    st\<lparr>ts_registry := prune_registry env pc' (ts_jobs st)
      (AList.update (te_digest env (strip crid))
        (finished_record env clock
          (case get_job jid (ts_jobs st) of None \<Rightarrow> False | Some j \<Rightarrow> cancel_requested j \<or> job_status j = ''cancelled'')
          run_id trace_id ok err r)
        (prune_registry env pc (ts_jobs st) (ts_registry st)))\<rparr>"
  using assms by (simp add: finish_claimed_session_turn_def Let_def finished_record_def)

lemma turn_keys_plain: "list_all plain_key
    [''session_id'', ''active_turn'', ''status'', ''client_request_id'', ''current'', ''percent'', ''events'', ''tool_calls'']"
  by code_simp

subsection \<open>Records of a session\<close>

text \<open>The scrubbing leaves the name of the workspace and of the session as they are, and the session exists.\<close>

definition turn_env_ok :: "turn_env \<Rightarrow> bool" where
  "turn_env_ok env =
     (let je = te_jobs env; sid = te_session_id env in
      env_ok je \<and> sid \<noteq> [] \<and> je_clean je sid = sid \<and> je_clean je (je_workspace je) = je_workspace je \<and> session_exists je sid)"

definition belongs :: "turn_env \<Rightarrow> job \<Rightarrow> bool" where
  "belongs env j =
     (workspace_id j = je_workspace (te_jobs env) \<and>
      deep_sanitize (je_clean (te_jobs env)) (vget (payload j) ''session_id'') = VStr (te_session_id env))"

lemma sanitize_belongs:
  assumes "turn_env_ok env" "belongs env j"
  shows "belongs env (sanitize_job (te_jobs env) j)"
    "vget (payload (sanitize_job (te_jobs env) j)) ''session_id'' = VStr (te_session_id env)"
  using assms turn_keys_plain
  by (simp_all add: belongs_def turn_env_ok_def sanitize_job_def Let_def vget_sanitize)

text \<open>What an update leaves of a record.\<close>

lemma update_job_at:
  assumes "env_ok env" "state_ok env st" "get_job i st = Some j" "patch_ok patch target"
    "target = None \<or> (\<exists>s \<in> set job_statuses. target = Some s)"
  shows "\<exists>st'. update_job env now i patch st = (st', Some (sanitize_job env ((patch j)\<lparr>updated_at := now\<rparr>))) \<and> state_ok env st' \<and>
    get_job i st' = Some (sanitize_job env ((patch j)\<lparr>updated_at := now\<rparr>)) \<and> length (js_jobs st') = length (js_jobs st)"
proof -
  let ?r = "sanitize_job env ((patch j)\<lparr>updated_at := now\<rparr>)"
  obtain st' where st': "update_job env now i patch st = (st', Some ?r)" "js_jobs st' = AList.update i ?r (js_jobs st)"
    using assms(3) by (simp add: update_job_def Let_def)
  moreover have "state_ok env st'" using update_job_effect [OF assms(1,2,4,5) st'(1)] by blast
  moreover have "map_of (js_jobs st) i \<noteq> None" "i \<noteq> []" using assms(3) by (simp_all add: get_job_Some)
  ultimately show ?thesis by (simp add: get_job_Some map_of_update_iff length_update_known)
qed

lemma sanitize_status: "env_ok env \<Longrightarrow> job_status j \<in> set job_statuses \<Longrightarrow> job_status (sanitize_job env j) = job_status j"
  by (simp add: sanitize_job_def Let_def env_ok_def list_all_iff)


lemma belongs_cong: "workspace_id j = workspace_id j' \<Longrightarrow> payload j = payload j' \<Longrightarrow> belongs env j = belongs env j'"
  by (simp add: belongs_def)

lemma active_turn_sanitize: "active_turn (sanitize_job env j) = sanitize_dict (je_clean env) (active_turn j)"
  using turn_keys_plain by (simp add: active_turn_def sanitize_job_def Let_def vget_sanitize dict_of_sanitize)

lemma length_update_le: "length (AList.update k v al) \<le> Suc (length al)"
  by (induction al) auto

text \<open>The job \<open>_find_or_create_job\<close> returns is one of the session.\<close>

lemma find_or_create_at:
  assumes env: "turn_env_ok env" and ok: "state_ok (te_jobs env) st"
    and fresh: "map_of (js_jobs st) fresh = None" "fresh \<noteq> []" "je_clean (te_jobs env) fresh = fresh"
    and call: "find_or_create_job env clock fresh op text st = Inr (st', jid)"
  shows "state_ok (te_jobs env) st' \<and> length (js_jobs st') \<le> length (js_jobs st) + 1 \<and>
    (\<exists>j. get_job jid st' = Some j \<and> belongs env j \<and>
      ((\<forall>i. status_map st i \<noteq> Some ''paused'') \<longrightarrow> job_status j \<noteq> ''paused''))"
proof (cases "List.find (of_session (te_session_id env)) (list_jobs (te_jobs env) [] [] 500 st)")
  case (Some s)
  then have s: "s \<in> set (list_jobs (te_jobs env) [] [] 500 st)" "vget (payload s) ''session_id'' = VStr (te_session_id env)"
    by (auto simp: find_Some_iff of_session_def)
  from s(1) obtain i j where j: "(i, j) \<in> set (js_jobs st)" "s = sanitize_job (te_jobs env) j" "job_listed (te_jobs env) [] [] j"
    by (auto simp: list_jobs_def dest!: in_set_takeD)
  from ok j(1) have job: "job_ok (te_jobs env) i j" "map_of (js_jobs st) i = Some j"
    by (auto simp: state_ok_def jobs_ok_def list_all_iff)
  have "job_id s = i" "i \<noteq> []" using job(1) j(2) by (simp_all add: job_ok_def sanitize_job_def Let_def)
  with call Some have "st' = st" "jid = i" by (simp_all add: find_or_create_job_def)
  moreover have "belongs env j"
    using s(2) j(2,3) turn_keys_plain by (simp add: belongs_def job_listed_def sanitize_job_def Let_def vget_sanitize)
  moreover have "status_map st i = Some (job_status j)" using job(2) by (simp add: status_map_def)
  ultimately show ?thesis using ok job(2) \<open>i \<noteq> []\<close> by (auto simp: get_job_Some)
next
  case None
  let ?q = "session_job_request env fresh op text" and ?je = "te_jobs env"
  let ?j = "sanitize_job ?je (new_job ?je clock ?q)"
  have q: "rq_id ?q = fresh" "\<not> rq_enqueue ?q" "rq_type ?q \<in> set enabled_job_types"
    by (simp_all add: session_job_request_def enabled_job_types_def)
  obtain st1 where st1: "create_job ?je clock ?q st = Inr (st1, Some ?j)" "js_jobs st1 = AList.update fresh ?j (js_jobs st)"
  proof -
    obtain st0 r where st0: "store_create ?je (new_job ?je clock ?q) st = (st0, r)" by fastforce
    from store_create_effect [OF this] have "r = ?j" "js_jobs st0 = AList.update fresh ?j (js_jobs st)"
      using q(1) by (simp_all add: new_job_def)
    with that st0 q(2,3) show ?thesis by (auto simp: create_job_def split: option.splits)
  qed
  from env have e: "env_ok ?je" by (simp add: turn_env_ok_def Let_def)
  from create_fine [OF e ok st1(1)] fresh q(1) have "state_ok ?je st1" by (simp add: fine_def)
  moreover have id: "job_id ?j = fresh" using fresh(3) q(1) by (simp add: sanitize_job_def new_job_def Let_def)
  moreover have "belongs env (new_job ?je clock ?q)"
    using env by (simp add: belongs_def new_job_def session_job_request_def vget_def vget_or_def turn_env_ok_def Let_def)
  then have "belongs env ?j" by (rule sanitize_belongs(1) [OF env])
  moreover have "st' = st1" "jid = fresh" using call None st1(1) id by (simp_all add: find_or_create_job_def)
  moreover have "job_status ?j = ''created''"
    using sanitize_status [OF e, of "new_job ?je clock ?q"] known_statuses(6) by (simp add: new_job_def)
  ultimately show ?thesis using st1(2) fresh(2) by (simp add: get_job_Some map_of_update_iff length_update_le)
qed

text \<open>What an operation keeps of the turn and of the runs of a job.\<close>

definition same_turn :: "turn_env \<Rightarrow> job \<Rightarrow> job \<Rightarrow> bool" where
  "same_turn env j j' =
     ((\<forall>k \<in> {''status'', ''client_request_id''}. \<forall>s. je_clean (te_jobs env) s = s \<longrightarrow>
        vget (active_turn j) k = VStr s \<longrightarrow> vget (active_turn j') k = VStr s) \<and>
      (list_all (\<lambda>r. je_clean (te_jobs env) r = r) (run_ids j) \<longrightarrow> run_ids j' = run_ids j))"

lemma same_turn_refl: "same_turn env j j"
  by (simp add: same_turn_def)

lemma same_turn_trans: "same_turn env j j' \<Longrightarrow> same_turn env j' j'' \<Longrightarrow> same_turn env j j''"
  by (simp add: same_turn_def)

lemma same_turn_sanitize:
  assumes "job_metadata p = job_metadata j" "run_ids p = run_ids j"
  shows "same_turn env j (sanitize_job (te_jobs env) p)"
proof -
  let ?c = "je_clean (te_jobs env)"
  have "active_turn p = active_turn j" using assms(1) by (simp add: active_turn_def)
  then have "vget (active_turn (sanitize_job (te_jobs env) p)) k = deep_sanitize ?c (vget (active_turn j) k)"
    if "k \<in> {''status'', ''client_request_id''}" for k
    using that turn_keys_plain by (auto simp: active_turn_sanitize vget_sanitize)
  moreover have "run_ids (sanitize_job (te_jobs env) p) = map ?c (run_ids j)"
    using assms(2) by (simp add: sanitize_job_def Let_def)
  ultimately show ?thesis by (auto simp: same_turn_def list_all_iff map_idI)
qed

text \<open>\<open>_ensure_running\<close> starts the job, whatever it was, unless it is paused.\<close>

lemma startable: "s \<in> {''created'', ''queued'', ''failed'', ''succeeded'', ''cancelled''} \<Longrightarrow> transition_allowed s ''running''"
proof -
  have "list_all (\<lambda>s. transition_allowed s ''running'') [''created'', ''queued'', ''failed'', ''succeeded'', ''cancelled'']"
    by code_simp
  then show "s \<in> {''created'', ''queued'', ''failed'', ''succeeded'', ''cancelled''} \<Longrightarrow> transition_allowed s ''running''" by auto
qed

lemma ensure_running_at:
  assumes env: "turn_env_ok env" and ok: "state_ok (te_jobs env) st" and j: "get_job i st = Some j" "belongs env j"
    "job_status j \<noteq> ''paused''"
  shows "\<exists>j'. state_ok (te_jobs env) (ensure_running env clock i st) \<and> get_job i (ensure_running env clock i st) = Some j' \<and>
    belongs env j' \<and> job_status j' = ''running'' \<and> same_turn env j j' \<and> (cancel_requested j' \<longrightarrow> cancel_requested j) \<and>
    length (js_jobs (ensure_running env clock i st)) = length (js_jobs st)"
proof (cases "job_status j \<in> {''created'', ''queued'', ''failed'', ''succeeded'', ''cancelled''}")
  case False
  from ok j(1) have "job_status j \<in> set job_statuses" by (auto simp: get_job_Some state_ok_def job_ok_def dest: jobs_ok_at)
  with False j(3) have "job_status j = ''running''" by (auto simp: job_statuses_def)
  with False j ok same_turn_refl show ?thesis by (simp add: ensure_running_def)
next
  case True
  let ?je = "te_jobs env"
  from env have e: "env_ok ?je" by (simp add: turn_env_ok_def Let_def)
  let ?p1 = "\<lambda>j :: job. j\<lparr>job_status := ''running''\<rparr>"
  let ?p2 = "\<lambda>r :: job. r\<lparr>started_at := clock 0, finished_at := [], job_error := [], cancel_requested := False\<rparr>"
  define j1 where "j1 = sanitize_job ?je ((?p1 j)\<lparr>updated_at := clock 1\<rparr>)"
  define j2 where "j2 = sanitize_job ?je ((?p2 j1)\<lparr>updated_at := clock 2\<rparr>)"
  obtain st1 where st1: "update_job ?je (clock 1) i ?p1 st = (st1, Some j1)" "state_ok ?je st1" "get_job i st1 = Some j1"
      "length (js_jobs st1) = length (js_jobs st)"
    using update_job_at [OF e ok j(1), of ?p1 "Some ''running''" "clock 1"] known_statuses(2)
    by (auto simp: patch_ok_def j1_def)
  let ?st1 = "append_event ?je i ''job_started'' ''Job started'' st1"
  have "state_ok ?je ?st1" "get_job i ?st1 = Some j1" using st1(2,3) by simp_all
  from update_job_at [OF e this, of ?p2 None "clock 2"] obtain st2 where st2:
    "update_job ?je (clock 2) i ?p2 ?st1 = (st2, Some j2)" "state_ok ?je st2" "get_job i st2 = Some j2"
    "length (js_jobs st2) = length (js_jobs ?st1)"
    by (auto simp: patch_ok_def j2_def)
  have "ensure_running env clock i st = st2"
    using j(1) True startable [OF True] st1(1) st2(1)
    by (simp add: ensure_running_def mark_running_def check_transition_def py_require_def transition_job_def Let_def)
  moreover have "belongs env j1"
    unfolding j1_def by (rule sanitize_belongs(1) [OF env]) (use j(2) in \<open>simp add: belongs_def\<close>)
  then have "belongs env j2"
    unfolding j2_def by (intro sanitize_belongs(1) [OF env]) (simp add: belongs_def)
  moreover have "job_status j1 = ''running''" by (simp add: j1_def sanitize_status [OF e] known_statuses)
  then have "job_status j2 = ''running''" by (simp add: j2_def sanitize_status [OF e] known_statuses)
  moreover have "same_turn env j j1" unfolding j1_def by (rule same_turn_sanitize) simp_all
  moreover have "same_turn env j1 j2" unfolding j2_def by (rule same_turn_sanitize) simp_all
  moreover have "\<not> cancel_requested j2" by (simp add: j2_def sanitize_job_def Let_def)
  ultimately show ?thesis using st2 st1(4) same_turn_trans [of env j j1 j2] by auto
qed


subsection \<open>The invariant of a turn\<close>

definition turn_at :: "turn_env \<Rightarrow> int \<Rightarrow> job \<Rightarrow> bool" where
  "turn_at env step j =
     (belongs env j \<and> vget (payload j) ''session_id'' = VStr (te_session_id env) \<and> job_status j = ''running'' \<and>
      vget (active_turn j) ''status'' = VStr ''running'' \<and>
      vget (progress j) ''current'' = VInt step \<and> vget (progress j) ''percent'' = VInt (25 * step) \<and> 1 \<le> step \<and> step \<le> 4 \<and>
      length (list_of (vget (active_turn j) ''events'')) \<le> 80 \<and>
      length (list_of (vget (active_turn j) ''tool_calls'')) \<le> 24)"

definition turn_open :: "turn_env \<Rightarrow> int \<Rightarrow> string \<Rightarrow> job_state \<Rightarrow> bool" where
  "turn_open env step jid st =
     (state_ok (te_jobs env) st \<and> length (js_jobs st) \<le> 500 \<and> (\<exists>j. get_job jid st = Some j \<and> turn_at env step j))"

lemma list_of_sanitize: "length (list_of (deep_sanitize c v)) = length (list_of v)"
  by (cases v) (simp_all add: list_of_def)

text \<open>A record written with a turn and its progress.\<close>

lemma turn_at_write:
  assumes env: "turn_env_ok env" and j: "belongs env j" "job_status j = ''running''"
    and turn: "vget turn ''status'' = VStr ''running''" "length (list_of (vget turn ''events'')) \<le> 80"
      "length (list_of (vget turn ''tool_calls'')) \<le> 24"
    and step: "1 \<le> step" "step \<le> 4"
  shows "turn_at env step (sanitize_job (te_jobs env)
    (j\<lparr>job_metadata := AList.update ''active_turn'' (VDict turn) md, progress := turn_progress step m l t, updated_at := now\<rparr>))"
proof -
  let ?je = "te_jobs env"
  let ?j = "j\<lparr>job_metadata := AList.update ''active_turn'' (VDict turn) md, progress := turn_progress step m l t, updated_at := now\<rparr>"
  from env have e: "env_ok ?je" by (simp add: turn_env_ok_def Let_def)
  have b: "belongs env ?j" using j(1) by (simp add: belongs_def)
  have "active_turn (sanitize_job ?je ?j) = sanitize_dict (je_clean ?je) turn"
    unfolding active_turn_sanitize by (simp add: active_turn_def)
  moreover have "progress (sanitize_job ?je ?j) = sanitize_dict (je_clean ?je) (turn_progress step m l t)"
    by (simp add: sanitize_job_def Let_def)
  moreover have "job_status (sanitize_job ?je ?j) = ''running''" using sanitize_status [OF e, of ?j] j(2) known_statuses(2) by simp
  moreover have "je_clean ?je ''running'' = ''running''" using e known_statuses(2) by (simp add: env_ok_def list_all_iff)
  moreover have "vget (turn_progress step m l t) ''current'' = VInt step" "vget (turn_progress step m l t) ''percent'' = VInt (25 * step)"
    by (simp_all add: turn_progress_def vget_def vget_or_def)
  ultimately show ?thesis
    using sanitize_belongs [OF env b] turn step turn_keys_plain by (simp add: turn_at_def vget_sanitize list_of_sanitize)
qed

lemma begin_turn_open:
  assumes env: "turn_env_ok env" and ok: "state_ok (te_jobs env) st" "length (js_jobs st) < 500"
    and fresh: "map_of (js_jobs st) fresh = None" "fresh \<noteq> []" "je_clean (te_jobs env) fresh = fresh"
    and paused: "\<forall>i. status_map st i \<noteq> Some ''paused''"
    and call: "begin_session_turn env clock fresh op text rid st = Inr (st', jid)"
  shows "turn_open env 1 jid st'"
proof -
  let ?je = "te_jobs env" and ?lb = "te_labels env"
  from env have e: "env_ok ?je" and sid: "te_session_id env \<noteq> []" by (simp_all add: turn_env_ok_def Let_def)
  from call sid obtain st1 k where found: "find_or_create_job env clock fresh op text st = Inr (st1, k)"
    by (auto simp: begin_session_turn_def py_bind_Inr)
  from find_or_create_at [OF env ok(1) fresh found] paused obtain j where j: "state_ok ?je st1" "length (js_jobs st1) \<le> 500"
    "get_job k st1 = Some j" "belongs env j" "job_status j \<noteq> ''paused''"
    using ok(2) by auto
  define st2 where "st2 = ensure_running env (\<lambda>k. clock (k + 3)) k st1"
  from ensure_running_at [OF env j(1,3-5), of "\<lambda>k. clock (k + 3)"] obtain j2 where j2: "state_ok ?je st2"
    "get_job k st2 = Some j2" "belongs env j2" "job_status j2 = ''running''" "length (js_jobs st2) = length (js_jobs st1)"
    by (auto simp: st2_def)
  let ?turn = "fresh_turn env (\<lambda>k. clock (k + 6)) rid"
  let ?md = "AList.update ''active_turn'' (VDict ?turn) (job_metadata j2)"
  let ?p = "turn_progress 1 (tl_prefix ?lb @ tl_understand ?lb) (tl_understand ?lb) (clock 8)"
  let ?patch = "\<lambda>r :: job. r\<lparr>job_metadata := ?md, progress := ?p\<rparr>"
  have "k \<noteq> []" using j(3) by (simp add: get_job_def split: if_splits)
  with call sid found j2(2) have st': "st' = fst (update_job ?je (clock 9) k ?patch st2)" "jid = k"
    by (auto simp: begin_session_turn_def st2_def Let_def)
  from update_job_at [OF e j2(1,2), of ?patch None "clock 9"] st'(1) have
    upd: "state_ok ?je st'" "get_job k st' = Some (sanitize_job ?je ((?patch j2)\<lparr>updated_at := clock 9\<rparr>))"
      "length (js_jobs st') = length (js_jobs st2)"
    by (auto simp: patch_ok_def)
  have "vget ?turn ''status'' = VStr ''running''" "vget ?turn ''events'' = VList []" "vget ?turn ''tool_calls'' = VList []"
    by (simp_all add: fresh_turn_def vget_def vget_or_def)
  with turn_at_write [OF env j2(3,4), where turn = ?turn and step = 1 and md = "job_metadata j2"] upd j2(5) j(2) st'(2) show ?thesis
    by (simp add: turn_open_def)
qed

lemma int_or_step: "1 \<le> c \<Longrightarrow> int_or (VInt c) d = Inr c"
  by (simp add: int_or_def vor_def py_int_def)

lemma stage_target_range:
  "stage_target lb j at e = (current, label) \<Longrightarrow> 1 \<le> at \<Longrightarrow> at \<le> 4 \<Longrightarrow> 1 \<le> current \<and> current \<le> 4"
  by (auto simp: stage_target_def stage_progress_def Let_def split: if_splits option.splits)

lemma stage_turn_bounds:
  "vget (stage_turn now active e c label) ''status'' = vget active ''status''"
  "length (list_of (vget (stage_turn now active e c label) ''events'')) \<le> 80"
  "length (list_of (vget active ''tool_calls'')) \<le> 24 \<Longrightarrow>
   length (list_of (vget (stage_turn now active e c label) ''tool_calls'')) \<le> 24"
  by (simp_all add: stage_turn_def merge_dict_def Let_def length_last_n_le)

lemma stage_keeps_open:
  assumes env: "turn_env_ok env" and opened: "turn_open env step jid st"
    and call: "update_session_turn_stage env clock jid e st = Inr st'"
  shows "\<exists>step'. turn_open env step' jid st' \<and> step \<le> step'"
proof -
  let ?je = "te_jobs env" and ?lb = "te_labels env"
  from env have en: "env_ok ?je" by (simp add: turn_env_ok_def Let_def)
  from opened obtain j where j: "get_job jid st = Some j" "turn_at env step j" "state_ok ?je st" "length (js_jobs st) \<le> 500"
    by (auto simp: turn_open_def)
  note at = j(2) [unfolded turn_at_def]
  obtain target where target: "stage_target ?lb j step e = target" by blast
  obtain current label where nb: "never_backward j step target = (current, label)" by fastforce
  from at have "1 \<le> fst target \<and> fst target \<le> 4"
    using stage_target_range [of ?lb j step e "fst target" "snd target"] target by simp
  with nb at have range: "1 \<le> current" "current \<le> 4" "step \<le> current"
    by (auto simp: never_backward_def split: if_splits prod.splits)
  from call j(1) at obtain elapsed where elapsed: "int_or (vget e ''elapsed_ms'') 0 = Inr elapsed"
    by (auto simp: update_session_turn_stage_def py_bind_Inr)
  let ?turn = "stage_turn (clock 0) (active_turn j) e (compact_event e elapsed) label"
  let ?md = "AList.update ''active_turn'' (VDict ?turn) (job_metadata j)"
  let ?patch = "\<lambda>r :: job. r\<lparr>job_metadata := ?md, progress := turn_progress current (tl_prefix ?lb @ label) label (clock 1)\<rparr>"
  have "st' = fst (update_job ?je (clock 2) jid ?patch st)"
    using call j(1) at elapsed target nb by (simp add: update_session_turn_stage_def int_or_step Let_def)
  with update_job_at [OF en j(3,1), of ?patch None "clock 2"] have
    upd: "state_ok ?je st'" "get_job jid st' = Some (sanitize_job ?je ((?patch j)\<lparr>updated_at := clock 2\<rparr>))"
      "length (js_jobs st') = length (js_jobs st)"
    by (auto simp: patch_ok_def)
  have "turn_at env current (sanitize_job ?je ((?patch j)\<lparr>updated_at := clock 2\<rparr>))"
    using turn_at_write [OF env, where j = j and turn = ?turn and step = current and md = "job_metadata j"] at range stage_turn_bounds by simp
  with upd j(4) range(3) show ?thesis by (auto simp: turn_open_def)
qed

lemma open_turn_running:
  assumes env: "turn_env_ok env" and opened: "turn_open env step jid st"
  shows "running_turn env st \<noteq> None"
proof -
  let ?je = "te_jobs env"
  from opened obtain j where j: "get_job jid st = Some j" "turn_at env step j" "state_ok ?je st" "length (js_jobs st) \<le> 500"
    by (auto simp: turn_open_def)
  from j(1,3) have ok: "job_ok ?je jid j" "(jid, j) \<in> set (js_jobs st)"
    by (auto simp: get_job_Some state_ok_def dest: jobs_ok_at map_of_SomeD)
  note at = j(2) [unfolded turn_at_def]
  let ?s = "sanitize_job ?je j"
  have "vget_or (payload j) ''session_id'' (VStr []) = VStr (te_session_id env)"
    using at by (simp add: vget_def vget_or_def split: option.splits)
  then have "job_listed ?je [] [] j" using at env by (simp add: job_listed_def belongs_def turn_env_ok_def Let_def)
  with ok(2) have "?s \<in> sanitize_job ?je ` {x \<in> snd ` set (js_jobs st). job_listed ?je [] [] x}" by force
  moreover have "length (rev (sort_key job_order (rev
       (map (sanitize_job ?je) (filter (job_listed ?je [] []) (map snd (js_jobs st))))))) \<le> 500"
    using j(4) by (simp add: order_trans [OF length_filter_le])
  ultimately have "?s \<in> set (list_jobs ?je [] [] 500 st)" by (simp add: list_jobs_def take_all)
  moreover have "job_id ?s = jid" using ok(1) by (simp add: job_ok_def sanitize_job_def Let_def)
  moreover have "text_at (payload ?s) ''session_id'' = te_session_id env"
    using sanitize_belongs(2) [OF env] at by (simp add: text_at_def)
  moreover have "text_at (active_turn j) ''status'' = ''running''" using at by (simp add: text_at_def)
  ultimately show ?thesis using j(1) at by (auto simp: running_turn_def first_some_None)
qed

lemma stages_keep_open:
  "turn_env_ok env \<Longrightarrow> turn_open env step jid st \<Longrightarrow>
   \<exists>step'. turn_open env step' jid (persist_stages env jid es st) \<and> step \<le> step'"
proof (induction es arbitrary: step st)
  case (Cons e es)
  obtain ck ev where e: "e = (ck, ev)" by fastforce
  have "\<exists>s. turn_open env s jid (persist_stage env ck jid ev st) \<and> step \<le> s"
    using Cons.prems stage_keeps_open [OF Cons.prems] by (auto simp: persist_stage_def split: sum.splits)
  then obtain s where s: "turn_open env s jid (persist_stage env ck jid ev st)" "step \<le> s" by blast
  from Cons.IH [OF Cons.prems(1) s(1)] s(2) e show ?case by (auto simp: persist_stages_def intro: order_trans)
qed (auto simp: persist_stages_def)

text \<open>A claim while a turn runs, and the turn an executing claim begins.\<close>

lemma claim_refused:
  assumes "running_turn env (ts_jobs st) \<noteq> None" "te_session_id env \<noteq> []"
    "claim_session_turn env pc clock fresh eph op text crid st = Inr (st', c)"
  shows "\<not> should_execute c \<and> ts_jobs st' = ts_jobs st \<and> ts_inputs st' = ts_inputs st"
  using assms running_turn_refuses [of env "ts_jobs st"]
  by (auto simp: claim_session_turn_def Let_def known_claim_def split: if_splits option.splits)

lemma claim_begins:
  assumes "claim_session_turn env pc clock fresh eph op text crid st = Inr (st', c)" "should_execute c" "te_session_id env \<noteq> []"
    "\<And>rid jobs. begin_session_turn env clock fresh op text rid (ts_jobs st) \<noteq> Inr (jobs, [])"
  shows "\<exists>rid. begin_session_turn env clock fresh op text rid (ts_jobs st) = Inr (ts_jobs st', tc_job c)"
proof (cases "strip crid = []")
  case True
  with assms show ?thesis
    using running_turn_refuses [of env "ts_jobs st"]
    by (auto simp: claim_session_turn_def py_bind_Inr split: if_splits option.splits)
next
  case False
  let ?st = "st\<lparr>ts_registry := prune_registry env pc (ts_jobs st) (ts_registry st)\<rparr>"
  have "accept_turn env clock fresh eph op text (strip crid) ?st = Inr (st', c)"
    using assms(1-3) False running_turn_refuses [of env "ts_jobs st"]
    by (auto simp: claim_session_turn_def Let_def known_claim_def split: if_splits option.splits)
  then obtain jobs k where k: "begin_session_turn env clock fresh op text (strip crid) (ts_jobs st) = Inr (jobs, k)"
    by (auto simp: accept_turn_def py_bind_Inr)
  with assms(4) have "k \<noteq> []" by blast
  with k \<open>accept_turn env clock fresh eph op text (strip crid) ?st = Inr (st', c)\<close> show ?thesis
    by (intro exI [of _ "strip crid"]) (auto simp: accept_turn_def Let_def)
qed

text \<open>The states a turn may begin in.\<close>

definition claimable :: "turn_env \<Rightarrow> string \<Rightarrow> job_state \<Rightarrow> bool" where
  "claimable env fresh st =
     (state_ok (te_jobs env) st \<and> length (js_jobs st) < 500 \<and> map_of (js_jobs st) fresh = None \<and> fresh \<noteq> [] \<and>
      je_clean (te_jobs env) fresh = fresh \<and> list_all (\<lambda>(i, j). job_status j \<noteq> ''paused'') (js_jobs st))"

lemma claimed_turn_open:
  assumes env: "turn_env_ok env" and st: "claimable env fresh (ts_jobs st)"
    and claim: "claim_session_turn env pc clock fresh eph op text crid st = Inr (st', c)" "should_execute c"
  shows "turn_open env 1 (tc_job c) (ts_jobs st')"
proof -
  have paused: "\<forall>i. status_map (ts_jobs st) i \<noteq> Some ''paused''"
    using st by (auto simp: claimable_def status_map_def list_all_iff dest!: map_of_SomeD)
  have begun: "turn_open env 1 jid jobs" if "begin_session_turn env clock fresh op text rid (ts_jobs st) = Inr (jobs, jid)" for jid jobs rid
    using begin_turn_open [OF env _ _ _ _ _ paused that] st by (simp add: claimable_def)
  have "te_session_id env \<noteq> []" using env by (simp add: turn_env_ok_def Let_def)
  from claim_begins [OF claim this] begun show ?thesis by (fastforce simp: turn_open_def get_job_def)
qed

subsection \<open>Attaching a run\<close>

lemma update_same_turn:
  assumes env: "turn_env_ok env" and ok: "state_ok (te_jobs env) st" and j: "get_job i st = Some j"
    and patch: "patch_ok patch target" "target = None \<or> (\<exists>s \<in> set job_statuses. target = Some s)"
      "job_metadata (patch j) = job_metadata j"
  shows "\<exists>st' j'. update_job (te_jobs env) now i patch st = (st', Some j') \<and> state_ok (te_jobs env) st' \<and>
    get_job i st' = Some j' \<and> same_turn env (j\<lparr>run_ids := run_ids (patch j)\<rparr>) j' \<and> cancel_requested j' = cancel_requested (patch j) \<and>
    job_status j' = (case target of None \<Rightarrow> job_status j | Some s \<Rightarrow> s)"
proof -
  let ?je = "te_jobs env"
  let ?p = "(patch j)\<lparr>updated_at := now\<rparr>"
  from env have e: "env_ok ?je" by (simp add: turn_env_ok_def Let_def)
  from ok j have "job_status j \<in> set job_statuses" by (auto simp: get_job_Some state_ok_def job_ok_def dest: jobs_ok_at)
  then have "job_status ?p \<in> set job_statuses" "job_status ?p = (case target of None \<Rightarrow> job_status j | Some s \<Rightarrow> s)"
    using patch(1,2) by (auto simp: patch_ok_def split: option.splits)
  moreover have "same_turn env (j\<lparr>run_ids := run_ids (patch j)\<rparr>) (sanitize_job ?je ?p)"
    by (rule same_turn_sanitize) (simp_all add: patch(3))
  moreover have "cancel_requested (sanitize_job ?je ?p) = cancel_requested (patch j)" by (simp add: sanitize_job_def Let_def)
  ultimately show ?thesis
    using update_job_at [OF e ok j patch(1,2), of now] sanitize_status [OF e, of ?p] by auto
qed

lemma mark_finished_at:
  assumes env: "turn_env_ok env" and ok: "state_ok (te_jobs env) st" and j: "get_job i st = Some j"
    and s: "s \<in> set job_statuses" "transition_allowed (job_status j) s"
    and extra: "patch_ok extra None" "\<And>r. job_metadata (extra r) = job_metadata r \<and> run_ids (extra r) = run_ids r"
  shows "\<exists>st' r j'. mark_finished (te_jobs env) clock i s extra t m st = Inr (st', r) \<and> state_ok (te_jobs env) st' \<and>
    get_job i st' = Some j' \<and> same_turn env j j' \<and> job_status j' = s \<and>
    cancel_requested j' = cancel_requested (extra (j\<lparr>job_status := s, finished_at := clock 0\<rparr>))"
proof -
  let ?patch = "\<lambda>r. extra (r\<lparr>job_status := s, finished_at := clock 0\<rparr>)"
  have "patch_ok ?patch (Some s)" "job_metadata (?patch j) = job_metadata j" "run_ids (?patch j) = run_ids j"
    using extra by (simp_all add: patch_ok_def)
  with update_same_turn [OF env ok j this(1) _ this(2), of "clock 1"] s(1) obtain st' j' where
    upd: "update_job (te_jobs env) (clock 1) i ?patch st = (st', Some j')" "state_ok (te_jobs env) st'" "get_job i st' = Some j'"
      "same_turn env j j'" "job_status j' = s" "cancel_requested j' = cancel_requested (?patch j)"
    by (auto simp: same_turn_def)
  then show ?thesis using j s by (simp add: mark_finished_def check_transition_def py_require_def)
qed

lemma finish_turn_at:
  assumes env: "turn_env_ok env" and ok: "state_ok (te_jobs env) st" and j: "get_job i st = Some j"
    and s: "s = (if cancelled then ''cancelled'' else if run_ok then ''succeeded'' else ''failed'')"
  shows "\<exists>j'. state_ok (te_jobs env) (finish_turn env clock i run_id run_ok err cancelled st) \<and>
    get_job i (finish_turn env clock i run_id run_ok err cancelled st) = Some j' \<and> same_turn env j j' \<and>
    job_status j' = (if transition_allowed (job_status j) s then s else job_status j) \<and>
    (cancel_requested j' \<longrightarrow> cancel_requested j \<or> cancelled)"
proof -
  define extra :: "job \<Rightarrow> job" where
    "extra = (if cancelled then (\<lambda>r. r\<lparr>cancel_requested := True\<rparr>)
              else if run_ok then (\<lambda>r. r\<lparr>result_summary := [(''latest_run_id'', VStr run_id)]\<rparr>)
              else (\<lambda>r. r\<lparr>job_error := take 500 (str_or err ''agent_turn_failed''), result_summary := [(''latest_run_id'', VStr run_id)]\<rparr>))"
  have extra: "patch_ok extra None" "\<And>r. job_metadata (extra r) = job_metadata r \<and> run_ids (extra r) = run_ids r"
    by (auto simp: extra_def patch_ok_def)
  obtain t m where fin: "finish_turn env clock i run_id run_ok err cancelled st =
      (case mark_finished (te_jobs env) clock i s extra t m st of Inr (st, _) \<Rightarrow> st | Inl _ \<Rightarrow> st)"
    using that [of "''job_cancelled''" "''Agent turn cancelled''"] that [of "''job_succeeded''" "''Job succeeded''"]
      that [of "''job_failed''" "''Job failed: '' @ take 100 (take 500 (str_or err ''agent_turn_failed''))"]
    by (cases cancelled; cases run_ok)
      (simp_all add: finish_turn_def mark_cancelled_def mark_succeeded_def mark_failed_def Let_def s extra_def)
  show ?thesis
  proof (cases "transition_allowed (job_status j) s")
    case True
    have "s \<in> set job_statuses" by (simp add: s known_statuses)
    from mark_finished_at [OF env ok j this True extra] obtain st' r j' where
      "mark_finished (te_jobs env) clock i s extra t m st = Inr (st', r)" "state_ok (te_jobs env) st'"
      "get_job i st' = Some j'" "same_turn env j j'" "job_status j' = s"
      "cancel_requested j' = cancel_requested (extra (j\<lparr>job_status := s, finished_at := clock 0\<rparr>))" by blast
    with True fin show ?thesis by (simp add: extra_def)
  next
    case False
    then have "mark_finished (te_jobs env) clock i s extra t m st =
        Inl (ValueError (''invalid_transition: '' @ job_status j @ '' -> '' @ s))"
      using j by (simp add: mark_finished_def check_transition_def py_require_def)
    with False fin ok j same_turn_refl show ?thesis by auto
  qed
qed


lemma update_progress_at:
  assumes env: "turn_env_ok env" and ok: "state_ok (te_jobs env) st" and j: "get_job i st = Some j"
  shows "\<exists>j'. state_ok (te_jobs env) (update_progress (te_jobs env) clock i c w m s st) \<and>
    get_job i (update_progress (te_jobs env) clock i c w m s st) = Some j' \<and> same_turn env j j' \<and>
    job_status j' = job_status j \<and> cancel_requested j' = cancel_requested j"
proof -
  have upd: "\<exists>st' j'. update_job (te_jobs env) now i (\<lambda>r. r\<lparr>progress := p\<rparr>) st = (st', Some j') \<and>
      state_ok (te_jobs env) st' \<and> get_job i st' = Some j' \<and> same_turn env j j' \<and> job_status j' = job_status j \<and>
      cancel_requested j' = cancel_requested j" for now p
    using update_same_turn [OF env ok j, of "\<lambda>r. r\<lparr>progress := p\<rparr>" None now] by (auto simp: patch_ok_def same_turn_def)
  obtain p line where p: "update_progress (te_jobs env) clock i c w m s st =
      append_event_progress (te_jobs env) i ''job_progress'' line p
        (fst (update_job (te_jobs env) (clock 1) i (\<lambda>r. r\<lparr>progress := p\<rparr>) st))"
    using that j by (simp add: update_progress_def Let_def)
  from upd [of "clock 1" p] obtain st' j' where
    "update_job (te_jobs env) (clock 1) i (\<lambda>r. r\<lparr>progress := p\<rparr>) st = (st', Some j')"
    "state_ok (te_jobs env) st'" "get_job i st' = Some j'" "same_turn env j j'" "job_status j' = job_status j"
    "cancel_requested j' = cancel_requested j" by blast
  with p show ?thesis
    using state_ok_cong [of "append_event_progress (te_jobs env) i ''job_progress'' line p st'" st' "te_jobs env"] by simp
qed

lemma merge_run_id_at:
  assumes env: "turn_env_ok env" and ok: "state_ok (te_jobs env) st" and j: "get_job i st = Some j" and run: "run_id \<noteq> []"
  shows "\<exists>j'. state_ok (te_jobs env) (merge_run_id env clock i run_id n st) \<and>
    get_job i (merge_run_id env clock i run_id n st) = Some j' \<and>
    same_turn env (j\<lparr>run_ids := merged_run_ids env run_id j\<rparr>) j' \<and> job_status j' = job_status j \<and>
    cancel_requested j' = cancel_requested j"
proof -
  let ?ids = "merged_run_ids env run_id j"
  obtain arts traces started line where merge: "merge_run_id env clock i run_id n st =
      update_progress (te_jobs env) (\<lambda>k. clock (k + 1)) i (Some (int (length ?ids))) None line []
        (fst (update_job (te_jobs env) (clock 0) i
          (\<lambda>r. let r = r\<lparr>run_ids := ?ids, trace_ids := traces, output_artifacts := arts\<rparr>
               in if started \<noteq> [] then r\<lparr>started_at := started\<rparr> else r) st))"
    using that j run by (simp add: merge_run_id_def Let_def)
  let ?patch = "\<lambda>r. let r = r\<lparr>run_ids := ?ids, trace_ids := traces, output_artifacts := arts\<rparr>
               in if started \<noteq> [] then r\<lparr>started_at := started\<rparr> else r"
  have "patch_ok ?patch None" "job_metadata (?patch j) = job_metadata j" "run_ids (?patch j) = ?ids"
      "cancel_requested (?patch j) = cancel_requested j"
    by (simp_all add: patch_ok_def Let_def)
  with update_same_turn [OF env ok j this(1) _ this(2), of "clock 0"] obtain st1 j1 where st1:
    "update_job (te_jobs env) (clock 0) i ?patch st = (st1, Some j1)" "state_ok (te_jobs env) st1" "get_job i st1 = Some j1"
    "same_turn env (j\<lparr>run_ids := ?ids\<rparr>) j1" "job_status j1 = job_status j" "cancel_requested j1 = cancel_requested j"
    by (auto simp: Let_def)
  from update_progress_at [OF env st1(2,3)] obtain j2 where
    "state_ok (te_jobs env) (merge_run_id env clock i run_id n st)" "get_job i (merge_run_id env clock i run_id n st) = Some j2"
    "same_turn env j1 j2" "job_status j2 = job_status j1" "cancel_requested j2 = cancel_requested j1"
    by (metis merge st1(1) fst_conv)
  with st1 same_turn_trans show ?thesis by metis
qed

lemma find_existing:
  assumes "find_or_create_job env clock fresh op text st = Inr (st', jid)" "claimable env fresh st" "get_job jid st = Some j"
  shows "st' = st"
proof (rule ccontr)
  assume new: "st' \<noteq> st"
  have "jid = fresh"
  proof (cases "List.find (of_session (te_session_id env)) (list_jobs (te_jobs env) [] [] 500 st)")
    case (Some s)
    with assms(1) new have none: "job_id s = []" by (auto simp: find_or_create_job_def Let_def split: if_splits)
    from Some have "s \<in> set (list_jobs (te_jobs env) [] [] 500 st)" by (auto simp: find_Some_iff)
    then obtain i l where "(i, l) \<in> set (js_jobs st)" "s = sanitize_job (te_jobs env) l"
      by (auto simp: list_jobs_def dest!: in_set_takeD)
    with assms(2) none show ?thesis
      by (auto simp: claimable_def state_ok_def jobs_ok_def list_all_iff job_ok_def sanitize_job_def Let_def)
  next
    case None
    with assms(1) obtain res where "create_job (te_jobs env) clock (session_job_request env fresh op text) st = Inr (st', res)"
        "jid = (case res of Some j \<Rightarrow> job_id j | None \<Rightarrow> [])"
      by (auto simp: find_or_create_job_def py_bind_Inr)
    then show ?thesis
      using assms(2) by (auto simp: create_job_def session_job_request_def store_create_def sanitize_job_def new_job_def
          claimable_def Let_def split: option.splits if_splits)
  qed
  with assms(2,3) show False by (simp add: claimable_def get_job_def)
qed

lemma same_turn_ids: "same_turn env j j' \<Longrightarrow> same_turn env (j\<lparr>run_ids := m\<rparr>) (j'\<lparr>run_ids := m\<rparr>)"
  by (simp add: same_turn_def active_turn_def)

lemma add_new_extends: "set (add_new xs ys) = set xs \<union> set ys \<and> (\<exists>zs. add_new xs ys = xs @ zs) \<and>
  (distinct xs \<longrightarrow> distinct (add_new xs ys))"
proof (induction ys arbitrary: xs)
  case (Cons y ys)
  have "add_new xs (y # ys) = add_new (if y \<in> set xs then xs else xs @ [y]) ys" by (simp add: add_new_def)
  with Cons.IH [of "if y \<in> set xs then xs else xs @ [y]"] show ?case by auto
qed (simp add: add_new_def)

lemma merged_run_ids_extends:
  "run_id \<in> set (merged_run_ids env run_id j)" "\<exists>zs. merged_run_ids env run_id j = run_ids j @ zs"
  "distinct (run_ids j) \<Longrightarrow> distinct (merged_run_ids env run_id j)"
proof -
  define ids where "ids = add_new (run_ids j)
    (texts_of (list_of (vget (case te_session env of None \<Rightarrow> [] | Some s \<Rightarrow> s) ''run_ids'')))"
  have m: "merged_run_ids env run_id j = add_new ids [run_id]" by (simp add: merged_run_ids_def ids_def)
  from add_new_extends [of "run_ids j"] obtain us where us: "ids = run_ids j @ us" "distinct (run_ids j) \<longrightarrow> distinct ids"
    unfolding ids_def by blast
  from add_new_extends [of ids "[run_id]"] obtain vs where
    vs: "add_new ids [run_id] = ids @ vs" "set (add_new ids [run_id]) = set ids \<union> {run_id}"
      "distinct ids \<longrightarrow> distinct (add_new ids [run_id])"
    by auto
  show "run_id \<in> set (merged_run_ids env run_id j)" using vs(2) by (simp add: m)
  show "\<exists>zs. merged_run_ids env run_id j = run_ids j @ zs" using vs(1) us(1) by (intro exI [of _ "us @ vs"]) (simp add: m)
  show "distinct (run_ids j) \<Longrightarrow> distinct (merged_run_ids env run_id j)" using us(2) vs(3) by (simp add: m)
qed

lemma attach_at:
  assumes env: "turn_env_ok env" and st: "claimable env fresh st"
    and call: "attach_run_to_session_job env clock fresh op run_id n text run_ok err st = Inr (st', jid)"
    and j: "get_job jid st = Some j" and run: "run_id \<noteq> []"
    and clean: "list_all (\<lambda>r. je_clean (te_jobs env) r = r) (merged_run_ids env run_id j)"
  shows "\<exists>j'. get_job jid st' = Some j' \<and> same_turn env (j\<lparr>run_ids := merged_run_ids env run_id j\<rparr>) j' \<and>
    job_status j' = (if cancel_requested j
                     then (if transition_allowed (job_status j) ''cancelled'' then ''cancelled'' else job_status j)
                     else if run_ok then ''succeeded'' else ''failed'') \<and>
    (cancel_requested j' \<longrightarrow> cancel_requested j)"
proof -
  let ?je = "te_jobs env" and ?m = "merged_run_ids env run_id j"
  from env have "te_session_id env \<noteq> []" by (simp add: turn_env_ok_def Let_def)
  moreover have "jid \<noteq> []" using j by (auto simp: get_job_def split: if_splits)
  ultimately obtain st0 where "find_or_create_job env clock fresh op text st = Inr (st0, jid)"
    using call by (auto simp: attach_run_to_session_job_def py_bind_Inr Let_def split: if_splits)
  with find_existing [OF this st j] have found: "find_or_create_job env clock fresh op text st = Inr (st, jid)" by simp
  from st have ok: "state_ok ?je st" by (simp add: claimable_def)
  from find_or_create_at [OF env ok _ _ _ found] st j have belongs: "belongs env j" by (simp add: claimable_def)
  have paused: "job_status j \<noteq> ''paused''"
    using st j by (auto simp: claimable_def list_all_iff get_job_Some dest!: map_of_SomeD)
  define st1 where "st1 = (if cancel_requested j then st else ensure_running env (\<lambda>k. clock (k + 3)) jid st)"
  obtain j1 where j1: "state_ok ?je st1" "get_job jid st1 = Some j1" "same_turn env j j1"
      "job_status j1 = (if cancel_requested j then job_status j else ''running'')" "cancel_requested j1 \<longrightarrow> cancel_requested j"
    using ensure_running_at [OF env ok j belongs paused, of "\<lambda>k. clock (k + 3)"] ok j same_turn_refl
    by (cases "cancel_requested j") (auto simp: st1_def)
  obtain zs where "?m = run_ids j @ zs" using merged_run_ids_extends(2) by blast
  with clean have "list_all (\<lambda>r. je_clean ?je r = r) (run_ids j)" by simp
  with j1(3) have "run_ids j1 = run_ids j" by (simp add: same_turn_def)
  then have ids: "merged_run_ids env run_id j1 = ?m" by (simp add: merged_run_ids_def)
  from merge_run_id_at [OF env j1(1,2) run, of "\<lambda>k. clock (k + 6)" n] obtain j2 where
    j2: "state_ok ?je (merge_run_id env (\<lambda>k. clock (k + 6)) jid run_id n st1)"
      "get_job jid (merge_run_id env (\<lambda>k. clock (k + 6)) jid run_id n st1) = Some j2"
      "same_turn env (j1\<lparr>run_ids := ?m\<rparr>) j2" "job_status j2 = job_status j1" "cancel_requested j2 = cancel_requested j1"
    by (auto simp: ids)
  have st': "st' = finish_turn env (\<lambda>k. clock (k + 9)) jid run_id run_ok err (cancel_requested j)
      (merge_run_id env (\<lambda>k. clock (k + 6)) jid run_id n st1)"
    using call found j \<open>jid \<noteq> []\<close> \<open>te_session_id env \<noteq> []\<close>
    by (simp add: attach_run_to_session_job_def Let_def st1_def)
  obtain j3 where j3: "get_job jid st' = Some j3" "same_turn env j2 j3"
    "job_status j3 = (let s = (if cancel_requested j then ''cancelled'' else if run_ok then ''succeeded'' else ''failed'')
        in if transition_allowed (job_status j2) s then s else job_status j2)"
    "cancel_requested j3 \<longrightarrow> cancel_requested j2 \<or> cancel_requested j"
    using finish_turn_at [where cancelled = "cancel_requested j" and run_ok = run_ok and clock = "\<lambda>k. clock (k + 9)"
        and run_id = run_id and err = err, OF env j2(1,2) refl]
    unfolding st' [symmetric] Let_def by blast
  have "transition_allowed ''running'' ''succeeded''" "transition_allowed ''running'' ''failed''" by code_simp+
  with j3(3) j2(4) j1(4) have "job_status j3 = (if cancel_requested j
      then (if transition_allowed (job_status j) ''cancelled'' then ''cancelled'' else job_status j)
      else if run_ok then ''succeeded'' else ''failed'')"
    by (simp add: Let_def)
  moreover have "same_turn env (j\<lparr>run_ids := ?m\<rparr>) j3"
    using same_turn_trans [OF same_turn_trans [OF same_turn_ids [OF j1(3)] j2(3)] j3(2)] .
  ultimately show ?thesis using j3(1,4) j2(5) j1(5) by auto
qed

text \<open>A claim raises only on a request id that is too long.\<close>

lemma begin_returns: "\<exists>jobs jid. begin_session_turn env clock fresh op text rid st = Inr (jobs, jid)"
proof -
  have "\<exists>st' res. create_job (te_jobs env) clock (session_job_request env fresh op text) st = Inr (st', res)"
    by (simp add: create_job_def session_job_request_def enabled_job_types_def split: prod.split option.split)
  then have "\<exists>st' k. find_or_create_job env clock fresh op text st = Inr (st', k)"
    by (auto simp: find_or_create_job_def Let_def)
  then show ?thesis by (auto simp: begin_session_turn_def Let_def split: option.split)
qed

lemma claim_returns:
  assumes "length (strip crid) \<le> 256"
  shows "\<exists>st' c. claim_session_turn env pc clock fresh eph op text crid st = Inr (st', c)"
proof -
  have "\<exists>st' c. accept_turn env clock fresh eph op text rid s = Inr (st', c)" for rid s
    using begin_returns [of env clock fresh op "text" rid "ts_jobs s"] by (auto simp: accept_turn_def Let_def)
  then show ?thesis
    using assms begin_returns [of env clock fresh op "text" "[]" "ts_jobs st"]
    by (auto simp: claim_session_turn_def Let_def split: option.split)
qed

subsection \<open>Properties\<close>

text \<open>C32: the registry of requests stays bounded, and forgets only what it may. A prune at a readable time leaves at
  most 256 terminal records, all within the retention time, and no unreadable file; a running record whose job still
  runs its turn is kept as it is; and a terminal record within the retention time is dropped only when 256 terminal
  records, none older than it, are kept.\<close>

theorem registry_pruned:
  assumes "registry_ok reg" "record_timestamp env [(''updated_at'', VStr (clock 0))] = Some now"
    "reg' = prune_registry env clock jobs reg"
  shows "registry_ok reg' \<and> length (terminal_records reg') \<le> registry_limit \<and>
    (\<forall>f r. (f, r) \<in> set reg' \<longrightarrow> r \<noteq> [] \<and> (record_terminal r \<longrightarrow> fresh_record env (now - registry_ttl) r)) \<and>
    (\<forall>f r. (f, r) \<in> set reg \<longrightarrow> text_at r ''status'' = ''running'' \<longrightarrow>
       projected_status env (text_at r ''client_request_id'') (get_job (text_at r ''job_id'') jobs) = None \<longrightarrow>
       (f, r) \<in> set reg') \<and>
    (\<forall>f r. (f, r) \<in> set reg \<longrightarrow> record_terminal r \<longrightarrow> fresh_record env (now - registry_ttl) r \<longrightarrow> (f, r) \<notin> set reg' \<longrightarrow>
       length (terminal_records reg') = registry_limit \<and>
       (\<forall>k \<in> set (terminal_records reg'). stamp env r \<le> stamp env (snd k)))"
proof -
  let ?cut = "now - registry_ttl"
  define sw where "sw = sweep_registry env (\<lambda>k. clock (k + 1)) jobs ?cut reg"
  have reg': "reg' = drop_excess env sw" using assms(2,3) by (simp add: prune_registry_def sw_def)
  have ok: "registry_ok sw" using sweep_distinct [OF assms(1)] by (simp add: sw_def)
  have sub: "set reg' \<subseteq> set sw" by (auto simp: reg' drop_excess_eq)
  have keep: "\<exists>ck. let r' = reconcile_record env ck jobs (text_at r ''client_request_id'') r in
      (record_terminal r' \<longrightarrow> fresh_record env ?cut r') \<longrightarrow> (f, r') \<in> set sw" if "(f, r) \<in> set reg" "r \<noteq> []" for f r
    using sweep_keeps [OF that, of env jobs ?cut "\<lambda>k. clock (k + 1)"] by (simp add: sw_def)
  have nonempty: "r \<noteq> []" if "text_at r ''status'' \<noteq> []" for r :: pydict
    using that by (auto simp: text_at_def vget_def vget_or_def)
  have "registry_ok reg'" using ok by (simp add: reg' drop_excess_eq registry_ok_filter)
  moreover have "length (terminal_records reg') \<le> registry_limit"
    using kept_terminal [OF ok, of env] by (metis diff_diff_cancel length_drop nat_le_linear reg' size_mset diff_is_0_eq diff_zero)
  moreover have "r \<noteq> [] \<and> (record_terminal r \<longrightarrow> fresh_record env ?cut r)" if "(f, r) \<in> set reg'" for f r
  proof -
    from that sub have "(f, r) \<in> set (sweep_registry env (\<lambda>k. clock (k + 1)) jobs ?cut reg)" by (auto simp: sw_def)
    from sweep_member [OF this] obtain r0 ck where r0: "r0 \<noteq> []"
      "r = reconcile_record env ck jobs (text_at r0 ''client_request_id'') r0" "record_terminal r \<longrightarrow> fresh_record env ?cut r"
      by blast
    then show ?thesis using reconcile_nonempty [OF r0(1)] by simp
  qed
  moreover have "(f, r) \<in> set reg'" if "(f, r) \<in> set reg" "text_at r ''status'' = ''running''"
      "projected_status env (text_at r ''client_request_id'') (get_job (text_at r ''job_id'') jobs) = None" for f r
  proof -
    have "reconcile_record env ck jobs (text_at r ''client_request_id'') r = r" for ck
      using that(2,3) by (simp add: reconcile_record_def)
    moreover have "\<not> record_terminal r" using that(2) by (simp add: record_terminal_def registry_terminal_def)
    ultimately show ?thesis
      using keep [OF that(1) nonempty] that(2) drop_excess_running [of "(f, r)" sw env] ok by (simp add: reg')
  qed
  moreover have "length (terminal_records reg') = registry_limit \<and>
       (\<forall>k \<in> set (terminal_records reg'). stamp env r \<le> stamp env (snd k))"
    if "(f, r) \<in> set reg" "record_terminal r" "fresh_record env ?cut r" "(f, r) \<notin> set reg'" for f r
  proof -
    have "r \<noteq> []" using that(2) by (intro nonempty) (auto simp: record_terminal_def registry_terminal_def)
    from keep [OF that(1) this] that(2,3) have "(f, r) \<in> set sw" by (simp add: terminal_fixed)
    then have "(f, r) \<in> set (terminal_records sw)" using that(2) by (simp add: terminal_records_def)
    from dropped_older [OF ok this] that(4) show ?thesis by (simp add: reg')
  qed
  ultimately show ?thesis by blast
qed



text \<open>The progress of a turn is one of four steps, never goes back, and its record stays bounded. After any events
  the job runs at a step from 1 to 4, each worth 25 per cent, and its turn holds at most 80 events and 24 tool calls;
  further events only move the step forward.\<close>

theorem turn_progress_monotone:
  assumes "turn_env_ok env" "claimable env fresh (ts_jobs st)"
    "claim_session_turn env p1 k1 fresh eph op text crid st = Inr (st1, c1)" "should_execute c1"
  shows "\<exists>step step' j j'.
    get_job (tc_job c1) (persist_stages env (tc_job c1) es (ts_jobs st1)) = Some j \<and> turn_at env step j \<and>
    get_job (tc_job c1) (persist_stages env (tc_job c1) (es @ es') (ts_jobs st1)) = Some j' \<and> turn_at env step' j' \<and>
    step \<le> step'"
proof -
  let ?s = "persist_stages env (tc_job c1) es (ts_jobs st1)"
  obtain step where "turn_open env step (tc_job c1) ?s"
    using stages_keep_open [OF assms(1) claimed_turn_open [OF assms], of es] by blast
  moreover from stages_keep_open [OF assms(1) this, of es'] obtain step' where
    "turn_open env step' (tc_job c1) (persist_stages env (tc_job c1) (es @ es') (ts_jobs st1))" "step \<le> step'"
    by (auto simp: persist_stages_def)
  ultimately show ?thesis by (auto simp: turn_open_def)
qed

text \<open>How a finished run is attached. The job of the session keeps the runs it had, in order, and gains the run (with
  those the session lists) without a repetition; it ends \<open>succeeded\<close> or \<open>failed\<close> as the run did. When the user
  cancelled, it is never started again: it ends \<open>cancelled\<close> where the table allows that, and keeps its status where
  not.\<close>

theorem attached_run_settles_job:
  assumes "turn_env_ok env" "claimable env fresh st" "run_id \<noteq> []" "get_job jid st = Some j"
    "list_all (\<lambda>r. je_clean (te_jobs env) r = r) (merged_run_ids env run_id j)"
    "attach_run_to_session_job env clock fresh op run_id n text run_ok err st = Inr (st', jid)"
  shows "\<exists>j' more. get_job jid st' = Some j' \<and> run_ids j' = run_ids j @ more \<and> run_id \<in> set (run_ids j') \<and>
    (distinct (run_ids j) \<longrightarrow> distinct (run_ids j')) \<and>
    job_status j' = (if cancel_requested j
                     then (if transition_allowed (job_status j) ''cancelled'' then ''cancelled'' else job_status j)
                     else if run_ok then ''succeeded'' else ''failed'')"
proof -
  from attach_at [OF assms(1,2,6,4,3,5)] obtain j' where j': "get_job jid st' = Some j'"
    "same_turn env (j\<lparr>run_ids := merged_run_ids env run_id j\<rparr>) j'"
    "job_status j' = (if cancel_requested j
       then (if transition_allowed (job_status j) ''cancelled'' then ''cancelled'' else job_status j)
       else if run_ok then ''succeeded'' else ''failed'')"
    by blast
  have "run_ids j' = merged_run_ids env run_id j" using j'(2) assms(5) by (simp add: same_turn_def)
  with merged_run_ids_extends [where run_id = run_id and env = env and j = j] j'(1,3) show ?thesis by metis
qed

text \<open>C37: attaching a run late closes the wrong turn. The transport closes a turn in three calls without the session's
  lock: the snapshot, the record of the request, the attachment. When the next turn of the session began in between,
  the attachment of the first run makes the job \<open>succeeded\<close> while that turn runs: the next look at its request projects it
  as succeeded, and it no longer refuses another claim.\<close>

theorem late_attachment_closes_next_turn:
  assumes "turn_env_ok env" "claimable env fresh st" "run_id \<noteq> []" "get_job jid st = Some j" "turn_at env step j"
    "list_all (\<lambda>r. je_clean (te_jobs env) r = r) (merged_run_ids env run_id j)" "\<not> cancel_requested j"
    "vget (active_turn j) ''client_request_id'' = VStr rid" "je_clean (te_jobs env) rid = rid"
    "attach_run_to_session_job env clock fresh op run_id n text True err st = Inr (st', jid)"
  shows "\<exists>j'. get_job jid st' = Some j' \<and> vget (active_turn j') ''status'' = VStr ''running'' \<and>
    projected_status env rid (Some j') = Some (''succeeded'', []) \<and>
    (\<forall>c. running_turn env st' = Some c \<longrightarrow> tc_job c \<noteq> jid)"
proof -
  from attach_at [OF assms(1,2,10,4,3,6)] assms(7) obtain j' where j': "get_job jid st' = Some j'"
    "same_turn env (j\<lparr>run_ids := merged_run_ids env run_id j\<rparr>) j'" "job_status j' = ''succeeded''" "\<not> cancel_requested j'"
    by auto
  have "je_clean (te_jobs env) ''running'' = ''running''"
    using assms(1) known_statuses(2) by (simp add: turn_env_ok_def Let_def env_ok_def list_all_iff)
  with j'(2) assms(5,8,9) have turn: "vget (active_turn j') ''status'' = VStr ''running''"
    "vget (active_turn j') ''client_request_id'' = VStr rid"
    by (simp_all add: same_turn_def turn_at_def active_turn_def)
  then have "projected_status env rid (Some j') = Some (''succeeded'', [])"
    using j'(3,4) by (simp add: projected_status_def text_at_def)
  moreover have "tc_job c \<noteq> jid" if "running_turn env st' = Some c" for c
    using that j'(1,3) by (auto simp: running_turn_def dest!: first_some_Some split: if_splits option.splits)
  ultimately show ?thesis using j'(1) turn(1) by blast
qed

text \<open>A concrete session for the witnesses: the time of \<open>''t5''\<close> is day 5.\<close>

definition demo_turn_labels :: turn_labels where
  "demo_turn_labels = \<lparr>lb_cancelled = ''cancelled'', lb_failed = ''failed'', lb_cancelled_message = ''cancelled.'',
     tl_understand = ''understand'', tl_evidence = ''evidence'', tl_analyse = ''analyse'', tl_advise = ''advise'',
     tl_prefix = ''now '', tl_rounds = (\<lambda>n k. int_str (int n) @ '' rounds '' @ int_str k)\<rparr>"

definition demo_turn_env :: turn_env where
  "demo_turn_env = \<lparr>te_jobs = demo_env\<lparr>je_session_dir := (\<lambda>_. True)\<rparr>, te_labels = demo_turn_labels,
     te_session_id = ''s1'', te_digest = (\<lambda>s. CHR ''#'' # s),
     te_time = (\<lambda>s. map_option ((*) 86400) (parse_int (drop 1 s))), te_session = None, te_run = (\<lambda>_. None)\<rparr>"

definition demo_turns :: turn_state where
  "demo_turns = \<lparr>ts_jobs = demo_queued, ts_registry = [], ts_inputs = []\<rparr>"

lemma demo_turn_ok: "turn_env_ok demo_turn_env" "claimable demo_turn_env ''j2'' (ts_jobs demo_turns)"
proof -
  have "env_ok (te_jobs demo_turn_env)" by (simp add: env_ok_def list_all_iff demo_turn_env_def demo_env_def)
  then show "turn_env_ok demo_turn_env"
    by (simp add: turn_env_ok_def demo_turn_env_def demo_env_def session_exists_def Let_def)
  have "state_ok (te_jobs demo_turn_env) demo_queued"
  proof -
    have "job_ok (te_jobs demo_turn_env) ''j1'' demo_job"
      by (simp add: job_ok_def demo_job_def demo_turn_env_def demo_env_def job_statuses_def)
    moreover have "js_stats demo_queued = workspace_stats (te_jobs demo_turn_env) demo_queued" by code_simp
    ultimately show ?thesis by (simp add: state_ok_def jobs_ok_def demo_jobs(1)) (simp add: demo_queued_def)
  qed
  then show "claimable demo_turn_env ''j2'' (ts_jobs demo_turns)"
    by (simp add: claimable_def demo_turns_def demo_jobs(1)) (simp add: demo_turn_env_def demo_env_def demo_job_def)
qed

text \<open>Records whose keys are all plain, where no text is scrubbed: sanitizing leaves them as they are.\<close>

definition turn_keys :: "string list" where
  "turn_keys = [''client_request_id'', ''session_id'', ''status'', ''stage'', ''stage_label'', ''started_at'', ''updated_at'',
     ''events'', ''tool_calls'', ''run_id'', ''trace_id'', ''error'', ''current'', ''total'', ''percent'', ''message'',
     ''current_step'', ''active_turn'']"

fun plain :: "pyval \<Rightarrow> bool" where
  "plain (VDict d) = (\<forall>(k, v) \<in> set d. k \<in> set turn_keys \<and> plain v)"
| "plain (VList xs) = (\<forall>x \<in> set xs. plain x)"
| "plain v = True"

lemma turn_keys_mask: "k \<in> set turn_keys \<Longrightarrow> mask_value k v = None"
proof -
  have "list_all plain_key turn_keys" by code_simp
  then show "k \<in> set turn_keys \<Longrightarrow> mask_value k v = None" by (auto simp: list_all_iff plain_mask)
qed

lemma plain_sanitize: "plain v \<Longrightarrow> deep_sanitize (\<lambda>s. s) v = v"
proof (induction v rule: plain.induct)
  case (1 d)
  have "(\<lambda>(k, v). (k, case mask_value k v of None \<Rightarrow> deep_sanitize (\<lambda>s. s) v | Some w \<Rightarrow> w)) e = e" if "e \<in> set d" for e
    using 1 that by (cases e) (fastforce simp: turn_keys_mask)
  then show ?case by (simp add: map_idI)
qed (auto intro: map_idI)

lemma plain_sanitize_job:
  assumes "je_clean env = (\<lambda>s. s)" "plain (VDict (progress j))" "plain (VDict (payload j))" "plain (VDict (result_summary j))"
    "plain (VDict (job_metadata j))"
  shows "sanitize_job env j = j"
  using assms plain_sanitize by (simp add: sanitize_job_def Let_def sanitize_dict_def del: plain.simps deep_sanitize.simps)

definition demo_session_job :: job where
  "demo_session_job = demo_job\<lparr>job_id := ''j2'', job_type := ''agent_run'', job_title := ''hello'', job_status := ''running'',
     payload := [(''session_id'', VStr ''s1'')], created_by := ''api'',
     progress := turn_progress 1 ''now understand'' ''understand'' ''t5'',
     created_at := ''t5'', updated_at := ''t5'', started_at := ''t5'',
     job_metadata := [(''active_turn'', VDict (fresh_turn demo_turn_env (\<lambda>_. ''t5'') ''r1''))]\<rparr>"

lemma demo_list: "list_jobs (te_jobs demo_turn_env) [] [] 500 demo_queued = [demo_job]"
  by code_simp

definition demo_new :: job where
  "demo_new = new_job (te_jobs demo_turn_env) (\<lambda>_. ''t5'') (session_job_request demo_turn_env ''j2'' None ''hello'')"

lemma demo_plain: "sanitize_job (te_jobs demo_turn_env) demo_new = demo_new"
  by (rule plain_sanitize_job) (simp_all add: demo_turn_env_def demo_env_def demo_new_def new_job_def session_job_request_def
    initial_progress_def turn_keys_def)

lemma demo_find: "\<exists>st. find_or_create_job demo_turn_env (\<lambda>_. ''t5'') ''j2'' None ''hello'' demo_queued = Inr (st, ''j2'') \<and>
   get_job ''j2'' st = Some demo_new"
proof -
  obtain st r where st: "store_create (te_jobs demo_turn_env) demo_new demo_queued = (st, r)" by fastforce
  from store_create_effect [OF st] have r: "r = demo_new" "js_jobs st = AList.update ''j2'' demo_new (js_jobs demo_queued)"
    by (simp_all add: demo_plain) (simp add: demo_new_def new_job_def session_job_request_def)
  have "create_job (te_jobs demo_turn_env) (\<lambda>_. ''t5'') (session_job_request demo_turn_env ''j2'' None ''hello'') demo_queued =
      Inr (st, Some demo_new)"
    using st r by (simp add: create_job_def session_job_request_def enabled_job_types_def flip: demo_new_def [unfolded session_job_request_def])
  moreover have "List.find (of_session (te_session_id demo_turn_env)) [demo_job] = None"
    by (simp add: of_session_def demo_job_def vget_def vget_or_def)
  moreover have "job_id demo_new = ''j2''" by (simp add: demo_new_def new_job_def session_job_request_def)
  ultimately show ?thesis using r(2) by (simp add: find_or_create_job_def demo_list get_job_def map_of_update_iff)
qed

lemma demo_update:
  assumes "get_job i st = Some j" "plain (VDict (progress (patch j)))" "plain (VDict (payload (patch j)))"
    "plain (VDict (result_summary (patch j)))" "plain (VDict (job_metadata (patch j)))"
  shows "\<exists>st'. update_job (te_jobs demo_turn_env) now i patch st = (st', Some ((patch j)\<lparr>updated_at := now\<rparr>)) \<and>
    get_job i st' = Some ((patch j)\<lparr>updated_at := now\<rparr>)"
proof -
  have "sanitize_job (te_jobs demo_turn_env) ((patch j)\<lparr>updated_at := now\<rparr>) = (patch j)\<lparr>updated_at := now\<rparr>"
    by (rule plain_sanitize_job) (use assms(2-5) in \<open>simp_all add: demo_turn_env_def demo_env_def\<close>)
  with assms(1) show ?thesis by (simp add: update_job_def Let_def get_job_def map_of_update_iff split: if_splits)
qed

lemma demo_ensure:
  assumes "get_job ''j2'' st = Some demo_new"
  shows "get_job ''j2'' (ensure_running demo_turn_env (\<lambda>_. ''t5'') ''j2'' st) =
    Some (demo_new\<lparr>job_status := ''running'', started_at := ''t5''\<rparr>)"
proof -
  note fields = demo_new_def new_job_def session_job_request_def initial_progress_def turn_keys_def
  let ?p1 = "\<lambda>j :: job. j\<lparr>job_status := ''running''\<rparr>"
  let ?p2 = "\<lambda>r :: job. r\<lparr>started_at := ''t5'', finished_at := [], job_error := [], cancel_requested := False\<rparr>"
  obtain st1 where st1: "update_job (te_jobs demo_turn_env) ''t5'' ''j2'' ?p1 st = (st1, Some ((?p1 demo_new)\<lparr>updated_at := ''t5''\<rparr>))"
    "get_job ''j2'' st1 = Some ((?p1 demo_new)\<lparr>updated_at := ''t5''\<rparr>)"
    using demo_update [OF assms, of ?p1 "''t5''"] by (auto simp: fields)
  let ?st1 = "append_event (te_jobs demo_turn_env) ''j2'' ''job_started'' ''Job started'' st1"
  have "get_job ''j2'' ?st1 = Some ((?p1 demo_new)\<lparr>updated_at := ''t5''\<rparr>)" using st1(2) by simp
  from demo_update [OF this, of ?p2 "''t5''"] obtain st2 where st2:
    "update_job (te_jobs demo_turn_env) ''t5'' ''j2'' ?p2 ?st1 = (st2, Some ((?p2 ((?p1 demo_new)\<lparr>updated_at := ''t5''\<rparr>))\<lparr>updated_at := ''t5''\<rparr>))"
    "get_job ''j2'' st2 = Some ((?p2 ((?p1 demo_new)\<lparr>updated_at := ''t5''\<rparr>))\<lparr>updated_at := ''t5''\<rparr>)"
    by (auto simp: fields)
  have "job_status demo_new = ''created''" by (simp add: fields)
  with assms st1(1) st2(1) startable [of "''created''"] have "ensure_running demo_turn_env (\<lambda>_. ''t5'') ''j2'' st = st2"
    by (simp add: ensure_running_def mark_running_def check_transition_def py_require_def transition_job_def Let_def)
  with st2(2) show ?thesis by (simp add: fields)
qed

lemma demo_begin: "\<exists>st. begin_session_turn demo_turn_env (\<lambda>_. ''t5'') ''j2'' None ''hello'' ''r1'' demo_queued = Inr (st, ''j2'') \<and>
   get_job ''j2'' st = Some demo_session_job"
proof -
  obtain st where st: "find_or_create_job demo_turn_env (\<lambda>_. ''t5'') ''j2'' None ''hello'' demo_queued = Inr (st, ''j2'')"
    "get_job ''j2'' st = Some demo_new" using demo_find by blast
  define st1 where "st1 = ensure_running demo_turn_env (\<lambda>_. ''t5'') ''j2'' st"
  define j1 where "j1 = demo_new\<lparr>job_status := ''running'', started_at := ''t5''\<rparr>"
  have j1: "get_job ''j2'' st1 = Some j1" using demo_ensure [OF st(2)] by (simp add: st1_def j1_def)
  note fields = j1_def demo_new_def new_job_def session_job_request_def initial_progress_def
  let ?md = "[(''active_turn'', VDict (fresh_turn demo_turn_env (\<lambda>_. ''t5'') ''r1''))]"
  let ?patch = "\<lambda>r :: job. r\<lparr>job_metadata := ?md, progress := turn_progress 1 ''now understand'' ''understand'' ''t5''\<rparr>"
  from demo_update [OF j1, of ?patch "''t5''"] obtain st2 where st2:
    "update_job (te_jobs demo_turn_env) ''t5'' ''j2'' ?patch st1 = (st2, Some ((?patch j1)\<lparr>updated_at := ''t5''\<rparr>))"
    "get_job ''j2'' st2 = Some ((?patch j1)\<lparr>updated_at := ''t5''\<rparr>)"
    by (auto simp: fields fresh_turn_def turn_progress_def turn_keys_def)
  have "AList.update ''active_turn'' (VDict (fresh_turn demo_turn_env (\<lambda>_. ''t5'') ''r1'')) (job_metadata j1) = ?md"
    by (simp add: fields)
  moreover have "tl_prefix (te_labels demo_turn_env) @ tl_understand (te_labels demo_turn_env) = ''now understand''"
    "tl_understand (te_labels demo_turn_env) = ''understand''" "te_session_id demo_turn_env = ''s1''"
    by (simp_all add: demo_turn_env_def demo_turn_labels_def)
  ultimately have "begin_session_turn demo_turn_env (\<lambda>_. ''t5'') ''j2'' None ''hello'' ''r1'' demo_queued = Inr (st2, ''j2'')"
    using st(1) j1 st2(1) by (simp add: begin_session_turn_def Let_def st1_def)
  moreover have "(?patch j1)\<lparr>updated_at := ''t5''\<rparr> = demo_session_job"
    by (simp add: fields demo_session_job_def demo_job_def demo_turn_env_def demo_env_def job_title_for_def line_feed_to_space_def str_or_def)
  ultimately show ?thesis using st2(2) by auto
qed

lemma demo_first_claim: "\<exists>st. claim_session_turn demo_turn_env (\<lambda>_. ''t5'') (\<lambda>_. ''t5'') ''j2'' ''e1'' None ''hello'' ''r1'' demo_turns =
    Inr (st, blank_claim\<lparr>tc_job := ''j2''\<rparr>) \<and> ts_registry st = [(''#r1'', request_record demo_turn_env (\<lambda>_. ''t5'') ''r1'' ''hello'' ''j2'')] \<and>
    get_job ''j2'' (ts_jobs st) = Some demo_session_job"
proof -
  obtain jobs where jobs: "begin_session_turn demo_turn_env (\<lambda>_. ''t5'') ''j2'' None ''hello'' ''r1'' demo_queued = Inr (jobs, ''j2'')"
    "get_job ''j2'' jobs = Some demo_session_job" using demo_begin by blast
  have "running_turn demo_turn_env demo_queued = None"
    unfolding running_turn_def demo_list by (simp add: demo_job_def demo_turn_env_def)
  moreover have "prune_registry demo_turn_env (\<lambda>_. ''t5'') demo_queued [] = []"
    by (simp add: prune_registry_def drop_excess_def split: option.split)
  moreover have "strip ''r1'' = ''r1''" by code_simp
  moreover have "te_session_id demo_turn_env = ''s1''" "te_digest demo_turn_env ''r1'' = ''#r1''"
    by (simp_all add: demo_turn_env_def)
  ultimately show ?thesis
    using jobs by (simp add: claim_session_turn_def accept_turn_def demo_turns_def Let_def blank_claim_def)
qed


theorem turn_progress_monotone_witness:
  "\<exists>st1 step j. claim_session_turn demo_turn_env (\<lambda>_. ''t5'') (\<lambda>_. ''t5'') ''j2'' ''e1'' None ''hello'' ''r1'' demo_turns =
       Inr (st1, blank_claim\<lparr>tc_job := ''j2''\<rparr>) \<and>
     get_job ''j2'' (persist_stages demo_turn_env ''j2'' [(\<lambda>_. ''t6'', [(''type'', VStr ''tool_call'')])] (ts_jobs st1)) = Some j \<and>
     turn_at demo_turn_env step j"
proof -
  obtain st1 where st1: "claim_session_turn demo_turn_env (\<lambda>_. ''t5'') (\<lambda>_. ''t5'') ''j2'' ''e1'' None ''hello'' ''r1'' demo_turns =
      Inr (st1, blank_claim\<lparr>tc_job := ''j2''\<rparr>)" using demo_first_claim by blast
  have e: "should_execute (blank_claim\<lparr>tc_job := ''j2''\<rparr>)" by (simp add: blank_claim_def)
  from turn_progress_monotone [OF demo_turn_ok st1 e, of "[(\<lambda>_. ''t6'', [(''type'', VStr ''tool_call'')])]" "[]"] st1
  show ?thesis by (simp add: blank_claim_def) blast
qed


theorem registry_pruned_witness:
  "prune_registry demo_turn_env (\<lambda>_. ''t9'') demo_running
     [(''a'', []), (''b'', [(''status'', VStr ''failed''), (''finished_at'', VStr ''t1'')]),
      (''c'', [(''status'', VStr ''failed''), (''finished_at'', VStr ''t5'')])] =
     [(''c'', [(''status'', VStr ''failed''), (''finished_at'', VStr ''t5'')])] \<and>
   length (terminal_records [(''c'', [(''status'', VStr ''failed''), (''finished_at'', VStr ''t5'')])]) \<le> registry_limit"
proof -
  let ?reg = "[(''a'', []), (''b'', [(''status'', VStr ''failed''), (''finished_at'', VStr ''t1'')]),
      (''c'', [(''status'', VStr ''failed''), (''finished_at'', VStr ''t5'')])]"
  have ok: "registry_ok ?reg" by (simp add: registry_ok_def)
  have now: "record_timestamp demo_turn_env [(''updated_at'', VStr ((\<lambda>_. ''t9'') (0::nat)))] = Some (9 * 86400)" by code_simp
  have out: "prune_registry demo_turn_env (\<lambda>_. ''t9'') demo_running ?reg =
      [(''c'', [(''status'', VStr ''failed''), (''finished_at'', VStr ''t5'')])]"
    by code_simp
  from registry_pruned [OF ok now refl] have "length (terminal_records (prune_registry demo_turn_env (\<lambda>_. ''t9'') demo_running ?reg)) \<le> registry_limit"
    by blast
  with out show ?thesis by simp
qed

text \<open>A session whose second turn runs when the run of the first one is attached.\<close>

definition demo_second :: job_state where
  "demo_second = update_workspace_stats (te_jobs demo_turn_env)
     (demo_queued\<lparr>js_jobs := [(''j2'', demo_session_job)], js_index := [''j2'']\<rparr>)"

lemma demo_second_facts:
  "claimable demo_turn_env ''j3'' demo_second" "get_job ''j2'' demo_second = Some demo_session_job"
  "merged_run_ids demo_turn_env ''run'' demo_session_job = [''run'']" "turn_at demo_turn_env 1 demo_session_job"
  "\<exists>st'. attach_run_to_session_job demo_turn_env (\<lambda>_. ''t6'') ''j3'' None ''run'' 0 [] ok err demo_second = Inr (st', ''j2'')"
proof -
  let ?je = "te_jobs demo_turn_env"
  have plain: "sanitize_job ?je demo_session_job = demo_session_job"
    by (rule plain_sanitize_job) (simp_all add: demo_turn_env_def demo_env_def demo_session_job_def demo_job_def
      turn_progress_def fresh_turn_def turn_keys_def)
  have jobs: "js_jobs demo_second = [(''j2'', demo_session_job)]" by (simp add: demo_second_def)
  show at: "get_job ''j2'' demo_second = Some demo_session_job" by (simp add: get_job_def jobs)
  have "workspace_stats ?je demo_second = workspace_stats ?je (demo_queued\<lparr>js_jobs := [(''j2'', demo_session_job)], js_index := [''j2'']\<rparr>)"
    by (rule stats_cong) (simp add: demo_second_def)
  then have "js_stats demo_second = workspace_stats ?je demo_second" by (simp add: demo_second_def)
  moreover have "job_ok ?je ''j2'' demo_session_job"
    by (simp add: job_ok_def demo_session_job_def demo_turn_env_def demo_env_def job_statuses_def)
  ultimately have "state_ok ?je demo_second" by (simp add: state_ok_def jobs_ok_def jobs) (simp add: demo_second_def)
  then show "claimable demo_turn_env ''j3'' demo_second"
    by (simp add: claimable_def jobs) (simp add: demo_session_job_def demo_turn_env_def demo_env_def)
  show "merged_run_ids demo_turn_env ''run'' demo_session_job = [''run'']"
    by (simp add: merged_run_ids_def demo_session_job_def demo_job_def demo_turn_env_def texts_of_def vget_def vget_or_def add_new_def)
  show "turn_at demo_turn_env 1 demo_session_job"
    by (simp add: turn_at_def belongs_def demo_session_job_def demo_job_def active_turn_def fresh_turn_def turn_progress_def
      demo_turn_env_def demo_env_def vget_def vget_or_def)
  have "job_listed ?je [] [] demo_session_job"
    by (simp add: job_listed_def demo_session_job_def demo_job_def demo_turn_env_def demo_env_def session_exists_def
      vget_or_def Let_def)
  then have "list_jobs ?je [] [] 500 demo_second = [demo_session_job]" by (simp add: list_jobs_def jobs plain)
  moreover have "of_session (te_session_id demo_turn_env) demo_session_job" "job_id demo_session_job = ''j2''"
    by (simp_all add: of_session_def demo_session_job_def demo_turn_env_def vget_def vget_or_def)
  ultimately have "find_or_create_job demo_turn_env (\<lambda>_. ''t6'') ''j3'' None [] demo_second = Inr (demo_second, ''j2'')"
    by (simp add: find_or_create_job_def)
  moreover have "te_session_id demo_turn_env = ''s1''" by (simp add: demo_turn_env_def)
  ultimately show "\<exists>st'. attach_run_to_session_job demo_turn_env (\<lambda>_. ''t6'') ''j3'' None ''run'' 0 [] ok err demo_second = Inr (st', ''j2'')"
    by (simp add: attach_run_to_session_job_def Let_def)
qed

lemma demo_ids_clean: "list_all (\<lambda>r. je_clean (te_jobs demo_turn_env) r = r) (merged_run_ids demo_turn_env ''run'' demo_session_job)"
  by (simp add: list_all_iff demo_turn_env_def demo_env_def)

theorem attached_run_settles_job_witness:
  "\<exists>st' j'. attach_run_to_session_job demo_turn_env (\<lambda>_. ''t6'') ''j3'' None ''run'' 0 [] False ''boom'' demo_second = Inr (st', ''j2'') \<and>
     get_job ''j2'' st' = Some j' \<and> job_status j' = ''failed'' \<and> ''run'' \<in> set (run_ids j')"
proof -
  obtain st' where st': "attach_run_to_session_job demo_turn_env (\<lambda>_. ''t6'') ''j3'' None ''run'' 0 [] False ''boom'' demo_second = Inr (st', ''j2'')"
    using demo_second_facts(5) by blast
  have run: "''run'' \<noteq> []" and c: "\<not> cancel_requested demo_session_job" by (simp_all add: demo_session_job_def demo_job_def)
  from attached_run_settles_job [OF demo_turn_ok(1) demo_second_facts(1) run demo_second_facts(2) demo_ids_clean st'] st' c
  show ?thesis by auto
qed

theorem late_attachment_closes_next_turn_witness:
  "\<exists>st' j'. attach_run_to_session_job demo_turn_env (\<lambda>_. ''t6'') ''j3'' None ''run'' 0 [] True [] demo_second = Inr (st', ''j2'') \<and>
     get_job ''j2'' st' = Some j' \<and> vget (active_turn j') ''status'' = VStr ''running'' \<and>
     projected_status demo_turn_env ''r1'' (Some j') = Some (''succeeded'', [])"
proof -
  obtain st' where st': "attach_run_to_session_job demo_turn_env (\<lambda>_. ''t6'') ''j3'' None ''run'' 0 [] True [] demo_second = Inr (st', ''j2'')"
    using demo_second_facts(5) by blast
  have run: "''run'' \<noteq> []" and c: "\<not> cancel_requested demo_session_job" by (simp_all add: demo_session_job_def demo_job_def)
  have rid: "vget (active_turn demo_session_job) ''client_request_id'' = VStr ''r1''" "je_clean (te_jobs demo_turn_env) ''r1'' = ''r1''"
    by (simp_all add: demo_session_job_def active_turn_def fresh_turn_def vget_def vget_or_def demo_turn_env_def demo_env_def)
  from late_attachment_closes_next_turn [OF demo_turn_ok(1) demo_second_facts(1) run demo_second_facts(2,4) demo_ids_clean c rid st'] st'
  show ?thesis by auto
qed

end
