(* ===== verification/Chunking.thy ===== *)
theory Chunking
  imports Py_Value
begin

section \<open>Parent and child chunks of a knowledge document\<close>

text \<open>
  \<^verbatim>\<open>agent/modules/knowledge/chunking.py\<close>: a Markdown document is cut at headings into sections, each
  section into parents of at most \<open>PARENT_MAX\<close> characters, each parent into overlapping children of at
  most \<open>CHILD_MAX\<close>; fences, tables and lists are never cut. The line patterns are functions on
  strings. The loop that emits the children of one parent moves its start index by a rule that can leave
  it where it was, so it is a \<open>partial_function\<close>: \<open>None\<close> is a loop that never ends.
\<close>

definition CHILD_TARGET :: nat where "CHILD_TARGET = 600"
definition CHILD_MAX :: nat where "CHILD_MAX = 1200"
definition CHILD_OVERLAP :: nat where "CHILD_OVERLAP = 80"
definition PARENT_MAX :: nat where "PARENT_MAX = 3000"

lemmas chunk_bounds = CHILD_TARGET_def CHILD_MAX_def CHILD_OVERLAP_def PARENT_MAX_def

abbreviation newline :: string where "newline \<equiv> [CHR 0x0A]"
abbreviation blank_line :: string where "blank_line \<equiv> [CHR 0x0A, CHR 0x0A]"

subsection \<open>Lines and their patterns\<close>

definition is_line_break :: "char \<Rightarrow> bool" where
  "is_line_break c = (let n = (of_char c :: nat) in (10 \<le> n \<and> n \<le> 13) \<or> (28 \<le> n \<and> n \<le> 30))"

text \<open>\<open>str.splitlines()\<close>: a carriage return followed by a line feed is one break; no empty last line.\<close>

fun splitlines_from :: "string \<Rightarrow> string \<Rightarrow> string list" where
  "splitlines_from acc [] = (if acc = [] then [] else [rev acc])"
| "splitlines_from acc (c # cs) =
     (if c = CHR 0x0D \<and> cs \<noteq> [] \<and> hd cs = CHR 0x0A then rev acc # splitlines_from [] (tl cs)
      else if is_line_break c then rev acc # splitlines_from [] cs
      else splitlines_from (c # acc) cs)"

definition splitlines :: "string \<Rightarrow> string list" where
  "splitlines s = splitlines_from [] s"

definition lstrip :: "string \<Rightarrow> string" where "lstrip s = dropWhile py_space s"
definition rstrip :: "string \<Rightarrow> string" where "rstrip s = rev (dropWhile py_space (rev s))"

text \<open>\<open>_FENCE_RE\<close>: the opening marker, a run of at least three backquotes or tildes.\<close>

definition fence_marker :: "string \<Rightarrow> string option" where
  "fence_marker line =
     (case lstrip line of [] \<Rightarrow> None
      | c # cs \<Rightarrow>
          (let run = takeWhile (\<lambda>d. d = c) (c # cs) in
           if (c = CHR 0x60 \<or> c = CHR ''~'') \<and> 3 \<le> length run then Some run else None))"

definition closes_fence :: "string \<Rightarrow> string \<Rightarrow> bool" where
  "closes_fence marker line =
     (let s = lstrip line; run = takeWhile (\<lambda>d. d = hd marker) s in
      length marker \<le> length run \<and> list_all py_space (drop (length run) s))"

definition is_table_row :: "string \<Rightarrow> bool" where
  "is_table_row line = (let s = strip line in 2 \<le> length s \<and> hd s = CHR ''|'' \<and> last s = CHR ''|'')"

definition is_list_item :: "string \<Rightarrow> bool" where
  "is_list_item line =
     (let s = lstrip line; digits = takeWhile is_digit s; rest = drop (length digits) s in
      (case s of c # d # _ \<Rightarrow> (c = CHR ''-'' \<or> c = CHR ''*'' \<or> c = CHR ''+'') \<and> py_space d | _ \<Rightarrow> False) \<or>
      (digits \<noteq> [] \<and>
        (case rest of c # d # _ \<Rightarrow> (c = CHR ''.'' \<or> c = CHR '')'') \<and> py_space d | _ \<Rightarrow> False)))"

definition heading :: "string \<Rightarrow> (nat \<times> string) option" where
  "heading line =
     (let n = length (takeWhile (\<lambda>c. c = CHR ''#'') line); r = drop n line in
      if 1 \<le> n \<and> n \<le> 6 \<and> r \<noteq> [] \<and> py_space (hd r) \<and> (strip r \<noteq> [] \<or> 2 \<le> length r)
      then Some (n, strip r) else None)"

definition page_marker :: "string \<Rightarrow> nat option" where
  "page_marker line =
     (if starts_with line ''<!--''
      then (let a = lstrip (drop 4 line) in
            if starts_with a ''page'' \<and> drop 4 a \<noteq> [] \<and> py_space (hd (drop 4 a))
            then (let b = lstrip (drop 4 a); digits = takeWhile is_digit b;
                      c = lstrip (drop (length digits) b) in
                  if digits \<noteq> [] \<and> starts_with c ''-->'' \<and> list_all py_space (drop 3 c)
                  then map_option nat (digits_val 0 digits) else None)
            else None)
      else None)"

subsection \<open>Protected blocks\<close>

datatype block_kind = Fence | Table | List_block

definition protected_block_start :: "string list \<Rightarrow> nat \<Rightarrow> block_kind option" where
  "protected_block_start lines i =
     (let line = lines ! i in
      if fence_marker line \<noteq> None then Some Fence
      else if is_table_row line then Some Table
      else if is_list_item line then Some List_block
      else None)"

text \<open>\<open>while i < len(lines) and p(lines[i]): i += 1\<close>\<close>

definition scan_while :: "(string \<Rightarrow> bool) \<Rightarrow> string list \<Rightarrow> nat \<Rightarrow> nat" where
  "scan_while p lines i = i + length (takeWhile p (drop i lines))"

definition scan_block :: "string list \<Rightarrow> nat \<Rightarrow> block_kind \<Rightarrow> nat" where
  "scan_block lines start kind =
     (case kind of
        Fence \<Rightarrow>
          (let marker = (case fence_marker (lines ! start) of Some m \<Rightarrow> m | None \<Rightarrow> replicate 3 (CHR 0x60));
               i = scan_while (\<lambda>l. \<not> closes_fence marker l) lines (start + 1)
           in if i < length lines then i + 1 else i)
      | Table \<Rightarrow> scan_while is_table_row lines (start + 1)
      | List_block \<Rightarrow> scan_while (\<lambda>l. is_list_item l \<or> strip l = []) lines (start + 1))"

lemma scan_block_gt: "start < scan_block lines start kind"
  by (auto simp: scan_block_def scan_while_def Let_def split: block_kind.splits)

lemma scan_block_le: "start < length lines \<Longrightarrow> scan_block lines start kind \<le> length lines"
proof -
  have "scan_while p lines (start + 1) \<le> length lines" if "start < length lines" for p
    using that length_takeWhile_le [of p "drop (start + 1) lines"] by (simp add: scan_while_def)
  then show "start < length lines \<Longrightarrow> scan_block lines start kind \<le> length lines"
    by (auto simp: scan_block_def Let_def split: block_kind.splits)
qed

definition slice :: "nat \<Rightarrow> nat \<Rightarrow> 'a list \<Rightarrow> 'a list" where
  "slice i j xs = take (j - i) (drop i xs)"

subsection \<open>Sections\<close>

type_synonym section_t = "string \<times> string \<times> string \<times> string \<times> nat option"

record section_state =
  current_chapter :: string
  current_section :: string
  current_subsection :: string
  current_body :: "string list"
  current_page :: "nat option"
  page_in_section :: "nat option"
  sections_out :: "section_t list"

definition flush_section :: "section_state \<Rightarrow> section_state" where
  "flush_section st = st\<lparr>sections_out := sections_out st @
     [(current_chapter st, current_section st, current_subsection st,
       rstrip (join_with newline (current_body st)), page_in_section st)]\<rparr>"

definition take_heading :: "nat \<Rightarrow> string \<Rightarrow> string \<Rightarrow> section_state \<Rightarrow> section_state" where
  "take_heading level title line st =
     (if level = 1 then
        (let st = (if current_body st \<noteq> [] \<or> current_chapter st \<noteq> [] \<or> current_section st \<noteq> []
                      \<or> current_subsection st \<noteq> [] then flush_section st else st)
         in st\<lparr>current_chapter := title, current_section := [], current_subsection := [],
               current_body := [], page_in_section := current_page st\<rparr>)
      else if level = 2 then
        (let st = (if current_body st \<noteq> [] \<or> current_section st \<noteq> [] \<or> current_subsection st \<noteq> []
                   then flush_section st else st)
         in st\<lparr>current_section := title, current_subsection := [],
               current_body := [], page_in_section := current_page st\<rparr>)
      else if level = 3 then
        (let st = (if current_body st \<noteq> [] then flush_section st else st)
         in st\<lparr>current_subsection := title, current_body := [], page_in_section := current_page st\<rparr>)
      else st\<lparr>current_body := current_body st @ [line]\<rparr>)"

function section_loop :: "string list \<Rightarrow> nat \<Rightarrow> section_state \<Rightarrow> section_state" where
  "section_loop lines i st =
     (if i < length lines then
        (let line = lines ! i in
         case page_marker line of
           Some page \<Rightarrow>
             section_loop lines (i + 1)
               (st\<lparr>current_page := Some page,
                   page_in_section := (case page_in_section st of None \<Rightarrow> Some page | p \<Rightarrow> p)\<rparr>)
         | None \<Rightarrow>
             (case heading line of
                Some (level, title) \<Rightarrow> section_loop lines (i + 1) (take_heading level title line st)
              | None \<Rightarrow>
                  (case protected_block_start lines i of
                     Some kind \<Rightarrow>
                       (let j = scan_block lines i kind in
                        section_loop lines j (st\<lparr>current_body := current_body st @ slice i j lines\<rparr>))
                   | None \<Rightarrow> section_loop lines (i + 1) (st\<lparr>current_body := current_body st @ [line]\<rparr>))))
      else st)"
  by pat_completeness auto
termination
  by (relation "measure (\<lambda>(lines, i, _). length lines - i)")
    (auto simp: scan_block_gt diff_less_mono2)

declare section_loop.simps [simp del]

definition split_into_sections :: "string \<Rightarrow> section_t list" where
  "split_into_sections md =
     (let st = section_loop (splitlines md) 0
            \<lparr>current_chapter = [], current_section = [], current_subsection = [], current_body = [],
             current_page = None, page_in_section = None, sections_out = []\<rparr>;
          st = (if current_body st \<noteq> [] \<or> current_chapter st \<noteq> [] \<or> current_section st \<noteq> []
                   \<or> current_subsection st \<noteq> [] then flush_section st else st)
      in filter (\<lambda>(_, _, _, body, _). body \<noteq> []) (sections_out st))"

subsection \<open>Paragraphs\<close>

function paragraph_loop :: "string list \<Rightarrow> nat \<Rightarrow> string list \<Rightarrow> string list \<Rightarrow> string list \<times> string list" where
  "paragraph_loop lines i paras buf =
     (if i < length lines then
        (let line = lines ! i in
         case protected_block_start lines i of
           Some kind \<Rightarrow>
             (let j = scan_block lines i kind in paragraph_loop lines j paras (buf @ slice i j lines))
         | None \<Rightarrow>
             (if strip line = [] then
                (if buf \<noteq> [] then paragraph_loop lines (i + 1) (paras @ [rstrip (join_with newline buf)]) []
                 else paragraph_loop lines (i + 1) paras buf)
              else paragraph_loop lines (i + 1) paras (buf @ [line])))
      else (paras, buf))"
  by pat_completeness auto
termination
  by (relation "measure (\<lambda>(lines, i, _). length lines - i)")
    (auto simp: scan_block_gt diff_less_mono2)

declare paragraph_loop.simps [simp del]

definition split_body_by_paragraphs :: "string \<Rightarrow> string list" where
  "split_body_by_paragraphs body =
     (if strip body = [] then []
      else (let (paras, buf) = paragraph_loop (splitlines body) 0 [] [];
                paras = (if buf \<noteq> [] then paras @ [rstrip (join_with newline buf)] else paras)
            in filter (\<lambda>p. strip p \<noteq> []) paras))"

subsection \<open>Chunks\<close>

record chunk =
  chunk_id :: string
  ck_source_id :: string
  parent_chunk_id :: string
  chunk_type :: string
  ck_chapter :: string
  section_name :: string
  subsection_name :: string
  page_start :: "nat option"
  page_end :: "nat option"
  chunk_index :: nat
  content :: string
  index_text :: string
  token_count :: nat
  ck_metadata :: "(string \<times> string) list"

definition is_cjk :: "char \<Rightarrow> bool" where
  "is_cjk c = (let n = (of_char c :: nat) in 0x4e00 \<le> n \<and> n \<le> 0x9fff)"

fun count_words_from :: "bool \<Rightarrow> string \<Rightarrow> nat" where
  "count_words_from inside [] = 0"
| "count_words_from inside (c # cs) =
     (if py_space c then count_words_from False cs
      else (if inside then 0 else 1) + count_words_from True cs)"

definition approx_token_count :: "string \<Rightarrow> nat" where
  "approx_token_count s =
     (if s = [] then 0
      else 2 * length (filter is_cjk s) div 3 + count_words_from False (filter (\<lambda>c. \<not> is_cjk c) s))"

definition build_index_text :: "string \<Rightarrow> string \<Rightarrow> string \<Rightarrow> string \<Rightarrow> string \<Rightarrow> string" where
  "build_index_text title chap sect tags body =
     join_with '' | '' (filter (\<lambda>p. p \<noteq> []) [title, chap, sect, tags] @ [body])"

definition zpad :: "nat \<Rightarrow> nat \<Rightarrow> string" where
  "zpad w n = replicate (w - length (nat_digits n)) CHR ''0'' @ nat_digits n"

definition chunk_prefix :: "string \<Rightarrow> string" where
  "chunk_prefix source_id = ''kch_'' @ take 16 (drop 5 source_id)"

definition parent_chunk :: "string \<Rightarrow> string \<Rightarrow> string \<Rightarrow> section_t \<Rightarrow> string \<Rightarrow> nat \<Rightarrow> string \<Rightarrow> chunk" where
  "parent_chunk source_id source_title scope sec cid idx body =
     (case sec of (chap, sect, sub, _, page) \<Rightarrow>
      \<lparr>chunk_id = cid, ck_source_id = source_id, parent_chunk_id = [], chunk_type = ''parent'',
       ck_chapter = chap, section_name = sect, subsection_name = sub, page_start = page, page_end = None,
       chunk_index = idx, content = body,
       index_text = build_index_text source_title chap sect sub body,
       token_count = approx_token_count body,
       ck_metadata = [(''scope'', scope), (''source_title'', source_title), (''chapter'', chap),
                      (''section'', sect), (''subsection'', sub)]\<rparr>)"

text \<open>The loop over the paragraphs of a long section: what is emitted, then the open parent.\<close>

fun parent_loop ::
  "(nat \<Rightarrow> string \<Rightarrow> chunk) \<Rightarrow> string list \<Rightarrow> string list \<Rightarrow> nat \<Rightarrow> nat \<Rightarrow> chunk list" where
  "parent_loop mk [] cur cur_len sub_idx =
     (if cur \<noteq> [] then [mk sub_idx (join_with blank_line cur)] else [])"
| "parent_loop mk (p # paras) cur cur_len sub_idx =
     (if cur_len + length p > PARENT_MAX \<and> cur \<noteq> []
      then mk sub_idx (join_with blank_line cur) # parent_loop mk paras [p] (length p + 2) (sub_idx + 1)
      else parent_loop mk paras (cur @ [p]) (cur_len + length p + 2) sub_idx)"

definition section_parents :: "string \<Rightarrow> string \<Rightarrow> string \<Rightarrow> nat \<Rightarrow> section_t \<Rightarrow> chunk list" where
  "section_parents source_id source_title scope ch_idx sec =
     (case sec of (_, _, _, body, _) \<Rightarrow>
      if length body \<le> PARENT_MAX
      then [parent_chunk source_id source_title scope sec
              (chunk_prefix source_id @ ''_p'' @ zpad 4 ch_idx) ch_idx body]
      else parent_loop
             (\<lambda>sub_idx text. parent_chunk source_id source_title scope sec
                (chunk_prefix source_id @ ''_p'' @ zpad 4 ch_idx @ ''_'' @ zpad 2 sub_idx)
                (ch_idx * 100 + sub_idx) text)
             (split_body_by_paragraphs body) [] 0 0)"

definition make_parents :: "section_t list \<Rightarrow> string \<Rightarrow> string \<Rightarrow> string \<Rightarrow> chunk list" where
  "make_parents sections source_id source_title scope =
     concat (map (\<lambda>(ch_idx, sec). section_parents source_id source_title scope ch_idx sec)
       (zip [0..<length sections] sections))"

definition child_chunk :: "string \<Rightarrow> string \<Rightarrow> string \<Rightarrow> chunk \<Rightarrow> nat \<Rightarrow> string \<Rightarrow> chunk" where
  "child_chunk source_id source_title scope parent child_idx text =
     \<lparr>chunk_id = chunk_prefix source_id @ ''_c'' @ zpad 5 (chunk_index parent) @ ''_'' @ nat_digits child_idx,
      ck_source_id = source_id, parent_chunk_id = chunk_id parent, chunk_type = ''child'',
      ck_chapter = ck_chapter parent, section_name = section_name parent,
      subsection_name = subsection_name parent, page_start = page_start parent, page_end = None,
      chunk_index = chunk_index parent * 1000 + child_idx, content = text,
      index_text = build_index_text source_title (ck_chapter parent) (section_name parent)
        (subsection_name parent) text,
      token_count = approx_token_count text,
      ck_metadata = [(''scope'', scope), (''source_title'', source_title), (''chapter'', ck_chapter parent),
        (''section'', section_name parent), (''subsection'', subsection_name parent),
        (''parent_chunk_id'', chunk_id parent)]\<rparr>"

text \<open>The inner loop that extends a child: the end index (exclusive).\<close>

function child_end :: "string list \<Rightarrow> nat \<Rightarrow> nat \<Rightarrow> nat \<Rightarrow> nat" where
  "child_end units start i sz =
     (if i < length units then
        (let candidate = sz + (if i > start then 2 else 0) + length (units ! i) in
         if i > start \<and> (sz \<ge> CHILD_TARGET \<or> candidate > CHILD_MAX) then i
         else child_end units start (i + 1) candidate)
      else i)"
  by pat_completeness auto
termination
  by (relation "measure (\<lambda>(units, _, i, _). length units - i)") auto

declare child_end.simps [simp del]

text \<open>The loop that moves back over the units the next child repeats.\<close>

fun overlap_start :: "string list \<Rightarrow> nat \<Rightarrow> nat \<Rightarrow> nat \<Rightarrow> nat" where
  "overlap_start units start 0 overlap_size = 0"
| "overlap_start units start (Suc i) overlap_size =
     (if Suc i > start then
        (let unit_size = length (units ! i) + (if overlap_size > 0 then 2 else 0) in
         if overlap_size + unit_size > CHILD_OVERLAP then Suc i
         else overlap_start units start i (overlap_size + unit_size))
      else Suc i)"

partial_function (option) child_loop ::
  "(nat \<Rightarrow> string \<Rightarrow> chunk) \<Rightarrow> string list \<Rightarrow> nat \<Rightarrow> nat \<Rightarrow> chunk list \<Rightarrow> chunk list option" where
  "child_loop mk units start child_idx children =
     (if start < length units then
        (let end0 = child_end units start start 0;
             end = (if end0 = start then end0 + 1 else end0);
             children = children @ [mk child_idx (join_with blank_line (slice start end units))]
         in if end \<ge> length units then Some children
            else (let next_start = overlap_start units start end 0 in
                  child_loop mk units (if next_start < end then next_start else end) (child_idx + 1) children))
      else Some children)"

definition parent_children :: "string \<Rightarrow> string \<Rightarrow> string \<Rightarrow> chunk \<Rightarrow> chunk list option" where
  "parent_children source_id source_title scope parent =
     (let body = content parent; mk = child_chunk source_id source_title scope parent in
      if strip body = [] then Some []
      else if length body \<le> CHILD_MAX
      then Some [mk 0 body]
      else (let units = split_body_by_paragraphs body;
                units = (if units = [] then [body] else units)
            in child_loop mk units 0 0 []))"

fun make_children :: "chunk list \<Rightarrow> string \<Rightarrow> string \<Rightarrow> string \<Rightarrow> chunk list option" where
  "make_children [] source_id source_title scope = Some []"
| "make_children (p # parents) source_id source_title scope =
     (case parent_children source_id source_title scope p of
        None \<Rightarrow> None
      | Some cs \<Rightarrow>
          (case make_children parents source_id source_title scope of
             None \<Rightarrow> None
           | Some rest \<Rightarrow> Some (cs @ rest)))"

record normalized_document =
  nd_source_id :: string
  nd_title :: string
  nd_scope :: string
  nd_markdown :: string

definition chunk_document ::
  "string \<Rightarrow> normalized_document \<Rightarrow> (chunk list \<times> chunk list) option" where
  "chunk_document fresh_hex doc =
     (let source_id = str_or (nd_source_id doc) (''ksrc_'' @ take 16 fresh_hex);
          scope = str_or (nd_scope doc) ''workspace'';
          sections = split_into_sections (nd_markdown doc);
          parents = make_parents sections source_id (nd_title doc) scope
      in map_option (Pair parents) (make_children parents source_id (nd_title doc) scope))"

subsection \<open>Joined slices\<close>

lemma join_with_append:
  "xs \<noteq> [] \<Longrightarrow> ys \<noteq> [] \<Longrightarrow> join_with sep (xs @ ys) = join_with sep xs @ sep @ join_with sep ys"
proof (induction xs rule: induct_list012)
  case (2 x)
  then show ?case by (cases ys) auto
qed auto

text \<open>The length of the text of the units from \<open>i\<close> to \<open>j\<close>.\<close>

definition span :: "string list \<Rightarrow> nat \<Rightarrow> nat \<Rightarrow> nat" where
  "span units i j = length (join_with blank_line (slice i j units))"

lemma slice_Suc: "i \<le> j \<Longrightarrow> j < length xs \<Longrightarrow> slice i (Suc j) xs = slice i j xs @ [xs ! j]"
  by (simp add: slice_def Suc_diff_le take_Suc_conv_app_nth)

lemma slice_Cons: "i < j \<Longrightarrow> j \<le> length xs \<Longrightarrow> slice i j xs = xs ! i # slice (Suc i) j xs"
  by (simp add: slice_def Cons_nth_drop_Suc [symmetric] Suc_diff_Suc take_Cons')

lemma slice_empty [simp]: "slice i i xs = []"
  by (simp add: slice_def)

lemma slice_nonempty: "i < j \<Longrightarrow> j \<le> length xs \<Longrightarrow> slice i j xs \<noteq> []"
  by (simp add: slice_Cons)

lemma span_single: "i < length units \<Longrightarrow> span units i (Suc i) = length (units ! i)"
  by (simp add: span_def slice_Suc)

lemma span_snoc: "i < j \<Longrightarrow> j < length units \<Longrightarrow> span units i (Suc j) = span units i j + 2 + length (units ! j)"
  by (simp add: span_def slice_Suc join_with_append slice_nonempty)

lemma span_Cons: "Suc i < j \<Longrightarrow> j \<le> length units \<Longrightarrow> span units i j = length (units ! i) + 2 + span units (Suc i) j"
  using join_with_append [of "[units ! i]" "slice (Suc i) j units" blank_line]
  by (simp add: span_def slice_Cons [of i j] slice_nonempty)

subsection \<open>The children of one parent\<close>

lemma child_end_bounds:
  "start \<le> i \<Longrightarrow> i \<le> length units \<Longrightarrow> sz = (if i = start then 0 else span units start i) \<Longrightarrow>
   (i > Suc start \<Longrightarrow> sz \<le> CHILD_MAX) \<Longrightarrow> e = child_end units start i sz \<Longrightarrow>
   i \<le> e \<and> e \<le> length units \<and> (start < length units \<longrightarrow> start < e) \<and>
   (e > Suc start \<longrightarrow> span units start e \<le> CHILD_MAX) \<and>
   (e < length units \<longrightarrow> span units start e \<ge> CHILD_TARGET \<or>
      span units start e + 2 + length (units ! e) > CHILD_MAX)"
proof (induction units start i sz arbitrary: e rule: child_end.induct)
  case (1 units start i sz)
  let ?cand = "sz + (if i > start then 2 else 0) + length (units ! i)"
  consider (stop) "i < length units" "i > start" "sz \<ge> CHILD_TARGET \<or> ?cand > CHILD_MAX"
    | (go) "i < length units" "\<not> (i > start \<and> (sz \<ge> CHILD_TARGET \<or> ?cand > CHILD_MAX))"
    | (last) "i = length units" using "1.prems"(2) by linarith
  then show ?case
  proof cases
    case stop
    with "1.prems" show ?thesis by (auto simp: child_end.simps [of units start i] Let_def)
  next
    case go
    have cand: "?cand = span units start (Suc i)"
      using go "1.prems"(1,3) by (auto simp: span_single span_snoc)
    from go "1.prems"(5) have e: "e = child_end units start (i + 1) ?cand"
      by (auto simp: child_end.simps [of units start i] Let_def)
    have "i + 1 \<le> e \<and> e \<le> length units \<and> (start < length units \<longrightarrow> start < e) \<and>
       (e > Suc start \<longrightarrow> span units start e \<le> CHILD_MAX) \<and>
       (e < length units \<longrightarrow> span units start e \<ge> CHILD_TARGET \<or>
          span units start e + 2 + length (units ! e) > CHILD_MAX)"
      using go "1.prems"(1) cand e by (intro "1.IH" [OF go(1) refl go(2)]) auto
    then show ?thesis by simp
  next
    case last
    then have "child_end units start i sz = i" by (subst child_end.simps) simp
    with "1.prems"(5) have "e = i" by simp
    with last "1.prems" show ?thesis by (auto split: if_splits)
  qed
qed

lemma child_end_step:
  assumes "start < length units"
  defines "e \<equiv> child_end units start start 0"
  shows "start < e" "e \<le> length units" "e = Suc start \<or> span units start e \<le> CHILD_MAX"
    "e < length units \<Longrightarrow> span units start e \<ge> CHILD_TARGET \<or>
       span units start e + 2 + length (units ! e) > CHILD_MAX"
  using child_end_bounds [of start start units 0 e] assms by auto

lemma overlap_start_bounds:
  "start \<le> i \<Longrightarrow> i \<le> e \<Longrightarrow> e \<le> length units \<Longrightarrow> (\<And>u. u \<in> set units \<Longrightarrow> u \<noteq> []) \<Longrightarrow>
   ov = (if i = e then 0 else span units i e) \<Longrightarrow> ov \<le> CHILD_OVERLAP \<Longrightarrow> n = overlap_start units start i ov \<Longrightarrow>
   start \<le> n \<and> n \<le> i \<and> (n < e \<longrightarrow> span units n e \<le> CHILD_OVERLAP)"
proof (induction units start i ov arbitrary: n rule: overlap_start.induct)
  case (2 units start i ov)
  let ?u = "length (units ! i) + (if ov > 0 then 2 else 0)"
  show ?case
  proof (cases "Suc i > start \<and> ov + ?u \<le> CHILD_OVERLAP")
    case False
    with "2.prems" show ?thesis by (auto simp: Let_def)
  next
    case True
    have ne: "units ! j \<noteq> []" if "j < length units" for j using "2.prems"(4) that by simp
    have pos: "span units (Suc i) e > 0" if "Suc i < e"
      using that "2.prems"(3) ne [of "Suc i"] span_single [of "Suc i" units] span_Cons [of "Suc i" e units]
      by (cases "e = Suc (Suc i)") auto
    have ov: "ov + ?u = span units i e"
      using "2.prems"(2,3,5) pos span_single [of i units] span_Cons [of i e units]
      by (cases "Suc i = e") auto
    from True "2.prems"(7) have n: "n = overlap_start units start i (ov + ?u)" by (auto simp: Let_def)
    have "start \<le> n \<and> n \<le> i \<and> (n < e \<longrightarrow> span units n e \<le> CHILD_OVERLAP)"
      using True "2.prems"(1-4) ov n by (intro "2.IH") auto
    then show ?thesis by simp
  qed
qed auto

lemma overlap_start_range: "start \<le> i \<Longrightarrow> start \<le> overlap_start units start i ov \<and> overlap_start units start i ov \<le> i"
  by (induction units start i ov rule: overlap_start.induct) (auto simp: Let_def)

text \<open>The next start index of the loop, and the states in which it does not move.\<close>

definition next_start :: "string list \<Rightarrow> nat \<Rightarrow> nat" where
  "next_start units start = (let e = child_end units start start 0; n = overlap_start units start e 0
     in if n < e then n else e)"

definition stalls :: "string list \<Rightarrow> nat \<Rightarrow> bool" where
  "stalls units start =
     (start < length units \<and> child_end units start start 0 < length units \<and> next_start units start = start)"

lemma child_loop_step:
  "child_loop mk units start k children =
     (if start < length units then
        (let e = child_end units start start 0;
             children = children @ [mk k (join_with blank_line (slice start e units))]
         in if e \<ge> length units then Some children
            else child_loop mk units (next_start units start) (k + 1) children)
      else Some children)"
  using child_end_step(1) [of start units]
  by (subst child_loop.simps) (auto simp: Let_def next_start_def)

lemma next_start_bounds:
  "start < length units \<Longrightarrow> start \<le> next_start units start \<and> next_start units start \<le> child_end units start start 0"
  using child_end_step(1) [of start units] overlap_start_range [of start "child_end units start start 0" units 0]
  by (auto simp: next_start_def Let_def)

text \<open>A stall is a short text before a unit that does not fit with it into one child.\<close>

lemma stall_short:
  assumes "stalls units start" and "\<And>u. u \<in> set units \<Longrightarrow> u \<noteq> []"
  shows "\<exists>e < length units. length (units ! e) > CHILD_MAX - CHILD_OVERLAP - 2"
proof -
  let ?e = "child_end units start start 0"
  from assms(1) have lt: "start < length units" "?e < length units" "next_start units start = start"
    by (simp_all add: stalls_def)
  note E = child_end_step [OF lt(1)]
  have "overlap_start units start ?e 0 = start" using lt(3) E(1) by (auto simp: next_start_def Let_def split: if_splits)
  with overlap_start_bounds [of start ?e ?e units 0 start] assms(2) E(1,2)
  have "span units start ?e \<le> CHILD_OVERLAP" by (auto simp: chunk_bounds)
  with E(4) [OF lt(2)] lt(2) show ?thesis by (intro exI [of _ ?e]) (auto simp: chunk_bounds)
qed

lemma child_loop_returns:
  assumes "\<And>s. \<not> stalls units s"
  shows "\<exists>cs. child_loop mk units start k children = Some cs"
proof (induction "length units - start" arbitrary: start k children rule: less_induct)
  case less
  show ?case
  proof (cases "start < length units \<and> child_end units start start 0 < length units")
    case True
    with assms [of start] next_start_bounds [of start units] have "start < next_start units start"
      by (auto simp: stalls_def)
    with True have "length units - next_start units start < length units - start" by linarith
    from less [OF this] True show ?thesis by (subst child_loop_step) (simp add: Let_def)
  qed (subst child_loop_step, auto simp: Let_def)
qed

lemma child_loop_diverges: "stalls units start \<Longrightarrow> child_loop mk units start k children = None"
proof (rule ccontr)
  assume st: "stalls units start" and "child_loop mk units start k children \<noteq> None"
  then obtain r where ret: "child_loop mk units start k children = Some r" by blast
  have "\<not> stalls units start"
  proof (rule child_loop.raw_induct [where P = "\<lambda>mk units start k children r. \<not> stalls units start", OF _ ret])
    fix f mk units start k children r
    assume IH: "\<And>mk units start k children r. f mk units start k children = Some r \<Longrightarrow> \<not> stalls units start"
      and eq: "(if start < length units then
        (let end0 = child_end units start start 0;
             end = (if end0 = start then end0 + 1 else end0);
             children = children @ [mk k (join_with blank_line (slice start end units))]
         in if end \<ge> length units then Some children
            else (let next_start = overlap_start units start end 0 in
                  f mk units (if next_start < end then next_start else end) (k + 1) children))
      else Some children) = Some r"
    show "\<not> stalls units start"
    proof
      assume st: "stalls units start"
      then have lt: "start < length units" "child_end units start start 0 < length units"
        "next_start units start = start" by (simp_all add: stalls_def)
      from lt(1,2) child_end_step(1) [OF lt(1)] eq
      have "f mk units (next_start units start) (k + 1) (children @
          [mk k (join_with blank_line (slice start (child_end units start start 0) units))]) = Some r"
        by (auto simp: Let_def next_start_def split: if_splits)
      from IH [OF this] lt(3) st show False by simp
    qed
  qed
  with st show False by simp
qed

subsection \<open>The windows of the children\<close>

text \<open>
  A list of windows (half-open index ranges) tiles the units from \<open>s\<close>: the first starts at \<open>s\<close>, the
  last ends at the last unit, each next one starts inside its predecessor or right after it, repeats at most
  \<open>CHILD_OVERLAP\<close> characters of it, and every window is one unit or a text of at most \<open>CHILD_MAX\<close>.
\<close>

definition fits_child :: "string list \<Rightarrow> nat \<Rightarrow> nat \<Rightarrow> bool" where
  "fits_child units a b = (a < b \<and> b \<le> length units \<and> (b = Suc a \<or> span units a b \<le> CHILD_MAX))"

fun tiles :: "string list \<Rightarrow> nat \<Rightarrow> (nat \<times> nat) list \<Rightarrow> bool" where
  "tiles units s [] = False"
| "tiles units s [(a, b)] = (a = s \<and> fits_child units a b \<and> b = length units)"
| "tiles units s ((a, b) # (c, d) # ws) =
     (a = s \<and> fits_child units a b \<and> a < c \<and> c \<le> b \<and> (c < b \<longrightarrow> span units c b \<le> CHILD_OVERLAP) \<and>
      tiles units c ((c, d) # ws))"

fun window_children :: "(nat \<Rightarrow> string \<Rightarrow> chunk) \<Rightarrow> string list \<Rightarrow> nat \<Rightarrow> (nat \<times> nat) list \<Rightarrow> chunk list" where
  "window_children mk units k [] = []"
| "window_children mk units k ((a, b) # ws) =
     mk k (join_with blank_line (slice a b units)) # window_children mk units (Suc k) ws"

lemma tiles_Cons:
  "tiles units c ws \<Longrightarrow> fits_child units s e \<Longrightarrow> s < c \<Longrightarrow> c \<le> e \<Longrightarrow>
   (c < e \<Longrightarrow> span units c e \<le> CHILD_OVERLAP) \<Longrightarrow> tiles units s ((s, e) # ws)"
  by (cases "(units, c, ws)" rule: tiles.cases) auto

lemma tiles_covered: "tiles units s ws \<Longrightarrow> s \<le> i \<Longrightarrow> i < length units \<Longrightarrow> \<exists>(a, b) \<in> set ws. a \<le> i \<and> i < b"
proof (induction units s ws rule: tiles.induct)
  case (3 units s a b c d ws)
  then show ?case by (cases "i < b") auto
qed auto

lemma child_loop_windows:
  assumes "\<And>s. \<not> stalls units s" and ne: "\<And>u. u \<in> set units \<Longrightarrow> u \<noteq> []" and "start < length units"
  shows "\<exists>ws. tiles units start ws \<and> child_loop mk units start k cs = Some (cs @ window_children mk units k ws)"
  using assms(3)
proof (induction "length units - start" arbitrary: start k cs rule: less_induct)
  case less
  let ?e = "child_end units start start 0" and ?n = "next_start units start"
  note E = child_end_step [OF less.prems]
  have fits: "fits_child units start ?e" using E(1-3) by (auto simp: fits_child_def)
  let ?cs = "cs @ [mk k (join_with blank_line (slice start ?e units))]"
  show ?case
  proof (cases "?e < length units")
    case False
    then have "?e = length units" using E(2) by simp
    with fits less.prems show ?thesis
      by (intro exI [of _ "[(start, ?e)]"]) (subst child_loop_step, simp add: Let_def)
  next
    case True
    have lt: "start < ?n" "?n \<le> ?e"
      using assms(1) [of start] next_start_bounds [OF less.prems] True less.prems by (auto simp: stalls_def)
    have ov: "span units ?n ?e \<le> CHILD_OVERLAP" if "?n < ?e"
      using that overlap_start_bounds [of start ?e ?e units 0 ?n] E(1,2) ne
      by (auto simp: next_start_def Let_def split: if_splits)
    have "length units - ?n < length units - start" using lt(1) less.prems by linarith
    from less.hyps [OF this, of "k + 1" ?cs] lt(2) True
    obtain ws where ws: "tiles units ?n ws"
      "child_loop mk units ?n (k + 1) ?cs = Some (?cs @ window_children mk units (k + 1) ws)" by auto
    from ws fits lt ov True less.prems show ?thesis
      by (intro exI [of _ "(start, ?e) # ws"], intro conjI tiles_Cons)
        (auto simp: Let_def child_loop_step [of mk units start])
  qed
qed


definition demo_units :: "string list" where "demo_units = [''alpha'', ''beta'']"

definition demo_parent :: chunk where
  "demo_parent = parent_chunk ''ksrc_1'' ''T'' ''workspace'' (''A'', [], [], [], None) ''kch_p0000'' 0 ''B''"


subsection \<open>A document whose children are never finished\<close>

definition plain_line :: "string \<Rightarrow> bool" where
  "plain_line s = (s \<noteq> [] \<and> is_alpha (hd s) \<and> \<not> py_space (last s) \<and> list_all (\<lambda>c. \<not> is_line_break c) s)"

lemma splitlines_run:
  "list_all (\<lambda>c. \<not> is_line_break c) s \<Longrightarrow>
   splitlines_from acc (s @ CHR 0x0A # t) = (rev acc @ s) # splitlines_from [] t"
proof (induction s arbitrary: acc)
  case Nil
  then show ?case by (simp add: is_line_break_def)
next
  case (Cons c s)
  then have "c \<noteq> CHR 0x0D" by (auto simp: is_line_break_def)
  with Cons show ?case by simp
qed

lemma splitlines_last:
  "list_all (\<lambda>c. \<not> is_line_break c) s \<Longrightarrow> rev acc @ s \<noteq> [] \<Longrightarrow> splitlines_from acc s = [rev acc @ s]"
proof (induction s arbitrary: acc)
  case (Cons c s)
  then have "c \<noteq> CHR 0x0D" by (auto simp: is_line_break_def)
  with Cons show ?case by simp
qed simp

lemma alpha_char:
  assumes "is_alpha c"
  shows "\<not> py_space c" "c \<noteq> CHR 0x60" "c \<noteq> CHR ''~''" "c \<noteq> CHR ''|''" "c \<noteq> CHR ''#''" "c \<noteq> CHR ''-''"
    "c \<noteq> CHR ''*''" "c \<noteq> CHR ''+''" "\<not> is_digit c" "c \<noteq> CHR ''<''"
  using assms by (auto simp: is_alpha_def py_space_def is_digit_def Let_def)

lemma plain_line_kinds:
  assumes "plain_line s"
  shows "heading s = None" "page_marker s = None" "rstrip s = s" "strip s = s"
    "fence_marker s = None" "\<not> is_table_row s" "\<not> is_list_item s"
proof -
  from assms obtain c t where s: "s = c # t" "is_alpha c" by (cases s) (auto simp: plain_line_def)
  note c = alpha_char [OF s(2)]
  have last: "\<not> py_space (last s)" using assms by (simp add: plain_line_def)
  have lstrip: "dropWhile py_space s = s" using s c by simp
  have rev: "dropWhile py_space (rev s) = rev s"
  proof -
    have "rev s \<noteq> []" "\<not> py_space (hd (rev s))" using last s(1) by (simp_all only: hd_rev rev_is_Nil_conv) simp_all
    then show ?thesis by (cases "rev s") simp_all
  qed
  show r: "rstrip s = s" and st: "strip s = s" by (simp_all add: rstrip_def strip_def lstrip rev)
  show "heading s = None" "page_marker s = None" "fence_marker s = None"
    using s c lstrip by (simp_all add: heading_def page_marker_def fence_marker_def starts_with_def lstrip_def Let_def)
  show "\<not> is_table_row s" "\<not> is_list_item s"
    using s c lstrip st by (auto simp: is_table_row_def is_list_item_def lstrip_def Let_def split: list.splits)
qed

lemma blank_line_kinds:
  "heading [] = None" "page_marker [] = None" "fence_marker [] = None" "\<not> is_table_row []" "\<not> is_list_item []"
  by (simp_all add: heading_def page_marker_def fence_marker_def is_table_row_def is_list_item_def
      starts_with_def lstrip_def)

lemma no_protected_block:
  "fence_marker l = None \<Longrightarrow> \<not> is_table_row l \<Longrightarrow> \<not> is_list_item l \<Longrightarrow> lines ! i = l \<Longrightarrow>
   protected_block_start lines i = None"
  by (simp add: protected_block_start_def)

lemma section_loop_text:
  "i < length lines \<Longrightarrow> page_marker (lines ! i) = None \<Longrightarrow> heading (lines ! i) = None \<Longrightarrow>
   protected_block_start lines i = None \<Longrightarrow>
   section_loop lines i st = section_loop lines (Suc i) (st\<lparr>current_body := current_body st @ [lines ! i]\<rparr>)"
  by (subst section_loop.simps) simp

lemma paragraph_loop_text:
  "i < length lines \<Longrightarrow> protected_block_start lines i = None \<Longrightarrow> strip (lines ! i) \<noteq> [] \<Longrightarrow>
   paragraph_loop lines i paras buf = paragraph_loop lines (Suc i) paras (buf @ [lines ! i])"
  by (subst paragraph_loop.simps) simp

lemma paragraph_loop_blank:
  "i < length lines \<Longrightarrow> protected_block_start lines i = None \<Longrightarrow> strip (lines ! i) = [] \<Longrightarrow> buf \<noteq> [] \<Longrightarrow>
   paragraph_loop lines i paras buf = paragraph_loop lines (Suc i) (paras @ [rstrip (join_with newline buf)]) []"
  by (subst paragraph_loop.simps) simp

definition two_paragraphs :: "string \<Rightarrow> string \<Rightarrow> string" where
  "two_paragraphs p q = p @ blank_line @ q"

lemma two_paragraphs_length: "length (two_paragraphs p q) = length p + 2 + length q"
  by (simp add: two_paragraphs_def)

lemma two_paragraph_lines:
  assumes p: "plain_line p" and q: "plain_line q"
  shows "splitlines (two_paragraphs p q) = [p, [], q]"
  using p q splitlines_run [of p "[]" "CHR 0x0A # q"] splitlines_run [of "[]" "[]" q] splitlines_last [of q "[]"]
  by (simp add: splitlines_def two_paragraphs_def plain_line_def)

lemma two_paragraph_blocks:
  assumes p: "plain_line p" and q: "plain_line q"
  shows "protected_block_start [p, [], q] 0 = None" "protected_block_start [p, [], q] (Suc 0) = None"
  "protected_block_start [p, [], q] (Suc (Suc 0)) = None"
  by (simp_all add: protected_block_start_def plain_line_kinds [OF p] plain_line_kinds [OF q] blank_line_kinds)

lemma two_paragraph_strip:
  assumes p: "plain_line p" and q: "plain_line q"
  shows "rstrip (two_paragraphs p q) = two_paragraphs p q" "strip (two_paragraphs p q) \<noteq> []"
proof -
  have "rev (two_paragraphs p q) \<noteq> []" "\<not> py_space (hd (rev (two_paragraphs p q)))"
    using p q by (simp_all add: two_paragraphs_def plain_line_def hd_append hd_rev)
  then have rev: "dropWhile py_space (rev (two_paragraphs p q)) = rev (two_paragraphs p q)"
    by (cases "rev (two_paragraphs p q)") simp_all
  have "two_paragraphs p q \<noteq> []" "\<not> py_space (hd (two_paragraphs p q))"
    using p alpha_char(1) by (auto simp: two_paragraphs_def plain_line_def)
  then have hd: "dropWhile py_space (two_paragraphs p q) = two_paragraphs p q"
    by (cases "two_paragraphs p q") simp_all
  show "rstrip (two_paragraphs p q) = two_paragraphs p q" by (simp add: rstrip_def rev)
  show "strip (two_paragraphs p q) \<noteq> []" using \<open>two_paragraphs p q \<noteq> []\<close> by (simp add: strip_def hd rev)
qed

lemma two_paragraph_units:
  assumes p: "plain_line p" and q: "plain_line q"
  shows "split_body_by_paragraphs (two_paragraphs p q) = [p, q]"
  using two_paragraph_strip [OF p q] p q
  by (simp add: split_body_by_paragraphs_def two_paragraph_lines [OF p q] paragraph_loop_text paragraph_loop_blank
      two_paragraph_blocks [OF p q] plain_line_kinds blank_line_kinds paragraph_loop.simps [of _ "Suc (Suc (Suc 0))"]
      plain_line_def)

lemma two_paragraph_sections:
  assumes p: "plain_line p" and q: "plain_line q"
  shows "split_into_sections (two_paragraphs p q) = [([], [], [], two_paragraphs p q, None)]"
proof -
  have "join_with newline [p, [], q] = two_paragraphs p q" by (simp add: two_paragraphs_def)
  moreover have "two_paragraphs p q \<noteq> []" by (simp add: two_paragraphs_def)
  ultimately show ?thesis
    by (simp add: split_into_sections_def two_paragraph_lines [OF p q] section_loop_text two_paragraph_blocks [OF p q]
      plain_line_kinds [OF p] plain_line_kinds [OF q] blank_line_kinds section_loop.simps [of _ "Suc (Suc (Suc 0))"]
      flush_section_def two_paragraph_strip [OF p q])
qed

text \<open>C40: a document that is a short paragraph (at most \<open>CHILD_OVERLAP\<close> characters) and a paragraph it
  does not fit into one child with, in a section that fits one parent, is never finished: the next child starts
  again at the short paragraph, so the loop appends the same child for ever. The code has no bound on the number
  of children, and a single long paragraph after a one-line introduction is enough.\<close>

theorem short_paragraph_never_returns:
  assumes "plain_line p" and "plain_line q" and "length p \<le> CHILD_OVERLAP"
    and "length p + 2 + length q > CHILD_MAX" and "length p + 2 + length q \<le> PARENT_MAX"
  shows "chunk_document fresh \<lparr>nd_source_id = sid, nd_title = title, nd_scope = scope,
     nd_markdown = two_paragraphs p q\<rparr> = None"
proof -
  have "p \<noteq> []" using assms(1) by (simp add: plain_line_def)
  have "child_end [p, q] 0 (Suc 0) (length p) = Suc 0"
    using assms(4) by (subst child_end.simps) (simp add: chunk_bounds)
  then have e: "child_end [p, q] 0 0 0 = Suc 0" by (subst child_end.simps) simp
  have "stalls [p, q] 0" using assms(3) by (simp add: stalls_def next_start_def e Let_def)
  then have "child_loop mk [p, q] 0 0 [] = None" for mk by (rule child_loop_diverges)
  then show ?thesis using assms two_paragraph_strip [OF assms(1,2)]
    by (simp add: chunk_document_def two_paragraph_sections [OF assms(1,2)] make_parents_def section_parents_def
        parent_children_def parent_chunk_def two_paragraph_units [OF assms(1,2)] two_paragraphs_def [symmetric]
        two_paragraphs_length Let_def)
qed

theorem short_paragraph_never_returns_witness:
  "chunk_document ''0123456789abcdef'' \<lparr>nd_source_id = ''ksrc_1'', nd_title = ''T'', nd_scope = ''workspace'',
     nd_markdown = two_paragraphs ''Overview'' (replicate 1200 CHR ''x'')\<rparr> = None"
proof -
  have "plain_line (replicate 1200 CHR ''x'')"
    by (simp add: plain_line_def is_alpha_def py_space_def is_line_break_def last_replicate list_all_iff)
  with short_paragraph_never_returns [of "''Overview''" "replicate 1200 CHR ''x''"] show ?thesis
    by (simp add: chunk_bounds plain_line_def is_alpha_def py_space_def is_line_break_def)
qed

subsection \<open>The parents of one section\<close>

fun parents_of_groups :: "(nat \<Rightarrow> string \<Rightarrow> chunk) \<Rightarrow> nat \<Rightarrow> string list list \<Rightarrow> chunk list" where
  "parents_of_groups mk k [] = []"
| "parents_of_groups mk k (g # gs) = mk k (join_with blank_line g) # parents_of_groups mk (Suc k) gs"

definition fits_parent :: "string list \<Rightarrow> bool" where
  "fits_parent g = (g \<noteq> [] \<and> (length g = 1 \<or> length (join_with blank_line g) \<le> PARENT_MAX))"

definition joined_size :: "string list \<Rightarrow> nat" where
  "joined_size g = sum_list (map (\<lambda>p. length p + 2) g)"

lemma joined_size_length: "g \<noteq> [] \<Longrightarrow> joined_size g = length (join_with blank_line g) + 2"
  by (induction g rule: induct_list012) (auto simp: joined_size_def)

lemma parent_loop_groups:
  "(cur \<noteq> [] \<Longrightarrow> fits_parent cur) \<Longrightarrow>
   \<exists>gs. parent_loop mk paras cur (joined_size cur) k = parents_of_groups mk k gs \<and>
     concat gs = cur @ paras \<and> (\<forall>g \<in> set gs. fits_parent g)"
proof (induction paras arbitrary: cur k)
  case Nil
  then show ?case by (intro exI [of _ "if cur = [] then [] else [cur]"]) auto
next
  case (Cons p paras)
  show ?case
  proof (cases "joined_size cur + length p > PARENT_MAX \<and> cur \<noteq> []")
    case True
    have "fits_parent [p]" by (simp add: fits_parent_def)
    from Cons.IH [of "[p]" "Suc k"] this obtain gs where
      gs: "parent_loop mk paras [p] (joined_size [p]) (Suc k) = parents_of_groups mk (Suc k) gs"
        "concat gs = [p] @ paras" "\<forall>g \<in> set gs. fits_parent g" by blast
    with True Cons.prems show ?thesis
      by (intro exI [of _ "cur # gs"]) (simp add: joined_size_def)
  next
    case False
    have size: "joined_size (cur @ [p]) = joined_size cur + length p + 2" by (simp add: joined_size_def)
    have "fits_parent (cur @ [p])"
      using False joined_size_length [of "cur @ [p]"] size by (auto simp: fits_parent_def)
    from Cons.IH [of "cur @ [p]" k] this obtain gs where
      "parent_loop mk paras (cur @ [p]) (joined_size (cur @ [p])) k = parents_of_groups mk k gs"
      "concat gs = (cur @ [p]) @ paras" "\<forall>g \<in> set gs. fits_parent g" by blast
    with False size show ?thesis by (intro exI [of _ gs]) auto
  qed
qed

text \<open>The parents of a long section partition its paragraphs: the loop groups consecutive paragraphs, in
  order and none lost or repeated, every parent is the text of one group, and a parent of more than
  \<open>PARENT_MAX\<close> characters is a single paragraph.\<close>

theorem parents_partition_paragraphs:
  "\<exists>gs. parent_loop mk paras [] 0 0 = parents_of_groups mk 0 gs \<and> concat gs = paras \<and> list_all fits_parent gs"
  using parent_loop_groups [of "[]" mk paras 0] by (auto simp: joined_size_def list_all_iff)

subsection \<open>Chunk identifiers\<close>

lemma parent_loop_first:
  "cur \<noteq> [] \<Longrightarrow> \<exists>t. mk k t \<in> set (parent_loop mk paras cur sz k)"
proof (induction paras arbitrary: cur sz)
  case (Cons p paras)
  then show ?case by auto
qed auto

lemma section_parents_index:
  assumes "sec = (chap, sect, sub, body, page)" and "split_body_by_paragraphs body \<noteq> []"
  shows "\<exists>c \<in> set (section_parents sid title scope n sec).
     chunk_index c = (if length body \<le> PARENT_MAX then n else n * 100) \<and> section_name c = sect"
proof (cases "length body \<le> PARENT_MAX")
  case True
  with assms(1) show ?thesis by (simp add: section_parents_def parent_chunk_def)
next
  case False
  obtain p ps where paras: "split_body_by_paragraphs body = p # ps" using assms(2) by (cases "split_body_by_paragraphs body") auto
  let ?mk = "\<lambda>k t. parent_chunk sid title scope sec
    (chunk_prefix sid @ ''_p'' @ zpad 4 n @ ''_'' @ zpad 2 k) (n * 100 + k) t"
  obtain t where "?mk 0 t \<in> set (parent_loop ?mk ps [p] (0 + length p + 2) 0)"
    using parent_loop_first [of "[p]" ?mk 0 ps] by auto
  then have "?mk 0 t \<in> set (section_parents sid title scope n sec)"
    using False assms(1) by (simp add: section_parents_def paras)
  with False assms(1) show ?thesis by (intro bexI [of _ "?mk 0 t"]) (simp_all add: parent_chunk_def)
qed

lemma make_parents_mem:
  "n < length sections \<Longrightarrow> c \<in> set (section_parents sid title scope n (sections ! n)) \<Longrightarrow>
   c \<in> set (make_parents sections sid title scope)"
  unfolding make_parents_def set_concat set_map
  by (rule UN_I [of "section_parents sid title scope n (sections ! n)"])
    (auto simp: set_zip intro!: image_eqI [of _ _ "(n, sections ! n)"] exI [of _ n])

text \<open>Chunk identifiers are not unique, as the public function promises. A long section numbers its parents
  \<open>ch_idx * 100 + sub_idx\<close> and a short one \<open>ch_idx\<close>, so the first parent of a long section \<open>n\<close> and the parent
  of a short section \<open>100 n\<close> have one index, and the first child of either has the same identifier.\<close>

theorem child_ids_collide:
  assumes "0 < n" and "n * 100 < length sections"
    and "sections ! n = (c1, s1, b1, long, p1)" and "length long > PARENT_MAX"
    and "split_body_by_paragraphs long \<noteq> []"
    and "sections ! (n * 100) = (c2, s2, b2, short, p2)" and "length short \<le> PARENT_MAX"
    and "split_body_by_paragraphs short \<noteq> []"
  shows "\<exists>a \<in> set (make_parents sections sid title scope). \<exists>b \<in> set (make_parents sections sid title scope).
     section_name a = s1 \<and> section_name b = s2 \<and>
     chunk_id (child_chunk sid title scope a 0 t) = chunk_id (child_chunk sid title scope b 0 u)"
proof -
  obtain a where a: "a \<in> set (section_parents sid title scope n (sections ! n))" "chunk_index a = n * 100"
    "section_name a = s1" using section_parents_index [OF assms(3,5)] assms(3,4) by force
  obtain b where b: "b \<in> set (section_parents sid title scope (n * 100) (sections ! (n * 100)))"
    "chunk_index b = n * 100" "section_name b = s2"
    using section_parents_index [OF assms(6,8)] assms(6,7) by force
  have "n < length sections" using assms(1,2) by linarith
  from make_parents_mem [OF this a(1)] make_parents_mem [OF assms(2) b(1)] a b show ?thesis
    by (intro bexI [of _ a] bexI [of _ b]) (auto simp: child_chunk_def)
qed

definition demo_sections :: "section_t list" where
  "demo_sections = (replicate 101 (''C'', ''Short'', [], ''B'', None))
     [1 := (''C'', ''Long'', [], two_paragraphs ''Overview'' (replicate 3000 CHR ''x''), None)]"

theorem child_ids_collide_witness:
  "\<exists>a \<in> set (make_parents demo_sections ''ksrc_1'' ''T'' ''workspace'').
   \<exists>b \<in> set (make_parents demo_sections ''ksrc_1'' ''T'' ''workspace'').
     section_name a = ''Long'' \<and> section_name b = ''Short'' \<and>
     chunk_id (child_chunk ''ksrc_1'' ''T'' ''workspace'' a 0 ''t'') =
     chunk_id (child_chunk ''ksrc_1'' ''T'' ''workspace'' b 0 ''u'')"
proof (rule child_ids_collide [of 1])
  have "plain_line (replicate 3000 CHR ''x'')" "plain_line ''Overview''"
    by (simp_all add: plain_line_def is_alpha_def py_space_def is_line_break_def last_replicate list_all_iff)
  then show "split_body_by_paragraphs (two_paragraphs ''Overview'' (replicate 3000 CHR ''x'')) \<noteq> []"
    by (simp add: two_paragraph_units)
  show "split_body_by_paragraphs ''B'' \<noteq> []" by code_simp
qed (simp_all add: demo_sections_def two_paragraphs_length chunk_bounds)

end
