(* ===== verification/Workflow_Definition.thy ===== *)
theory Workflow_Definition
  imports Job_Redaction Layering
begin

section \<open>Workflow definitions\<close>

text \<open>
  \<open>validate_definition\<close> of \<^verbatim>\<open>workflows/service.py\<close> and what it calls: identifiers, the normalisation of the nodes, the layers,
  the check that a node refers to its ancestors only, and the search for static secrets. A \<open>WorkflowError\<close> is a value of
  \<open>wf_error\<close>, one constructor per \<open>raise\<close>. The limits, the list of tools and the fresh identifier are a \<open>wf_config\<close>.
\<close>

datatype wf_error =
    Wf_invalid_id string
  | Wf_not_object
  | Wf_name_required
  | Wf_node_count int
  | Wf_node_not_object
  | Wf_duplicate_node string
  | Wf_unknown_tool string
  | Wf_arguments_not_object string
  | Wf_static_secret string
  | Wf_dependencies_not_list string
  | Wf_invalid_dependencies string "string list"
  | Wf_cycle
  | Wf_too_deep int
  | Wf_policy
  | Wf_version
  | Wf_status
  | Wf_outside_references string "string list"
  | Wf_inputs_not_object
  | Wf_runtime_secret
  | Wf_inputs_too_large
  | Wf_not_found
  | Wf_active_runs
  | Wf_inactive
  | Wf_run_exists
  | Wf_run_not_found
  | Wf_template_missing string
  | Wf_arguments_too_large string
  | Wf_unreadable_result

record wf_node =
  wn_id :: string
  wn_name :: string
  wn_tool :: string
  wn_arguments :: pydict
  wn_depends :: "string list"
  wn_when :: pyval

record wf_definition =
  wd_workflow_id :: string
  wd_name :: string
  wd_description :: string
  wd_version :: int
  wd_status :: string
  wd_policy :: string
  wd_nodes :: "wf_node list"
  wd_order :: "string list"
  wd_layers :: "string list list"
  wd_template :: "string option"

record wf_config =
  wc_max_nodes :: int
  wc_max_depth :: int
  wc_tools :: "(string \<times> bool) list"
  wc_fresh :: string

subsection \<open>Identifiers and templates\<close>

definition wf_id :: "string \<Rightarrow> string \<Rightarrow> wf_error + string" where
  "wf_id label v =
     (let result = strip v in
      if result \<noteq> [] \<and> length result \<le> 80 \<and> list_all is_word_dash result then Inr result else Inl (Wf_invalid_id label))"

text \<open>\<open>_TEMPLATE\<close>, \<^verbatim>\<open>\$\{([^{}]+)\}\<close>, at the start of a text: the expression and what follows the template.\<close>

definition no_brace :: "char \<Rightarrow> bool" where
  "no_brace c = (c \<noteq> CHR 0x7B \<and> c \<noteq> CHR 0x7D)"

definition match_template :: "string \<Rightarrow> (string \<times> string) option" where
  "match_template s =
     (if starts_with s ''${''
      then let run = takeWhile no_brace (drop 2 s); rest = drop (2 + length run) s in
        (if run \<noteq> [] \<and> starts_with rest ''}'' then Some (run, tl rest) else None)
      else None)"

lemma match_template_Some:
  "match_template s = Some (e, rest) \<longleftrightarrow> s = ''${'' @ e @ ''}'' @ rest \<and> e \<noteq> [] \<and> list_all no_brace e"
proof
  assume "match_template s = Some (e, rest)"
  then have e: "e = takeWhile no_brace (drop 2 s)" "e \<noteq> []" and head: "take 2 s = ''${''"
    and after: "take 1 (drop (2 + length e) s) = ''}''" "rest = tl (drop (2 + length e) s)"
    by (auto simp: match_template_def Let_def starts_with_def numeral_2_eq_2 split: if_splits)
  have "drop 2 s = e @ drop (2 + length e) s" unfolding e(1) by (metis add.commute drop_drop takeWhile_eq_take append_take_drop_id)
  moreover from after have "drop (2 + length e) s = ''}'' @ rest" by (cases "drop (2 + length e) s") auto
  ultimately have "s = ''${'' @ e @ ''}'' @ rest" using head by (metis append_take_drop_id)
  moreover have "list_all no_brace e" unfolding e(1) by (auto simp: list_all_iff dest: set_takeWhileD)
  ultimately show "s = ''${'' @ e @ ''}'' @ rest \<and> e \<noteq> [] \<and> list_all no_brace e" using e(2) by blast
next
  assume "s = ''${'' @ e @ ''}'' @ rest \<and> e \<noteq> [] \<and> list_all no_brace e"
  moreover from this have "takeWhile no_brace (e @ ''}'' @ rest) = e"
    by (simp add: list_all_iff takeWhile_append no_brace_def)
  ultimately show "match_template s = Some (e, rest)"
    by (simp add: match_template_def starts_with_def Let_def)
qed

text \<open>The templates of a text from left to right: what \<open>sub\<close> replaces (\<open>Inr\<close>) and the characters it keeps (\<open>Inl\<close>).\<close>

function template_parts :: "string \<Rightarrow> (char + string) list" where
  "template_parts s =
     (case match_template s of
        Some (e, rest) \<Rightarrow> Inr e # template_parts rest
      | None \<Rightarrow> (case s of [] \<Rightarrow> [] | c # cs \<Rightarrow> Inl c # template_parts cs))"
  by pat_completeness auto
termination
  by (relation "measure length") (auto simp: match_template_Some)

declare template_parts.simps [simp del]

text \<open>\<open>_TEMPLATE.search\<close>\<close>

definition has_template :: "string \<Rightarrow> bool" where
  "has_template s = list_ex (\<lambda>p. case p of Inr _ \<Rightarrow> True | Inl _ \<Rightarrow> False) (template_parts s)"

lemma template_part_occurs:
  "Inr e \<in> set (template_parts s) \<Longrightarrow> \<exists>pre post. s = pre @ ''${'' @ e @ ''}'' @ post"
proof (induction s rule: template_parts.induct)
  case (1 s)
  show ?case
  proof (cases "match_template s")
    case None
    have "template_parts s = (case s of [] \<Rightarrow> [] | c # cs \<Rightarrow> Inl c # template_parts cs)"
      by (simp add: template_parts.simps [of s] None)
    with "1.prems" obtain c cs where s: "s = c # cs" and e: "Inr e \<in> set (template_parts cs)"
      by (auto split: list.splits)
    from "1.IH"(1) [OF None s e] s show ?thesis by (metis append_Cons)
  next
    case (Some m)
    obtain e' rest where m: "m = (e', rest)" by fastforce
    with Some have s: "s = ''${'' @ e' @ ''}'' @ rest" by (simp add: match_template_Some)
    from "1.prems" Some m consider "e = e'" | "Inr e \<in> set (template_parts rest)"
      by (auto simp: template_parts.simps [of s])
    then show ?thesis
    proof cases
      case 1
      with s show ?thesis by (metis append_Nil)
    next
      case 2
      from "1.IH"(2) [OF Some m [symmetric] 2] obtain pre post where "rest = pre @ ''${'' @ e @ ''}'' @ post" by blast
      with s have "s = (''${'' @ e' @ ''}'' @ pre) @ ''${'' @ e @ ''}'' @ post" by simp
      then show ?thesis by blast
    qed
  qed
qed

subsection \<open>Static secrets\<close>

text \<open>\<open>_reject_static_secrets\<close> raises when this holds.\<close>

fun static_secret :: "string \<Rightarrow> pyval \<Rightarrow> bool" where
  "static_secret key (VDict d) = (\<exists>(k, v) \<in> set d. static_secret k v)"
| "static_secret key (VList xs) = (\<exists>x \<in> set xs. static_secret key x)"
| "static_secret key (VStr s) = (is_sensitive_field key \<and> \<not> has_template s)"
| "static_secret key v = is_sensitive_field key"

text \<open>\<open>_reject_runtime_secrets\<close>\<close>

fun runtime_secret :: "string \<Rightarrow> pyval \<Rightarrow> bool" where
  "runtime_secret key (VDict d) = (\<exists>(k, v) \<in> set d. runtime_secret k v)"
| "runtime_secret key (VList xs) = (\<exists>x \<in> set xs. runtime_secret key x)"
| "runtime_secret key v = (is_sensitive_field key \<and> v \<noteq> VNone \<and> v \<noteq> VStr [])"

subsection \<open>References between nodes\<close>

text \<open>\<^verbatim>\<open>\$\{nodes\.([A-Za-z0-9_-]+)\.\<close> at the start of a text; a match holds no second dollar sign, so \<open>finditer\<close> finds the
  matches at every position.\<close>

definition reference_at :: "string \<Rightarrow> string option" where
  "reference_at s =
     (if starts_with s ''${nodes.''
      then let run = takeWhile is_word_dash (drop 8 s) in
        (if run \<noteq> [] \<and> starts_with (drop (8 + length run) s) ''.'' then Some run else None)
      else None)"

fun text_references :: "string \<Rightarrow> string list" where
  "text_references [] = []"
| "text_references (c # cs) =
     (case reference_at (c # cs) of Some x \<Rightarrow> x # text_references cs | None \<Rightarrow> text_references cs)"

fun references :: "pyval \<Rightarrow> string list" where
  "references (VDict d) = concat (map (\<lambda>(_, v). references v) d)"
| "references (VList xs) = concat (map references xs)"
| "references (VStr s) = text_references s"
| "references v = []"

text \<open>The loop of \<open>ancestors\<close>. It runs on nodes whose dependencies are nodes, so the empty list for an unknown name is never
  used. Every round takes a name off \<open>pending\<close>; a name that puts others there is new, and there are finitely many.\<close>

definition deps_of :: "(string \<times> string list) list \<Rightarrow> string \<Rightarrow> string list" where
  "deps_of graph n = (case map_of graph n of Some ds \<Rightarrow> ds | None \<Rightarrow> [])"

function collect_ancestors :: "(string \<times> string list) list \<Rightarrow> string list \<Rightarrow> string list \<Rightarrow> string list" where
  "collect_ancestors graph result pending =
     (if pending = [] then result
      else let d = last pending; pending = butlast pending in
        if d \<in> set result then collect_ancestors graph result pending
        else collect_ancestors graph (d # result) (pending @ deps_of graph d))"
  by pat_completeness auto
termination
proof (relation "measures [\<lambda>(g, r, _). card (fst ` set g - set r), \<lambda>(_, _, p). length p]", goal_cases)
  case (3 graph result pending d rest)
  show ?case
  proof (cases "d \<in> fst ` set graph")
    case True
    with 3 have "fst ` set graph - set (d # result) \<subset> fst ` set graph - set result" by auto
    then have "card (fst ` set graph - set (d # result)) < card (fst ` set graph - set result)"
      by (intro psubset_card_mono) auto
    then show ?thesis by simp
  next
    case False
    then have "map_of graph d = None" by (simp add: map_of_eq_None_iff)
    then have "deps_of graph d = []" by (simp add: deps_of_def)
    moreover from False have "fst ` set graph - set (d # result) = fst ` set graph - set result" by auto
    ultimately show ?thesis using 3 by simp
  qed
qed auto

declare collect_ancestors.simps [simp del]

definition node_ancestors :: "(string \<times> string list) list \<Rightarrow> string \<Rightarrow> string list" where
  "node_ancestors graph n = collect_ancestors graph [] (deps_of graph n)"

definition wf_graph :: "wf_node list \<Rightarrow> (string \<times> string list) list" where
  "wf_graph nodes = map (\<lambda>n. (wn_id n, wn_depends n)) nodes"

definition node_references :: "wf_node \<Rightarrow> string list" where
  "node_references n = references (VDict (wn_arguments n)) @ references (wn_when n)"

definition validate_references :: "wf_node list \<Rightarrow> wf_error + unit" where
  "validate_references nodes =
     py_each (\<lambda>n. let invalid = filter (\<lambda>x. x \<notin> set (node_ancestors (wf_graph nodes) (wn_id n))) (node_references n) in
                  py_require (invalid = []) (Wf_outside_references (wn_id n) (sort (remdups invalid)))) nodes"

subsection \<open>Validation\<close>

definition available_tools :: "wf_config \<Rightarrow> string set" where
  "available_tools cfg = {t. (t, True) \<in> set (wc_tools cfg)}"

definition str_field :: "pydict \<Rightarrow> string \<Rightarrow> string \<Rightarrow> string" where
  "str_field d k dflt = str_of_or (vget d k) dflt"

text \<open>The body of the loop over the nodes, after the identifiers seen so far.\<close>

definition normalize_node :: "wf_config \<Rightarrow> string list \<Rightarrow> pyval \<Rightarrow> wf_error + wf_node" where
  "normalize_node cfg seen raw =
     (case raw of
        VDict r \<Rightarrow>
          py_bind (wf_id ''node_id'' (str_field r ''node_id'' [])) (\<lambda>node_id.
          py_bind (py_require (node_id \<notin> set seen) (Wf_duplicate_node node_id)) (\<lambda>_.
          let tool = strip (str_field r ''tool_id'' []) in
          py_bind (py_require ((tool, True) \<in> set (wc_tools cfg)) (Wf_unknown_tool tool)) (\<lambda>_.
          case vor (vget r ''arguments'') (VDict []) of
            VDict arguments \<Rightarrow>
              py_bind (py_require (\<not> static_secret [] (VDict arguments)) (Wf_static_secret node_id)) (\<lambda>_.
              case vor (vget r ''depends_on'') (VList []) of
                VList depends \<Rightarrow>
                  Inr \<lparr>wn_id = node_id, wn_name = take 120 (str_field r ''name'' node_id), wn_tool = tool,
                       wn_arguments = arguments, wn_depends = map py_str depends,
                       wn_when = vget_or r ''when'' (VBool True)\<rparr>
              | _ \<Rightarrow> Inl (Wf_dependencies_not_list node_id))
          | _ \<Rightarrow> Inl (Wf_arguments_not_object node_id))))
      | _ \<Rightarrow> Inl Wf_node_not_object)"

fun normalize_nodes :: "wf_config \<Rightarrow> string list \<Rightarrow> pyval list \<Rightarrow> wf_error + wf_node list" where
  "normalize_nodes cfg seen [] = Inr []"
| "normalize_nodes cfg seen (raw # rest) =
     py_bind (normalize_node cfg seen raw) (\<lambda>n.
     py_bind (normalize_nodes cfg (wn_id n # seen) rest) (\<lambda>ns. Inr (n # ns)))"

definition check_dependencies :: "wf_node list \<Rightarrow> wf_error + unit" where
  "check_dependencies nodes =
     py_each (\<lambda>n. let missing = filter (\<lambda>d. d \<notin> wn_id ` set nodes) (wn_depends n) in
                  py_require (missing = [] \<and> wn_id n \<notin> set (wn_depends n))
                    (Wf_invalid_dependencies (wn_id n) (sort (remdups missing)))) nodes"

definition execution_layers :: "wf_node list \<Rightarrow> wf_error + string list list" where
  "execution_layers nodes = layers_by Wf_cycle sort (wf_graph nodes)"

interpretation wf: layering "sort :: string list \<Rightarrow> string list"
  by unfold_locales simp

definition validate_definition :: "wf_config \<Rightarrow> pyval \<Rightarrow> wf_error + wf_definition" where
  "validate_definition cfg payload =
     (case payload of
        VDict p \<Rightarrow>
          py_bind (wf_id ''workflow_id'' (str_field p ''workflow_id'' (''workflow_'' @ wc_fresh cfg))) (\<lambda>workflow_id.
          let name = strip (str_field p ''name'' []) in
          py_bind (py_require (name \<noteq> []) Wf_name_required) (\<lambda>_.
          py_bind (case vget p ''nodes'' of
                     VList raws \<Rightarrow> (if raws = [] \<or> wc_max_nodes cfg > 0 \<and> int (length raws) > wc_max_nodes cfg
                                   then Inl (Wf_node_count (wc_max_nodes cfg)) else Inr raws)
                   | _ \<Rightarrow> Inl (Wf_node_count (wc_max_nodes cfg))) (\<lambda>raws.
          py_bind (normalize_nodes cfg [] raws) (\<lambda>nodes.
          py_bind (check_dependencies nodes) (\<lambda>_.
          py_bind (execution_layers nodes) (\<lambda>layers.
          py_bind (py_require (\<not> (wc_max_depth cfg > 0 \<and> int (length layers) > wc_max_depth cfg)) (Wf_too_deep (wc_max_depth cfg))) (\<lambda>_.
          let policy = str_field p ''failure_policy'' ''continue'' in
          py_bind (py_require (policy = ''continue'') Wf_policy) (\<lambda>_.
          py_bind (case py_int (vor (vget p ''version'') (VInt 1)) of
                     Some i \<Rightarrow> (if i < 1 then Inl Wf_version else Inr i)
                   | None \<Rightarrow> Inl Wf_version) (\<lambda>version.
          let status = str_field p ''status'' ''active'' in
          py_bind (py_require (status \<in> set [''draft'', ''active'', ''archived'']) Wf_status) (\<lambda>_.
          py_bind (validate_references nodes) (\<lambda>_.
          let template = strip (str_field p ''template_id'' []) in
          py_bind (if template = [] then Inr None else py_bind (wf_id ''template_id'' template) (\<lambda>t. Inr (Some t))) (\<lambda>template.
          Inr \<lparr>wd_workflow_id = workflow_id, wd_name = take 120 name,
               wd_description = take 1000 (str_field p ''description'' []), wd_version = version, wd_status = status,
               wd_policy = policy, wd_nodes = nodes, wd_order = concat layers, wd_layers = layers,
               wd_template = template\<rparr>))))))))))))
      | _ \<Rightarrow> Inl Wf_not_object)"

text \<open>The stored record of a definition, without its two times.\<close>

definition node_json :: "wf_node \<Rightarrow> pydict" where
  "node_json n = [(''node_id'', VStr (wn_id n)), (''name'', VStr (wn_name n)), (''tool_id'', VStr (wn_tool n)),
     (''arguments'', VDict (wn_arguments n)), (''depends_on'', VList (map VStr (wn_depends n))), (''when'', wn_when n)]"

definition definition_json :: "wf_definition \<Rightarrow> pydict" where
  "definition_json d =
     [(''workflow_id'', VStr (wd_workflow_id d)), (''name'', VStr (wd_name d)), (''description'', VStr (wd_description d)),
      (''version'', VInt (wd_version d)), (''status'', VStr (wd_status d)), (''failure_policy'', VStr (wd_policy d)),
      (''nodes'', VList (map (\<lambda>n. VDict (node_json n)) (wd_nodes d))), (''execution_order'', VList (map VStr (wd_order d))),
      (''execution_layers'', VList (map (\<lambda>layer. VList (map VStr layer)) (wd_layers d)))] @
     (case wd_template d of Some t \<Rightarrow> [(''template_id'', VStr t)] | None \<Rightarrow> [])"

subsection \<open>Ancestors\<close>

lemma collect_reaches: "set result \<union> set pending \<subseteq> set (collect_ancestors graph result pending)"
proof (induction graph result pending rule: collect_ancestors.induct)
  case (1 graph result pending)
  show ?case
  proof (cases "pending = []")
    case False
    then have p: "set pending = insert (last pending) (set (butlast pending))"
      by (metis append_butlast_last_id list.simps(15) rotate1.simps(2) set_rotate1)
    show ?thesis
      using "1.IH"(1) [OF False refl refl] "1.IH"(2) [OF False refl refl] False
      by (auto simp: p collect_ancestors.simps [of graph result pending] Let_def split: if_splits)
  qed (simp add: collect_ancestors.simps)
qed

lemma collect_closed:
  "\<forall>x \<in> set result. set (deps_of graph x) \<subseteq> set result \<union> set pending \<Longrightarrow>
     \<forall>x \<in> set (collect_ancestors graph result pending). set (deps_of graph x) \<subseteq> set (collect_ancestors graph result pending)"
proof (induction graph result pending rule: collect_ancestors.induct)
  case (1 graph result pending)
  show ?case
  proof (cases "pending = []")
    case True
    with "1.prems" show ?thesis by (simp add: collect_ancestors.simps)
  next
    case False
    then have p: "set pending = insert (last pending) (set (butlast pending))"
      by (metis append_butlast_last_id list.simps(15) rotate1.simps(2) set_rotate1)
    show ?thesis
    proof (cases "last pending \<in> set result")
      case True
      from "1.prems" p True have "\<forall>x \<in> set result. set (deps_of graph x) \<subseteq> set result \<union> set (butlast pending)" by auto
      from "1.IH"(1) [OF False refl refl True this] show ?thesis
        by (simp add: collect_ancestors.simps [of graph result pending] False True Let_def)
    next
      case new: False
      from "1.prems" p have "\<forall>x \<in> set (last pending # result). set (deps_of graph x) \<subseteq>
        set (last pending # result) \<union> set (butlast pending @ deps_of graph (last pending))" by auto
      from "1.IH"(2) [OF False refl refl new this] show ?thesis
        by (simp add: collect_ancestors.simps [of graph result pending] False new Let_def)
    qed
  qed
qed

lemma collect_sound:
  "set (collect_ancestors graph result pending) \<subseteq>
     set result \<union> {a. \<exists>b \<in> set pending. (a, b) \<in> {(d, s). d \<in> set (deps_of graph s)}\<^sup>*}"
proof (induction graph result pending rule: collect_ancestors.induct)
  case (1 graph result pending)
  let ?E = "{(d, s). d \<in> set (deps_of graph s)}"
  show ?case
  proof (cases "pending = []")
    case False
    have mem: "last pending \<in> set pending" "set (butlast pending) \<subseteq> set pending"
      using False by (auto dest: in_set_butlastD)
    have up: "(a, last pending) \<in> ?E\<^sup>*" if "(a, b) \<in> ?E\<^sup>*" "b \<in> set (deps_of graph (last pending))" for a b
      using that by (auto intro: rtrancl_into_rtrancl)
    show ?thesis
    proof (cases "last pending \<in> set result")
      case True
      with "1.IH"(1) [OF False refl refl True] mem show ?thesis
        by (simp add: collect_ancestors.simps [of graph result pending] False Let_def) blast
    next
      case new: False
      have "set (collect_ancestors graph result pending) =
          set (collect_ancestors graph (last pending # result) (butlast pending @ deps_of graph (last pending)))"
        by (simp add: collect_ancestors.simps [of graph result pending] False new Let_def)
      also note "1.IH"(2) [OF False refl refl new]
      also have "set (last pending # result) \<union> {a. \<exists>b \<in> set (butlast pending @ deps_of graph (last pending)). (a, b) \<in> ?E\<^sup>*}
          \<subseteq> set result \<union> {a. \<exists>b \<in> set pending. (a, b) \<in> ?E\<^sup>*}"
        using mem up by auto
      finally show ?thesis .
    qed
  qed (simp add: collect_ancestors.simps)
qed

lemma closed_graph_lookup: "closed_graph graph \<Longrightarrow> (s, ds) \<in> set graph \<longleftrightarrow> map_of graph s = Some ds"
  by (auto simp: closed_graph_def intro: map_of_is_SomeI dest: map_of_SomeD)

lemma edges_deps_of: "closed_graph graph \<Longrightarrow> edges graph = {(d, s). d \<in> set (deps_of graph s)}"
  by (force simp: edges_def deps_of_def closed_graph_lookup split: option.splits)

lemma set_node_ancestors:
  assumes "closed_graph graph"
  shows "set (node_ancestors graph n) = {a. (a, n) \<in> (edges graph)\<^sup>+}"
proof
  show "set (node_ancestors graph n) \<subseteq> {a. (a, n) \<in> (edges graph)\<^sup>+}"
    using collect_sound [of graph "[]" "deps_of graph n"]
    by (auto simp: node_ancestors_def edges_deps_of [OF assms] intro: rtrancl_into_trancl1)
  show "{a. (a, n) \<in> (edges graph)\<^sup>+} \<subseteq> set (node_ancestors graph n)"
  proof
    fix a assume "a \<in> {a. (a, n) \<in> (edges graph)\<^sup>+}"
    then have "(a, n) \<in> (edges graph)\<^sup>+" by simp
    then show "a \<in> set (node_ancestors graph n)"
    proof (induction rule: converse_trancl_induct)
      case (base a)
      then show ?case
        using collect_reaches [of "[]" "deps_of graph n" graph] by (auto simp: node_ancestors_def edges_deps_of [OF assms])
    next
      case (step a b)
      then show ?case
        using collect_closed [of "[]" graph "deps_of graph n"] by (auto simp: node_ancestors_def edges_deps_of [OF assms])
    qed
  qed
qed

subsection \<open>What an accepted definition satisfies\<close>

lemma wf_id_Inr: "wf_id label v = Inr i \<longleftrightarrow> i = strip v \<and> i \<noteq> [] \<and> length i \<le> 80 \<and> list_all is_word_dash i"
  by (auto simp: wf_id_def Let_def)

definition node_ok :: "wf_config \<Rightarrow> wf_node \<Rightarrow> bool" where
  "node_ok cfg n =
     (wn_id n \<noteq> [] \<and> length (wn_id n) \<le> 80 \<and> list_all is_word_dash (wn_id n) \<and> wn_tool n \<in> available_tools cfg \<and>
      strip (wn_tool n) = wn_tool n \<and> length (wn_name n) \<le> 120 \<and> wn_name n \<noteq> [] \<and> \<not> static_secret [] (VDict (wn_arguments n)))"

lemma py_str_nonempty: "truthy v \<Longrightarrow> py_str v \<noteq> []"
  by (cases v) (auto simp: py_str_def int_str_def nat_digits.simps)

lemma normalize_node_Inr:
  assumes "normalize_node cfg seen raw = Inr n"
  shows "node_ok cfg n \<and> wn_id n \<notin> set seen"
proof -
  have name: "str_of_or v i \<noteq> []" if "i \<noteq> []" for v i
    using that py_str_nonempty [of v] by (auto simp: str_of_or_def vor_def)
  from assms show ?thesis
    by (auto simp: normalize_node_def guard_simps Let_def node_ok_def available_tools_def wf_id_Inr name str_field_def
        simp del: static_secret.simps split: pyval.splits)
qed

lemma normalize_nodes_Inr:
  "normalize_nodes cfg seen raws = Inr ns \<Longrightarrow>
     distinct (map wn_id ns) \<and> set (map wn_id ns) \<inter> set seen = {} \<and> (\<forall>n \<in> set ns. node_ok cfg n) \<and> length ns = length raws"
proof (induction cfg seen raws arbitrary: ns rule: normalize_nodes.induct)
  case (2 cfg seen raw rest)
  then obtain n ms where n: "normalize_node cfg seen raw = Inr n" and ms: "normalize_nodes cfg (wn_id n # seen) rest = Inr ms"
    and ns: "ns = n # ms" by (auto simp: py_bind_Inr)
  from "2.IH" [OF ms] normalize_node_Inr [OF n] ns show ?case by auto
qed simp

lemma check_dependencies_Inr:
  "check_dependencies nodes = Inr u \<longleftrightarrow>
     (\<forall>n \<in> set nodes. set (wn_depends n) \<subseteq> wn_id ` set nodes \<and> wn_id n \<notin> set (wn_depends n))"
  by (auto simp: check_dependencies_def guard_simps Let_def filter_empty_conv)

lemma map_fst_wf_graph [simp]: "map fst (wf_graph nodes) = map wn_id nodes"
  by (simp add: wf_graph_def)

lemma fst_wf_graph [simp]: "fst ` set (wf_graph nodes) = wn_id ` set nodes"
  by (metis map_fst_wf_graph set_map)

lemma closed_wf_graph:
  "distinct (map wn_id nodes) \<Longrightarrow> check_dependencies nodes = Inr u \<Longrightarrow> closed_graph (wf_graph nodes)"
  by (simp add: closed_graph_def check_dependencies_Inr) (auto simp: wf_graph_def)

lemma validate_references_Inr:
  "validate_references nodes = Inr u \<longleftrightarrow>
     (\<forall>n \<in> set nodes. set (node_references n) \<subseteq> set (node_ancestors (wf_graph nodes) (wn_id n)))"
  by (auto simp: validate_references_def guard_simps Let_def filter_empty_conv)

text \<open>The outcome of every check of an accepted definition.\<close>

definition accepted_fields :: "wf_config \<Rightarrow> pydict \<Rightarrow> wf_definition \<Rightarrow> bool" where
  "accepted_fields cfg p d =
     (wf_id ''workflow_id'' (str_field p ''workflow_id'' (''workflow_'' @ wc_fresh cfg)) = Inr (wd_workflow_id d) \<and>
      strip (str_field p ''name'' []) \<noteq> [] \<and> wd_name d = take 120 (strip (str_field p ''name'' [])) \<and>
      check_dependencies (wd_nodes d) = Inr () \<and> execution_layers (wd_nodes d) = Inr (wd_layers d) \<and>
      \<not> (wc_max_depth cfg > 0 \<and> int (length (wd_layers d)) > wc_max_depth cfg) \<and>
      wd_policy d = ''continue'' \<and> str_field p ''failure_policy'' ''continue'' = ''continue'' \<and>
      py_int (vor (vget p ''version'') (VInt 1)) = Some (wd_version d) \<and> wd_version d \<ge> 1 \<and>
      wd_status d = str_field p ''status'' ''active'' \<and> wd_status d \<in> set [''draft'', ''active'', ''archived''] \<and>
      validate_references (wd_nodes d) = Inr () \<and> wd_order d = concat (wd_layers d) \<and>
      wd_description d = take 1000 (str_field p ''description'' []) \<and>
      (let t = strip (str_field p ''template_id'' []) in
       if t = [] then wd_template d = None else wf_id ''template_id'' t = Inr t \<and> wd_template d = Some t))"

lemma validate_definition_Inr:
  "validate_definition cfg (VDict p) = Inr d \<longleftrightarrow>
     (\<exists>raws. vget p ''nodes'' = VList raws \<and> raws \<noteq> [] \<and> \<not> (wc_max_nodes cfg > 0 \<and> int (length raws) > wc_max_nodes cfg) \<and>
        normalize_nodes cfg [] raws = Inr (wd_nodes d)) \<and> accepted_fields cfg p d"
proof (cases "\<exists>raws i. vget p ''nodes'' = VList raws \<and> py_int (vor (vget p ''version'') (VInt 1)) = Some i")
  case True
  then obtain raws i where raws: "vget p ''nodes'' = VList raws" and i: "py_int (vor (vget p ''version'') (VInt 1)) = Some i" by blast
  have template: "(if t = [] then Inr None else py_bind (wf_id ''template_id'' t) (\<lambda>t. Inr (Some t))) = Inr x \<longleftrightarrow>
      (if t = [] then x = None else wf_id ''template_id'' t = Inr t \<and> x = Some t)" if "strip t = t" for t x
    using that by (auto simp: py_bind_Inr wf_id_Inr)
  show ?thesis
    by (cases d) (auto simp: validate_definition_def accepted_fields_def raws i template Let_def py_bind_Inr py_require_Inr)
next
  case False
  then show ?thesis
    by (cases "vget p ''nodes''")
      (auto simp: validate_definition_def accepted_fields_def Let_def py_bind_Inr split: if_splits option.splits)
qed

lemma node_ok_id: "node_ok cfg n \<Longrightarrow> wf_id ''node_id'' (wn_id n) = Inr (wn_id n)"
proof -
  assume ok: "node_ok cfg n"
  then have "wn_id n \<noteq> []" "\<forall>c \<in> set (wn_id n). is_word_dash c" by (simp_all add: node_ok_def list_all_iff)
  moreover have "\<not> py_space c" if "is_word_dash c" for c
    using that by (auto simp: is_word_dash_def is_alpha_def is_digit_def py_space_def Let_def)
  ultimately have "strip (wn_id n) = wn_id n" by (intro strip_unpadded) auto
  with ok show ?thesis by (simp add: wf_id_Inr node_ok_def)
qed

lemma normalize_node_json:
  assumes "node_ok cfg n" "wn_id n \<notin> set seen"
  shows "normalize_node cfg seen (VDict (node_json n)) = Inr n"
proof -
  have get: "vget (node_json n) ''node_id'' = VStr (wn_id n)" "vget (node_json n) ''name'' = VStr (wn_name n)"
    "vget (node_json n) ''tool_id'' = VStr (wn_tool n)" "vget (node_json n) ''arguments'' = VDict (wn_arguments n)"
    "vget (node_json n) ''depends_on'' = VList (map VStr (wn_depends n))"
    "vget_or (node_json n) ''when'' (VBool True) = wn_when n"
    by (simp_all add: node_json_def vget_def vget_or_def)
  have or: "vor (VDict a) (VDict []) = VDict a" "vor (VList l) (VList []) = VList l" for a l
    by (simp_all add: vor_def)
  have str: "str_of_or (VStr s) t = (if s = [] then t else s)" for s t
    by (simp_all add: str_of_or_def vor_def)
  have "map py_str (map VStr ds) = ds" for ds by (induction ds) auto
  with assms show ?thesis
    by (simp add: normalize_node_def str_field_def get or str node_ok_id Let_def del: static_secret.simps map_map)
      (simp add: node_ok_def available_tools_def del: static_secret.simps)
qed

lemma normalize_nodes_json:
  "\<forall>n \<in> set ns. node_ok cfg n \<Longrightarrow> distinct (map wn_id ns) \<Longrightarrow> set (map wn_id ns) \<inter> set seen = {} \<Longrightarrow>
     normalize_nodes cfg seen (map (\<lambda>n. VDict (node_json n)) ns) = Inr ns"
proof (induction ns arbitrary: seen)
  case (Cons n ns)
  then have "normalize_nodes cfg (wn_id n # seen) (map (\<lambda>n. VDict (node_json n)) ns) = Inr ns" by (intro Cons.IH) auto
  with Cons.prems show ?case by (simp add: normalize_node_json)
qed simp

subsection \<open>Properties\<close>

lemma accepted_nodes:
  assumes "validate_definition cfg payload = Inr d"
  shows "distinct (map wn_id (wd_nodes d))" "\<forall>n \<in> set (wd_nodes d). node_ok cfg n"
    and "check_dependencies (wd_nodes d) = Inr ()" "execution_layers (wd_nodes d) = Inr (wd_layers d)"
    and "validate_references (wd_nodes d) = Inr ()" "wd_order d = concat (wd_layers d)" "wd_nodes d \<noteq> []"
proof -
  from assms obtain p where p: "payload = VDict p" by (cases payload) (simp_all add: validate_definition_def)
  from assms [unfolded p validate_definition_Inr] obtain raws where ns: "normalize_nodes cfg [] raws = Inr (wd_nodes d)"
    "raws \<noteq> []" and f: "accepted_fields cfg p d" by blast
  from normalize_nodes_Inr [OF ns(1)] ns(2) show "distinct (map wn_id (wd_nodes d))" "\<forall>n \<in> set (wd_nodes d). node_ok cfg n"
    "wd_nodes d \<noteq> []" by auto
  from f show "check_dependencies (wd_nodes d) = Inr ()" "execution_layers (wd_nodes d) = Inr (wd_layers d)"
    "validate_references (wd_nodes d) = Inr ()" "wd_order d = concat (wd_layers d)" by (simp_all add: accepted_fields_def)
qed

lemma accepted_closed: "validate_definition cfg payload = Inr d \<Longrightarrow> closed_graph (wf_graph (wd_nodes d))"
  using accepted_nodes by (intro closed_wf_graph)

lemma accepted_layers:
  assumes "validate_definition cfg payload = Inr d"
  shows "distinct (concat (wd_layers d))" "set (concat (wd_layers d)) = wn_id ` set (wd_nodes d)"
    and "\<forall>layer \<in> set (wd_layers d). layer \<noteq> [] \<and> sorted layer"
    and "wd_layers d = pre @ layer # post \<Longrightarrow> n \<in> set (wd_nodes d) \<Longrightarrow> wn_id n \<in> set layer \<Longrightarrow>
      set (wn_depends n) \<subseteq> set (concat pre)"
proof -
  note L = wf.layers_topological [OF accepted_nodes(4) [OF assms, unfolded execution_layers_def] accepted_closed [OF assms]]
  show "distinct (concat (wd_layers d))" using L by blast
  from L show "set (concat (wd_layers d)) = wn_id ` set (wd_nodes d)" by simp
  from L show "\<forall>layer \<in> set (wd_layers d). layer \<noteq> [] \<and> sorted layer" by fastforce
  assume split: "wd_layers d = pre @ layer # post" and n: "n \<in> set (wd_nodes d)" "wn_id n \<in> set layer"
  from L have "\<forall>pre layer post. wd_layers d = pre @ layer # post \<longrightarrow>
      (\<forall>s \<in> set layer. \<forall>ds. (s, ds) \<in> set (wf_graph (wd_nodes d)) \<longrightarrow> set ds \<subseteq> set (concat pre))" by blast
  moreover from n(1) have "(wn_id n, wn_depends n) \<in> set (wf_graph (wd_nodes d))" by (auto simp: wf_graph_def)
  ultimately show "set (wn_depends n) \<subseteq> set (concat pre)" using split n(2) by blast
qed

lemma accepted_acyclic:
  assumes "validate_definition cfg payload = Inr d"
  shows "acyclic (edges (wf_graph (wd_nodes d)))"
  using wf.layers_acyclic [OF accepted_closed [OF assms], of Wf_cycle] accepted_nodes(4) [OF assms]
  by (auto simp: execution_layers_def)


definition demo_config :: wf_config where
  "demo_config = \<lparr>wc_max_nodes = 0, wc_max_depth = 0, wc_tools = [(''text.echo'', True), (''file.write'', True)], wc_fresh = ''0a1b2c3d''\<rparr>"

definition demo_raw :: "string \<Rightarrow> string list \<Rightarrow> pydict \<Rightarrow> pyval" where
  "demo_raw i deps args = VDict [(''node_id'', VStr i), (''tool_id'', VStr ''text.echo''), (''arguments'', VDict args),
     (''depends_on'', VList (map VStr deps))]"

definition demo_payload :: pyval where
  "demo_payload = VDict [(''workflow_id'', VStr '' flow ''), (''name'', VStr ''Demo''),
     (''nodes'', VList [demo_raw ''b'' [''a''] [(''note'', VStr ''got ${nodes.a.output.echo}'')], demo_raw ''a'' [] []])]"

definition demo_node :: "string \<Rightarrow> string list \<Rightarrow> pydict \<Rightarrow> wf_node" where
  "demo_node i deps args = \<lparr>wn_id = i, wn_name = i, wn_tool = ''text.echo'', wn_arguments = args, wn_depends = deps, wn_when = VBool True\<rparr>"

definition demo_definition :: wf_definition where
  "demo_definition = \<lparr>wd_workflow_id = ''flow'', wd_name = ''Demo'', wd_description = [], wd_version = 1, wd_status = ''active'',
     wd_policy = ''continue'', wd_nodes = [demo_node ''b'' [''a''] [(''note'', VStr ''got ${nodes.a.output.echo}'')], demo_node ''a'' [] []],
     wd_order = [''a'', ''b''], wd_layers = [[''a''], [''b'']], wd_template = None\<rparr>"

lemma demo_accepted: "validate_definition demo_config demo_payload = Inr demo_definition"
  by code_simp


lemma accepted_policy: "validate_definition cfg payload = Inr d \<Longrightarrow> wd_policy d = ''continue''"
  by (cases payload) (auto simp: validate_definition_Inr accepted_fields_def, simp_all add: validate_definition_def)

lemma definition_json_valid:
  assumes "validate_definition cfg payload = Inr d"
  shows "validate_definition cfg (VDict (definition_json d)) = Inr (d\<lparr>wd_name := strip (wd_name d)\<rparr>)"
proof -
  let ?j = "definition_json d"
  from assms obtain p where p: "payload = VDict p" by (cases payload) (simp_all add: validate_definition_def)
  from assms [unfolded p validate_definition_Inr] obtain raws where raws: "normalize_nodes cfg [] raws = Inr (wd_nodes d)"
    "raws \<noteq> []" "\<not> (wc_max_nodes cfg > 0 \<and> int (length raws) > wc_max_nodes cfg)" and f: "accepted_fields cfg p d" by blast
  note N = normalize_nodes_Inr [OF raws(1)]
  have get: "vget ?j ''workflow_id'' = VStr (wd_workflow_id d)" "vget ?j ''name'' = VStr (wd_name d)"
    "vget ?j ''description'' = VStr (wd_description d)" "vget ?j ''version'' = VInt (wd_version d)"
    "vget ?j ''status'' = VStr (wd_status d)" "vget ?j ''failure_policy'' = VStr (wd_policy d)"
    "vget ?j ''nodes'' = VList (map (\<lambda>n. VDict (node_json n)) (wd_nodes d))"
    "vget ?j ''template_id'' = (case wd_template d of Some t \<Rightarrow> VStr t | None \<Rightarrow> VNone)"
    by (simp_all add: definition_json_def vget_def vget_or_def split: option.split)
  have str: "str_of_or (VStr s) t = (if s = [] then t else s)" "str_of_or VNone [] = []" for s t
    by (simp_all add: str_of_or_def vor_def)
  have name: "strip (wd_name d) \<noteq> []" "length (wd_name d) \<le> 120"
    using f strip_take_nonempty [of "str_field p ''name'' []" 120] by (simp_all add: accepted_fields_def)
  have ids: "wd_workflow_id d \<noteq> []" "wf_id ''workflow_id'' (wd_workflow_id d) = Inr (wd_workflow_id d)"
    using f by (auto simp: accepted_fields_def wf_id_Inr)
  have template: "t \<noteq> [] \<and> strip t = t \<and> wf_id ''template_id'' t = Inr t" if "wd_template d = Some t" for t
    using f that by (auto simp: accepted_fields_def wf_id_Inr Let_def split: if_splits)
  have checks: "check_dependencies (wd_nodes d) = Inr ()" "execution_layers (wd_nodes d) = Inr (wd_layers d)"
    "\<not> (wc_max_depth cfg > 0 \<and> int (length (wd_layers d)) > wc_max_depth cfg)" "wd_policy d = ''continue''" "1 \<le> wd_version d"
    "wd_status d \<in> set [''draft'', ''active'', ''archived'']" "validate_references (wd_nodes d) = Inr ()"
    "wd_order d = concat (wd_layers d)" "length (wd_description d) \<le> 1000"
    using f unfolding accepted_fields_def by (blast, blast, blast, blast, blast, blast, blast, blast, simp)
  have version: "vor (VInt (wd_version d)) (VInt 1) = VInt (wd_version d)" using checks(5) by (simp add: vor_def)
  have status: "wd_status d \<noteq> []" using checks(6) by auto
  have "accepted_fields cfg ?j (d\<lparr>wd_name := strip (wd_name d)\<rparr>)"
    unfolding accepted_fields_def str_field_def get str version
    using checks name ids template status length_strip [of "wd_name d"]
    by (cases "wd_template d") (simp_all add: str py_int_def Let_def)
  moreover have "normalize_nodes cfg [] (map (\<lambda>n. VDict (node_json n)) (wd_nodes d)) = Inr (wd_nodes d)"
    using N by (intro normalize_nodes_json) auto
  moreover have "wd_nodes d \<noteq> []" "length (wd_nodes d) = length raws" using N raws(2) by auto
  ultimately show ?thesis
    using raws(3) by (simp add: validate_definition_Inr get)
qed

text \<open>C26: a saved definition survives its own validation, which every run repeats on the stored record: it comes back as it is, but
  for a blank that the cut of the name at 120 characters left at its end.\<close>

theorem definition_revalidates:
  assumes "validate_definition cfg payload = Inr d"
  shows "validate_definition cfg (VDict (definition_json d)) = Inr (d\<lparr>wd_name := strip (wd_name d)\<rparr>)"
  by (rule definition_json_valid [OF assms])

theorem definition_revalidates_witness:
  "validate_definition demo_config (VDict (definition_json demo_definition)) = Inr demo_definition"
proof -
  have "demo_definition\<lparr>wd_name := strip (wd_name demo_definition)\<rparr> = demo_definition" by code_simp
  with definition_revalidates [OF demo_accepted] show ?thesis by simp
qed

end
