(* ===== verification/Workflow_Run.thy ===== *)
theory Workflow_Run
  imports Workflow_Definition Tool_Executor Retry_Policy
begin

section \<open>Workflow runs\<close>

text \<open>
  \<open>execute_workflow\<close> of \<^verbatim>\<open>workflows/service.py\<close>: the templates of a node are resolved from the inputs and the outputs so far, its
  tool is called through the execution gate, and the layers are run in turn, reads of a layer together and every write
  alone. The state holds the record of the runner, the record on file, the outputs, what became of the dependencies, and
  the invocations the handlers received. What a call meets is a \<open>tool_world\<close> chosen per node, so that every interleaving of
  a group of reads is covered. A cancellation that another request, or the job, asks for is seen before a layer. Times,
  identifiers of workspaces and the review of failed runs are left out.
\<close>

subsection \<open>JSON texts\<close>

definition hex_digit :: "nat \<Rightarrow> char" where
  "hex_digit n = char_of (if n < 10 then 48 + n else 87 + n)"

text \<open>\<open>json.dumps(v, ensure_ascii=False)\<close>, on ASCII texts.\<close>

definition json_char :: "char \<Rightarrow> string" where
  "json_char c =
     (let n = (of_char c :: nat); esc = (\<lambda>x. [CHR 0x5C, x]) in
      if c = CHR 0x22 \<or> c = CHR 0x5C then esc c
      else if n = 8 then esc CHR ''b'' else if n = 9 then esc CHR ''t'' else if n = 10 then esc CHR ''n''
      else if n = 12 then esc CHR ''f'' else if n = 13 then esc CHR ''r''
      else if n < 32 then esc CHR ''u'' @ ''00'' @ [hex_digit (n div 16), hex_digit (n mod 16)]
      else [c])"

definition json_str :: "string \<Rightarrow> string" where
  "json_str s = [CHR 0x22] @ concat (map json_char s) @ [CHR 0x22]"

fun json_text :: "pyval \<Rightarrow> string" where
  "json_text VNone = ''null''"
| "json_text (VBool b) = (if b then ''true'' else ''false'')"
| "json_text (VInt i) = int_str i"
| "json_text (VStr s) = json_str s"
| "json_text (VList xs) = ''['' @ join_with '', '' (map json_text xs) @ '']''"
| "json_text (VDict d) = ''{'' @ join_with '', '' (map (\<lambda>(k, v). json_str k @ '': '' @ json_text v) d) @ ''}''"

definition json_limit :: int where "json_limit = 1048576"

subsection \<open>Inputs and templates\<close>

definition validate_workflow_inputs :: "pyval \<Rightarrow> wf_error + pydict" where
  "validate_workflow_inputs inputs =
     (case vor inputs (VDict []) of
        VDict d \<Rightarrow>
          py_bind (py_require (\<not> runtime_secret [] (VDict d)) Wf_runtime_secret) (\<lambda>_.
          py_bind (py_require (int (length (json_text (VDict d))) \<le> json_limit) Wf_inputs_too_large) (\<lambda>_. Inr d))
      | _ \<Rightarrow> Inl Wf_inputs_not_object)"

fun lookup_path :: "pyval \<Rightarrow> string list \<Rightarrow> pyval option" where
  "lookup_path v [] = Some v"
| "lookup_path v (part # parts) =
     (case v of VDict d \<Rightarrow> (case map_of d part of Some w \<Rightarrow> lookup_path w parts | None \<Rightarrow> None) | _ \<Rightarrow> None)"

definition lookup_expr :: "pyval \<Rightarrow> string \<Rightarrow> wf_error + pyval" where
  "lookup_expr scope expression =
     (case lookup_path scope (split_on CHR ''.'' expression) of Some v \<Rightarrow> Inr v | None \<Rightarrow> Inl (Wf_template_missing expression))"

text \<open>A text that is one template resolves to the object it names, any other to a text.\<close>

definition resolve_text :: "pyval \<Rightarrow> string \<Rightarrow> wf_error + pyval" where
  "resolve_text scope s =
     (case match_template s of
        Some (e, []) \<Rightarrow> lookup_expr scope e
      | _ \<Rightarrow> py_bind (py_map (\<lambda>p. case p of Inl c \<Rightarrow> Inr [c] | Inr e \<Rightarrow> py_bind (lookup_expr scope e) (\<lambda>v. Inr (py_str v)))
                       (template_parts s)) (\<lambda>texts. Inr (VStr (concat texts))))"

fun resolve :: "pyval \<Rightarrow> pyval \<Rightarrow> wf_error + pyval" where
  "resolve scope (VDict d) =
     py_bind (py_map (\<lambda>(k, v). py_bind (resolve scope v) (\<lambda>w. Inr (k, w))) d) (\<lambda>d. Inr (VDict d))"
| "resolve scope (VList xs) = py_bind (py_map (resolve scope) xs) (\<lambda>xs. Inr (VList xs))"
| "resolve scope (VStr s) = resolve_text scope s"
| "resolve scope v = Inr v"

definition run_scope :: "pydict \<Rightarrow> (string \<times> pydict) list \<Rightarrow> pyval" where
  "run_scope inputs outputs =
     VDict [(''input'', VDict inputs), (''nodes'', VDict (map (\<lambda>(k, v). (k, VDict [(''output'', VDict v)])) outputs))]"

subsection \<open>The text of an exception\<close>

definition name_list :: "string list \<Rightarrow> string" where
  "name_list xs = py_repr (VList (map VStr xs))"

definition limit_text :: "int \<Rightarrow> string" where
  "limit_text n = (if n > 0 then int_str n else ''unlimited'')"

primrec wf_error_text :: "wf_error \<Rightarrow> string" where
  "wf_error_text (Wf_invalid_id label) = ''invalid '' @ label"
| "wf_error_text Wf_not_object = ''workflow definition must be an object''"
| "wf_error_text Wf_name_required = ''workflow name is required''"
| "wf_error_text (Wf_node_count n) = ''workflow must contain 1 to '' @ limit_text n @ '' nodes''"
| "wf_error_text Wf_node_not_object = ''workflow nodes must be objects''"
| "wf_error_text (Wf_duplicate_node i) = ''duplicate workflow node: '' @ i"
| "wf_error_text (Wf_unknown_tool t) = ''unknown or disabled workflow tool: '' @ t"
| "wf_error_text (Wf_arguments_not_object i) = ''node arguments must be an object: '' @ i"
| "wf_error_text (Wf_static_secret i) = ''node '' @ i @ '' contains a static secret; use a secret reference or a preconfigured asset''"
| "wf_error_text (Wf_dependencies_not_list i) = ''node dependencies must be a list: '' @ i"
| "wf_error_text (Wf_invalid_dependencies i missing) = ''invalid dependencies for '' @ i @ '': '' @ name_list missing"
| "wf_error_text Wf_cycle = ''workflow graph contains a cycle''"
| "wf_error_text (Wf_too_deep n) = ''workflow depth exceeds runtime limit: '' @ int_str n"
| "wf_error_text Wf_policy = ''failure_policy must be continue''"
| "wf_error_text Wf_version = ''workflow version must be a positive integer''"
| "wf_error_text Wf_status = ''workflow status must be draft, active, or archived''"
| "wf_error_text (Wf_outside_references i xs) = ''node '' @ i @ '' references nodes outside its dependencies: '' @ name_list xs"
| "wf_error_text Wf_inputs_not_object = ''workflow inputs must be an object''"
| "wf_error_text Wf_runtime_secret =
     ''workflow inputs cannot contain raw secrets; use a secret reference or a preconfigured asset''"
| "wf_error_text Wf_inputs_too_large = ''workflow inputs are too large''"
| "wf_error_text Wf_not_found = ''workflow not found''"
| "wf_error_text Wf_active_runs = ''workflow_has_active_runs''"
| "wf_error_text Wf_inactive = ''workflow not found or inactive''"
| "wf_error_text Wf_run_exists = ''workflow run already exists''"
| "wf_error_text Wf_run_not_found = ''workflow run not found''"
| "wf_error_text (Wf_template_missing e) = ''workflow template '' @ arg_value_name @ '' not found: '' @ e"
| "wf_error_text (Wf_arguments_too_large i) = ''resolved arguments are too large: '' @ i"
| "wf_error_text Wf_unreadable_result = ''unhashable type: '' @ quoted ''slice''"

subsection \<open>Runs\<close>

record wf_entry =
  en_node :: string
  en_tool :: string
  en_status :: string
  en_summary :: string
  en_output :: "pydict option"
  en_errors :: "string list"
  en_layer :: nat
  en_parallel :: bool
  en_depends :: "string list"

record wf_run =
  wr_run_id :: string
  wr_workflow_id :: string
  wr_version :: int
  wr_job_id :: string
  wr_status :: string
  wr_inputs :: pydict
  wr_nodes :: "wf_entry list"
  wr_cancel :: bool

datatype wf_notice = Input_unresolved | Tool_raised | Dependency_failed

text \<open>\<open>ww_tools\<close> is the world the call of a node meets, \<open>ww_clean\<close> the scrubbing of one text (\<open>redact_text\<close>), \<open>ww_notice\<close> the
  three Chinese summaries; \<open>ww_cancel_run k\<close> and \<open>ww_cancel_job k\<close> say that a cancellation of the run, or of its job, was
  written before the check of layer \<open>k\<close> (the number after the last layer stands for the closing save).\<close>

record wf_world =
  ww_tools :: "string \<Rightarrow> tool_world"
  ww_invocation_id :: "string \<Rightarrow> string"
  ww_catalogue :: catalogue
  ww_clean :: "string \<Rightarrow> string"
  ww_notice :: "wf_notice \<Rightarrow> string"
  ww_cancel_run :: "nat \<Rightarrow> bool"
  ww_cancel_job :: "nat \<Rightarrow> bool"

record wf_state =
  rs_record :: wf_run
  rs_file :: wf_run
  rs_outputs :: "(string \<times> pydict) list"
  rs_outcomes :: "(string \<times> bool) list"
  rs_failed :: bool
  rs_crashed :: bool
  rs_calls :: "(string \<times> invocation list) list"

subsection \<open>One node\<close>

text \<open>\<open>_safe_persisted_output\<close>: \<open>project_json_to_tokens\<close> returns the output as it is, so nothing is ever marked truncated.\<close>

definition safe_persisted_output :: "(string \<Rightarrow> string) \<Rightarrow> pydict \<Rightarrow> pydict" where
  "safe_persisted_output clean output = dict_of (redact_value clean (VDict output))"

definition status_text :: "tool_status \<Rightarrow> string" where
  "status_text s = (case s of Succeeded \<Rightarrow> ''succeeded'' | Failed \<Rightarrow> ''failed'' | Blocked \<Rightarrow> ''blocked'' | Dry_run \<Rightarrow> ''dry_run'')"

definition base_entry :: "wf_node \<Rightarrow> string \<Rightarrow> wf_entry" where
  "base_entry n status = \<lparr>en_node = wn_id n, en_tool = wn_tool n, en_status = status, en_summary = [], en_output = None,
     en_errors = [], en_layer = 0, en_parallel = False, en_depends = wn_depends n\<rparr>"

text \<open>The first \<open>try\<close>: \<open>None\<close> when the condition of the node is false.\<close>

definition prepare_node :: "wf_world \<Rightarrow> pydict \<Rightarrow> (string \<times> pydict) list \<Rightarrow> wf_node \<Rightarrow> wf_error + pydict option" where
  "prepare_node w inputs outputs n =
     (let scope = run_scope inputs outputs in
      py_bind (resolve scope (wn_when n)) (\<lambda>condition.
      if \<not> truthy condition then Inr None
      else py_bind (resolve scope (VDict (wn_arguments n))) (\<lambda>arguments.
        let arguments = canonicalize_tool_arguments (dict_of arguments)
              (case tw_get_tool (ww_tools w (wn_id n)) (wn_tool n) of Some spec \<Rightarrow> tl_input_schema spec | None \<Rightarrow> [])
        in py_bind (py_require (int (length (json_text (VDict arguments))) \<le> json_limit) (Wf_arguments_too_large (wn_id n)))
             (\<lambda>_. Inr (Some arguments)))))"

text \<open>A failed or blocked result numbers its errors when it is built, which raises for an error value that is a number. The
  entry slices the errors, which raises for an object (or a number); this is outside every \<open>try\<close>.\<close>

definition attribution_raises :: "tool_outcome \<Rightarrow> bool" where
  "attribution_raises o' =
     (to_status o' \<in> {Failed, Blocked} \<and> truthy (to_errors o') \<and>
      (case to_errors o' of VInt _ \<Rightarrow> True | VBool _ \<Rightarrow> True | _ \<Rightarrow> False))"

definition error_texts :: "pyval \<Rightarrow> string list option" where
  "error_texts v =
     (if \<not> truthy v then Some []
      else case v of
        VList xs \<Rightarrow> Some (map (take 500 \<circ> py_str) (take 20 xs))
      | VStr s \<Rightarrow> Some (map (\<lambda>c. [c]) (take 20 s))
      | _ \<Rightarrow> None)"

definition node_call :: "wf_world \<Rightarrow> wf_node \<Rightarrow> pydict \<Rightarrow> invocation" where
  "node_call w n arguments =
     \<lparr>iv_invocation_id = ww_invocation_id w (wn_id n), iv_tool_id = wn_tool n, iv_arguments = VDict arguments,
      iv_dry_run = False, iv_requested_by = ''job_runner''\<rparr>"

type_synonym node_result = "wf_error + wf_entry \<times> pydict \<times> bool"

definition node_outcome :: "wf_world \<Rightarrow> wf_node \<Rightarrow> tool_outcome \<Rightarrow> node_result" where
  "node_outcome w n o' =
     (if attribution_raises o'
      then Inr ((base_entry n ''failed'')\<lparr>en_summary := ww_notice w Tool_raised,
                  en_errors := [quoted (type_name (to_errors o')) @ '' object is not iterable'']\<rparr>, [], False)
      else case error_texts (to_errors o') of
        None \<Rightarrow> Inl Wf_unreadable_result
      | Some errors \<Rightarrow>
          let success = to_status o' \<in> {Succeeded, Dry_run} in
          Inr ((base_entry n (status_text (to_status o')))
                 \<lparr>en_summary := take 1000 (str_of_or (to_summary o') []),
                  en_output := Some (safe_persisted_output (ww_clean w) (to_output o')), en_errors := errors\<rparr>,
               if success then to_output o' else [], success))"

definition execute_node ::
  "wf_world \<Rightarrow> pydict \<Rightarrow> (string \<times> pydict) list \<Rightarrow> wf_node \<Rightarrow> node_result \<times> invocation list" where
  "execute_node w inputs outputs n =
     (case prepare_node w inputs outputs n of
        Inl e \<Rightarrow> (Inr ((base_entry n ''failed'')\<lparr>en_summary := ww_notice w Input_unresolved,
                         en_errors := [take 500 (wf_error_text e)]\<rparr>, [], False), [])
      | Inr None \<Rightarrow> (Inr (base_entry n ''skipped'', [], True), [])
      | Inr (Some arguments) \<Rightarrow>
          let (o', received) = invoke (ww_tools w (wn_id n)) (node_call w n arguments) in (node_outcome w n o', received))"

subsection \<open>One layer\<close>

definition save_run :: "wf_run option \<Rightarrow> wf_run \<Rightarrow> wf_run" where
  "save_run current r = (case current of Some c \<Rightarrow> if wr_cancel c then r\<lparr>wr_cancel := True\<rparr> else r | None \<Rightarrow> r)"

definition checkpoint :: "wf_state \<Rightarrow> wf_state" where
  "checkpoint st = (let r = save_run (Some (rs_file st)) (rs_record st) in st\<lparr>rs_record := r, rs_file := r\<rparr>)"

definition failed_dependencies :: "wf_state \<Rightarrow> wf_node \<Rightarrow> string list" where
  "failed_dependencies st n = filter (\<lambda>d. map_of (rs_outcomes st) d \<noteq> Some True) (wn_depends n)"

definition add_entry :: "wf_entry \<Rightarrow> pydict \<Rightarrow> bool \<Rightarrow> wf_state \<Rightarrow> wf_state" where
  "add_entry e output ok st =
     st\<lparr>rs_record := (rs_record st)\<lparr>wr_nodes := wr_nodes (rs_record st) @ [e]\<rparr>,
        rs_outputs := AList.update (en_node e) output (rs_outputs st),
        rs_outcomes := AList.update (en_node e) ok (rs_outcomes st)\<rparr>"

text \<open>The loop that keeps the nodes of a layer whose dependencies succeeded and records the others as skipped.\<close>

fun screen_layer :: "wf_world \<Rightarrow> nat \<Rightarrow> wf_node list \<Rightarrow> wf_state \<Rightarrow> wf_node list \<times> wf_state" where
  "screen_layer w k [] st = ([], st)"
| "screen_layer w k (n # ns) st =
     (if map_of (rs_outcomes st) (wn_id n) \<noteq> None then screen_layer w k ns st
      else let failed = failed_dependencies st n in
        if failed = [] then let (runnable, st) = screen_layer w k ns st in (n # runnable, st)
        else screen_layer w k ns
               (add_entry ((base_entry n ''skipped'')\<lparr>en_summary := ww_notice w Dependency_failed,
                             en_errors := [''failed dependencies: '' @ name_list failed], en_layer := k\<rparr>) [] False st))"

text \<open>Whether a node counts as a read before its group runs: its arguments resolved when they can be.\<close>

definition preview_reads :: "wf_world \<Rightarrow> pydict \<Rightarrow> (string \<times> pydict) list \<Rightarrow> wf_node \<Rightarrow> bool" where
  "preview_reads w inputs outputs n =
     is_read_only_call (ww_catalogue w) (wn_tool n)
       (case resolve (run_scope inputs outputs) (VDict (wn_arguments n)) of Inr v \<Rightarrow> dict_of v | Inl _ \<Rightarrow> wn_arguments n) []"

fun layer_groups :: "(wf_node \<Rightarrow> bool) \<Rightarrow> wf_node list \<Rightarrow> wf_node list \<Rightarrow> (bool \<times> wf_node list) list" where
  "layer_groups reads pending [] = (if pending = [] then [] else [(True, pending)])"
| "layer_groups reads pending (n # ns) =
     (if reads n then layer_groups reads (pending @ [n]) ns
      else (if pending = [] then [] else [(True, pending)]) @ (False, [n]) # layer_groups reads [] ns)"

definition record_result :: "nat \<Rightarrow> bool \<Rightarrow> wf_entry \<times> pydict \<times> bool \<Rightarrow> wf_state \<Rightarrow> wf_state" where
  "record_result k parallel = (\<lambda>(e, output, success) st.
     (add_entry (e\<lparr>en_layer := k, en_parallel := parallel\<rparr>) output
        (success \<and> en_status e \<notin> {''skipped'', ''cancelled''}) st)\<lparr>rs_failed := rs_failed st \<or> \<not> success\<rparr>)"

definition run_group :: "wf_world \<Rightarrow> pydict \<Rightarrow> nat \<Rightarrow> bool \<times> wf_node list \<Rightarrow> wf_state \<Rightarrow> wf_state" where
  "run_group w inputs k = (\<lambda>(parallel, ns) st.
     if rs_crashed st then st
     else let results = map (execute_node w inputs (rs_outputs st)) ns;
              st = st\<lparr>rs_calls := rs_calls st @ zip (map wn_id ns) (map snd results)\<rparr>
          in case py_map fst results of
               Inl e \<Rightarrow> st\<lparr>rs_crashed := True\<rparr>
             | Inr completed \<Rightarrow> checkpoint (fold (record_result k (parallel \<and> length ns > 1)) completed st))"

definition signal_cancel :: "wf_world \<Rightarrow> nat \<Rightarrow> wf_state \<Rightarrow> wf_state" where
  "signal_cancel w k st = (if ww_cancel_run w k then st\<lparr>rs_file := (rs_file st)\<lparr>wr_cancel := True\<rparr>\<rparr> else st)"

definition cancel_requested_at :: "wf_world \<Rightarrow> nat \<Rightarrow> wf_state \<Rightarrow> bool" where
  "cancel_requested_at w k st = (wr_cancel (rs_file st) \<or> wr_job_id (rs_record st) \<noteq> [] \<and> ww_cancel_job w k)"

definition layer_nodes :: "wf_node list \<Rightarrow> string list \<Rightarrow> wf_node list" where
  "layer_nodes nodes ids = List.map_filter (\<lambda>i. List.find (\<lambda>n. wn_id n = i) nodes) ids"

definition run_layer :: "wf_world \<Rightarrow> pydict \<Rightarrow> wf_node list \<Rightarrow> nat \<times> string list \<Rightarrow> wf_state \<Rightarrow> wf_state" where
  "run_layer w inputs nodes = (\<lambda>(k, layer) st.
     if rs_crashed st \<or> wr_status (rs_record st) \<noteq> ''running'' then st
     else let st = signal_cancel w k st in
       if cancel_requested_at w k st then st\<lparr>rs_record := (rs_record st)\<lparr>wr_status := ''cancelled''\<rparr>\<rparr>
       else let (runnable, st) = screen_layer w k (layer_nodes nodes layer) st;
                st = (if length runnable \<noteq> length layer then checkpoint st else st)
            in fold (run_group w inputs k) (layer_groups (preview_reads w inputs (rs_outputs st)) [] runnable) st)"

subsection \<open>The run\<close>

definition start_run :: "wf_world \<Rightarrow> wf_definition \<Rightarrow> string \<Rightarrow> pydict \<Rightarrow> string \<Rightarrow> string \<Rightarrow> wf_state" where
  "start_run w d wid inputs job run_id =
     (let r = \<lparr>wr_run_id = run_id, wr_workflow_id = wid, wr_version = wd_version d, wr_job_id = job,
               wr_status = ''running'', wr_inputs = dict_of (redact_value (ww_clean w) (VDict inputs)), wr_nodes = [],
               wr_cancel = False\<rparr>
      in \<lparr>rs_record = r, rs_file = r, rs_outputs = [], rs_outcomes = [], rs_failed = False, rs_crashed = False, rs_calls = []\<rparr>)"

definition close_run :: "wf_world \<Rightarrow> nat \<Rightarrow> wf_state \<Rightarrow> wf_state" where
  "close_run w k st =
     (if rs_crashed st then st
      else let st = signal_cancel w k st; r = rs_record st in
        checkpoint (if wr_status r = ''running''
                    then st\<lparr>rs_record := r\<lparr>wr_status := (if rs_failed st then ''failed'' else ''succeeded'')\<rparr>\<rparr> else st))"

definition execute_layers :: "wf_world \<Rightarrow> wf_definition \<Rightarrow> string \<Rightarrow> pydict \<Rightarrow> string \<Rightarrow> string \<Rightarrow> wf_state" where
  "execute_layers w d wid inputs job run_id =
     fold (run_layer w inputs (wd_nodes d)) (enumerate 1 (wd_layers d)) (start_run w d wid inputs job run_id)"

definition execute_definition :: "wf_world \<Rightarrow> wf_definition \<Rightarrow> string \<Rightarrow> pydict \<Rightarrow> string \<Rightarrow> string \<Rightarrow> wf_state" where
  "execute_definition w d wid inputs job run_id =
     close_run w (Suc (length (wd_layers d))) (execute_layers w d wid inputs job run_id)"

subsection \<open>What one node leaves behind\<close>

definition entry_ok :: "wf_entry \<Rightarrow> bool" where
  "entry_ok e = (en_status e \<in> {''succeeded'', ''dry_run''})"

definition entry_of :: "wf_node \<Rightarrow> wf_entry \<Rightarrow> bool" where
  "entry_of n e = (en_node e = wn_id n \<and> en_tool e = wn_tool n \<and> en_depends e = wn_depends n)"

lemma base_entry_simps [simp]:
  "entry_of n (base_entry n s)" "en_status (base_entry n s) = s" "en_node (base_entry n s) = wn_id n"
  by (simp_all add: entry_of_def base_entry_def)

lemma entry_frame [simp]:
  "entry_of n (e\<lparr>en_summary := a\<rparr>) = entry_of n e" "entry_of n (e\<lparr>en_errors := b\<rparr>) = entry_of n e"
  "entry_of n (e\<lparr>en_output := c\<rparr>) = entry_of n e" "entry_of n (e\<lparr>en_layer := k\<rparr>) = entry_of n e"
  "entry_of n (e\<lparr>en_parallel := p\<rparr>) = entry_of n e"
  "entry_ok (e\<lparr>en_layer := k\<rparr>) = entry_ok e" "entry_ok (e\<lparr>en_parallel := p\<rparr>) = entry_ok e"
  by (simp_all add: entry_of_def entry_ok_def)

lemma invoke_once: "length (snd (invoke w call)) \<le> 1"
  by (auto simp: invoke_def execute_def run_handler_def Let_def case_prod_unfold split: option.split sum.split)

lemma execute_node_calls: "length (snd (execute_node w inputs outputs n)) \<le> 1"
  using invoke_once by (auto simp: execute_node_def case_prod_unfold Let_def split: sum.split option.split)

lemma execute_node_entry:
  assumes "fst (execute_node w inputs outputs n) = Inr (e, output, success)"
  shows "entry_of n e \<and> (success \<and> en_status e \<notin> {''skipped'', ''cancelled''} \<longleftrightarrow> entry_ok e) \<and>
    (\<not> success \<longleftrightarrow> \<not> entry_ok e \<and> en_status e \<noteq> ''skipped'')"
  using assms
  by (auto simp: execute_node_def node_outcome_def entry_ok_def status_text_def Let_def case_prod_unfold
      split: sum.splits option.splits if_splits tool_status.splits)

lemma concat_layer_groups: "concat (map snd (layer_groups reads pending ns)) = pending @ ns"
  by (induction reads pending ns rule: layer_groups.induct) auto

lemma layer_groups_kinds:
  "(parallel, ns') \<in> set (layer_groups reads pending ns) \<Longrightarrow> \<forall>n \<in> set pending. reads n \<Longrightarrow>
     ns' \<noteq> [] \<and> (if parallel then \<forall>n \<in> set ns'. reads n else \<exists>n. ns' = [n] \<and> \<not> reads n)"
  by (induction reads pending ns rule: layer_groups.induct) (auto split: if_splits)

subsection \<open>The invariant of a run\<close>

abbreviation entries :: "wf_state \<Rightarrow> wf_entry list" where
  "entries st \<equiv> wr_nodes (rs_record st)"

abbreviation recorded :: "wf_state \<Rightarrow> string set" where
  "recorded st \<equiv> en_node ` set (entries st)"

text \<open>Every entry belongs to a node, no node has two; the outcomes say which entries succeeded; an entry that is not skipped comes
  after successful entries of all its dependencies; a handler received at most one call per node, and only after the
  dependencies of the node succeeded.\<close>

definition ordered_entries :: "wf_entry list \<Rightarrow> bool" where
  "ordered_entries es = (\<forall>pre e post. es = pre @ e # post \<longrightarrow> en_status e \<noteq> ''skipped'' \<longrightarrow>
     (\<forall>d \<in> set (en_depends e). \<exists>e' \<in> set pre. en_node e' = d \<and> entry_ok e'))"

definition run_inv :: "wf_node list \<Rightarrow> wf_state \<Rightarrow> bool" where
  "run_inv nodes st =
     (distinct (map en_node (entries st)) \<and> (\<forall>e \<in> set (entries st). \<exists>n \<in> set nodes. entry_of n e) \<and>
      (\<forall>i b. map_of (rs_outcomes st) i = Some b \<longleftrightarrow> (\<exists>e \<in> set (entries st). en_node e = i \<and> b = entry_ok e)) \<and>
      ordered_entries (entries st) \<and>
      (rs_failed st \<longleftrightarrow> (\<exists>e \<in> set (entries st). \<not> entry_ok e \<and> en_status e \<noteq> ''skipped'')) \<and>
      distinct (map fst (rs_calls st)) \<and> (\<not> rs_crashed st \<longrightarrow> fst ` set (rs_calls st) \<subseteq> recorded st) \<and>
      (\<forall>(i, received) \<in> set (rs_calls st). length received \<le> 1 \<and>
         (\<exists>n \<in> set nodes. wn_id n = i \<and> (\<forall>d \<in> set (wn_depends n). map_of (rs_outcomes st) d = Some True))))"

lemma all_splits_snoc:
  "(\<forall>pre x post. xs @ [y] = pre @ x # post \<longrightarrow> P pre x) \<longleftrightarrow> (\<forall>pre x post. xs = pre @ x # post \<longrightarrow> P pre x) \<and> P xs y"
  (is "?L \<longleftrightarrow> ?R")
proof
  assume L: ?L
  have "P pre x" if "xs = pre @ x # post" for pre x post
  proof -
    from that have "xs @ [y] = pre @ x # (post @ [y])" by simp
    with L show ?thesis by blast
  qed
  moreover have "xs @ [y] = xs @ y # []" by simp
  then have "P xs y" using L by blast
  ultimately show ?R by blast
next
  assume R: ?R
  show ?L
  proof (intro allI impI)
    fix pre x post assume "xs @ [y] = pre @ x # post"
    with R show "P pre x" by (cases post rule: rev_cases) auto
  qed
qed

lemma ordered_entries_snoc:
  "ordered_entries (es @ [e]) \<longleftrightarrow> ordered_entries es \<and>
     (en_status e \<noteq> ''skipped'' \<longrightarrow> (\<forall>d \<in> set (en_depends e). \<exists>e' \<in> set es. en_node e' = d \<and> entry_ok e'))"
  unfolding ordered_entries_def
  by (rule all_splits_snoc [where P = "\<lambda>pre e. en_status e \<noteq> ''skipped'' \<longrightarrow>
      (\<forall>d \<in> set (en_depends e). \<exists>e' \<in> set pre. en_node e' = d \<and> entry_ok e')"])

lemma run_inv_outcome:
  "run_inv nodes st \<Longrightarrow> map_of (rs_outcomes st) i = Some b \<longleftrightarrow> (\<exists>e \<in> set (entries st). en_node e = i \<and> b = entry_ok e)"
  by (simp add: run_inv_def)

lemma recorded_iff: "run_inv nodes st \<Longrightarrow> map_of (rs_outcomes st) i = None \<longleftrightarrow> i \<notin> recorded st"
  using run_inv_outcome [of nodes st i] by (cases "map_of (rs_outcomes st) i") auto

lemma run_inv_call:
  "run_inv nodes st \<Longrightarrow> (i, received) \<in> set (rs_calls st) \<Longrightarrow> length received \<le> 1 \<and>
     (\<exists>n \<in> set nodes. wn_id n = i \<and> (\<forall>d \<in> set (wn_depends n). map_of (rs_outcomes st) d = Some True))"
  unfolding run_inv_def by fast

lemma add_entry_simps [simp]:
  "entries (add_entry e output ok st) = entries st @ [e]" "rs_file (add_entry e output ok st) = rs_file st"
  "rs_outcomes (add_entry e output ok st) = AList.update (en_node e) ok (rs_outcomes st)"
  "rs_failed (add_entry e output ok st) = rs_failed st" "rs_crashed (add_entry e output ok st) = rs_crashed st"
  "rs_calls (add_entry e output ok st) = rs_calls st" "wr_status (rs_record (add_entry e output ok st)) = wr_status (rs_record st)"
  "wr_cancel (rs_record (add_entry e output ok st)) = wr_cancel (rs_record st)"
  by (simp_all add: add_entry_def)

lemma add_entry_inv:
  assumes inv: "run_inv nodes st" and new: "en_node e \<notin> recorded st" and n: "n \<in> set nodes" "entry_of n e"
    and deps: "en_status e \<noteq> ''skipped'' \<Longrightarrow> \<forall>d \<in> set (wn_depends n). map_of (rs_outcomes st) d = Some True"
    and ok: "ok = entry_ok e" and f: "f = (rs_failed st \<or> \<not> entry_ok e \<and> en_status e \<noteq> ''skipped'')"
  shows "run_inv nodes ((add_entry e res ok st)\<lparr>rs_failed := f\<rparr>)"
proof -
  note outcome = run_inv_outcome [OF inv]
  have out: "map_of (rs_outcomes st) d = Some True \<Longrightarrow> d \<noteq> en_node e" for d
    using new recorded_iff [OF inv, of "en_node e"] by auto
  have fresh: "x \<in> set (entries st) \<Longrightarrow> en_node x \<noteq> en_node e" for x using new by (metis image_eqI)
  show ?thesis
    unfolding run_inv_def
  proof (intro conjI allI, goal_cases)
    case (3 i b)
    show ?case using outcome [of i b] fresh ok by (auto simp: map_of_update_iff)
  next
    case 4
    show ?case using inv deps n(2) outcome by (auto simp: ordered_entries_snoc run_inv_def entry_of_def)
  next
    case 8
    show ?case
    proof (clarify, goal_cases)
      case (1 i received)
      then have "(i, received) \<in> set (rs_calls st)" by simp
      from run_inv_call [OF inv this] out show ?case by (auto simp: map_of_update_iff)
    qed
  qed (use inv new n f in \<open>auto simp: run_inv_def\<close>)
qed

lemma checkpoint_simps [simp]:
  "entries (checkpoint st) = entries st" "wr_status (rs_record (checkpoint st)) = wr_status (rs_record st)"
  "rs_outcomes (checkpoint st) = rs_outcomes st" "rs_outputs (checkpoint st) = rs_outputs st"
  "rs_failed (checkpoint st) = rs_failed st" "rs_crashed (checkpoint st) = rs_crashed st" "rs_calls (checkpoint st) = rs_calls st"
  "rs_file (checkpoint st) = rs_record (checkpoint st)"
  "wr_cancel (rs_record (checkpoint st)) \<longleftrightarrow> wr_cancel (rs_record st) \<or> wr_cancel (rs_file st)"
  "wr_job_id (rs_record (checkpoint st)) = wr_job_id (rs_record st)"
  by (simp_all add: checkpoint_def save_run_def Let_def)

lemma run_inv_checkpoint [simp]: "run_inv nodes (checkpoint st) = run_inv nodes st"
  by (simp add: run_inv_def)

lemma run_inv_file [simp]: "run_inv nodes (st\<lparr>rs_file := r\<rparr>) = run_inv nodes st"
  by (simp add: run_inv_def)

lemma run_inv_status [simp]: "run_inv nodes (st\<lparr>rs_record := (rs_record st)\<lparr>wr_status := s\<rparr>\<rparr>) = run_inv nodes st"
  by (simp add: run_inv_def)

text \<open>The nodes a step is about: distinct, of the workflow, not recorded yet. What a step keeps, and that outcomes stay.\<close>

definition fresh_nodes :: "wf_node list \<Rightarrow> wf_state \<Rightarrow> wf_node list \<Rightarrow> bool" where
  "fresh_nodes nodes st ns = (set ns \<subseteq> set nodes \<and> distinct (map wn_id ns) \<and> (\<forall>n \<in> set ns. wn_id n \<notin> recorded st))"

definition ready_deps :: "wf_state \<Rightarrow> wf_node list \<Rightarrow> bool" where
  "ready_deps st ns = (\<forall>n \<in> set ns. \<forall>d \<in> set (wn_depends n). map_of (rs_outcomes st) d = Some True)"

definition extends :: "wf_state \<Rightarrow> wf_state \<Rightarrow> bool" where
  "extends st st' = ((\<exists>new. entries st' = entries st @ new) \<and> wr_status (rs_record st') = wr_status (rs_record st) \<and>
     wr_job_id (rs_record st') = wr_job_id (rs_record st) \<and>
     (wr_cancel (rs_file st) \<longrightarrow> wr_cancel (rs_file st')) \<and>
     (\<forall>d. map_of (rs_outcomes st) d = Some True \<longrightarrow> map_of (rs_outcomes st') d = Some True))"

lemma extends_refl [simp]: "extends st st" "extends st (checkpoint st)"
  by (simp_all add: extends_def)

lemma extends_trans: "extends a b \<Longrightarrow> extends b c \<Longrightarrow> extends a c"
  by (auto simp: extends_def)

lemma ready_deps_extends: "ready_deps st ns \<Longrightarrow> extends st st' \<Longrightarrow> ready_deps st' ns"
  by (auto simp: ready_deps_def extends_def)

lemma add_entry_extends:
  "run_inv nodes st \<Longrightarrow> en_node e \<notin> recorded st \<Longrightarrow> extends st ((add_entry e res ok st)\<lparr>rs_failed := f\<rparr>)"
  using recorded_iff [of nodes st "en_node e"]
  by (auto simp: extends_def map_of_update_iff) (simp_all add: add_entry_def)

lemma screen_layer_inv:
  assumes "screen_layer w k ns st = (runnable, st')" "run_inv nodes st" "fresh_nodes nodes st ns"
  shows "run_inv nodes st' \<and> extends st st' \<and> rs_calls st' = rs_calls st \<and> rs_crashed st' = rs_crashed st \<and>
    fresh_nodes nodes st' runnable \<and> ready_deps st' runnable \<and> set runnable \<subseteq> set ns \<and>
    recorded st' \<union> wn_id ` set runnable = recorded st \<union> wn_id ` set ns"
  using assms
proof (induction w k ns st arbitrary: runnable st' rule: screen_layer.induct)
  case (1 w k st)
  then show ?case by (simp add: fresh_nodes_def ready_deps_def)
next
  case (2 w k n ns st)
  from "2.prems"(2,3) have new: "map_of (rs_outcomes st) (wn_id n) = None" by (simp add: recorded_iff fresh_nodes_def)
  show ?case
  proof (cases "failed_dependencies st n = []")
    case True
    with new "2.prems"(1) obtain rs where rs: "screen_layer w k ns st = (rs, st')" and r: "runnable = n # rs"
      by (auto simp: Let_def split: prod.splits)
    from "2.prems"(3) have "fresh_nodes nodes st ns" by (simp add: fresh_nodes_def)
    note IH = "2.IH"(2) [OF _ refl True rs "2.prems"(2) this]
    from True have "\<forall>d \<in> set (wn_depends n). map_of (rs_outcomes st) d = Some True"
      by (auto simp: failed_dependencies_def filter_empty_conv)
    with IH new r "2.prems"(3) show ?thesis
      by (auto simp: fresh_nodes_def ready_deps_def extends_def)
  next
    case False
    define e where "e = (base_entry n ''skipped'')\<lparr>en_summary := ww_notice w Dependency_failed,
        en_errors := [''failed dependencies: '' @ name_list (failed_dependencies st n)], en_layer := k\<rparr>"
    have e: "entry_of n e" "en_status e = ''skipped''" "en_node e = wn_id n" "\<not> entry_ok e" by (simp_all add: e_def entry_ok_def)
    define st1 where "st1 = add_entry e [] False st"
    have step: "screen_layer w k ns st1 = (runnable, st')"
      using new False "2.prems"(1) by (simp add: Let_def st1_def e_def)
    have inv1: "run_inv nodes st1" and ext1: "extends st st1"
      using add_entry_inv [OF "2.prems"(2), where e = e and n = n and ok = False and f = "rs_failed st" and res = "[]"]
        add_entry_extends [OF "2.prems"(2), where e = e and ok = False and f = "rs_failed st" and res = "[]"] "2.prems"(3) e
      by (auto simp: fresh_nodes_def st1_def add_entry_def)
    have "fresh_nodes nodes st1 ns"
      using "2.prems"(3) e by (auto simp: fresh_nodes_def st1_def) (metis image_eqI)
    note IH = "2.IH"(3) [OF _ refl False, folded e_def, folded st1_def, OF _ step inv1 this]
    with new ext1 e show ?thesis
      by (auto simp: st1_def intro: extends_trans)
  qed
qed

lemma record_result_inv:
  assumes inv: "run_inv nodes st" and new: "wn_id n \<notin> recorded st" and n: "n \<in> set nodes" "entry_of n e"
    and deps: "ready_deps st [n]"
    and r: "success \<and> en_status e \<notin> {''skipped'', ''cancelled''} \<longleftrightarrow> entry_ok e" "\<not> success \<longleftrightarrow> \<not> entry_ok e \<and> en_status e \<noteq> ''skipped''"
  shows "run_inv nodes (record_result k p (e, res, success) st) \<and> extends st (record_result k p (e, res, success) st) \<and>
    recorded (record_result k p (e, res, success) st) = insert (wn_id n) (recorded st)"
proof -
  let ?e = "e\<lparr>en_layer := k, en_parallel := p\<rparr>"
  have e: "en_node ?e = wn_id n" "entry_of n ?e" "en_status ?e = en_status e" "entry_ok ?e = entry_ok e"
    using n(2) by (simp_all add: entry_of_def)
  have eq: "record_result k p (e, res, success) st = (add_entry ?e res (entry_ok ?e) st)\<lparr>rs_failed := rs_failed st \<or> \<not> success\<rparr>"
    using r(1) by (simp add: record_result_def)
  have "run_inv nodes ((add_entry ?e res (entry_ok ?e) st)\<lparr>rs_failed := rs_failed st \<or> \<not> success\<rparr>)"
    by (rule add_entry_inv [OF inv _ n(1) e(2)]) (use new e deps r in \<open>auto simp: ready_deps_def\<close>)
  moreover have "extends st ((add_entry ?e res (entry_ok ?e) st)\<lparr>rs_failed := rs_failed st \<or> \<not> success\<rparr>)"
    by (rule add_entry_extends [OF inv]) (use new e in auto)
  ultimately show ?thesis unfolding eq using e by simp
qed

definition result_of :: "wf_node \<Rightarrow> wf_entry \<times> pydict \<times> bool \<Rightarrow> bool" where
  "result_of n = (\<lambda>(e, _, success). entry_of n e \<and>
     (success \<and> en_status e \<notin> {''skipped'', ''cancelled''} \<longleftrightarrow> entry_ok e) \<and>
     (\<not> success \<longleftrightarrow> \<not> entry_ok e \<and> en_status e \<noteq> ''skipped''))"

lemma record_results_inv:
  "list_all2 result_of ns rs \<Longrightarrow> run_inv nodes st \<Longrightarrow> fresh_nodes nodes st ns \<Longrightarrow> ready_deps st ns \<Longrightarrow>
     run_inv nodes (fold (record_result k p) rs st) \<and> extends st (fold (record_result k p) rs st) \<and>
     recorded (fold (record_result k p) rs st) = recorded st \<union> wn_id ` set ns"
proof (induction ns arbitrary: rs st)
  case (Cons n ns)
  from Cons.prems(1) obtain e res s rs' where rs: "rs = (e, res, s) # rs'" "result_of n (e, res, s)" "list_all2 result_of ns rs'"
    by (auto simp: list_all2_Cons1)
  let ?st = "record_result k p (e, res, s) st"
  have step: "run_inv nodes ?st" "extends st ?st" "recorded ?st = insert (wn_id n) (recorded st)"
    using record_result_inv [OF Cons.prems(2), of n e s k p res] Cons.prems(3,4) rs(2)
    by (auto simp: fresh_nodes_def ready_deps_def result_of_def)
  from Cons.prems(3) have "wn_id n \<notin> wn_id ` set ns" by (simp add: fresh_nodes_def)
  then have "wn_id m \<noteq> wn_id n" if "m \<in> set ns" for m using that by (metis image_eqI)
  then have "fresh_nodes nodes ?st ns" using Cons.prems(3) by (simp add: fresh_nodes_def step(3))
  moreover have "ready_deps ?st ns"
    by (rule ready_deps_extends [OF _ step(2)]) (use Cons.prems(4) in \<open>simp add: ready_deps_def\<close>)
  ultimately have "run_inv nodes (fold (record_result k p) rs' ?st)" "extends ?st (fold (record_result k p) rs' ?st)"
    "recorded (fold (record_result k p) rs' ?st) = recorded ?st \<union> wn_id ` set ns"
    using Cons.IH [OF rs(3) step(1)] by blast+
  with extends_trans [OF step(2)] step(3) rs(1) show ?case by simp
qed simp

lemma record_results_frame:
  "fold (record_result k p) rs (st\<lparr>rs_calls := c\<rparr>) = (fold (record_result k p) rs st)\<lparr>rs_calls := c\<rparr> \<and>
   rs_calls (fold (record_result k p) rs st) = rs_calls st \<and> rs_crashed (fold (record_result k p) rs st) = rs_crashed st"
proof (induction rs arbitrary: st)
  case (Cons r rs)
  have "record_result k p r (st\<lparr>rs_calls := c\<rparr>) = (record_result k p r st)\<lparr>rs_calls := c\<rparr>"
    "rs_calls (record_result k p r st) = rs_calls st" "rs_crashed (record_result k p r st) = rs_crashed st"
    by (cases r; simp add: record_result_def add_entry_def)+
  with Cons show ?case by simp
qed simp

lemma add_calls_inv:
  assumes inv: "run_inv nodes st" and ns: "set ns \<subseteq> set nodes" "distinct (map wn_id ns)"
    and new: "\<forall>n \<in> set ns. wn_id n \<notin> fst ` set (rs_calls st)" and deps: "ready_deps st ns"
    and known: "rs_crashed st \<or> wn_id ` set ns \<subseteq> recorded st" and rs: "length rs = length ns" "\<forall>r \<in> set rs. length r \<le> 1"
  shows "run_inv nodes (st\<lparr>rs_calls := rs_calls st @ zip (map wn_id ns) rs\<rparr>)"
proof -
  have call: "length received \<le> 1 \<and> (\<exists>n \<in> set nodes. wn_id n = i \<and> (\<forall>d \<in> set (wn_depends n). map_of (rs_outcomes st) d = Some True))"
    if "(i, received) \<in> set (zip (map wn_id ns) rs)" for i received
  proof -
    from that obtain n where n: "n \<in> set ns" "i = wn_id n" "received \<in> set rs"
      using rs(1) by (auto simp: in_set_zip) (metis nth_mem)
    with ns(1) deps rs(2) show ?thesis by (auto simp: ready_deps_def)
  qed
  have keys: "map fst (zip (map wn_id ns) rs) = map wn_id ns" using rs(1) by simp
  then have set_keys: "fst ` set (zip (map wn_id ns) rs) = wn_id ` set ns" by (metis set_map)
  show ?thesis
    unfolding run_inv_def
  proof (intro conjI, goal_cases)
    case 6
    have "i \<notin> fst ` set (rs_calls st)" if "i \<in> wn_id ` set ns" for i using that new by (metis imageE)
    then have "fst ` set (rs_calls st) \<inter> wn_id ` set ns = {}" by (metis disjoint_iff)
    moreover have "distinct (map fst (rs_calls st))" using inv by (simp add: run_inv_def)
    ultimately show ?case using ns(2) keys by simp
  next
    case 7
    show ?case using inv known set_keys by (auto simp: run_inv_def image_Un)
  next
    case 8
    show ?case using run_inv_call [OF inv] call by auto
  qed (use inv in \<open>auto simp: run_inv_def\<close>)
qed

lemma run_inv_crashed: "run_inv nodes st \<Longrightarrow> run_inv nodes (st\<lparr>rs_crashed := True\<rparr>)"
proof -
  let ?st = "st\<lparr>rs_crashed := True\<rparr>"
  assume inv: "run_inv nodes st"
  have eqs: "entries ?st = entries st" "rs_outcomes ?st = rs_outcomes st" "rs_failed ?st = rs_failed st"
    "rs_calls ?st = rs_calls st" "rs_crashed ?st = True" by simp_all
  from inv show ?thesis unfolding run_inv_def eqs by - (elim conjE, intro conjI, (assumption | simp)+)
qed

lemma node_results:
  "py_map fst (map (execute_node w inputs outs) ns) = Inr rs \<Longrightarrow> list_all2 result_of ns rs"
proof (induction ns arbitrary: rs)
  case (Cons n ns)
  then obtain r rs' where r: "fst (execute_node w inputs outs n) = Inr r" and rs: "rs = r # rs'"
    "py_map fst (map (execute_node w inputs outs) ns) = Inr rs'"
    by (auto simp: py_bind_Inr)
  obtain e res s where "r = (e, res, s)" by (cases r)
  with execute_node_entry [of w inputs outs n e res s] r have "result_of n r" by (simp add: result_of_def)
  with Cons.IH [OF rs(2)] rs(1) show ?case by simp
qed simp

lemma run_group_inv:
  assumes inv: "run_inv nodes st" "\<not> rs_crashed st" and ns: "fresh_nodes nodes st ns" "ready_deps st ns"
  shows "run_inv nodes (run_group w inputs k (p, ns) st) \<and> extends st (run_group w inputs k (p, ns) st) \<and>
    (rs_crashed (run_group w inputs k (p, ns) st) \<or>
     recorded (run_group w inputs k (p, ns) st) = recorded st \<union> wn_id ` set ns)"
proof -
  let ?results = "map (execute_node w inputs (rs_outputs st)) ns"
  let ?calls = "rs_calls st @ zip (map wn_id ns) (map snd ?results)"
  have f: "set ns \<subseteq> set nodes" "distinct (map wn_id ns)" "\<forall>n \<in> set ns. wn_id n \<notin> recorded st"
    using ns(1) by (simp_all add: fresh_nodes_def)
  have "fst ` set (rs_calls st) \<subseteq> recorded st" using inv by (simp add: run_inv_def)
  with f(3) have new: "\<forall>n \<in> set ns. wn_id n \<notin> fst ` set (rs_calls st)" by blast
  have once: "\<forall>r \<in> set (map snd ?results). length r \<le> 1" using execute_node_calls by auto
  show ?thesis
  proof (cases "py_map fst ?results")
    case (Inl e)
    have "run_inv nodes (st\<lparr>rs_crashed := True\<rparr>)" by (rule run_inv_crashed [OF inv(1)])
    then have "run_inv nodes ((st\<lparr>rs_crashed := True\<rparr>)\<lparr>rs_calls := ?calls\<rparr>)"
      using add_calls_inv [of nodes "st\<lparr>rs_crashed := True\<rparr>" ns "map snd ?results"] f new once ns(2)
      by (simp add: ready_deps_def)
    moreover have "run_group w inputs k (p, ns) st = (st\<lparr>rs_crashed := True\<rparr>)\<lparr>rs_calls := ?calls\<rparr>"
      using Inl inv(2) by (simp add: run_group_def Let_def)
    ultimately show ?thesis by (simp add: extends_def)
  next
    case (Inr rs)
    define st' where "st' = fold (record_result k (p \<and> length ns > 1)) rs st"
    have R: "run_inv nodes st'" "extends st st'" "recorded st' = recorded st \<union> wn_id ` set ns"
      using record_results_inv [OF node_results [OF Inr] inv(1) ns] by (simp_all add: st'_def)
    have frame: "rs_calls st' = rs_calls st" "rs_crashed st' = rs_crashed st" by (simp_all add: record_results_frame st'_def)
    have "ready_deps st' ns" by (rule ready_deps_extends [OF ns(2) R(2)])
    then have "run_inv nodes (st'\<lparr>rs_calls := ?calls\<rparr>)"
      using R(1,3) f new once add_calls_inv [of nodes st' ns "map snd ?results"] by (simp add: frame)
    moreover have "run_group w inputs k (p, ns) st = checkpoint (st'\<lparr>rs_calls := ?calls\<rparr>)"
      using Inr inv(2) by (simp add: run_group_def Let_def record_results_frame st'_def)
    moreover have "extends st' (checkpoint (st'\<lparr>rs_calls := ?calls\<rparr>))" by (simp add: extends_def)
    ultimately show ?thesis using R(3) extends_trans [OF R(2)] by simp
  qed
qed

lemma run_groups_inv:
  "run_inv nodes st \<Longrightarrow> fresh_nodes nodes st (concat (map snd groups)) \<Longrightarrow> ready_deps st (concat (map snd groups)) \<Longrightarrow>
     \<not> rs_crashed st \<Longrightarrow>
     run_inv nodes (fold (run_group w inputs k) groups st) \<and> extends st (fold (run_group w inputs k) groups st) \<and>
     (rs_crashed (fold (run_group w inputs k) groups st) \<or>
      recorded (fold (run_group w inputs k) groups st) = recorded st \<union> wn_id ` set (concat (map snd groups)))"
proof (induction groups arbitrary: st)
  case (Cons g groups)
  obtain p ns where g: "g = (p, ns)" by fastforce
  let ?rest = "concat (map snd groups)"
  let ?st = "run_group w inputs k g st"
  have all: "fresh_nodes nodes st (ns @ ?rest)" "ready_deps st (ns @ ?rest)" using Cons.prems(2,3) g by simp_all
  then have "fresh_nodes nodes st ns" "ready_deps st ns" by (auto simp: fresh_nodes_def ready_deps_def)
  from run_group_inv [OF Cons.prems(1,4) this, of w inputs k p]
  have step: "run_inv nodes ?st" "extends st ?st" "rs_crashed ?st \<or> recorded ?st = recorded st \<union> wn_id ` set ns"
    by (simp_all add: g)
  show ?case
  proof (cases "rs_crashed ?st")
    case True
    then have "fold (run_group w inputs k) groups ?st = ?st"
      by (induction groups) (auto simp: run_group_def)
    with step True show ?thesis by simp
  next
    case False
    with step(3) have rec: "recorded ?st = recorded st \<union> wn_id ` set ns" by blast
    have "wn_id ` set ns \<inter> wn_id ` set ?rest = {}" using all(1) by (simp add: fresh_nodes_def)
    then have "fresh_nodes nodes ?st ?rest" using all(1) unfolding fresh_nodes_def rec by auto
    moreover have "ready_deps ?st ?rest"
      by (rule ready_deps_extends [OF _ step(2)]) (use all(2) in \<open>auto simp: ready_deps_def\<close>)
    ultimately have "run_inv nodes (fold (run_group w inputs k) groups ?st)" "extends ?st (fold (run_group w inputs k) groups ?st)"
      "rs_crashed (fold (run_group w inputs k) groups ?st) \<or>
        recorded (fold (run_group w inputs k) groups ?st) = recorded ?st \<union> wn_id ` set ?rest"
      using Cons.IH [OF step(1) _ _ False] by blast+
    with extends_trans [OF step(2)] rec g show ?thesis by (simp add: image_Un Un_assoc)
  qed
qed simp

subsection \<open>Layers\<close>

text \<open>The nodes that were recorded or called so far.\<close>

definition touched :: "wf_state \<Rightarrow> string set" where
  "touched st = recorded st \<union> fst ` set (rs_calls st)"

abbreviation active :: "wf_state \<Rightarrow> bool" where
  "active st \<equiv> \<not> rs_crashed st \<and> wr_status (rs_record st) = ''running''"

lemma recorded_results:
  "list_all2 result_of ns rs \<Longrightarrow> recorded (fold (record_result k p) rs st) = recorded st \<union> wn_id ` set ns"
proof (induction ns arbitrary: rs st)
  case (Cons n ns)
  then obtain r rs' where rs: "rs = r # rs'" "result_of n r" "list_all2 result_of ns rs'"
    by (auto simp: list_all2_Cons1)
  obtain e res s where r: "r = (e, res, s)" by (cases r)
  with rs(2) have "en_node e = wn_id n" by (simp add: result_of_def entry_of_def)
  then show ?case using Cons.IH [OF rs(3)] by (auto simp: rs(1) r record_result_def)
qed simp

lemma run_group_touched: "touched (run_group w inputs k (p, ns) st) \<subseteq> touched st \<union> wn_id ` set ns"
proof (cases "rs_crashed st")
  case False
  let ?results = "map (execute_node w inputs (rs_outputs st)) ns"
  have calls: "fst ` set (zip (map wn_id ns) rs) \<subseteq> wn_id ` set ns" for rs :: "invocation list list"
    by (auto dest: set_zip_leftD)
  show ?thesis
  proof (cases "py_map fst ?results")
    case (Inl e)
    with False calls show ?thesis by (auto simp: run_group_def touched_def Let_def)
  next
    case (Inr rs)
    from recorded_results [OF node_results [OF Inr]]
    have "recorded (run_group w inputs k (p, ns) st) = recorded st \<union> wn_id ` set ns"
      using False Inr by (simp add: run_group_def Let_def)
    moreover have "rs_calls (run_group w inputs k (p, ns) st) = rs_calls st @ zip (map wn_id ns) (map snd ?results)"
      using False Inr by (simp add: run_group_def Let_def record_results_frame)
    ultimately show ?thesis using calls [of "map snd ?results"] by (auto simp: touched_def)
  qed
qed (simp add: run_group_def)

lemma run_groups_touched:
  "touched (fold (run_group w inputs k) groups st) \<subseteq> touched st \<union> wn_id ` set (concat (map snd groups))"
proof (induction groups arbitrary: st)
  case (Cons g groups)
  obtain p ns where g: "g = (p, ns)" by fastforce
  note Cons [of "run_group w inputs k g st"]
  also have "touched (run_group w inputs k g st) \<union> wn_id ` set (concat (map snd groups)) \<subseteq>
      touched st \<union> wn_id ` set ns \<union> wn_id ` set (concat (map snd groups))"
    using run_group_touched [of w inputs k p ns st] by (intro Un_mono) (simp_all add: g)
  finally show ?case by (simp add: g image_Un Un_assoc)
qed simp

lemma layer_nodes_ids:
  "set layer \<subseteq> wn_id ` set nodes \<Longrightarrow> map wn_id (layer_nodes nodes layer) = layer \<and> set (layer_nodes nodes layer) \<subseteq> set nodes"
proof (induction layer)
  case (Cons i layer)
  then obtain n where n: "List.find (\<lambda>n. wn_id n = i) nodes = Some n"
    by (cases "List.find (\<lambda>n. wn_id n = i) nodes") (auto simp: find_None_iff')
  from find_SomeD [OF n] Cons n show ?case by (auto simp: layer_nodes_def List.map_filter_simps)
qed (simp add: layer_nodes_def List.map_filter_simps)

lemma signal_cancel_simps [simp]:
  "rs_record (signal_cancel w k st) = rs_record st" "rs_outputs (signal_cancel w k st) = rs_outputs st"
  "rs_outcomes (signal_cancel w k st) = rs_outcomes st" "rs_failed (signal_cancel w k st) = rs_failed st"
  "rs_crashed (signal_cancel w k st) = rs_crashed st" "rs_calls (signal_cancel w k st) = rs_calls st"
  "wr_cancel (rs_file (signal_cancel w k st)) \<longleftrightarrow> wr_cancel (rs_file st) \<or> ww_cancel_run w k"
  "wr_status (rs_file (signal_cancel w k st)) = wr_status (rs_file st)" "run_inv nodes (signal_cancel w k st) = run_inv nodes st"
  by (simp_all add: signal_cancel_def)

lemma run_layer_idle: "\<not> active st \<Longrightarrow> run_layer w inputs nodes x st = st"
  by (cases x) (auto simp: run_layer_def)

lemma run_layers_idle: "\<not> active st \<Longrightarrow> fold (run_layer w inputs nodes) xs st = st"
  by (induction xs) (simp_all add: run_layer_idle)

lemma run_layer_inv:
  assumes nodes: "set layer \<subseteq> wn_id ` set nodes" "distinct layer" and inv: "run_inv nodes st" and new: "set layer \<inter> recorded st = {}"
    and st': "st' = run_layer w inputs nodes (k, layer) st"
  shows "run_inv nodes st'" "touched st' \<subseteq> touched st \<union> set layer"
    and "active st' \<Longrightarrow> active st \<and> recorded st' = recorded st \<union> set layer"
    and "wr_status (rs_record st) \<in> {''running'', ''cancelled''} \<Longrightarrow> wr_status (rs_record st') \<in> {''running'', ''cancelled''}"
    and "active st \<Longrightarrow> ww_cancel_run w k \<or> wr_job_id (rs_record st) \<noteq> [] \<and> ww_cancel_job w k \<Longrightarrow>
      \<not> active st' \<and> \<not> rs_crashed st' \<and> touched st' = touched st"
    and "wr_job_id (rs_record st') = wr_job_id (rs_record st)"
proof -
  have "run_inv nodes st' \<and> touched st' \<subseteq> touched st \<union> set layer \<and>
      (active st' \<longrightarrow> active st \<and> recorded st' = recorded st \<union> set layer) \<and>
      (wr_status (rs_record st) \<in> {''running'', ''cancelled''} \<longrightarrow> wr_status (rs_record st') \<in> {''running'', ''cancelled''}) \<and>
      (active st \<longrightarrow> ww_cancel_run w k \<or> wr_job_id (rs_record st) \<noteq> [] \<and> ww_cancel_job w k \<longrightarrow>
        \<not> active st' \<and> \<not> rs_crashed st' \<and> touched st' = touched st) \<and>
      wr_job_id (rs_record st') = wr_job_id (rs_record st)" (is ?goal)
  proof (cases "active st")
    case False
    with run_layer_idle [OF this] inv st' show ?thesis by auto
  next
    case True
    define st1 where "st1 = signal_cancel w k st"
    have st1: "run_inv nodes st1" "entries st1 = entries st" "rs_calls st1 = rs_calls st" "active st1"
      "rs_record st1 = rs_record st" using inv True by (simp_all add: st1_def)
    show ?thesis
    proof (cases "cancel_requested_at w k st1")
      case cancelled: True
      then have "st' = st1\<lparr>rs_record := (rs_record st1)\<lparr>wr_status := ''cancelled''\<rparr>\<rparr>"
        using True st' by (simp add: run_layer_def st1_def Let_def)
      then show ?thesis using st1 True run_inv_status [where st = st1 and nodes = nodes and s = "''cancelled''"] by (simp add: touched_def)
    next
      case False
      let ?ns = "layer_nodes nodes layer"
      obtain runnable st2 where screen: "screen_layer w k ?ns st1 = (runnable, st2)" by fastforce
      have ns: "map wn_id ?ns = layer" "set ?ns \<subseteq> set nodes" using layer_nodes_ids [OF nodes(1)] by simp_all
      then have ids: "wn_id ` set ?ns = set layer" by (metis set_map)
      with new have "fresh_nodes nodes st1 ?ns" using ns nodes(2) st1(2) by (auto simp: fresh_nodes_def)
      note S = screen_layer_inv [OF screen st1(1) this]
      define st3 where "st3 = (if length runnable \<noteq> length layer then checkpoint st2 else st2)"
      define groups where "groups = layer_groups (preview_reads w inputs (rs_outputs st3)) [] runnable"
      have groups: "concat (map snd groups) = runnable" by (simp add: groups_def concat_layer_groups)
      have st3: "run_inv nodes st3" "extends st1 st3" "entries st3 = entries st2" "rs_outcomes st3 = rs_outcomes st2"
        "rs_calls st3 = rs_calls st1" "rs_crashed st3 = rs_crashed st1"
        using S extends_trans [of st1 st2 "checkpoint st2"] by (simp_all add: st3_def)
      then have "fresh_nodes nodes st3 (concat (map snd groups))" "ready_deps st3 (concat (map snd groups))" "\<not> rs_crashed st3"
        using S True st1(4) by (simp_all add: fresh_nodes_def ready_deps_def groups)
      note G = run_groups_inv [OF st3(1) this, of w inputs k] and T = run_groups_touched [of w inputs k groups st3]
      have step: "st' = fold (run_group w inputs k) groups st3"
        using True False st' screen by (simp add: run_layer_def st1_def [symmetric] st3_def groups_def Let_def)
      have eq: "recorded st3 \<union> wn_id ` set runnable = recorded st \<union> set layer"
        using S ids st1(2) st3(3) by simp
      have "touched st3 \<union> wn_id ` set runnable = (recorded st3 \<union> wn_id ` set runnable) \<union> fst ` set (rs_calls st)"
        by (simp add: touched_def st3(5) st1(3) Un_ac)
      also have "\<dots> = touched st \<union> set layer" unfolding eq by (simp add: touched_def Un_ac)
      finally have "touched st' \<subseteq> touched st \<union> set layer" using T by (simp add: step groups)
      moreover note eq
      moreover have "extends st1 st'" using extends_trans [OF st3(2)] G step by simp
      moreover have "\<not> (ww_cancel_run w k \<or> wr_job_id (rs_record st) \<noteq> [] \<and> ww_cancel_job w k)"
        using False by (auto simp: cancel_requested_at_def st1_def)
      ultimately show ?thesis
        using G True st1(5) unfolding step [symmetric] groups by (auto simp: extends_def)
    qed
  qed
  then show "run_inv nodes st'" "touched st' \<subseteq> touched st \<union> set layer"
    "active st' \<Longrightarrow> active st \<and> recorded st' = recorded st \<union> set layer"
    "wr_status (rs_record st) \<in> {''running'', ''cancelled''} \<Longrightarrow> wr_status (rs_record st') \<in> {''running'', ''cancelled''}"
    "active st \<Longrightarrow> ww_cancel_run w k \<or> wr_job_id (rs_record st) \<noteq> [] \<and> ww_cancel_job w k \<Longrightarrow>
      \<not> active st' \<and> \<not> rs_crashed st' \<and> touched st' = touched st"
    "wr_job_id (rs_record st') = wr_job_id (rs_record st)"
    by blast+
qed

subsection \<open>The layers of a run\<close>

lemma run_layers_inv:
  assumes "distinct (concat layers)" "set (concat layers) \<subseteq> wn_id ` set nodes" "run_inv nodes st"
    and "set (concat layers) \<inter> touched st = {}" "st' = fold (run_layer w inputs nodes) (enumerate k layers) st"
  shows "run_inv nodes st' \<and> touched st' \<subseteq> touched st \<union> set (concat layers) \<and>
    (active st' \<longrightarrow> active st \<and> recorded st' = recorded st \<union> set (concat layers)) \<and>
    (wr_status (rs_record st) \<in> {''running'', ''cancelled''} \<longrightarrow> wr_status (rs_record st') \<in> {''running'', ''cancelled''}) \<and>
    wr_job_id (rs_record st') = wr_job_id (rs_record st)"
  using assms
proof (induction layers arbitrary: k st)
  case (Cons layer layers)
  define st1 where "st1 = run_layer w inputs nodes (k, layer) st"
  have layer: "set layer \<subseteq> wn_id ` set nodes" "distinct layer" "set layer \<inter> recorded st = {}"
    using Cons.prems(1,2,4) by (auto simp: touched_def)
  note L = run_layer_inv [OF layer(1,2) Cons.prems(3) layer(3) st1_def]
  have disj: "set layer \<inter> set (concat layers) = {}" using Cons.prems(1) by simp
  have "set (concat layers) \<inter> touched st1 = {}" using L(2) Cons.prems(4) disj by auto
  moreover have "distinct (concat layers)" "set (concat layers) \<subseteq> wn_id ` set nodes"
    "st' = fold (run_layer w inputs nodes) (enumerate (Suc k) layers) st1"
    using Cons.prems(1,2,5) by (simp_all add: st1_def)
  ultimately have R: "run_inv nodes st' \<and> touched st' \<subseteq> touched st1 \<union> set (concat layers) \<and>
    (active st' \<longrightarrow> active st1 \<and> recorded st' = recorded st1 \<union> set (concat layers)) \<and>
    (wr_status (rs_record st1) \<in> {''running'', ''cancelled''} \<longrightarrow> wr_status (rs_record st') \<in> {''running'', ''cancelled''}) \<and>
    wr_job_id (rs_record st') = wr_job_id (rs_record st1)"
    using Cons.IH [OF _ _ L(1)] by blast
  show ?case
  proof (intro conjI impI)
    have "touched st1 \<union> set (concat layers) \<subseteq> touched st \<union> set (concat (layer # layers))" using L(2) by auto
    with R show "touched st' \<subseteq> touched st \<union> set (concat (layer # layers))" by blast
  next
    assume "active st'"
    with R have r: "active st1" "recorded st' = recorded st1 \<union> set (concat layers)" by blast+
    from L(3) [OF r(1)] show "\<not> rs_crashed st" "wr_status (rs_record st) = ''running''" by blast+
    from L(3) [OF r(1)] r(2) show "recorded st' = recorded st \<union> set (concat (layer # layers))"
      by (simp add: Un_assoc)
  next
    assume "wr_status (rs_record st) \<in> {''running'', ''cancelled''}"
    from L(4) [OF this] R show "wr_status (rs_record st') \<in> {''running'', ''cancelled''}" by blast
  qed (use R L(6) in simp_all)
qed simp

text \<open>A cancellation seen before layer \<open>j\<close> keeps that layer and all later ones from being touched.\<close>

lemma run_layers_cancelled:
  assumes layers: "distinct (concat (pre @ layer # post))" "set (concat (pre @ layer # post)) \<subseteq> wn_id ` set nodes"
    and inv: "run_inv nodes st" "set (concat (pre @ layer # post)) \<inter> touched st = {}" and j: "j = k + length pre"
    and cancel: "ww_cancel_run w j \<or> wr_job_id (rs_record st) \<noteq> [] \<and> ww_cancel_job w j"
    and st': "st' = fold (run_layer w inputs nodes) (enumerate k (pre @ layer # post)) st"
  shows "\<not> active st' \<and> touched st' \<subseteq> touched st \<union> set (concat pre)"
proof -
  define st1 where "st1 = fold (run_layer w inputs nodes) (enumerate k pre) st"
  define st2 where "st2 = run_layer w inputs nodes (j, layer) st1"
  have d: "distinct (concat pre)" "distinct layer" "set layer \<inter> set (concat pre) = {}" "set (concat pre) \<subseteq> wn_id ` set nodes"
    "set layer \<subseteq> wn_id ` set nodes" "set (concat pre) \<inter> touched st = {}" "set layer \<inter> touched st = {}"
    using layers inv(2) unfolding concat_append concat.simps distinct_append set_append by blast+
  note P = run_layers_inv [OF d(1,4) inv(1) d(6) st1_def]
  have "touched st1 \<subseteq> touched st \<union> set (concat pre)" using P by blast
  then have "set layer \<inter> touched st1 = {}" using d(3,7) by blast
  then have new: "set layer \<inter> recorded st1 = {}" by (auto simp: touched_def)
  note L = run_layer_inv [OF d(5,2) _ new st2_def]
  have stop: "\<not> active st2 \<and> touched st2 = touched st1"
  proof (cases "active st1")
    case True
    with L(5) P cancel show ?thesis by auto
  next
    case False
    then show ?thesis using run_layer_idle by (simp add: st2_def)
  qed
  have "st' = fold (run_layer w inputs nodes) (enumerate (Suc j) post) st2"
    by (simp add: st' st2_def st1_def j enumerate_append_eq)
  then have "st' = st2" using run_layers_idle stop by simp
  with stop P show ?thesis by simp
qed

text \<open>The record on file says \<open>running\<close> until the run is closed.\<close>

lemma record_results_file:
  "rs_file (fold (record_result k p) rs st) = rs_file st \<and>
   wr_status (rs_record (fold (record_result k p) rs st)) = wr_status (rs_record st)"
  by (induction rs arbitrary: st) (auto simp: record_result_def split: prod.split)

lemma checkpoint_file: "wr_status (rs_file (checkpoint st)) = wr_status (rs_record st)"
  by (simp add: checkpoint_def save_run_def Let_def)

lemma run_groups_file:
  "wr_status (rs_file st) = ''running'' \<Longrightarrow> wr_status (rs_record st) = ''running'' \<Longrightarrow>
     wr_status (rs_file (fold (run_group w inputs k) groups st)) = ''running'' \<and>
     wr_status (rs_record (fold (run_group w inputs k) groups st)) = ''running''"
proof (induction groups arbitrary: st)
  case (Cons g groups)
  have "wr_status (rs_file (run_group w inputs k g st)) = ''running'' \<and> wr_status (rs_record (run_group w inputs k g st)) = ''running''"
    using Cons.prems by (auto simp: run_group_def Let_def record_results_file checkpoint_file split: prod.split sum.split)
  with Cons.IH show ?case by simp
qed simp

lemma screen_layer_file:
  "screen_layer w k ns st = (runnable, st') \<Longrightarrow> rs_file st' = rs_file st \<and> wr_status (rs_record st') = wr_status (rs_record st)"
  by (induction w k ns st arbitrary: runnable st' rule: screen_layer.induct) (auto simp: Let_def split: if_splits prod.splits)

lemma run_layers_file:
  "wr_status (rs_file st) = ''running'' \<Longrightarrow> wr_status (rs_file (fold (run_layer w inputs nodes) layers st)) = ''running''"
proof (induction layers arbitrary: st)
  case (Cons x layers)
  obtain k layer where x: "x = (k, layer)" by fastforce
  have "wr_status (rs_file (run_layer w inputs nodes x st)) = ''running''"
  proof (cases "active st \<and> \<not> cancel_requested_at w k (signal_cancel w k st)")
    case True
    obtain runnable st2 where screen: "screen_layer w k (layer_nodes nodes layer) (signal_cancel w k st) = (runnable, st2)" by fastforce
    from screen_layer_file [OF screen] True Cons.prems
    have "wr_status (rs_file st2) = ''running''" "wr_status (rs_record st2) = ''running''" by simp_all
    then show ?thesis
      using True screen run_groups_file by (simp add: x run_layer_def Let_def checkpoint_file)
  next
    case False
    then show ?thesis using Cons.prems by (auto simp: x run_layer_def Let_def)
  qed
  with Cons.IH show ?case by simp
qed simp

subsection \<open>What a node reads\<close>

text \<open>The template expressions of a value, and those that name all nodes or a whole node: the reference pattern asks for a dot after
  the identifier and does not see them.\<close>

definition text_expressions :: "string \<Rightarrow> string list" where
  "text_expressions s = concat (map (\<lambda>p. case p of Inr e \<Rightarrow> [e] | Inl _ \<Rightarrow> []) (template_parts s))"

fun expressions :: "pyval \<Rightarrow> string list" where
  "expressions (VDict d) = concat (map (\<lambda>(_, v). expressions v) d)"
| "expressions (VList xs) = concat (map expressions xs)"
| "expressions (VStr s) = text_expressions s"
| "expressions v = []"

definition node_expressions :: "wf_node \<Rightarrow> string list" where
  "node_expressions n = expressions (VDict (wn_arguments n)) @ expressions (wn_when n)"

definition bare_expression :: "string \<Rightarrow> bool" where
  "bare_expression e = (let parts = split_on CHR ''.'' e in hd parts = ''nodes'' \<and> length parts \<le> 2)"

definition ident_ok :: "string \<Rightarrow> bool" where
  "ident_ok x = (x \<noteq> [] \<and> list_all is_word_dash x)"

lemma text_references_suffix: "set (text_references t) \<subseteq> set (text_references (pre @ t))"
  by (induction pre) (auto split: option.split)

lemma reference_at_start: "ident_ok x \<Longrightarrow> reference_at (''${nodes.'' @ x @ ''.'' @ rest) = Some x"
  by (simp add: reference_at_def starts_with_def ident_ok_def list_all_iff takeWhile_append
      is_word_dash_def is_alpha_def is_digit_def Let_def eval_nat_numeral)

lemma text_expression_reference:
  assumes "e \<in> set (text_expressions s)" "split_on CHR ''.'' e = ''nodes'' # x # y # parts" "ident_ok x"
  shows "x \<in> set (text_references s)"
proof -
  from assms(1) have "Inr e \<in> set (template_parts s)" by (auto simp: text_expressions_def split: sum.splits)
  then obtain pre post where s: "s = pre @ ''${'' @ e @ ''}'' @ post" using template_part_occurs by blast
  have e: "e = ''nodes.'' @ x @ ''.'' @ join_with ''.'' (y # parts)"
    using split_join [of "CHR ''.''" e] by (simp add: assms(2))
  let ?t = "''${nodes.'' @ x @ ''.'' @ join_with ''.'' (y # parts) @ ''}'' @ post"
  have "reference_at ?t = Some x" using reference_at_start [OF assms(3)] by simp
  then have "x \<in> set (text_references ?t)" by simp
  moreover have "s = pre @ ?t" using s e by simp
  ultimately show ?thesis using text_references_suffix by blast
qed

lemma expression_reference:
  "e \<in> set (expressions v) \<Longrightarrow> split_on CHR ''.'' e = ''nodes'' # x # y # parts \<Longrightarrow> ident_ok x \<Longrightarrow> x \<in> set (references v)"
proof (induction v rule: expressions.induct)
  case (1 d)
  then obtain k v where "(k, v) \<in> set d" "e \<in> set (expressions v)" by auto
  with "1.IH" [OF this(1) refl this(2)] "1.prems"(2,3) show ?case by auto
next
  case (2 xs)
  then show ?case by auto
next
  case (3 s)
  then show ?case using text_expression_reference by simp
qed auto

lemma resolve_cong:
  "(\<And>e. e \<in> set (expressions v) \<Longrightarrow> lookup_expr scope e = lookup_expr scope' e) \<Longrightarrow> resolve scope v = resolve scope' v"
proof (induction scope v rule: resolve.induct)
  case (1 scope d)
  have "resolve scope v = resolve scope' v" if "(k, v) \<in> set d" for k v
    by (rule "1.IH" [OF that refl]) (use "1.prems" that in force)
  then have "py_map (\<lambda>(k, v). py_bind (resolve scope v) (\<lambda>w. Inr (k, w))) d =
      py_map (\<lambda>(k, v). py_bind (resolve scope' v) (\<lambda>w. Inr (k, w))) d"
    by (intro py_map_cong) auto
  then show ?case by simp
next
  case (2 scope xs)
  then have "py_map (resolve scope) xs = py_map (resolve scope') xs" by (intro py_map_cong) auto
  then show ?case by simp
next
  case (3 scope s)
  have part: "lookup_expr scope e = lookup_expr scope' e" if "Inr e \<in> set (template_parts s)" for e
    using 3 that by (force simp: text_expressions_def)
  have "py_map (\<lambda>p. case p of Inl c \<Rightarrow> Inr [c] | Inr e \<Rightarrow> py_bind (lookup_expr scope e) (\<lambda>v. Inr (py_str v))) (template_parts s) =
      py_map (\<lambda>p. case p of Inl c \<Rightarrow> Inr [c] | Inr e \<Rightarrow> py_bind (lookup_expr scope' e) (\<lambda>v. Inr (py_str v))) (template_parts s)"
    using part by (intro py_map_cong) (auto split: sum.split)
  moreover have "Inr e \<in> set (template_parts s)" if "match_template s = Some (e, rest)" for e rest
    using that by (simp add: template_parts.simps [of s])
  ultimately show ?case using part by (auto simp: resolve_text_def split: option.split list.split)
qed simp_all

lemma map_of_map_values: "map_of (map (\<lambda>(k, v). (k, f v)) xs) i = map_option f (map_of xs i)"
  by (induction xs) auto

lemma lookup_confined:
  assumes "\<not> bare_expression e" "\<forall>i \<in> fst ` set outs \<union> fst ` set outs'. ident_ok i"
    and "\<And>x y parts. split_on CHR ''.'' e = ''nodes'' # x # y # parts \<Longrightarrow> ident_ok x \<Longrightarrow> map_of outs x = map_of outs' x"
  shows "lookup_expr (run_scope inputs outs) e = lookup_expr (run_scope inputs outs') e"
proof -
  obtain a rest where ps: "split_on CHR ''.'' e = a # rest" by (metis neq_Nil_conv split_on_nonempty)
  show ?thesis
  proof (cases "a = ''nodes''")
    case False
    then show ?thesis by (simp add: lookup_expr_def run_scope_def ps)
  next
    case True
    with assms(1) ps obtain x y parts where rest: "rest = x # y # parts"
      by (cases rest; cases "tl rest") (auto simp: bare_expression_def)
    have "map_of outs x = map_of outs' x"
    proof (cases "ident_ok x")
      case True
      with assms(3) ps rest \<open>a = ''nodes''\<close> show ?thesis by blast
    next
      case False
      with assms(2) have "x \<notin> fst ` set outs" "x \<notin> fst ` set outs'" by blast+
      then show ?thesis by (metis map_of_eq_None_iff)
    qed
    with True show ?thesis by (simp add: lookup_expr_def run_scope_def ps rest map_of_map_values)
  qed
qed

subsection \<open>Properties\<close>

lemma start_run_simps [simp]:
  "entries (start_run w d wid inputs job run_id) = []" "rs_calls (start_run w d wid inputs job run_id) = []"
  "active (start_run w d wid inputs job run_id)" "wr_job_id (rs_record (start_run w d wid inputs job run_id)) = job"
  "wr_status (rs_file (start_run w d wid inputs job run_id)) = ''running''" "touched (start_run w d wid inputs job run_id) = {}"
  "run_inv nodes (start_run w d wid inputs job run_id)"
  by (simp_all add: start_run_def Let_def touched_def run_inv_def ordered_entries_def)

lemma close_run_simps [simp]:
  "entries (close_run w k st) = entries st" "rs_calls (close_run w k st) = rs_calls st" "rs_crashed (close_run w k st) = rs_crashed st"
  "rs_failed (close_run w k st) = rs_failed st" "run_inv nodes (close_run w k st) = run_inv nodes st"
  by (simp_all add: close_run_def Let_def run_inv_def)

lemma execute_layers_inv:
  assumes "validate_definition cfg payload = Inr d" "st = execute_layers w d wid inputs job run_id"
  shows "run_inv (wd_nodes d) st" "active st \<longrightarrow> recorded st = wn_id ` set (wd_nodes d)"
    and "wr_status (rs_record st) \<in> {''running'', ''cancelled''}" "wr_status (rs_file st) = ''running''"
proof -
  note L = accepted_layers [OF assms(1)]
  note I = run_layers_inv [where k = 1 and st = "start_run w d wid inputs job run_id" and nodes = "wd_nodes d" and w = w and inputs = inputs,
      OF L(1) _ _ _ assms(2) [unfolded execute_layers_def]]
  show "run_inv (wd_nodes d) st" "active st \<longrightarrow> recorded st = wn_id ` set (wd_nodes d)"
    "wr_status (rs_record st) \<in> {''running'', ''cancelled''}"
    using I L(2) by simp_all
  show "wr_status (rs_file st) = ''running''"
    unfolding assms(2) execute_layers_def by (rule run_layers_file) simp
qed

text \<open>C5: the record of a run respects the graph, whatever the tools do and however reads interleave: no node is recorded or called
  twice, every entry that is not skipped comes after successful entries of all the dependencies of its node, and a handler
  received at most one call per node, none before the dependencies of the node succeeded.\<close>

theorem workflow_calls_follow_dependencies:
  assumes "validate_definition cfg payload = Inr d" "st = execute_definition w d wid inputs job run_id" "es = wr_nodes (rs_record st)"
  shows "distinct (map en_node es) \<and> (\<forall>e \<in> set es. \<exists>n \<in> set (wd_nodes d). entry_of n e) \<and>
    (\<forall>pre e post. es = pre @ e # post \<longrightarrow> en_status e \<noteq> ''skipped'' \<longrightarrow>
       (\<forall>dep \<in> set (en_depends e). \<exists>e' \<in> set pre. en_node e' = dep \<and> entry_ok e')) \<and>
    distinct (map fst (rs_calls st)) \<and>
    (\<forall>(i, received) \<in> set (rs_calls st). length received \<le> 1 \<and>
       (\<exists>n \<in> set (wd_nodes d). wn_id n = i \<and> (\<forall>dep \<in> set (wn_depends n). \<exists>e \<in> set es. en_node e = dep \<and> entry_ok e)))"
proof -
  from execute_layers_inv(1) [OF assms(1) refl] have inv: "run_inv (wd_nodes d) st"
    by (simp add: assms(2) execute_definition_def)
  have call: "length received \<le> 1 \<and> (\<exists>n \<in> set (wd_nodes d). wn_id n = i \<and>
      (\<forall>dep \<in> set (wn_depends n). \<exists>e \<in> set es. en_node e = dep \<and> entry_ok e))" if "(i, received) \<in> set (rs_calls st)" for i received
    using run_inv_call [OF inv that] run_inv_outcome [OF inv] by (auto simp: assms(3))
  moreover from inv have "distinct (map en_node es)" "\<forall>e \<in> set es. \<exists>n \<in> set (wd_nodes d). entry_of n e"
    "ordered_entries es" "distinct (map fst (rs_calls st))" by (simp_all add: run_inv_def assms(3))
  ultimately show ?thesis unfolding ordered_entries_def by blast
qed

text \<open>C17: a run that no exception aborts reaches a terminal status, and its record is the one on file. Unless it was cancelled,
  every node is recorded, and it succeeded exactly when no node failed or was blocked. A run that an exception aborts
  leaves a record that says running.\<close>

theorem workflow_run_settles:
  assumes "validate_definition cfg payload = Inr d" "st = execute_definition w d wid inputs job run_id" "r = rs_record st"
  shows "if rs_crashed st then wr_status (rs_file st) = ''running''
    else rs_file st = r \<and> wr_status r \<in> {''succeeded'', ''failed'', ''cancelled''} \<and>
      (wr_status r = ''cancelled'' \<or>
       en_node ` set (wr_nodes r) = wn_id ` set (wd_nodes d) \<and>
       (wr_status r = ''succeeded'' \<longleftrightarrow> (\<forall>e \<in> set (wr_nodes r). entry_ok e \<or> en_status e = ''skipped'')))"
proof -
  define s where "s = execute_layers w d wid inputs job run_id"
  note I = execute_layers_inv [OF assms(1) s_def]
  have st: "st = close_run w (Suc (length (wd_layers d))) s" by (simp add: assms(2) execute_definition_def s_def)
  show ?thesis
  proof (cases "rs_crashed s")
    case True
    then show ?thesis using I(4) by (simp add: st close_run_def)
  next
    case False
    have failed: "rs_failed s \<longleftrightarrow> (\<exists>e \<in> set (entries s). \<not> entry_ok e \<and> en_status e \<noteq> ''skipped'')"
      using I(1) by (simp add: run_inv_def)
    have status: "wr_status r = (if wr_status (rs_record s) = ''running'' then if rs_failed s then ''failed'' else ''succeeded''
        else wr_status (rs_record s))" "rs_file st = r"
      using False by (simp_all add: st assms(3) close_run_def Let_def)
    have es: "wr_nodes r = entries s" by (simp add: assms(3) st)
    show ?thesis
    proof (cases "wr_status (rs_record s) = ''running''")
      case True
      with I(2) False have "recorded s = wn_id ` set (wd_nodes d)" by simp
      with True False failed status es show ?thesis by (auto simp: st)
    next
      case cancelled: False
      with I(3) status False show ?thesis by (simp add: st)
    qed
  qed
qed

text \<open>C29: a cancellation, of the run or of its job, that is there before a layer stops the run: no node of that layer or of a later one
  is called or recorded, and the run ends cancelled unless an exception aborted it before.\<close>

theorem cancelled_workflow_stops:
  assumes "validate_definition cfg payload = Inr d" "wd_layers d = pre @ layer # post" "k = Suc (length pre)"
    and "ww_cancel_run w k \<or> job \<noteq> [] \<and> ww_cancel_job w k" "st = execute_definition w d wid inputs job run_id"
  shows "en_node ` set (wr_nodes (rs_record st)) \<union> fst ` set (rs_calls st) \<subseteq> set (concat pre) \<and>
    (rs_crashed st \<or> wr_status (rs_record st) = ''cancelled'')"
proof -
  define s where "s = execute_layers w d wid inputs job run_id"
  note L = accepted_layers [OF assms(1)]
  have st: "st = close_run w (Suc (length (wd_layers d))) s" by (simp add: assms(5) execute_definition_def s_def)
  have "\<not> active s \<and> touched s \<subseteq> touched (start_run w d wid inputs job run_id) \<union> set (concat pre)"
    by (rule run_layers_cancelled [where k = 1 and j = k and layer = layer and post = post and nodes = "wd_nodes d" and w = w])
      (use L(1,2) assms in \<open>simp_all add: s_def execute_layers_def\<close>)
  then have stop: "\<not> active s" "touched s \<subseteq> set (concat pre)" by simp_all
  then have "rs_crashed st \<or> wr_status (rs_record st) = ''cancelled''"
    using execute_layers_inv(3) [OF assms(1) s_def] by (auto simp: st close_run_def Let_def)
  with stop(2) show ?thesis by (simp add: st touched_def)
qed

text \<open>C25: a node of an accepted workflow whose templates name no bare node reads only its ancestors: with the same outputs of its
  ancestors it is executed alike, whatever else was recorded before, so that the order of unrelated nodes cannot matter.\<close>

theorem references_confined:
  assumes "validate_definition cfg payload = Inr d" "n \<in> set (wd_nodes d)"
    and "\<forall>e \<in> set (node_expressions n). \<not> bare_expression e"
    and "fst ` set outs \<union> fst ` set outs' \<subseteq> wn_id ` set (wd_nodes d)"
    and "\<forall>a \<in> set (node_ancestors (wf_graph (wd_nodes d)) (wn_id n)). map_of outs a = map_of outs' a"
  shows "execute_node w inputs outs n = execute_node w inputs outs' n"
proof -
  have ids: "\<forall>i \<in> fst ` set outs \<union> fst ` set outs'. ident_ok i"
  proof
    fix i assume "i \<in> fst ` set outs \<union> fst ` set outs'"
    with assms(4) obtain m where "m \<in> set (wd_nodes d)" "i = wn_id m" by blast
    with accepted_nodes(2) [OF assms(1)] show "ident_ok i" by (simp add: node_ok_def ident_ok_def)
  qed
  have refs: "set (node_references n) \<subseteq> set (node_ancestors (wf_graph (wd_nodes d)) (wn_id n))"
    using accepted_nodes(5) [OF assms(1)] assms(2) by (simp add: validate_references_Inr)
  have "lookup_expr (run_scope inputs outs) e = lookup_expr (run_scope inputs outs') e" if e: "e \<in> set (node_expressions n)" for e
  proof (rule lookup_confined [OF _ ids])
    show "\<not> bare_expression e" using assms(3) e by blast
    fix x y parts assume "split_on CHR ''.'' e = ''nodes'' # x # y # parts" "ident_ok x"
    with e have "x \<in> set (node_references n)"
      using expression_reference [of e "VDict (wn_arguments n)" x y parts] expression_reference [of e "wn_when n" x y parts]
      by (simp add: node_expressions_def node_references_def del: expressions.simps references.simps) blast
    with refs assms(5) show "map_of outs x = map_of outs' x" by blast
  qed
  then have eqs: "resolve (run_scope inputs outs) (wn_when n) = resolve (run_scope inputs outs') (wn_when n)"
    "resolve (run_scope inputs outs) (VDict (wn_arguments n)) = resolve (run_scope inputs outs') (VDict (wn_arguments n))"
    by (intro resolve_cong; simp add: node_expressions_def del: expressions.simps resolve.simps)+
  have "prepare_node w inputs outs n = prepare_node w inputs outs' n" unfolding prepare_node_def Let_def eqs by (rule refl)
  then show ?thesis by (simp add: execute_node_def)
qed

text \<open>A world in which no tool has a manifest, so that every call is blocked.\<close>

definition closed_tools :: tool_world where
  "closed_tools = echo_world\<lparr>tw_get_tool := \<lambda>_. None, tw_get_manifest := \<lambda>_. None\<rparr>"

definition flow_world :: "tool_world \<Rightarrow> (nat \<Rightarrow> bool) \<Rightarrow> wf_world" where
  "flow_world tools cancels = \<lparr>ww_tools = \<lambda>_. tools, ww_invocation_id = \<lambda>i. i, ww_catalogue = demo_catalogue,
     ww_clean = \<lambda>s. s, ww_notice = \<lambda>_. ''note'', ww_cancel_run = cancels, ww_cancel_job = \<lambda>_. False\<rparr>"

lemma demo_flow_run:
  "(let st = execute_definition (flow_world closed_tools (\<lambda>_. False)) demo_definition ''flow'' [] [] ''r1'' in
    (wr_status (rs_record st), map (\<lambda>e. (en_node e, en_status e)) (wr_nodes (rs_record st)), rs_crashed st)) =
   (''failed'', [(''a'', ''blocked''), (''b'', ''skipped'')], False)"
  by code_simp

definition demo_state :: "(nat \<Rightarrow> bool) \<Rightarrow> wf_state" where
  "demo_state cancels = execute_definition (flow_world closed_tools cancels) demo_definition ''flow'' [] [] ''r1''"

theorem workflow_calls_follow_dependencies_witness:
  "distinct (map en_node (wr_nodes (rs_record (demo_state (\<lambda>_. False))))) \<and> distinct (map fst (rs_calls (demo_state (\<lambda>_. False))))"
  using workflow_calls_follow_dependencies [OF demo_accepted demo_state_def refl, of "\<lambda>_. False"] by blast

theorem workflow_run_settles_witness:
  "rs_file (demo_state (\<lambda>_. False)) = rs_record (demo_state (\<lambda>_. False)) \<and>
   wr_status (rs_file (demo_state (\<lambda>_. False))) = ''failed'' \<and>
   map (\<lambda>e. (en_node e, en_status e)) (wr_nodes (rs_file (demo_state (\<lambda>_. False)))) = [(''a'', ''blocked''), (''b'', ''skipped'')]"
  using workflow_run_settles [OF demo_accepted demo_state_def refl, of "\<lambda>_. False"] demo_flow_run [folded demo_state_def]
  by (simp add: Let_def)

theorem cancelled_workflow_stops_witness:
  "en_node ` set (wr_nodes (rs_record (demo_state (\<lambda>k. k = 2)))) \<subseteq> {''a''}"
proof -
  have "wd_layers demo_definition = [[''a'']] @ [''b''] # []" by (simp add: demo_definition_def)
  from cancelled_workflow_stops [OF demo_accepted this _ _ demo_state_def [of "\<lambda>k. k = 2"]]
  show ?thesis by (simp add: flow_world_def)
qed

theorem references_confined_witness:
  "execute_node (flow_world closed_tools (\<lambda>_. False)) [] [] (demo_node ''a'' [] []) =
   execute_node (flow_world closed_tools (\<lambda>_. False)) [] [(''b'', [])] (demo_node ''a'' [] [])"
proof (rule references_confined [OF demo_accepted])
  show "demo_node ''a'' [] [] \<in> set (wd_nodes demo_definition)" by (simp add: demo_definition_def)
  show "\<forall>e \<in> set (node_expressions (demo_node ''a'' [] [])). \<not> bare_expression e" by code_simp
  show "fst ` set [] \<union> fst ` set [(''b'', [])] \<subseteq> wn_id ` set (wd_nodes demo_definition)"
    by (simp add: demo_definition_def demo_node_def)
  have "node_ancestors (wf_graph (wd_nodes demo_definition)) ''a'' = []" by code_simp
  then show "\<forall>a \<in> set (node_ancestors (wf_graph (wd_nodes demo_definition)) (wn_id (demo_node ''a'' [] []))).
      map_of [] a = map_of [(''b'', [])] a" by (simp add: demo_node_def)
qed

text \<open>The reference check looks for a dot after the identifier. A node without dependencies that names another node bare is
  accepted, and what it resolves to depends on whether that node has run.\<close>

definition bare_payload :: pyval where
  "bare_payload = VDict [(''workflow_id'', VStr ''flow''), (''name'', VStr ''Bare''),
     (''nodes'', VList [demo_raw ''a'' [] [], demo_raw ''b'' [] [(''note'', VStr ''${nodes.a}'')]])]"

theorem bare_reference_escapes_check:
  "\<exists>d. validate_definition demo_config bare_payload = Inr d \<and> (\<exists>n \<in> set (wd_nodes d). wn_depends n = [] \<and>
     prepare_node (flow_world closed_tools (\<lambda>_. False)) [] [] n = Inl (Wf_template_missing ''nodes.a'') \<and>
     prepare_node (flow_world closed_tools (\<lambda>_. False)) [] [(''a'', [])] n = Inr (Some [(''note'', VDict [(''output'', VDict [])])]))"
proof -
  let ?b = "demo_node ''b'' [] [(''note'', VStr ''${nodes.a}'')]"
  have "validate_definition demo_config bare_payload = Inr (demo_definition\<lparr>wd_name := ''Bare'',
      wd_nodes := [demo_node ''a'' [] [], ?b], wd_layers := [[''a'', ''b'']]\<rparr>)" by code_simp
  moreover have "prepare_node (flow_world closed_tools (\<lambda>_. False)) [] [] ?b = Inl (Wf_template_missing ''nodes.a'')" by code_simp
  moreover have "prepare_node (flow_world closed_tools (\<lambda>_. False)) [] [(''a'', [])] ?b =
      Inr (Some [(''note'', VDict [(''output'', VDict [])])])" by code_simp
  ultimately show ?thesis by (intro exI conjI bexI [of _ ?b]) (auto simp: demo_node_def)
qed

end
