(* ===== verification/Workflow_Store.thy ===== *)
theory Workflow_Store
  imports Workflow_Run
begin

section \<open>The workflow store\<close>

text \<open>
  The files of one workspace: \<open>save_workflow\<close>, \<open>get_workflow\<close>, \<open>list_workflows\<close>, \<open>delete_workflow\<close>, \<open>execute_workflow\<close>, \<open>get_run\<close>,
  \<open>list_runs\<close> and \<open>cancel_run\<close> of \<^verbatim>\<open>workflows/service.py\<close>. A directory is an association list from identifiers to records; a record
  that cannot be read as JSON is left out. \<open>cancel_run\<close> reads without the lock of the run and writes under it, so it is two
  steps here, \<open>get_run\<close> and \<open>cancel_write\<close>.
\<close>

record wf_store =
  ws_definitions :: "(string \<times> pydict) list"
  ws_runs :: "(string \<times> wf_run) list"

definition get_workflow :: "wf_store \<Rightarrow> string \<Rightarrow> wf_error + pydict option" where
  "get_workflow s workflow_id =
     py_bind (wf_id ''workflow_id'' workflow_id) (\<lambda>i.
     Inr (map_option (AList.update ''failure_policy'' (VStr ''continue'')) (map_of (ws_definitions s) i)))"

definition save_workflow :: "wf_config \<Rightarrow> string \<Rightarrow> wf_store \<Rightarrow> pyval \<Rightarrow> wf_error + wf_store \<times> pydict" where
  "save_workflow cfg now s payload =
     py_bind (validate_definition cfg payload) (\<lambda>d.
     py_bind (get_workflow s (wd_workflow_id d)) (\<lambda>existing.
     let created = str_of_or (vget (case existing of Some e \<Rightarrow> e | None \<Rightarrow> []) ''created_at'') now;
         r = definition_json d @ [(''created_at'', VStr created), (''updated_at'', VStr now)]
     in Inr (s\<lparr>ws_definitions := AList.update (wd_workflow_id d) r (ws_definitions s)\<rparr>, r)))"

text \<open>The files of a directory in the order of their names.\<close>

definition sorted_files :: "(string \<times> 'a) list \<Rightarrow> (string \<times> 'a) list" where
  "sorted_files files = sort_key (\<lambda>(k, _). k @ ''.json'') files"

definition list_workflows :: "wf_store \<Rightarrow> pydict list" where
  "list_workflows s =
     filter (\<lambda>r. vget r ''status'' \<noteq> VStr ''archived'')
       (map (\<lambda>(_, r). AList.update ''failure_policy'' (VStr ''continue'') r) (sorted_files (ws_definitions s)))"

definition runs_of :: "wf_store \<Rightarrow> string \<Rightarrow> (string \<times> wf_run) list" where
  "runs_of s workflow_id = filter (\<lambda>(_, r). wr_workflow_id r = workflow_id) (ws_runs s)"

definition list_runs :: "wf_store \<Rightarrow> string \<Rightarrow> int \<Rightarrow> wf_run list" where
  "list_runs s workflow_id limit =
     take (nat (max 1 (min limit 500)))
       (filter (\<lambda>r. workflow_id = [] \<or> wr_workflow_id r = workflow_id) (map snd (rev (sorted_files (ws_runs s)))))"

definition live_run :: "wf_run \<Rightarrow> bool" where
  "live_run r = (wr_status r \<in> {''queued'', ''running''})"

definition delete_workflow :: "wf_store \<Rightarrow> string \<Rightarrow> wf_error + wf_store \<times> nat" where
  "delete_workflow s workflow_id =
     py_bind (get_workflow s workflow_id) (\<lambda>current.
     py_bind (py_require (current \<noteq> None) Wf_not_found) (\<lambda>_.
     let runs = runs_of s workflow_id in
     py_bind (py_require (\<not> list_ex (live_run \<circ> snd) runs) Wf_active_runs) (\<lambda>_.
     Inr (s\<lparr>ws_definitions := AList.delete (strip workflow_id) (ws_definitions s),
            ws_runs := filter (\<lambda>(i, _). i \<notin> fst ` set runs) (ws_runs s)\<rparr>, length runs))))"

definition get_run :: "wf_store \<Rightarrow> string \<Rightarrow> wf_error + wf_run option" where
  "get_run s run_id = py_bind (wf_id ''run_id'' run_id) (\<lambda>i. Inr (map_of (ws_runs s) i))"

definition put_run :: "wf_run \<Rightarrow> wf_store \<Rightarrow> wf_store" where
  "put_run r s = s\<lparr>ws_runs := AList.update (wr_run_id r) (save_run (map_of (ws_runs s) (wr_run_id r)) r) (ws_runs s)\<rparr>"

text \<open>What \<open>cancel_run\<close> does with the record it has read.\<close>

definition cancel_write :: "wf_run \<Rightarrow> wf_store \<Rightarrow> wf_store" where
  "cancel_write r s = (if live_run r then put_run (r\<lparr>wr_cancel := True\<rparr>) s else s)"

definition cancel_run :: "wf_store \<Rightarrow> string \<Rightarrow> wf_error + wf_store" where
  "cancel_run s run_id =
     py_bind (get_run s run_id) (\<lambda>r. case r of None \<Rightarrow> Inl Wf_run_not_found | Some r \<Rightarrow> Inr (cancel_write r s))"

text \<open>What happens before the run starts, and the run, whose record on file stays when an exception aborts it.\<close>

definition prepare_run ::
  "wf_config \<Rightarrow> wf_store \<Rightarrow> string \<Rightarrow> pyval \<Rightarrow> string \<Rightarrow> string \<Rightarrow> wf_error + wf_definition \<times> pydict \<times> string" where
  "prepare_run cfg s workflow_id inputs requested fresh =
     py_bind (get_workflow s workflow_id) (\<lambda>current.
     py_bind (py_require (case current of Some r \<Rightarrow> vget r ''status'' = VStr ''active'' | None \<Rightarrow> False) Wf_inactive) (\<lambda>_.
     py_bind (validate_definition cfg (VDict (case current of Some r \<Rightarrow> r | None \<Rightarrow> []))) (\<lambda>d.
     py_bind (validate_workflow_inputs inputs) (\<lambda>inputs.
     py_bind (wf_id ''run_id'' (str_or requested (''wfrun_'' @ fresh))) (\<lambda>run_id.
     py_bind (py_require (requested = [] \<or> map_of (ws_runs s) run_id = None) Wf_run_exists) (\<lambda>_.
     Inr (d, inputs, run_id)))))))"

definition execute_workflow ::
  "wf_world \<Rightarrow> wf_config \<Rightarrow> wf_store \<Rightarrow> string \<Rightarrow> pyval \<Rightarrow> string \<Rightarrow> string \<Rightarrow> string \<Rightarrow> wf_store \<times> (wf_error + wf_run)" where
  "execute_workflow w cfg s workflow_id inputs job requested fresh =
     (case prepare_run cfg s workflow_id inputs requested fresh of
        Inl e \<Rightarrow> (s, Inl e)
      | Inr (d, inputs, run_id) \<Rightarrow>
          let st = execute_definition w d workflow_id inputs job run_id in
          (s\<lparr>ws_runs := AList.update run_id (rs_file st) (ws_runs s)\<rparr>,
           if rs_crashed st then Inl Wf_unreadable_result else Inr (rs_record st)))"

subsection \<open>Properties\<close>

lemma wf_id_stripped: "wf_id l i = Inr j \<Longrightarrow> j = strip i \<and> wf_id l' j = Inr j"
  by (auto simp: wf_id_Inr)

lemma get_workflow_Inr:
  "get_workflow s i = Inr c \<longleftrightarrow> (\<exists>j. wf_id ''workflow_id'' i = Inr j \<and>
     c = map_option (AList.update ''failure_policy'' (VStr ''continue'')) (map_of (ws_definitions s) j))"
  by (auto simp: get_workflow_def py_bind_Inr)

lemma delete_workflow_Inr:
  "delete_workflow s i = Inr (s', n) \<longleftrightarrow>
     wf_id ''workflow_id'' i = Inr (strip i) \<and> map_of (ws_definitions s) (strip i) \<noteq> None \<and>
     (\<forall>(_, r) \<in> set (runs_of s i). \<not> live_run r) \<and> n = length (runs_of s i) \<and>
     s' = s\<lparr>ws_definitions := AList.delete (strip i) (ws_definitions s),
            ws_runs := filter (\<lambda>(j, _). j \<notin> fst ` set (runs_of s i)) (ws_runs s)\<rparr>"
  by (auto simp: delete_workflow_def py_bind_Inr py_require_Inr get_workflow_Inr list_ex_iff wf_id_Inr Let_def)

lemma runs_of_left:
  assumes "distinct (map fst (ws_runs s))"
  shows "filter (\<lambda>(j, _). j \<notin> fst ` set (runs_of s i)) (ws_runs s) = filter (\<lambda>(_, r). wr_workflow_id r \<noteq> i) (ws_runs s)"
proof (rule filter_cong [OF refl])
  fix x assume x: "x \<in> set (ws_runs s)"
  obtain j r where jr: "x = (j, r)" by fastforce
  have "j \<in> fst ` set (runs_of s i) \<longleftrightarrow> wr_workflow_id r = i"
  proof
    assume "j \<in> fst ` set (runs_of s i)"
    then obtain r' where "(j, r') \<in> set (ws_runs s)" "wr_workflow_id r' = i" by (auto simp: runs_of_def)
    with x jr assms show "wr_workflow_id r = i" by (metis eq_key_imp_eq_value)
  next
    assume "wr_workflow_id r = i"
    with x jr have "(j, r) \<in> set (runs_of s i)" by (simp add: runs_of_def)
    then show "j \<in> fst ` set (runs_of s i)" by force
  qed
  then show "(case x of (j, _) \<Rightarrow> j \<notin> fst ` set (runs_of s i)) = (case x of (_, r) \<Rightarrow> wr_workflow_id r \<noteq> i)" by (simp add: jr)
qed

text \<open>A workflow is deleted exactly when it exists and none of the runs recorded under its identifier is queued or running; the
  deletion removes its definition and those runs, counts them, and touches no other definition or run.\<close>

theorem workflow_deletion_guarded:
  assumes "wf_id ''workflow_id'' i = Inr i" "distinct (map fst (ws_runs s))"
  shows "(case delete_workflow s i of
      Inr (s', n) \<Rightarrow> map_of (ws_definitions s) i \<noteq> None \<and> (\<forall>(_, r) \<in> set (ws_runs s). wr_workflow_id r = i \<longrightarrow> \<not> live_run r) \<and>
        map_of (ws_definitions s') = (map_of (ws_definitions s))(i := None) \<and>
        ws_runs s' = filter (\<lambda>(_, r). wr_workflow_id r \<noteq> i) (ws_runs s) \<and> n + length (ws_runs s') = length (ws_runs s)
    | Inl e \<Rightarrow> e = Wf_not_found \<and> map_of (ws_definitions s) i = None \<or>
        e = Wf_active_runs \<and> (\<exists>(_, r) \<in> set (ws_runs s). wr_workflow_id r = i \<and> live_run r))"
proof (cases "delete_workflow s i")
  case (Inl e)
  then show ?thesis
    using assms(1)
    by (auto simp: delete_workflow_def get_workflow_def py_bind_Inl py_require_def runs_of_def list_ex_iff Let_def split: if_splits)
next
  case (Inr r)
  obtain s' n where r: "r = (s', n)" by fastforce
  have i: "strip i = i" using assms(1) by (simp add: wf_id_Inr)
  note D = Inr [unfolded r delete_workflow_Inr runs_of_left [OF assms(2)] i]
  have "length (filter (\<lambda>(_, r). wr_workflow_id r = i) xs) + length (filter (\<lambda>(_, r). wr_workflow_id r \<noteq> i) xs) = length xs"
    for xs :: "(string \<times> wf_run) list"
    by (induction xs) auto
  with D show ?thesis unfolding Inr r by (auto simp: runs_of_def delete_conv' fun_eq_iff)
qed

definition demo_record :: "string \<Rightarrow> wf_run" where
  "demo_record status = \<lparr>wr_run_id = ''r1'', wr_workflow_id = ''flow'', wr_version = 1, wr_job_id = [], wr_status = status,
     wr_inputs = [], wr_nodes = [], wr_cancel = False\<rparr>"

definition demo_store :: "string \<Rightarrow> wf_store" where
  "demo_store status = \<lparr>ws_definitions = [(''flow'', definition_json demo_definition)], ws_runs = [(''r1'', demo_record status)]\<rparr>"

lemma flow_id: "wf_id ''workflow_id'' ''flow'' = Inr ''flow''" "wf_id ''workflow_id'' '' flow'' = Inr ''flow''"
  by code_simp+

theorem workflow_deletion_guarded_witness:
  "delete_workflow (demo_store ''running'') ''flow'' = Inl Wf_active_runs \<and>
   delete_workflow (demo_store ''failed'') ''flow'' = Inr (\<lparr>ws_definitions = [], ws_runs = []\<rparr>, 1)"
proof -
  have "distinct (map fst (ws_runs (demo_store x)))" for x by (simp add: demo_store_def)
  note D = workflow_deletion_guarded [OF flow_id(1) this]
  have "delete_workflow (demo_store ''running'') ''flow'' = Inl Wf_active_runs"
    using D [of "''running''"] by (auto simp: demo_store_def demo_record_def live_run_def split: sum.splits)
  moreover have "delete_workflow (demo_store ''failed'') ''flow'' = Inr (\<lparr>ws_definitions = [], ws_runs = []\<rparr>, 1)"
    by (simp add: delete_workflow_Inr flow_id strip_unpadded py_space_def)
      (simp add: demo_store_def demo_record_def live_run_def runs_of_def)
  ultimately show ?thesis by blast
qed

text \<open>The identifier is stripped to find the definition, but not to find the runs: with a blank before it, a workflow is deleted
  while it runs, and its run records stay.\<close>

theorem padded_identifier_escapes_guard:
  assumes "wf_id ''workflow_id'' i = Inr i" "map_of (ws_definitions s) i \<noteq> None"
    and "(j, r) \<in> set (ws_runs s)" "wr_workflow_id r = i" "live_run r"
    and "\<forall>(_, r) \<in> set (ws_runs s). wr_workflow_id r \<noteq> CHR '' '' # i"
  shows "delete_workflow s i = Inl Wf_active_runs \<and>
    (\<exists>s'. delete_workflow s (CHR '' '' # i) = Inr (s', 0) \<and> map_of (ws_definitions s') i = None \<and> ws_runs s' = ws_runs s)"
proof -
  have "strip (CHR '' '' # i) = strip i" by (simp add: strip_def py_space_def)
  then have pad: "strip (CHR '' '' # i) = i" "wf_id ''workflow_id'' (CHR '' '' # i) = Inr i"
    using assms(1) by (simp_all add: wf_id_Inr)
  have none: "runs_of s (CHR '' '' # i) = []" using assms(6) by (auto simp: runs_of_def filter_empty_conv)
  have "list_ex (live_run \<circ> snd) (runs_of s i)" using assms(3,4,5) by (auto simp: list_ex_iff runs_of_def)
  then have "delete_workflow s i = Inl Wf_active_runs"
    using assms(1,2) by (simp add: delete_workflow_def get_workflow_def Let_def)
  moreover have "delete_workflow s (CHR '' '' # i) = Inr (s\<lparr>ws_definitions := AList.delete i (ws_definitions s)\<rparr>, 0)"
    unfolding delete_workflow_Inr pad none using assms(2) pad by simp
  ultimately show ?thesis by (simp add: delete_conv')
qed

theorem padded_identifier_escapes_guard_witness:
  "delete_workflow (demo_store ''running'') ''flow'' = Inl Wf_active_runs \<and>
   (\<exists>s'. delete_workflow (demo_store ''running'') '' flow'' = Inr (s', 0) \<and> ws_runs s' = ws_runs (demo_store ''running''))"
  using padded_identifier_escapes_guard [OF flow_id(1), of "demo_store ''running''" "''r1''" "demo_record ''running''"]
  by (simp add: demo_store_def demo_record_def live_run_def) blast

text \<open>C38: \<open>cancel_run\<close> reads a run without its lock. When the run ends between the read and the write, the snapshot replaces the
  finished record: the run is shown as running for good, and the workflow can no longer be deleted.\<close>

theorem late_cancel_revives_run:
  assumes "map_of (ws_runs s) (wr_run_id snapshot) = Some finished" "wr_status snapshot = ''running''"
    and "wf_id ''workflow_id'' (wr_workflow_id snapshot) = Inr (wr_workflow_id snapshot)"
    and "map_of (ws_definitions s) (wr_workflow_id snapshot) \<noteq> None"
  shows "\<exists>r. map_of (ws_runs (cancel_write snapshot s)) (wr_run_id snapshot) = Some r \<and> wr_status r = ''running'' \<and>
    wr_nodes r = wr_nodes snapshot \<and> wr_cancel r \<and>
    delete_workflow (cancel_write snapshot s) (wr_workflow_id snapshot) = Inl Wf_active_runs"
proof -
  let ?r = "snapshot\<lparr>wr_cancel := True\<rparr>"
  let ?s = "s\<lparr>ws_runs := AList.update (wr_run_id snapshot) ?r (ws_runs s)\<rparr>"
  have eq: "cancel_write snapshot s = ?s"
    using assms(1,2) by (simp add: cancel_write_def live_run_def put_run_def save_run_def)
  have "map_of (ws_runs ?s) (wr_run_id snapshot) = Some ?r" by (simp add: map_of_update_iff)
  then have mem: "(wr_run_id snapshot, ?r) \<in> set (ws_runs ?s)" by (rule map_of_SomeD)
  then have "(wr_run_id snapshot, ?r) \<in> set (runs_of ?s (wr_workflow_id snapshot))" by (simp add: runs_of_def)
  then have "list_ex (live_run \<circ> snd) (runs_of ?s (wr_workflow_id snapshot))"
    using assms(2) unfolding list_ex_iff by (intro bexI) (simp_all add: live_run_def)
  then have "delete_workflow ?s (wr_workflow_id snapshot) = Inl Wf_active_runs"
    using assms(3,4) by (simp add: delete_workflow_def get_workflow_def Let_def)
  with assms(2) show ?thesis unfolding eq by (simp add: map_of_update_iff)
qed

theorem late_cancel_revives_run_witness:
  "delete_workflow (cancel_write (demo_record ''running'') (demo_store ''succeeded'')) ''flow'' = Inl Wf_active_runs"
proof -
  have "map_of (ws_runs (demo_store ''succeeded'')) (wr_run_id (demo_record ''running'')) = Some (demo_record ''succeeded'')"
    "wr_status (demo_record ''running'') = ''running''" "wr_workflow_id (demo_record ''running'') = ''flow''"
    "map_of (ws_definitions (demo_store ''succeeded'')) ''flow'' \<noteq> None"
    by (simp_all add: demo_store_def demo_record_def)
  with late_cancel_revives_run [OF this(1,2)] flow_id(1) show ?thesis by simp blast
qed

lemma accepted_workflow_id:
  assumes "validate_definition cfg payload = Inr d"
  shows "wf_id ''workflow_id'' (wd_workflow_id d) = Inr (wd_workflow_id d)"
  using assms by (cases payload) (auto simp: validate_definition_Inr accepted_fields_def dest: wf_id_stripped, simp_all add: validate_definition_def)

text \<open>Validation reads eight keys.\<close>

lemma validate_definition_cong:
  assumes "\<forall>k \<in> set [''workflow_id'', ''name'', ''nodes'', ''failure_policy'', ''version'', ''status'', ''description'', ''template_id''].
    vget p k = vget q k"
  shows "validate_definition cfg (VDict p) = validate_definition cfg (VDict q)"
  using assms by (simp add: validate_definition_def str_field_def)

lemma vget_append: "map_of a k \<noteq> None \<or> map_of b k = None \<Longrightarrow> vget (a @ b) k = vget a k"
  by (auto simp: vget_def vget_or_def map_add_def split: option.split)

text \<open>A workflow that was saved as active can be run: whatever inputs pass their own check, the run gets past every check with the
  definition as it was saved (but for a trailing blank of a cut name).\<close>

theorem saved_workflow_starts:
  assumes "save_workflow cfg now s payload = Inr (s', r)" "validate_definition cfg payload = Inr d" "wd_status d = ''active''"
    and "validate_workflow_inputs inputs = Inr ins" "wf_id ''run_id'' (''wfrun_'' @ fresh) = Inr run_id"
  shows "prepare_run cfg s' (wd_workflow_id d) inputs [] fresh = Inr (d\<lparr>wd_name := strip (wd_name d)\<rparr>, ins, run_id)"
proof -
  let ?i = "wd_workflow_id d"
  from assms(2) have i: "wf_id ''workflow_id'' ?i = Inr ?i" by (rule accepted_workflow_id)
  from assms(1,2) obtain created where r: "r = definition_json d @ [(''created_at'', VStr created), (''updated_at'', VStr now)]"
    and s': "ws_definitions s' = AList.update ?i r (ws_definitions s)"
    by (auto simp: save_workflow_def py_bind_Inr get_workflow_Inr Let_def i)
  let ?r = "AList.update ''failure_policy'' (VStr ''continue'') r"
  from i s' have get: "get_workflow s' ?i = Inr (Some ?r)" by (simp add: get_workflow_def map_of_update_iff)
  from accepted_policy [OF assms(2)] have policy: "vget (definition_json d) ''failure_policy'' = VStr ''continue''"
    by (simp add: definition_json_def vget_def vget_or_def)
  have same: "vget ?r k = vget (definition_json d) k" if "k \<notin> {''created_at'', ''updated_at''}" for k
  proof (cases "k = ''failure_policy''")
    case False
    then show ?thesis using that by (simp add: r vget_append)
  qed (simp add: policy)
  have "validate_definition cfg (VDict ?r) = validate_definition cfg (VDict (definition_json d))"
    by (intro validate_definition_cong ballI same) auto
  with definition_json_valid [OF assms(2)]
  have "validate_definition cfg (VDict ?r) = Inr (d\<lparr>wd_name := strip (wd_name d)\<rparr>)" by simp
  moreover have "vget ?r ''status'' = VStr ''active''"
    using assms(3) same [of "''status''"] by simp (simp add: definition_json_def vget_def vget_or_def)
  ultimately show ?thesis using assms(4,5) by (simp add: prepare_run_def get)
qed

theorem saved_workflow_starts_witness:
  "\<exists>s' r. save_workflow demo_config ''now'' \<lparr>ws_definitions = [], ws_runs = []\<rparr> demo_payload = Inr (s', r) \<and>
     prepare_run demo_config s' ''flow'' VNone [] ''1'' = Inr (demo_definition, [], ''wfrun_1'')"
proof -
  obtain s' r where save: "save_workflow demo_config ''now'' \<lparr>ws_definitions = [], ws_runs = []\<rparr> demo_payload = Inr (s', r)"
    using flow_id(1) by (simp add: save_workflow_def demo_accepted get_workflow_def Let_def) (simp add: demo_definition_def)
  have d: "wd_status demo_definition = ''active''" "wd_workflow_id demo_definition = ''flow''"
    "demo_definition\<lparr>wd_name := strip (wd_name demo_definition)\<rparr> = demo_definition" by code_simp+
  have "validate_workflow_inputs VNone = Inr []" "wf_id ''run_id'' (''wfrun_'' @ ''1'') = Inr ''wfrun_1''" by code_simp+
  from saved_workflow_starts [OF save demo_accepted d(1) this] save show ?thesis by (auto simp: d)
qed

end
