(* ===== verification/Subagent_Store.thy ===== *)
theory Subagent_Store
  imports Py_Value
begin

section \<open>The store of delegated tasks\<close>

text \<open>
  \<^verbatim>\<open>storage/subagent_store.py\<close> and the record \<open>SubagentTask\<close> of \<^verbatim>\<open>agent/runtime/durable/subagent.py\<close>: the tasks of one
  workspace, an association list from identifiers (file names) to records. \<open>save_subagent\<close> and \<open>record_subagent_activity\<close> hold the lock
  of a task from their read to their write, so each is one step. \<open>wait_subagent_observations\<close> is a loop over polls; a poll is
  what the clock, the cancellation check, the condition variable and the files say when the loop comes round. The fields
  \<open>allowed_tools\<close> (always empty) and \<open>coding\<close> (assignments of the coding team) are left out.
\<close>

record sub_task =
  sk_id :: string
  sk_parent :: string
  sk_workspace :: string
  sk_session :: string
  sk_operation :: string
  sk_operation_call :: string
  sk_profile :: string
  sk_goal :: string
  sk_context_refs :: "pyval list"
  sk_workbench :: pydict
  sk_status :: string
  sk_budget :: pydict
  sk_created :: string
  sk_started :: string
  sk_finished :: string
  sk_errors :: "string list"
  sk_warnings :: "string list"
  sk_summary :: string
  sk_artifact :: string
  sk_total_chars :: int
  sk_observations :: pydict
  sk_revision :: int

type_synonym sub_tasks = "(string \<times> sub_task) list"

definition sub_terminal :: "string list" where
  "sub_terminal = [''succeeded'', ''failed'', ''cancelled'']"

definition settled :: "sub_task \<Rightarrow> bool" where
  "settled t = (sk_status t \<in> set sub_terminal)"

subsection \<open>Saving\<close>

text \<open>The fields that must not change, and those that a terminal record keeps.\<close>

definition sub_identity :: "sub_task \<Rightarrow> string \<times> string \<times> string \<times> string \<times> string" where
  "sub_identity t = (sk_id t, sk_workspace t, sk_parent t, sk_session t, sk_profile t)"

definition keep_terminal :: "sub_task \<Rightarrow> sub_task \<Rightarrow> sub_task" where
  "keep_terminal p t =
     t\<lparr>sk_status := sk_status p, sk_summary := sk_summary p, sk_finished := sk_finished p, sk_errors := sk_errors p,
       sk_warnings := sk_warnings p, sk_artifact := sk_artifact p, sk_total_chars := sk_total_chars p\<rparr>"

definition merge_observations :: "pydict \<Rightarrow> pydict \<Rightarrow> pydict" where
  "merge_observations previous new =
     (let merged = merge_dict previous new in
      case map_of previous ''activity'' of Some a \<Rightarrow> AList.update ''activity'' a merged | None \<Rightarrow> merged)"

definition next_record :: "sub_task option \<Rightarrow> sub_task \<Rightarrow> sub_task py" where
  "next_record previous t =
     (case previous of
        None \<Rightarrow> Inr (t\<lparr>sk_revision := 0\<rparr>)
      | Some p \<Rightarrow>
          let t = t\<lparr>sk_observations := merge_observations (sk_observations p) (sk_observations t)\<rparr> in
          py_bind (py_require (sub_identity p = sub_identity t) (ValueError ''subagent_identity_is_immutable'')) (\<lambda>_.
          Inr ((if settled p then keep_terminal p t else t)\<lparr>sk_revision := sk_revision p\<rparr>)))"

definition save_subagent :: "string \<Rightarrow> sub_task \<Rightarrow> sub_tasks \<Rightarrow> (sub_tasks \<times> sub_task) py" where
  "save_subagent i t tasks =
     py_bind (next_record (map_of tasks i) t) (\<lambda>r.
     if map_of tasks i = Some r then Inr (tasks, r)
     else let r = r\<lparr>sk_revision := sk_revision r + 1\<rparr> in Inr (AList.update i r tasks, r))"

subsection \<open>Activity\<close>

definition count_up :: "bool \<Rightarrow> string \<Rightarrow> pydict \<Rightarrow> pydict py" where
  "count_up counted k activity =
     (if counted then
        case py_int (vget_or activity k (VInt 0)) of
          Some n \<Rightarrow> Inr (AList.update k (VInt (n + 1)) activity)
        | None \<Rightarrow> Inl (TypeError ''int() argument'')
      else Inr activity)"

definition next_activity :: "string \<Rightarrow> string \<Rightarrow> string \<Rightarrow> string \<Rightarrow> pydict \<Rightarrow> pydict py" where
  "next_activity now event tool action activity =
     py_bind (count_up (event = ''model_completed'') ''model_responses''
                (merge_dict activity [(''event'', VStr event), (''tool'', VStr tool), (''action'', VStr action), (''updated_at'', VStr now)]))
       (count_up (event = ''tool_result'') ''tool_results'')"

definition record_subagent_activity ::
  "string \<Rightarrow> string \<Rightarrow> string \<Rightarrow> string \<Rightarrow> string \<Rightarrow> sub_tasks \<Rightarrow> sub_tasks py" where
  "record_subagent_activity now i event tool action tasks =
     (case map_of tasks i of
        None \<Rightarrow> Inr tasks
      | Some t \<Rightarrow>
          if settled t then Inr tasks
          else py_bind (next_activity now event tool action (dict_of (vget (sk_observations t) ''activity''))) (\<lambda>activity.
            Inr (AList.update i
              (t\<lparr>sk_observations := AList.update ''activity'' (VDict activity) (sk_observations t),
                 sk_revision := sk_revision t + 1\<rparr>) tasks)))"

subsection \<open>Waiting\<close>

text \<open>Times are in milliseconds. \<open>wp_notified\<close> is what \<open>condition.wait\<close> returned before the poll, \<open>wp_check\<close>, \<open>wp_read\<close> and
  \<open>wp_done\<close> the three readings of the clock in the order of the code, \<open>wp_tasks\<close> the files.\<close>

record wait_poll =
  wp_notified :: bool
  wp_check :: int
  wp_read :: int
  wp_done :: int
  wp_cancel :: bool
  wp_tasks :: sub_tasks

record wait_request =
  wq_ids :: "string list"
  wq_after :: "(string \<times> int) list"
  wq_all :: bool
  wq_change :: bool
  wq_deadline :: int

record wait_result =
  wo_records :: "sub_task list"
  wo_changed :: "string list"
  wo_timed_out :: bool
  wo_cancelled :: bool

definition observable :: "wait_request \<Rightarrow> sub_task \<Rightarrow> bool" where
  "observable q t = (settled t \<or> wq_change q \<and>
     sk_revision t > (case map_of (wq_after q) (sk_id t) of Some n \<Rightarrow> n | None \<Rightarrow> - 1))"

definition wait_satisfied :: "wait_request \<Rightarrow> sub_task list \<Rightarrow> bool" where
  "wait_satisfied q rs = (if wq_all q then list_all (observable q) rs else list_ex (observable q) rs)"

definition read_all :: "wait_request \<Rightarrow> wait_poll \<Rightarrow> sub_task option list" where
  "read_all q p = map (map_of (wp_tasks p)) (wq_ids q)"

definition decide_wait :: "wait_request \<Rightarrow> wait_poll \<Rightarrow> sub_task list \<Rightarrow> wait_result option" where
  "decide_wait q p rs =
     (let satisfied = wait_satisfied q rs; timed_out = wp_done p \<ge> wq_deadline q in
      if satisfied \<or> wp_cancel p \<or> timed_out
      then Some \<lparr>wo_records = rs, wo_changed = map sk_id (filter (observable q) rs),
                 wo_timed_out = (timed_out \<and> \<not> satisfied), wo_cancelled = wp_cancel p\<rparr>
      else None)"

text \<open>The loop with the records it holds and the time of the next refresh; \<open>None\<close> when the polls run out.\<close>

fun wait_loop :: "wait_request \<Rightarrow> int \<Rightarrow> sub_task option list \<Rightarrow> wait_poll list \<Rightarrow> wait_result py option" where
  "wait_loop q refresh records [] = None"
| "wait_loop q refresh records (p # ps) =
     (let fresh = (wp_notified p \<or> wp_check p \<ge> min refresh (wq_deadline q));
          records = (if fresh then read_all q p else records);
          refresh = (if fresh then wp_read p + 1000 else refresh) in
      case those records of
        None \<Rightarrow> Some (Inl (ValueError ''subtask not found''))
      | Some rs \<Rightarrow>
          (case decide_wait q p rs of Some r \<Rightarrow> Some (Inr r) | None \<Rightarrow> wait_loop q refresh records ps))"

definition wait_subagent_observations :: "wait_request \<Rightarrow> wait_poll list \<Rightarrow> wait_result py option" where
  "wait_subagent_observations q polls =
     (case polls of [] \<Rightarrow> None | p # ps \<Rightarrow> wait_loop q 0 [] (p\<lparr>wp_notified := True\<rparr> # ps))"

subsection \<open>How a record may change\<close>

text \<open>What a terminal record keeps, and the order of the statuses.\<close>

definition sub_outcome :: "sub_task \<Rightarrow> string \<times> string \<times> string \<times> string list \<times> string list \<times> string \<times> int" where
  "sub_outcome t = (sk_status t, sk_summary t, sk_finished t, sk_errors t, sk_warnings t, sk_artifact t, sk_total_chars t)"

definition sub_rank :: "string \<Rightarrow> nat" where
  "sub_rank s = (if s = ''created'' then 0 else if s \<in> set sub_terminal then 2 else 1)"

definition follows :: "sub_task \<Rightarrow> sub_task \<Rightarrow> bool" where
  "follows p r =
     ((r = p \<or> sk_revision r > sk_revision p) \<and> sub_identity r = sub_identity p \<and> sub_rank (sk_status p) \<le> sub_rank (sk_status r) \<and>
      (settled p \<longrightarrow> sub_outcome r = sub_outcome p))"

lemma follows_refl [simp]: "follows p p"
  by (simp add: follows_def)

lemma settled_outcome: "sub_outcome r = sub_outcome p \<Longrightarrow> settled r = settled p"
  by (simp add: sub_outcome_def settled_def)

lemma follows_trans: "follows p r \<Longrightarrow> follows r s \<Longrightarrow> follows p s"
  using settled_outcome [of r p] by (fastforce simp: follows_def)

lemma next_record_Inr:
  "next_record (Some p) t = Inr r \<longleftrightarrow>
     sub_identity p = sub_identity t \<and>
     r = (if settled p then keep_terminal p t else t)
           \<lparr>sk_observations := merge_observations (sk_observations p) (sk_observations t), sk_revision := sk_revision p\<rparr>"
  by (auto simp: next_record_def py_bind_Inr py_require_Inr sub_identity_def keep_terminal_def)

lemma next_record_follows:
  assumes "next_record (Some p) t = Inr r" "sk_status t \<noteq> ''created''"
  shows "sub_identity r = sub_identity p \<and> sk_revision r = sk_revision p \<and> sub_rank (sk_status p) \<le> sub_rank (sk_status r) \<and>
    (settled p \<longrightarrow> sub_outcome r = sub_outcome p) \<and> (\<not> settled p \<longrightarrow> sub_outcome r = sub_outcome t)"
proof (cases "settled p")
  case True
  with assms(1) show ?thesis by (simp add: next_record_Inr keep_terminal_def sub_identity_def sub_outcome_def)
next
  case False
  then have "sub_rank (sk_status p) \<le> 1" by (simp add: sub_rank_def settled_def)
  moreover from assms(2) have "1 \<le> sub_rank (sk_status t)" by (simp add: sub_rank_def)
  ultimately show ?thesis using False assms(1) by (simp add: next_record_Inr sub_identity_def sub_outcome_def)
qed

text \<open>A save stores the record it returns and touches no other.\<close>

lemma save_subagent_at:
  assumes "save_subagent i t tasks = Inr (tasks', r)"
  shows "map_of tasks' = (map_of tasks)(i \<mapsto> r)"
proof (cases "next_record (map_of tasks i) t")
  case (Inr q)
  show ?thesis
  proof (cases "map_of tasks i = Some q")
    case True
    with assms Inr have "tasks' = tasks" "r = q" by (simp_all add: save_subagent_def)
    with True show ?thesis by (simp add: map_upd_triv)
  next
    case False
    with assms Inr have "tasks' = AList.update i r tasks" by (simp add: save_subagent_def Let_def) blast
    then show ?thesis by (simp add: update_conv')
  qed
qed (use assms in \<open>simp add: save_subagent_def\<close>)

lemma save_subagent_follows:
  assumes "save_subagent i t tasks = Inr (tasks', r)" "map_of tasks i = Some p" "sk_status t \<noteq> ''created''"
  shows "follows p r" "settled p \<Longrightarrow> sub_outcome r = sub_outcome p" "\<not> settled p \<Longrightarrow> sub_outcome r = sub_outcome t"
proof -
  from assms(1,2) obtain q where q: "next_record (Some p) t = Inr q" and
    r: "q = p \<and> r = p \<or> r = q\<lparr>sk_revision := sk_revision q + 1\<rparr>"
    by (cases "next_record (Some p) t") (simp_all add: save_subagent_def Let_def split: if_splits)
  note N = next_record_follows [OF q assms(3)]
  have same: "sub_identity (q\<lparr>sk_revision := n\<rparr>) = sub_identity q" "sub_outcome (q\<lparr>sk_revision := n\<rparr>) = sub_outcome q" for n
    by (simp_all add: sub_identity_def sub_outcome_def)
  show "follows p r"
  proof (cases "q = p \<and> r = p")
    case False
    with r have "r = q\<lparr>sk_revision := sk_revision q + 1\<rparr>" by blast
    with N same show ?thesis by (simp add: follows_def)
  qed simp
  from r have "sub_outcome r = sub_outcome q" using same by blast
  with N show "settled p \<Longrightarrow> sub_outcome r = sub_outcome p" "\<not> settled p \<Longrightarrow> sub_outcome r = sub_outcome t" by simp_all
qed

lemma save_subagent_new:
  assumes "save_subagent i t tasks = Inr (tasks', r)" "map_of tasks i = None"
  shows "r = t\<lparr>sk_revision := 1\<rparr>"
  using assms by (simp add: save_subagent_def next_record_def Let_def)

lemma next_record_identity: "next_record previous t = Inr r \<Longrightarrow> sub_identity r = sub_identity t"
proof (cases previous)
  case None
  moreover assume "next_record previous t = Inr r"
  ultimately have "t\<lparr>sk_revision := 0\<rparr> = r" by (simp add: next_record_def)
  then show ?thesis by (auto simp: sub_identity_def)
next
  case (Some p)
  moreover assume "next_record previous t = Inr r"
  ultimately show ?thesis by (simp add: next_record_Inr sub_identity_def keep_terminal_def)
qed

lemma save_subagent_identity:
  assumes "save_subagent i t tasks = Inr (tasks', r)"
  shows "sub_identity r = sub_identity t"
proof (cases "next_record (map_of tasks i) t")
  case (Inr q)
  with assms have "r = q \<or> r = q\<lparr>sk_revision := sk_revision q + 1\<rparr>"
    by (simp add: save_subagent_def Let_def split: if_splits)
  with next_record_identity [OF Inr] show ?thesis by (auto simp: sub_identity_def)
qed (use assms in \<open>simp add: save_subagent_def\<close>)

text \<open>A copy of a record that was read earlier can always be saved.\<close>

lemma save_subagent_total:
  "map_of tasks i = Some p \<Longrightarrow> sub_identity p = sub_identity t \<Longrightarrow> \<exists>tasks' r. save_subagent i t tasks = Inr (tasks', r)"
  by (simp add: save_subagent_def next_record_def py_bind_def py_require_def Let_def sub_identity_def)

lemma activity_follows:
  assumes "record_subagent_activity now i event tool action tasks = Inr tasks'" "map_of tasks j = Some p"
  shows "\<exists>r. map_of tasks' j = Some r \<and> follows p r"
  using assms
  by (auto simp: record_subagent_activity_def py_bind_Inr map_of_update_iff follows_def sub_identity_def settled_def
      split: option.splits if_splits)

subsection \<open>Waiting ends\<close>

lemma those_Some: "those xs = Some ys \<longleftrightarrow> xs = map Some ys"
  by (induction xs arbitrary: ys) (auto split: option.splits)

lemma those_None: "those xs = None \<longleftrightarrow> None \<in> set xs"
  by (induction xs) (auto split: option.splits)

text \<open>Where the records come from that decide: the poll itself, or one read before within the refresh interval.\<close>

definition decided :: "wait_request \<Rightarrow> wait_poll \<Rightarrow> wait_poll \<Rightarrow> wait_result py \<Rightarrow> bool" where
  "decided q p0 p res =
     ((p0 = p \<or> wp_check p < wp_read p0 + 1000) \<and>
      (case those (read_all q p0) of
         None \<Rightarrow> res = Inl (ValueError ''subtask not found'')
       | Some rs \<Rightarrow> \<exists>r. decide_wait q p rs = Some r \<and> res = Inr r))"

lemma wait_loop_decided:
  assumes "wait_loop q refresh records polls = Some res"
    and "records = read_all q p0 \<and> refresh = wp_read p0 + 1000 \<or> wp_notified (hd polls)"
  shows "\<exists>p1 \<in> insert p0 (set polls). \<exists>p \<in> set polls. decided q p1 p res"
  using assms
proof (induction polls arbitrary: refresh records p0)
  case (Cons p ps)
  define fresh where "fresh = (wp_notified p \<or> wp_check p \<ge> min refresh (wq_deadline q))"
  define p1 where "p1 = (if fresh then p else p0)"
  from Cons.prems(2) have held: "(if fresh then read_all q p else records) = read_all q p1"
    "(if fresh then wp_read p + 1000 else refresh) = wp_read p1 + 1000" "p1 = p \<or> wp_check p < wp_read p1 + 1000"
    by (auto simp: fresh_def p1_def)
  from Cons.prems(1) have eq: "(case those (read_all q p1) of None \<Rightarrow> Some (Inl (ValueError ''subtask not found''))
      | Some rs \<Rightarrow> (case decide_wait q p rs of Some r \<Rightarrow> Some (Inr r)
          | None \<Rightarrow> wait_loop q (wp_read p1 + 1000) (read_all q p1) ps)) = Some res"
    by (simp only: wait_loop.simps Let_def fresh_def [symmetric] held)
  have p1: "p1 \<in> insert p0 (set (p # ps))" by (simp add: p1_def)
  show ?case
  proof (cases "\<exists>rs. those (read_all q p1) = Some rs \<and> decide_wait q p rs = None")
    case True
    with eq have "wait_loop q (wp_read p1 + 1000) (read_all q p1) ps = Some res" by auto
    from Cons.IH [OF this, of p1] obtain a b where "a \<in> insert p1 (set ps)" "b \<in> set ps" "decided q a b res" by auto
    with p1 show ?thesis by auto
  next
    case False
    with eq held(3) have "decided q p1 p res" by (auto simp: decided_def split: option.splits)
    with p1 show ?thesis by auto
  qed
qed simp

lemma wait_loop_returns: "\<exists>p \<in> set polls. wp_done p \<ge> wq_deadline q \<Longrightarrow> \<exists>res. wait_loop q refresh records polls = Some res"
  by (induction polls arbitrary: refresh records) (auto simp: Let_def decide_wait_def split: option.split)



end
