(* ===== verification/Subagents.thy ===== *)
theory Subagents
  imports Subagent_Store Lifecycle
begin

section \<open>Delegated tasks\<close>

text \<open>
  \<^verbatim>\<open>agent/runtime/durable/subagent.py\<close> and \<^verbatim>\<open>subagent_control.py\<close>, for the tasks of the three domain-neutral profiles in one workspace:
  a task is created, started once in a worker, run, cancelled, interrupted by a restart, merged into its parent. The state holds
  the records, and what only this process knows: the cancellation events, the registered workers, and the copies of records
  its threads hold between a read and the save that follows (\<open>sub_pending\<close>). A function that reads and saves without the lock
  of the task is two functions here, and \<open>sub_step\<close> interleaves them freely. What the model run reports is a \<open>turn_report\<close>; assignments
  of the coding team, the resolution of workbench contexts, the status board and logs are left out.
\<close>

subsection \<open>Profiles, results, state\<close>

definition profile_name :: "string \<Rightarrow> string option" where
  "profile_name i = map_of [(''research_agent'', ''Research Agent''), (''file_agent'', ''File Agent''), (''data_agent'', ''Data Agent'')] i"

record sub_result =
  rt_status :: string
  rt_summary :: string
  rt_findings :: "string list"
  rt_artifacts :: "string list"
  rt_tools :: "(string \<times> bool \<times> string) list"
  rt_errors :: "string list"
  rt_warnings :: "string list"

record sub_payload =
  sp_ok :: bool
  sp_id :: string
  sp_status :: string
  sp_summary :: string
  sp_findings :: "string list"
  sp_tools :: "(string \<times> bool \<times> string) list"
  sp_errors :: "string list"
  sp_warnings :: "string list"

text \<open>The dictionaries the functions answer with.\<close>

datatype sub_reply =
    Sub_error string
  | Sub_refused string string
  | Sub_created string string
  | Sub_status string string
  | Sub_payload sub_payload
  | Sub_merged string string

datatype sub_pending =
    Run_loaded sub_task
  | Run_active sub_task
  | Run_done sub_task sub_result
  | Cancel_loaded sub_task
  | Restart_loaded sub_task

text \<open>\<open>sb_spawned\<close> and \<open>sb_turns\<close> record the workers started and the model turns begun; \<open>sb_waiting\<close> are workers that have not entered
  \<open>run_subagent_task\<close> yet, \<open>sb_candidates\<close> the memory candidates handed to the write gate.\<close>

record sub_state =
  sb_tasks :: sub_tasks
  sb_signals :: "string list"
  sb_alive :: "string list"
  sb_waiting :: "string list"
  sb_pending :: "sub_pending list"
  sb_spawned :: "string list"
  sb_turns :: "string list"
  sb_events :: "(string \<times> string \<times> string) list"
  sb_candidates :: "(string \<times> string \<times> string) list"

text \<open>\<open>se_clean\<close> is \<open>redact_text\<close>, \<open>se_time\<close> is \<open>from_iso\<close>.\<close>

record sub_env =
  se_workspace :: string
  se_clean :: "string \<Rightarrow> string"
  se_time :: "string \<Rightarrow> int option"

text \<open>What a call of a cancellation probe meets: whether it polls the file, and whether the check of the parent says cancelled or
  cannot be read.\<close>

record sub_probe =
  pb_polls :: bool
  pb_parent :: bool

definition cancel_probe :: "sub_probe \<Rightarrow> string \<Rightarrow> sub_state \<Rightarrow> bool \<times> sub_state" where
  "cancel_probe pb i st =
     (let hit = (i \<in> set (sb_signals st) \<or>
             pb_polls pb \<and> (case map_of (sb_tasks st) i of Some t \<Rightarrow> sk_status t \<in> {''cancelled'', ''canceled''} | None \<Rightarrow> False) \<or>
             pb_parent pb)
      in (hit, if hit then st\<lparr>sb_signals := List.insert i (sb_signals st)\<rparr> else st))"

definition emit_event :: "string \<Rightarrow> sub_task \<Rightarrow> sub_state \<Rightarrow> sub_state" where
  "emit_event kind t st = st\<lparr>sb_events := sb_events st @ [(kind, sk_parent t, sk_session t)]\<rparr>"

definition release_worker :: "string \<Rightarrow> sub_state \<Rightarrow> sub_state" where
  "release_worker i st = st\<lparr>sb_alive := removeAll i (sb_alive st), sb_signals := removeAll i (sb_signals st)\<rparr>"

subsection \<open>Loading and saving\<close>

definition sub_id_ok :: "string \<Rightarrow> bool" where
  "sub_id_ok i = (length i = 12 \<and> starts_with i ''sub-'' \<and> list_all (\<lambda>c. is_digit c \<or> c \<in> set ''abcdef'') (drop 4 i))"

definition load_task :: "string \<Rightarrow> sub_state \<Rightarrow> sub_task option" where
  "load_task i st = (if sub_id_ok (strip i) then map_of (sb_tasks st) (strip i) else None)"

definition save_task :: "sub_task \<Rightarrow> sub_state \<Rightarrow> (sub_state \<times> sub_task) py" where
  "save_task t st =
     py_bind (py_require (sub_id_ok (strip (sk_id t))) (ValueError ''invalid subtask_id'')) (\<lambda>_.
     py_bind (save_subagent (sk_id t) t (sb_tasks st)) (\<lambda>(tasks, r).
     Inr (st\<lparr>sb_tasks := tasks\<rparr>,
          t\<lparr>sk_status := sk_status r, sk_summary := sk_summary r, sk_finished := sk_finished r, sk_errors := sk_errors r,
            sk_warnings := sk_warnings r, sk_observations := sk_observations r, sk_revision := sk_revision r\<rparr>)))"

subsection \<open>Creating, cancelling, starting\<close>

record sub_order =
  so_parent :: string
  so_session :: string
  so_operation :: string
  so_operation_call :: string
  so_profile :: string
  so_goal :: string
  so_context_refs :: "pyval list"
  so_workbench :: pydict
  so_max_steps :: "int option"
  so_coding :: bool

definition new_task :: "sub_env \<Rightarrow> string \<Rightarrow> string \<Rightarrow> sub_order \<Rightarrow> sub_task" where
  "new_task env now fresh q =
     \<lparr>sk_id = fresh, sk_parent = so_parent q, sk_workspace = se_workspace env, sk_session = so_session q,
      sk_operation = so_operation q, sk_operation_call = so_operation_call q, sk_profile = so_profile q, sk_goal = so_goal q,
      sk_context_refs = so_context_refs q, sk_workbench = so_workbench q, sk_status = ''created'',
      sk_budget = [(''max_steps'', VInt (max 0 (case so_max_steps q of Some n \<Rightarrow> n | None \<Rightarrow> 0))), (''max_tool_nodes'', VInt 0),
                   (''max_runtime_seconds'', VInt 0)],
      sk_created = now, sk_started = [], sk_finished = [], sk_errors = [], sk_warnings = [], sk_summary = [], sk_artifact = [],
      sk_total_chars = 0, sk_observations = [], sk_revision = 0\<rparr>"

definition create_subagent_task ::
  "sub_env \<Rightarrow> string \<Rightarrow> string \<Rightarrow> sub_order \<Rightarrow> sub_state \<Rightarrow> (sub_state \<times> sub_reply) py" where
  "create_subagent_task env now fresh q st =
     (case profile_name (so_profile q) of
        None \<Rightarrow> Inr (st, Sub_error (''unknown profile: '' @ so_profile q))
      | Some name \<Rightarrow>
          if so_coding q then Inr (st, Sub_error ''coding_assignment_requires_coding_profile'')
          else py_bind (save_task (new_task env now fresh q) st) (\<lambda>(st, t).
            Inr (emit_event ''subagent_created'' t st, Sub_created (sk_id t) name)))"

definition cancel_load :: "sub_env \<Rightarrow> string \<Rightarrow> sub_state \<Rightarrow> sub_reply + sub_task" where
  "cancel_load env i st =
     (if \<not> sub_id_ok (strip i) then Inl (Sub_error ''invalid_subtask_identity'')
      else case load_task i st of
        None \<Rightarrow> Inl (Sub_error ''subtask not found'')
      | Some t \<Rightarrow>
          if sk_workspace t \<noteq> se_workspace env then Inl (Sub_error ''subtask not found'')
          else if sk_status t \<in> {''succeeded'', ''failed''}
          then Inl (Sub_refused (''subtask is already '' @ sk_status t) (sk_status t))
          else Inr t)"

definition cancel_apply :: "string \<Rightarrow> sub_task \<Rightarrow> sub_state \<Rightarrow> (sub_state \<times> sub_reply) py" where
  "cancel_apply now t st =
     (let already = (sk_status t = ''cancelled'');
          st = st\<lparr>sb_signals := List.insert (sk_id t) (sb_signals st)\<rparr> in
      py_bind (if already then Inr (st, t)
               else save_task (t\<lparr>sk_status := ''cancelled'', sk_finished := now, sk_summary := ''Subagent cancelled''\<rparr>) st) (\<lambda>(st, t).
      Inr (st, if sk_status t \<noteq> ''cancelled'' then Sub_refused (''subtask is already '' @ sk_status t) (sk_status t)
               else if already then Sub_refused ''subtask is already cancelled'' (sk_status t)
               else Sub_status (sk_id t) (sk_status t))))"

definition cancel_subagent_task :: "sub_env \<Rightarrow> string \<Rightarrow> string \<Rightarrow> sub_state \<Rightarrow> (sub_state \<times> sub_reply) py" where
  "cancel_subagent_task env now i st =
     (case cancel_load env i st of Inl r \<Rightarrow> Inr (st, r) | Inr t \<Rightarrow> cancel_apply now t st)"

text \<open>\<open>spawns\<close> says whether the thread could be started. The lock of the task is held throughout.\<close>

definition start_subagent_task ::
  "sub_env \<Rightarrow> string \<Rightarrow> sub_probe \<Rightarrow> string + unit \<Rightarrow> string \<Rightarrow> sub_state \<Rightarrow> (sub_state \<times> sub_reply) py" where
  "start_subagent_task env now pb spawns i st =
     (if \<not> sub_id_ok (strip i) then Inr (st, Sub_error ''invalid_subtask_identity'')
      else case load_task i st of
        None \<Rightarrow> Inr (st, Sub_error ''subtask not found'')
      | Some t \<Rightarrow>
          if sk_workspace t \<noteq> se_workspace env then Inr (st, Sub_error ''subtask not found'')
          else if strip i \<in> set (sb_alive st) then Inr (st, Sub_status (strip i) (sk_status t))
          else if sk_status t \<noteq> ''created''
          then Inr (st, Sub_refused (''subtask is '' @ sk_status t @ ''; only created tasks can start'') (sk_status t))
          else let (hit, st) = cancel_probe pb (strip i) st in
            if hit then cancel_subagent_task env now (strip i) st
            else py_bind (save_task (t\<lparr>sk_status := ''running'', sk_started := str_or (sk_started t) now\<rparr>)
                            (st\<lparr>sb_signals := removeAll (strip i) (sb_signals st)\<rparr>)) (\<lambda>(st, t).
              case spawns of
                Inr _ \<Rightarrow> Inr (st\<lparr>sb_alive := strip i # sb_alive st, sb_waiting := strip i # sb_waiting st,
                               sb_spawned := strip i # sb_spawned st\<rparr>, Sub_status (strip i) ''running'')
              | Inl e \<Rightarrow>
                  py_bind (save_task (t\<lparr>sk_status := ''failed'', sk_finished := now, sk_summary := ''Subagent worker failed to start'',
                                        sk_errors := sk_errors t @ [e]\<rparr>) st) (\<lambda>(st, t).
                  Inr (st, Sub_error ''subagent_worker_start_failed''))))"

subsection \<open>Running\<close>

text \<open>\<open>_task_result_payload\<close>\<close>

definition task_payload :: "bool \<Rightarrow> sub_task \<Rightarrow> sub_payload" where
  "task_payload ok t =
     \<lparr>sp_ok = ok, sp_id = sk_id t, sp_status = sk_status t, sp_summary = sk_summary t, sp_findings = [], sp_tools = [],
      sp_errors = sk_errors t, sp_warnings = sk_warnings t\<rparr>"

text \<open>\<open>own\<close>: the call is made by the registered worker of the task.\<close>

definition run_load :: "sub_env \<Rightarrow> bool \<Rightarrow> string \<Rightarrow> sub_state \<Rightarrow> sub_reply + sub_task" where
  "run_load env own i st =
     (if \<not> sub_id_ok (strip i) then Inl (Sub_error ''invalid_subtask_identity'')
      else case load_task i st of
        None \<Rightarrow> Inl (Sub_error ''subtask not found'')
      | Some t \<Rightarrow>
          if sk_workspace t \<noteq> se_workspace env then Inl (Sub_error ''workspace mismatch'')
          else if profile_name (sk_profile t) = None then Inl (Sub_error ''profile not found'')
          else if sk_status t \<in> {''succeeded'', ''failed''}
          then Inl (Sub_refused (''subtask is already '' @ sk_status t) (sk_status t))
          else if sk_status t = ''running'' \<and> strip i \<in> set (sb_alive st) \<and> \<not> own then Inl (Sub_status (strip i) ''running'')
          else if sk_status t \<notin> {''created'', ''running'', ''cancelled''}
          then Inl (Sub_error (''invalid subtask status: '' @ sk_status t))
          else Inr t)"

definition run_claim :: "string \<Rightarrow> sub_probe \<Rightarrow> sub_task \<Rightarrow> sub_state \<Rightarrow> (sub_state \<times> (sub_reply + sub_task)) py" where
  "run_claim now pb t st =
     (let (hit, st) = (if sk_status t = ''cancelled'' then (True, st) else cancel_probe pb (sk_id t) st) in
      if hit then Inr (release_worker (sk_id t) st, Inl (Sub_payload (task_payload False t)))
      else py_bind (save_task (t\<lparr>sk_status := ''running'', sk_started := str_or (sk_started t) now\<rparr>) st) (\<lambda>(st, t).
        Inr (st, Inr t)))"

text \<open>
  What the runtime reports of the turn: it raised (\<open>tr_raised\<close>, an exception of the turn itself or of what surrounds it), or returned
  \<open>None\<close> (\<open>tr_present\<close>) or a result; and what becomes of the artifact that keeps the full answer.
\<close>

datatype artifact_outcome = Artifact_saved string | Artifact_missing | Artifact_error string | Artifact_crash string

record turn_report =
  tr_raised :: "(bool \<times> string) option"
  tr_present :: bool
  tr_ok :: bool
  tr_final :: string
  tr_outcome :: string
  tr_tools :: "(string \<times> bool \<times> string) list"
  tr_errors :: "string list"
  tr_artifact :: artifact_outcome

definition no_result :: sub_result where
  "no_result = \<lparr>rt_status = ''succeeded'', rt_summary = [], rt_findings = [], rt_artifacts = [], rt_tools = [], rt_errors = [],
     rt_warnings = []\<rparr>"

definition crashed :: "string \<Rightarrow> sub_result \<Rightarrow> sub_result" where
  "crashed e res = res\<lparr>rt_status := ''failed'', rt_errors := rt_errors res @ [''subagent execution failed: '' @ take 200 e],
     rt_summary := ''Subagent execution error: '' @ take 100 e\<rparr>"

definition unpersisted :: "string \<Rightarrow> sub_result \<Rightarrow> sub_result" where
  "unpersisted e res = res\<lparr>rt_status := ''failed'', rt_errors := rt_errors res @ [e],
     rt_summary := ''Subagent result persistence failed''\<rparr>"

definition answered :: "turn_report \<Rightarrow> sub_task \<Rightarrow> sub_result \<Rightarrow> sub_task \<times> sub_result" where
  "answered rep t res =
     (let res = res\<lparr>rt_summary := tr_final rep, rt_findings := [tr_final rep]\<rparr> in
      case tr_artifact rep of
        Artifact_saved a \<Rightarrow>
          (t\<lparr>sk_artifact := a, sk_total_chars := int (length (tr_final rep))\<rparr>, res\<lparr>rt_artifacts := rt_artifacts res @ [a]\<rparr>)
      | Artifact_missing \<Rightarrow> (t, unpersisted ''subagent full-result artifact was not persisted'' res)
      | Artifact_error e \<Rightarrow> (t, unpersisted (''subagent full-result artifact persistence failed: '' @ take 160 e) res)
      | Artifact_crash e \<Rightarrow> (t, crashed e res))"

definition unanswered :: "turn_report \<Rightarrow> sub_result \<Rightarrow> sub_result" where
  "unanswered rep res =
     (let errors = rt_errors res @
            (if tr_present rep \<and> tr_errors rep \<noteq> [] then map (take 300) (take 10 (tr_errors rep))
             else if \<not> (tr_present rep \<and> tr_ok rep) then [''Subagent runtime failed without error details'']
             else [''Subagent returned no final response''])
      in res\<lparr>rt_status := ''failed'', rt_errors := errors,
             rt_summary := ''Subagent runtime failed: '' @ take 300 (join_with ''; '' errors)\<rparr>)"

definition conclude_turn :: "sub_probe \<Rightarrow> turn_report \<Rightarrow> sub_task \<Rightarrow> sub_state \<Rightarrow> sub_state \<times> sub_task \<times> sub_result" where
  "conclude_turn pb rep t st =
     (case tr_raised rep of
        Some (in_turn, e) \<Rightarrow> (st, t, crashed (if in_turn then ''LLM turn failed: '' @ take 200 e else e) no_result)
      | None \<Rightarrow>
          let t = (if tr_present rep \<and> tr_outcome rep \<noteq> []
                   then t\<lparr>sk_observations := AList.update ''execution_outcome'' (VStr (tr_outcome rep)) (sk_observations t)\<rparr> else t);
              res = no_result\<lparr>rt_tools := (if tr_present rep then tr_tools rep else [])\<rparr>;
              (hit, st) = cancel_probe pb (sk_id t) st
          in if hit then (st, t, res\<lparr>rt_status := ''cancelled'', rt_summary := ''Subagent cancelled''\<rparr>)
             else if tr_present rep \<and> tr_ok rep \<and> tr_final rep \<noteq> [] then (st, answered rep t res)
             else (st, t, unanswered rep res))"

definition clean_text :: "sub_env \<Rightarrow> string \<Rightarrow> string" where
  "clean_text env s = se_clean env (filter (\<lambda>c. c \<noteq> CHR 0x00) s)"

definition sanitize_result :: "sub_env \<Rightarrow> sub_result \<Rightarrow> sub_result" where
  "sanitize_result env res =
     res\<lparr>rt_summary := clean_text env (rt_summary res), rt_findings := map (clean_text env) (rt_findings res),
         rt_tools := map (\<lambda>(tool, ok, text'). (clean_text env tool, ok, clean_text env text')) (rt_tools res),
         rt_errors := map (clean_text env) (rt_errors res), rt_warnings := map (clean_text env) (rt_warnings res)\<rparr>"

text \<open>The end of \<open>run_subagent_task\<close>, from the lock on; \<open>gate_error\<close> is an exception of the memory write gate, with the number of
  candidates written before.\<close>

definition memory_candidates :: "sub_result \<Rightarrow> string \<Rightarrow> (string \<times> string \<times> string) list" where
  "memory_candidates res i =
     (if rt_status res = ''succeeded''
      then map (\<lambda>(tool, _, text'). (i, tool, take 500 text')) (filter (\<lambda>(_, ok, _). ok) (rt_tools res)) else [])"

definition finish_event :: "string \<Rightarrow> string" where
  "finish_event status =
     (if status = ''succeeded'' then ''subagent_succeeded'' else if status = ''cancelled'' then ''subagent_cancelled''
      else ''subagent_failed'')"

definition finish_subagent ::
  "sub_env \<Rightarrow> string \<Rightarrow> sub_probe \<Rightarrow> (nat \<times> string) option \<Rightarrow> sub_task \<Rightarrow> sub_result \<Rightarrow> sub_state \<Rightarrow> (sub_state \<times> sub_payload) py" where
  "finish_subagent env now pb gate_error t res st =
     (let (hit, st) = (if (case load_task (sk_id t) st of Some p \<Rightarrow> sk_status p = ''cancelled'' | None \<Rightarrow> False) then (True, st)
                       else cancel_probe pb (sk_id t) st);
          res = sanitize_result env (if hit then res\<lparr>rt_status := ''cancelled'', rt_summary := ''Subagent cancelled''\<rparr> else res) in
      py_bind (save_task (t\<lparr>sk_status := rt_status res, sk_summary := rt_summary res, sk_errors := rt_errors res,
                            sk_warnings := rt_warnings res, sk_finished := now\<rparr>) st) (\<lambda>(st, t).
      let res = res\<lparr>rt_status := sk_status t, rt_summary := sk_summary t\<rparr>;
          st = emit_event (finish_event (rt_status res)) t st;
          candidates = memory_candidates res (sk_id t);
          st = st\<lparr>sb_candidates := sb_candidates st @ (case gate_error of Some (n, e) \<Rightarrow> take n candidates | None \<Rightarrow> candidates)\<rparr>;
          res = sanitize_result env
            (res\<lparr>rt_warnings := rt_warnings res @ (case gate_error of Some (n, e) \<Rightarrow> [''Memory candidate write failed: '' @ take 100 e] | None \<Rightarrow> [])\<rparr>)
      in Inr (release_worker (sk_id t) st,
              \<lparr>sp_ok = (rt_status res = ''succeeded''), sp_id = sk_id t, sp_status = rt_status res, sp_summary = rt_summary res,
               sp_findings = rt_findings res, sp_tools = rt_tools res, sp_errors = rt_errors res, sp_warnings = rt_warnings res\<rparr>)))"

subsection \<open>Restart, merge, views\<close>

definition interrupted :: "sub_env \<Rightarrow> string \<Rightarrow> sub_task \<Rightarrow> bool" where
  "interrupted env boundary t =
     (sk_workspace t = se_workspace env \<and> sk_status t \<in> {''created'', ''running''} \<and>
      \<not> (boundary \<noteq> [] \<and> str_or (sk_started t) (sk_created t) \<noteq> [] \<and>
         (case (se_time env (str_or (sk_started t) (sk_created t)), se_time env boundary) of
            (Some a, Some b) \<Rightarrow> a \<ge> b | _ \<Rightarrow> False)))"

definition restart_apply :: "string \<Rightarrow> sub_task \<Rightarrow> sub_state \<Rightarrow> (sub_state \<times> sub_task) py" where
  "restart_apply now t st =
     save_task (t\<lparr>sk_status := ''failed'', sk_finished := now, sk_summary := ''Subagent interrupted by service restart'',
                  sk_errors := sk_errors t @ [''service_restart_interrupted'']\<rparr>) st"

text \<open>\<open>list_subagents\<close>: the newest records first.\<close>

definition list_subagents :: "int \<Rightarrow> sub_state \<Rightarrow> sub_task list" where
  "list_subagents limit st = take (nat (max 1 (min limit 5000))) (rev (sort_key sk_created (rev (map snd (sb_tasks st)))))"

definition restart_one :: "sub_env \<Rightarrow> string \<Rightarrow> string \<Rightarrow> sub_task \<Rightarrow> sub_state \<times> string list \<Rightarrow> sub_state \<times> string list" where
  "restart_one env boundary now t = (\<lambda>(st, done).
     if interrupted env boundary t
     then (case restart_apply now t st of Inr (st, t) \<Rightarrow> (st, done @ [sk_id t]) | Inl e \<Rightarrow> (st, done)) else (st, done))"

definition reconcile_subagent_tasks :: "sub_env \<Rightarrow> string \<Rightarrow> string \<Rightarrow> sub_state \<Rightarrow> sub_state \<times> string list" where
  "reconcile_subagent_tasks env boundary now st =
     fold (restart_one env boundary now) (list_subagents 1000 st) (st, [])"

definition merge_subagent_result :: "sub_env \<Rightarrow> string \<Rightarrow> string \<Rightarrow> sub_state \<Rightarrow> sub_state \<times> sub_reply" where
  "merge_subagent_result env parent i st =
     (case load_task i st of
        None \<Rightarrow> (st, Sub_error ''subtask not found'')
      | Some t \<Rightarrow>
          if sk_workspace t \<noteq> se_workspace env then (st, Sub_error ''workspace mismatch'')
          else if sk_parent t \<noteq> parent then (st, Sub_error ''subtask parent mismatch'')
          else if sk_status t \<noteq> ''succeeded''
          then (st, Sub_refused (''subtask is '' @ sk_status t @ ''; only succeeded tasks can merge'') (sk_status t))
          else (emit_event ''subagent_merged'' t st, Sub_merged i parent))"

record sub_row =
  sv_id :: string
  sv_status :: string
  sv_profile :: string
  sv_instruction :: string
  sv_summary :: string
  sv_created :: string
  sv_started :: string
  sv_finished :: string

definition task_row :: "sub_task \<Rightarrow> sub_row" where
  "task_row t =
     \<lparr>sv_id = sk_id t, sv_status = sk_status t, sv_profile = sk_profile t, sv_instruction = take 100 (sk_goal t),
      sv_summary = take 200 (sk_summary t), sv_created = sk_created t, sv_started = sk_started t, sv_finished = sk_finished t\<rparr>"

definition list_subagent_tasks :: "sub_env \<Rightarrow> int \<Rightarrow> sub_state \<Rightarrow> sub_row list" where
  "list_subagent_tasks env limit st =
     map task_row (filter (\<lambda>t. sk_workspace t = se_workspace env) (list_subagents (max 1 (min limit 1000)) st))"

text \<open>The parts of \<open>get_subagent_task\<close> that are not copied from the record, and the flags \<open>wait_subagent_task\<close> adds.\<close>

record sub_view =
  sw_row :: sub_row
  sw_total_chars :: int
  sw_progress :: pydict
  sw_ok :: bool
  sw_deferred :: bool

definition get_subagent_task :: "string \<Rightarrow> sub_state \<Rightarrow> sub_view option" where
  "get_subagent_task i st =
     map_option (\<lambda>t.
       \<lparr>sw_row = (task_row t)\<lparr>sv_summary := take 4000 (sk_summary t)\<rparr>,
        sw_total_chars = (if sk_total_chars t \<noteq> 0 then sk_total_chars t else int (length (sk_summary t))),
        sw_progress = dict_of (vget (sk_observations t) ''activity''),
        sw_ok = (sk_status t \<in> {''created'', ''running'', ''succeeded''}),
        sw_deferred = (sk_status t \<in> {''created'', ''running''})\<rparr>) (load_task i st)"

text \<open>\<open>emit\<close> of the activity emitter\<close>

definition emit_activity :: "string \<Rightarrow> string \<Rightarrow> string \<Rightarrow> string \<Rightarrow> string \<Rightarrow> sub_state \<Rightarrow> sub_state py" where
  "emit_activity now i event tool action st =
     (if event \<notin> {''model_started'', ''model_completed'', ''execution_started'', ''tool_result''} \<or>
         event = ''execution_started'' \<and> tool = [] then Inr st
      else py_bind (record_subagent_activity now i event tool action (sb_tasks st)) (\<lambda>tasks. Inr (st\<lparr>sb_tasks := tasks\<rparr>)))"

subsection \<open>Interleaved steps\<close>

definition add_pending :: "sub_pending \<Rightarrow> sub_state \<Rightarrow> sub_state" where
  "add_pending x st = st\<lparr>sb_pending := x # sb_pending st\<rparr>"

definition drop_pending :: "sub_pending \<Rightarrow> sub_state \<Rightarrow> sub_state" where
  "drop_pending x st = st\<lparr>sb_pending := remove1 x (sb_pending st)\<rparr>"

text \<open>A worker thread enters \<open>run_subagent_task\<close>.\<close>

definition enter_run :: "sub_env \<Rightarrow> string \<Rightarrow> sub_state \<Rightarrow> sub_state" where
  "enter_run env i st =
     (let st = st\<lparr>sb_waiting := remove1 i (sb_waiting st)\<rparr> in
      case run_load env True i st of
        Inl r \<Rightarrow> st\<lparr>sb_alive := removeAll i (sb_alive st)\<rparr>
      | Inr t \<Rightarrow> add_pending (Run_loaded t) st)"

definition begin_turn :: "sub_reply + sub_task \<Rightarrow> sub_state \<Rightarrow> sub_state" where
  "begin_turn out st =
     (case out of Inl r \<Rightarrow> st | Inr t \<Rightarrow> (add_pending (Run_active t) st)\<lparr>sb_turns := sk_id t # sb_turns st\<rparr>)"

text \<open>A restart of the service loses what only the process knows.\<close>

definition restart_service :: "sub_state \<Rightarrow> sub_state" where
  "restart_service st = st\<lparr>sb_signals := [], sb_alive := [], sb_waiting := [], sb_pending := []\<rparr>"

inductive sub_step :: "sub_env \<Rightarrow> sub_state \<Rightarrow> sub_state \<Rightarrow> bool" for env where
  create: "create_subagent_task env now fresh q st = Inr (st', r) \<Longrightarrow> map_of (sb_tasks st) fresh = None \<Longrightarrow> sub_step env st st'"
| start: "start_subagent_task env now pb spawns i st = Inr (st', r) \<Longrightarrow> sub_step env st st'"
| enter: "i \<in> set (sb_waiting st) \<Longrightarrow> sub_step env st (enter_run env i st)"
| claim: "Run_loaded t \<in> set (sb_pending st) \<Longrightarrow> run_claim now pb t (drop_pending (Run_loaded t) st) = Inr (st', out) \<Longrightarrow>
    sub_step env st (begin_turn out st')"
| turn: "Run_active t \<in> set (sb_pending st) \<Longrightarrow> conclude_turn pb rep t (drop_pending (Run_active t) st) = (st', t', res) \<Longrightarrow>
    sub_step env st (add_pending (Run_done t' res) st')"
| finish: "Run_done t res \<in> set (sb_pending st) \<Longrightarrow>
    finish_subagent env now pb gate_error t res (drop_pending (Run_done t res) st) = Inr (st', payload) \<Longrightarrow> sub_step env st st'"
| cancel_read: "cancel_load env i st = Inr t \<Longrightarrow> sub_step env st (add_pending (Cancel_loaded t) st)"
| cancel_write: "Cancel_loaded t \<in> set (sb_pending st) \<Longrightarrow> cancel_apply now t (drop_pending (Cancel_loaded t) st) = Inr (st', r) \<Longrightarrow>
    sub_step env st st'"
| reconcile_read: "t \<in> set (list_subagents 1000 st) \<Longrightarrow> interrupted env boundary t \<Longrightarrow> sub_step env st (add_pending (Restart_loaded t) st)"
| reconcile_write: "Restart_loaded t \<in> set (sb_pending st) \<Longrightarrow> restart_apply now t (drop_pending (Restart_loaded t) st) = Inr (st', t') \<Longrightarrow>
    sub_step env st st'"
| activity: "emit_activity now i event tool action st = Inr st' \<Longrightarrow> sub_step env st st'"
| merge: "merge_subagent_result env parent i st = (st', r) \<Longrightarrow> sub_step env st st'"
| restart: "sub_step env st (restart_service st)"

subsection \<open>What every operation keeps\<close>

definition keyed :: "sub_state \<Rightarrow> bool" where
  "keyed st = (\<forall>i t. map_of (sb_tasks st) i = Some t \<longrightarrow> sk_id t = i)"

definition tasks_follow :: "sub_state \<Rightarrow> sub_state \<Rightarrow> bool" where
  "tasks_follow st st' = (\<forall>i p. map_of (sb_tasks st) i = Some p \<longrightarrow> (\<exists>r. map_of (sb_tasks st') i = Some r \<and> follows p r))"

definition moves_to :: "sub_state \<Rightarrow> sub_state \<Rightarrow> bool" where
  "moves_to st st' = (tasks_follow st st' \<and> (keyed st \<longrightarrow> keyed st') \<and> sb_waiting st' = sb_waiting st \<and>
     sb_spawned st' = sb_spawned st \<and> sb_turns st' = sb_turns st \<and> sb_pending st' = sb_pending st)"

lemma tasks_follow_refl [simp]: "sb_tasks st' = sb_tasks st \<Longrightarrow> tasks_follow st st'"
  by (auto simp: tasks_follow_def)

lemma tasks_follow_trans: "tasks_follow a b \<Longrightarrow> tasks_follow b c \<Longrightarrow> tasks_follow a c"
  unfolding tasks_follow_def by (meson follows_trans)

lemma moves_to_trans: "moves_to a b \<Longrightarrow> moves_to b c \<Longrightarrow> moves_to a c"
  unfolding moves_to_def using tasks_follow_trans by auto

lemma moves_to_refl [simp]: "moves_to st st"
  by (simp add: moves_to_def)

lemma moves_to_frames [simp]:
  "moves_to a (st\<lparr>sb_signals := x\<rparr>) = moves_to a st" "moves_to a (st\<lparr>sb_alive := x\<rparr>) = moves_to a st"
  "moves_to a (st\<lparr>sb_events := z\<rparr>) = moves_to a st" "moves_to a (st\<lparr>sb_candidates := z\<rparr>) = moves_to a st"
  "moves_to a (emit_event kind t st) = moves_to a st" "moves_to a (release_worker i st) = moves_to a st"
  "moves_to (st\<lparr>sb_signals := x\<rparr>) a = moves_to st a"
  by (simp_all add: moves_to_def tasks_follow_def keyed_def emit_event_def release_worker_def)

lemma probe_moves [simp]: "moves_to a (snd (cancel_probe pb i st)) = moves_to a st"
  by (simp add: cancel_probe_def Let_def)

text \<open>What a save leaves in the record.\<close>

lemma save_task_Inr:
  "save_task t st = Inr (st', t') \<Longrightarrow> \<exists>tasks r. save_subagent (sk_id t) t (sb_tasks st) = Inr (tasks, r) \<and>
     st' = st\<lparr>sb_tasks := tasks\<rparr> \<and> sub_identity t' = sub_identity t \<and> sk_status t' = sk_status r \<and> sk_summary t' = sk_summary r"
  by (auto simp: save_task_def py_bind_Inr sub_identity_def)

lemma save_task_moves:
  assumes "save_task t st = Inr (st', t')" "sk_status t \<noteq> ''created'' \<or> map_of (sb_tasks st) (sk_id t) = None"
  shows "moves_to st st'"
proof -
  from save_task_Inr [OF assms(1)] obtain tasks r where r: "save_subagent (sk_id t) t (sb_tasks st) = Inr (tasks, r)"
    and st': "st' = st\<lparr>sb_tasks := tasks\<rparr>" by blast
  from save_subagent_at [OF r] have at: "map_of tasks = (map_of (sb_tasks st))(sk_id t \<mapsto> r)" .
  have "sk_id r = sk_id t" using save_subagent_identity [OF r] by (simp add: sub_identity_def)
  then have "keyed st \<longrightarrow> keyed st'" by (simp add: keyed_def st' at)
  moreover have "follows p r" if "map_of (sb_tasks st) (sk_id t) = Some p" for p
    using save_subagent_follows(1) [OF r that] assms(2) that by simp
  then have "tasks_follow st st'" by (auto simp: tasks_follow_def st' at)
  ultimately show ?thesis by (simp add: moves_to_def st')
qed

lemma cancel_moves:
  assumes "cancel_apply now t st = Inr (st', r)"
  shows "moves_to st st'"
proof (cases "sk_status t = ''cancelled''")
  case False
  with assms obtain t' where "save_task (t\<lparr>sk_status := ''cancelled'', sk_finished := now, sk_summary := ''Subagent cancelled''\<rparr>)
      (st\<lparr>sb_signals := List.insert (sk_id t) (sb_signals st)\<rparr>) = Inr (st', t')"
    by (auto simp: cancel_apply_def Let_def py_bind_Inr)
  from save_task_moves [OF this] show ?thesis by simp
qed (use assms in \<open>auto simp: cancel_apply_def Let_def\<close>)

lemma cancel_task_moves: "cancel_subagent_task env now i st = Inr (st', r) \<Longrightarrow> moves_to st st'"
  by (auto simp: cancel_subagent_task_def cancel_moves split: sum.splits)

lemma restart_moves: "restart_apply now t st = Inr (st', t') \<Longrightarrow> moves_to st st'"
  unfolding restart_apply_def by (drule save_task_moves) simp_all

lemma activity_moves: "emit_activity now i event tool action st = Inr st' \<Longrightarrow> moves_to st st'"
proof -
  assume act: "emit_activity now i event tool action st = Inr st'"
  show "moves_to st st'"
  proof (cases "st' = st")
    case False
    with act obtain tasks where rec: "record_subagent_activity now i event tool action (sb_tasks st) = Inr tasks"
      and st': "st' = st\<lparr>sb_tasks := tasks\<rparr>" by (auto simp: emit_activity_def py_bind_Inr split: if_splits)
    from activity_follows [OF rec] have "tasks_follow st st'" by (simp add: tasks_follow_def st')
    moreover from rec have "keyed st \<longrightarrow> keyed st'"
      by (auto simp: keyed_def st' record_subagent_activity_def py_bind_Inr map_of_update_iff split: option.splits if_splits)
    ultimately show ?thesis by (simp add: moves_to_def st')
  qed simp
qed

lemma create_moves:
  assumes "create_subagent_task env now fresh q st = Inr (st', r)" "map_of (sb_tasks st) fresh = None"
  shows "moves_to st st'"
proof (cases "st' = st")
  case False
  with assms(1) obtain st1 t where "save_task (new_task env now fresh q) st = Inr (st1, t)" "st' = emit_event ''subagent_created'' t st1"
    by (auto simp: create_subagent_task_def py_bind_Inr split: option.splits if_splits)
  with save_task_moves [OF this(1)] assms(2) show ?thesis by (simp add: new_task_def)
qed simp

lemma probe_of_moves: "cancel_probe pb i st = (hit, st') \<Longrightarrow> moves_to st st'"
  using probe_moves [of st pb i st] by simp

lemma probe_tasks: "cancel_probe pb i st = (hit, st') \<Longrightarrow> sb_tasks st' = sb_tasks st"
  by (auto simp: cancel_probe_def Let_def split: if_splits)

lemma claim_moves:
  assumes "run_claim now pb t st = Inr (st', out)"
  shows "moves_to st st'"
proof -
  obtain hit st1 where hit: "(if sk_status t = ''cancelled'' then (True, st) else cancel_probe pb (sk_id t) st) = (hit, st1)"
    by fastforce
  then have first: "moves_to st st1" using probe_of_moves by (metis moves_to_refl prod.inject)
  show ?thesis
  proof (cases hit)
    case True
    with assms hit have "st' = release_worker (sk_id t) st1" by (auto simp: run_claim_def)
    with first show ?thesis by simp
  next
    case False
    with assms hit obtain t' where "save_task (t\<lparr>sk_status := ''running'', sk_started := str_or (sk_started t) now\<rparr>) st1 = Inr (st', t')"
      by (auto simp: run_claim_def py_bind_Inr)
    from save_task_moves [OF this] first show ?thesis by (simp add: moves_to_trans)
  qed
qed

lemma conclude_moves: "conclude_turn pb rep t st = (st', t', res) \<Longrightarrow> moves_to st st'"
  by (auto simp: conclude_turn_def Let_def dest!: probe_of_moves split: option.splits prod.splits if_splits)

lemma sanitized_status [simp]: "rt_status (sanitize_result env res) = rt_status res"
  by (simp add: sanitize_result_def)

text \<open>What the end of a run stores and answers.\<close>

lemma finish_subagent_Inr:
  assumes "finish_subagent env now pb gate_error t res st = Inr (st', payload)"
  obtains hit st1 st2 t' and res1 :: sub_result where "moves_to st st1" "sb_tasks st1 = sb_tasks st"
    "(\<exists>p. load_task (sk_id t) st = Some p \<and> sk_status p = ''cancelled'') \<longrightarrow> hit"
    "rt_status res1 = (if hit then ''cancelled'' else rt_status res)"
    "save_task (t\<lparr>sk_status := rt_status res1, sk_summary := rt_summary res1, sk_errors := rt_errors res1,
        sk_warnings := rt_warnings res1, sk_finished := now\<rparr>) st1 = Inr (st2, t')"
    "sb_tasks st' = sb_tasks st2" "moves_to st2 st'"
    "sp_status payload = sk_status t'" "sp_ok payload \<longleftrightarrow> sk_status t' = ''succeeded''"
    "sb_candidates st' \<noteq> sb_candidates st \<longrightarrow> sk_status t' = ''succeeded''"
proof -
  obtain hit st1 where hit: "(if (case load_task (sk_id t) st of Some p \<Rightarrow> sk_status p = ''cancelled'' | None \<Rightarrow> False) then (True, st)
      else cancel_probe pb (sk_id t) st) = (hit, st1)" by fastforce
  then have first: "moves_to st st1" "sb_tasks st1 = sb_tasks st"
    using probe_of_moves [of pb "sk_id t" st hit st1] probe_tasks [of pb "sk_id t" st hit st1] by (simp_all split: if_splits)
  define res1 where "res1 = sanitize_result env (if hit then res\<lparr>rt_status := ''cancelled'', rt_summary := ''Subagent cancelled''\<rparr> else res)"
  note eq = assms [unfolded finish_subagent_def hit Let_def prod.case res1_def [symmetric]]
  from eq obtain st2 t' where save: "save_task (t\<lparr>sk_status := rt_status res1, sk_summary := rt_summary res1, sk_errors := rt_errors res1,
        sk_warnings := rt_warnings res1, sk_finished := now\<rparr>) st1 = Inr (st2, t')" by (auto simp: py_bind_Inr)
  have "sb_candidates st1 = sb_candidates st" using hit by (auto simp: cancel_probe_def Let_def split: if_splits)
  with save_task_Inr [OF save] have "sb_candidates st2 = sb_candidates st" by auto
  then have "sb_candidates st' \<noteq> sb_candidates st \<longrightarrow> sk_status t' = ''succeeded''"
    using eq save by (auto simp: release_worker_def emit_event_def memory_candidates_def split: option.splits if_splits)
  then show thesis
  proof (rule that [rotated -1])
    show "moves_to st st1" "sb_tasks st1 = sb_tasks st" by (fact first)+
    show "save_task (t\<lparr>sk_status := rt_status res1, sk_summary := rt_summary res1, sk_errors := rt_errors res1,
        sk_warnings := rt_warnings res1, sk_finished := now\<rparr>) st1 = Inr (st2, t')" by (fact save)
    show "(\<exists>p. load_task (sk_id t) st = Some p \<and> sk_status p = ''cancelled'') \<longrightarrow> hit"
      using hit by (auto split: if_splits option.splits)
    show "rt_status res1 = (if hit then ''cancelled'' else rt_status res)" by (simp add: res1_def)
    show "sb_tasks st' = sb_tasks st2" "moves_to st2 st'" "sp_status payload = sk_status t'" "sp_ok payload \<longleftrightarrow> sk_status t' = ''succeeded''"
      using eq save by (auto simp: release_worker_def emit_event_def moves_to_def tasks_follow_def keyed_def split: option.splits)
  qed
qed

lemma finish_moves:
  assumes "finish_subagent env now pb gate_error t res st = Inr (st', payload)" "rt_status res \<in> set sub_terminal"
  shows "moves_to st st'"
proof (rule finish_subagent_Inr [OF assms(1)])
  fix hit st1 st2 t' and res1 :: sub_result
  assume F: "moves_to st st1" "moves_to st2 st'" "rt_status res1 = (if hit then ''cancelled'' else rt_status res)"
    "save_task (t\<lparr>sk_status := rt_status res1, sk_summary := rt_summary res1, sk_errors := rt_errors res1,
        sk_warnings := rt_warnings res1, sk_finished := now\<rparr>) st1 = Inr (st2, t')"
  from F(3) assms(2) have "rt_status res1 \<noteq> ''created''" by (auto simp: sub_terminal_def)
  with save_task_moves [OF F(4)] have "moves_to st1 st2" by simp
  with F(1,2) show ?thesis by (blast intro: moves_to_trans)
qed

lemma conclude_terminal: "conclude_turn pb rep t st = (st', t', res) \<Longrightarrow> rt_status res \<in> set sub_terminal"
  by (auto simp: conclude_turn_def Let_def sub_terminal_def crashed_def answered_def unpersisted_def unanswered_def no_result_def
      split: option.splits prod.splits if_splits artifact_outcome.splits)

text \<open>A start either changes no list of workers, or it finds a created task, leaves it running and adds its worker.\<close>

definition spawned_by :: "string \<Rightarrow> sub_state \<Rightarrow> sub_state \<Rightarrow> bool" where
  "spawned_by i st st' =
     (\<exists>t r st1. map_of (sb_tasks st) i = Some t \<and> sk_status t = ''created'' \<and> moves_to st st1 \<and> sb_tasks st' = sb_tasks st1 \<and>
        map_of (sb_tasks st1) i = Some r \<and> sk_status r = ''running'' \<and>
        sb_waiting st' = i # sb_waiting st \<and> sb_spawned st' = i # sb_spawned st \<and> sb_turns st' = sb_turns st \<and> sb_pending st' = sb_pending st)"

lemma start_cases:
  assumes "start_subagent_task env now pb spawns i st = Inr (st', r)"
    and "keyed st"
  shows "moves_to st st' \<or> spawned_by (strip i) st st'"
proof (cases "st' = st")
  case False
  with assms(1) obtain t where t: "load_task i st = Some t" "sk_status t = ''created''"
    by (auto simp: start_subagent_task_def split: if_splits option.splits)
  then have at: "map_of (sb_tasks st) (strip i) = Some t" by (simp add: load_task_def split: if_splits)
  obtain hit st1 where probe: "cancel_probe pb (strip i) st = (hit, st1)" by fastforce
  then have first: "moves_to st st1" "sb_tasks st1 = sb_tasks st" using probe_of_moves probe_tasks by blast+
  show ?thesis
  proof (cases hit)
    case True
    with assms(1) \<open>st' \<noteq> st\<close> t probe have "cancel_subagent_task env now (strip i) st1 = Inr (st', r)"
      by (auto simp: start_subagent_task_def split: if_splits)
    with first show ?thesis by (blast intro: moves_to_trans cancel_task_moves)
  next
    case False
    with assms(1) \<open>st' \<noteq> st\<close> t probe obtain st2 t2 where
      save: "save_task (t\<lparr>sk_status := ''running'', sk_started := str_or (sk_started t) now\<rparr>)
          (st1\<lparr>sb_signals := removeAll (strip i) (sb_signals st1)\<rparr>) = Inr (st2, t2)" and
      rest: "(case spawns of
                Inr _ \<Rightarrow> Inr (st2\<lparr>sb_alive := strip i # sb_alive st2, sb_waiting := strip i # sb_waiting st2,
                               sb_spawned := strip i # sb_spawned st2\<rparr>, Sub_status (strip i) ''running'')
              | Inl e \<Rightarrow>
                  py_bind (save_task (t2\<lparr>sk_status := ''failed'', sk_finished := now, sk_summary := ''Subagent worker failed to start'',
                                        sk_errors := sk_errors t2 @ [e]\<rparr>) st2) (\<lambda>(st, t).
                  Inr (st, Sub_error ''subagent_worker_start_failed''))) = Inr (st', r)"
      by (auto simp: start_subagent_task_def py_bind_Inr split: if_splits)
    from save_task_moves [OF save] have "moves_to st1 st2" by simp
    with first have moved: "moves_to st st2" by (blast intro: moves_to_trans)
    show ?thesis
    proof (cases spawns)
      case (Inl e)
      with rest obtain t3 where "save_task (t2\<lparr>sk_status := ''failed'', sk_finished := now,
          sk_summary := ''Subagent worker failed to start'', sk_errors := sk_errors t2 @ [e]\<rparr>) st2 = Inr (st', t3)"
        by (auto simp: py_bind_Inr)
      from save_task_moves [OF this] moved show ?thesis by (auto intro: moves_to_trans)
    next
      case (Inr u)
      from save_task_Inr [OF save] obtain tasks q where q: "save_subagent (sk_id t)
          (t\<lparr>sk_status := ''running'', sk_started := str_or (sk_started t) now\<rparr>) (sb_tasks st) = Inr (tasks, q)"
        "sb_tasks st2 = tasks" by (auto simp: first(2))
      from at assms(2) have "sk_id t = strip i" by (simp add: keyed_def)
      with save_subagent_at [OF q(1)] save_subagent_follows(3) [OF q(1)] at t(2) q(2) have
        r: "map_of (sb_tasks st2) (strip i) = Some q" "sk_status q = ''running''"
        by (simp_all add: settled_def sub_terminal_def sub_outcome_def)
      have "spawned_by (strip i) st st'"
        unfolding spawned_by_def using at t(2) moved r rest Inr by (intro exI [of _ t] exI [of _ q] exI [of _ st2]) (auto simp: moves_to_def)
      then show ?thesis by blast
    qed
  qed
qed simp

subsection \<open>The invariant\<close>

text \<open>Every worker that waits, every run that was loaded and every turn is the one of a worker that was started; a worker is started once
  per task, and its task is no longer created.\<close>

definition loaded_run :: "sub_pending \<Rightarrow> string multiset" where
  "loaded_run x = (case x of Run_loaded t \<Rightarrow> {#sk_id t#} | _ \<Rightarrow> {#})"

definition run_tokens :: "sub_state \<Rightarrow> string multiset" where
  "run_tokens st = mset (sb_waiting st) + (\<Sum>x \<in># mset (sb_pending st). loaded_run x) + mset (sb_turns st)"

definition pending_ok :: "sub_state \<Rightarrow> bool" where
  "pending_ok st = (\<forall>t res. Run_done t res \<in> set (sb_pending st) \<longrightarrow> rt_status res \<in> set sub_terminal)"

definition sub_inv :: "sub_state \<Rightarrow> bool" where
  "sub_inv st =
     (keyed st \<and> pending_ok st \<and> distinct (sb_spawned st) \<and> run_tokens st \<subseteq># mset (sb_spawned st) \<and>
      (\<forall>i \<in> set (sb_spawned st). strip i = i \<and> (\<exists>t. map_of (sb_tasks st) i = Some t \<and> sk_status t \<noteq> ''created'')))"

lemma follows_started: "follows p r \<Longrightarrow> sk_status p \<noteq> ''created'' \<Longrightarrow> sk_status r \<noteq> ''created''"
  by (auto simp: follows_def sub_rank_def split: if_splits)

lemma inv_moves:
  assumes "moves_to st st'" "sub_inv st"
  shows "sub_inv st'"
proof -
  have "\<exists>t. map_of (sb_tasks st') i = Some t \<and> sk_status t \<noteq> ''created''" if "i \<in> set (sb_spawned st)" for i
    using that assms follows_started unfolding moves_to_def tasks_follow_def sub_inv_def by meson
  with assms show ?thesis by (simp add: moves_to_def sub_inv_def run_tokens_def pending_ok_def)
qed

lemma run_tokens_add [simp]: "run_tokens (add_pending x st) = loaded_run x + run_tokens st"
  by (simp add: run_tokens_def add_pending_def)

lemma run_tokens_drop: "x \<in> set (sb_pending st) \<Longrightarrow> run_tokens st = loaded_run x + run_tokens (drop_pending x st)"
proof -
  assume "x \<in> set (sb_pending st)"
  then have "mset (sb_pending st) = add_mset x (mset (sb_pending (drop_pending x st)))" by (simp add: drop_pending_def)
  then have "(\<Sum>y \<in># mset (sb_pending st). loaded_run y) = loaded_run x + (\<Sum>y \<in># mset (sb_pending (drop_pending x st)). loaded_run y)"
    by simp
  then show ?thesis by (simp add: run_tokens_def) (simp add: drop_pending_def)
qed

lemma inv_drop:
  assumes "sub_inv st"
  shows "sub_inv (drop_pending x st)"
proof (cases "x \<in> set (sb_pending st)")
  case True
  then have "run_tokens (drop_pending x st) \<subseteq># run_tokens st" by (simp add: run_tokens_drop)
  then have "run_tokens (drop_pending x st) \<subseteq># mset (sb_spawned st)"
    using assms by (auto simp: sub_inv_def intro: subset_mset.trans)
  then show ?thesis using assms set_remove1_subset [of x "sb_pending st"]
    by (auto simp: sub_inv_def keyed_def pending_ok_def drop_pending_def)
qed (use assms in \<open>simp add: drop_pending_def remove1_idem\<close>)

lemma inv_add:
  assumes "sub_inv st" "loaded_run x = {#}" "\<forall>t res. x = Run_done t res \<longrightarrow> rt_status res \<in> set sub_terminal"
  shows "sub_inv (add_pending x st)"
proof -
  have "keyed (add_pending x st)" "pending_ok (add_pending x st)"
    using assms by (auto simp: sub_inv_def keyed_def pending_ok_def add_pending_def)
  moreover have "sb_spawned (add_pending x st) = sb_spawned st" "sb_tasks (add_pending x st) = sb_tasks st" by (simp_all add: add_pending_def)
  ultimately show ?thesis using assms(1,2) by (simp add: sub_inv_def)
qed

lemma loaded_run_simps [simp]:
  "loaded_run (Run_loaded t) = {#sk_id t#}" "loaded_run (Run_active t) = {#}" "loaded_run (Run_done t res) = {#}"
  "loaded_run (Cancel_loaded t) = {#}" "loaded_run (Restart_loaded t) = {#}"
  by (simp_all add: loaded_run_def)

lemma inv_spawn:
  assumes "spawned_by (strip i) st st'" "sub_inv st"
  shows "sub_inv st'"
proof -
  from assms(1) obtain t r st1 where s: "map_of (sb_tasks st) (strip i) = Some t" "sk_status t = ''created''" "moves_to st st1"
    "sb_tasks st' = sb_tasks st1" "map_of (sb_tasks st1) (strip i) = Some r" "sk_status r = ''running''"
    "sb_waiting st' = strip i # sb_waiting st" "sb_spawned st' = strip i # sb_spawned st" "sb_turns st' = sb_turns st"
    "sb_pending st' = sb_pending st" unfolding spawned_by_def by blast
  from inv_moves [OF s(3) assms(2)] have inv: "sub_inv st1" .
  from s(3) have same: "sb_waiting st1 = sb_waiting st" "sb_spawned st1 = sb_spawned st" "sb_turns st1 = sb_turns st"
    "sb_pending st1 = sb_pending st" by (simp_all add: moves_to_def)
  from assms(2) s(1,2) have "strip i \<notin> set (sb_spawned st)" by (auto simp: sub_inv_def)
  moreover have "run_tokens st' = add_mset (strip i) (run_tokens st1)" by (simp add: run_tokens_def s same)
  moreover have "keyed st'" "pending_ok st'" using inv by (simp_all add: sub_inv_def keyed_def pending_ok_def s same)
  ultimately show ?thesis using inv s(5,6) by (simp add: sub_inv_def s(4,8) same)
qed

lemma inv_enter:
  assumes "i \<in> set (sb_waiting st)" "sub_inv st"
  shows "sub_inv (enter_run env i st)"
proof -
  define st1 where "st1 = st\<lparr>sb_waiting := remove1 i (sb_waiting st)\<rparr>"
  have tokens: "run_tokens st = add_mset i (run_tokens st1)" using assms(1) by (simp add: run_tokens_def st1_def)
  have "i \<in> set (sb_spawned st)" using assms(2) tokens mset_subset_eqD [of "run_tokens st" "mset (sb_spawned st)" i]
    by (simp add: sub_inv_def)
  with assms(2) have i: "strip i = i" by (simp add: sub_inv_def)
  have rest: "run_tokens st1 \<subseteq># mset (sb_spawned st)" using assms(2) tokens subset_mset.trans [of "run_tokens st1" "run_tokens st"]
    by (simp add: sub_inv_def)
  show ?thesis
  proof (cases "run_load env True i st1")
    case (Inl r)
    then have "enter_run env i st = st1\<lparr>sb_alive := removeAll i (sb_alive st1)\<rparr>" by (simp add: enter_run_def st1_def Let_def)
    with assms(2) rest show ?thesis by (simp add: sub_inv_def keyed_def pending_ok_def st1_def run_tokens_def)
  next
    case (Inr t)
    then have "map_of (sb_tasks st) i = Some t"
      by (auto simp: run_load_def load_task_def st1_def i split: if_splits option.splits)
    with assms(2) have "sk_id t = i" by (simp add: sub_inv_def keyed_def)
    moreover from Inr have "enter_run env i st = add_pending (Run_loaded t) st1" by (simp add: enter_run_def st1_def Let_def)
    moreover have "sb_spawned (add_pending (Run_loaded t) st1) = sb_spawned st" "sb_tasks (add_pending (Run_loaded t) st1) = sb_tasks st"
      by (simp_all add: add_pending_def st1_def)
    moreover have "keyed (add_pending (Run_loaded t) st1)" "pending_ok (add_pending (Run_loaded t) st1)"
      using assms(2) by (auto simp: sub_inv_def keyed_def pending_ok_def add_pending_def st1_def)
    ultimately show ?thesis using assms(2) tokens by (simp add: sub_inv_def)
  qed
qed

lemma claim_identity: "run_claim now pb t st = Inr (st', Inr t') \<Longrightarrow> sk_id t' = sk_id t"
  by (auto simp: run_claim_def py_bind_Inr Let_def sub_identity_def split: prod.splits if_splits dest!: save_task_Inr)

lemma inv_claim:
  assumes "Run_loaded t \<in> set (sb_pending st)" "run_claim now pb t (drop_pending (Run_loaded t) st) = Inr (st', out)" "sub_inv st"
  shows "sub_inv (begin_turn out st')"
proof -
  note moved = claim_moves [OF assms(2)]
  have inv: "sub_inv st'" by (rule inv_moves [OF moved inv_drop [OF assms(3)]])
  show ?thesis
  proof (cases out)
    case (Inr t')
    have "run_tokens st' = run_tokens (drop_pending (Run_loaded t) st)" "sb_spawned st' = sb_spawned st"
      using moved by (simp_all add: moves_to_def run_tokens_def) (simp add: drop_pending_def)
    with run_tokens_drop [OF assms(1)] assms(3) have tokens: "add_mset (sk_id t) (run_tokens st') \<subseteq># mset (sb_spawned st')"
      by (simp add: sub_inv_def)
    have "sub_inv (add_pending (Run_active t') st')" by (rule inv_add [OF inv]) simp_all
    moreover have "run_tokens (begin_turn out st') = add_mset (sk_id t) (run_tokens st')"
      using claim_identity assms(2) Inr by (simp add: begin_turn_def run_tokens_def add_pending_def)
    ultimately show ?thesis using tokens Inr
      by (simp add: sub_inv_def keyed_def pending_ok_def begin_turn_def add_pending_def)
  qed (use inv in \<open>simp add: begin_turn_def\<close>)
qed

lemma turns_spawned: "sub_inv st \<Longrightarrow> mset (sb_turns st) \<subseteq># mset (sb_spawned st)"
proof -
  assume "sub_inv st"
  then have "run_tokens st \<subseteq># mset (sb_spawned st)" by (simp add: sub_inv_def)
  moreover have "mset (sb_turns st) \<subseteq># run_tokens st" by (simp add: run_tokens_def)
  ultimately show ?thesis by (rule subset_mset.trans [rotated])
qed

lemma inv_restart: "sub_inv st \<Longrightarrow> sub_inv (restart_service st)"
  using turns_spawned [of st] by (simp add: sub_inv_def keyed_def pending_ok_def run_tokens_def restart_service_def)

subsection \<open>Runs of the service\<close>

lemma inv_pending: "sub_inv st \<Longrightarrow> Run_done t res \<in> set (sb_pending st) \<Longrightarrow> rt_status res \<in> set sub_terminal"
  by (auto simp: sub_inv_def pending_ok_def)

lemma drop_pending_tasks [simp]: "sb_tasks (drop_pending x st) = sb_tasks st" "sb_tasks (add_pending x st) = sb_tasks st"
  by (simp_all add: drop_pending_def add_pending_def)

lemma merge_moves: "merge_subagent_result env parent i st = (st', r) \<Longrightarrow> moves_to st st'"
  by (auto simp: merge_subagent_result_def split: option.splits if_splits)

lemma sub_step_inv:
  assumes "sub_step env st st'" "sub_inv st"
  shows "sub_inv st'"
  using assms
proof (induction rule: sub_step.induct)
  case (create now fresh q st st' r)
  then show ?case by (blast intro: inv_moves create_moves)
next
  case (start now pb spawns i st st' r)
  then have "keyed st" by (simp add: sub_inv_def)
  with start start_cases show ?case by (blast intro: inv_moves inv_spawn)
next
  case (claim t st now pb st' out)
  then show ?case by (rule inv_claim)
next
  case (turn t st pb rep st' t' res)
  have "sub_inv st'" by (rule inv_moves [OF conclude_moves [OF turn.hyps(2)] inv_drop [OF turn.prems]])
  then show ?case by (rule inv_add) (use conclude_terminal [OF turn.hyps(2)] in simp_all)
next
  case (finish t res st now pb gate_error st' payload)
  from inv_pending [OF finish.prems finish.hyps(1)] finish_moves [OF finish.hyps(2)]
  show ?case by (blast intro: inv_moves inv_drop finish.prems)
next
  case (cancel_write t st now st' r)
  then show ?case by (blast intro: inv_moves inv_drop cancel_moves)
next
  case (reconcile_write t st now st' t')
  then show ?case by (blast intro: inv_moves inv_drop restart_moves)
next
  case (activity now i event tool action st st')
  then show ?case by (blast intro: inv_moves activity_moves)
next
  case (merge parent i st st' r)
  then show ?case by (blast intro: inv_moves merge_moves)
qed (simp_all add: inv_enter inv_add inv_restart)

lemma moves_follow: "moves_to st st' \<Longrightarrow> tasks_follow st st'"
  by (simp add: moves_to_def)

lemma drop_follow: "moves_to (drop_pending x st) st' \<Longrightarrow> tasks_follow st st'"
  by (simp add: moves_to_def tasks_follow_def)

lemma sub_step_follow:
  assumes "sub_step env st st'" "sub_inv st"
  shows "tasks_follow st st'"
  using assms
proof (induction rule: sub_step.induct)
  case (create now fresh q st st' r)
  then show ?case by (blast intro: moves_follow create_moves)
next
  case (start now pb spawns i st st' r)
  then have "keyed st" by (simp add: sub_inv_def)
  with start start_cases consider "moves_to st st'" | "spawned_by (strip i) st st'" by blast
  then show ?case
  proof cases
    case 2
    then obtain st1 where "moves_to st st1" "sb_tasks st' = sb_tasks st1" unfolding spawned_by_def by blast
    then show ?thesis by (simp add: moves_to_def tasks_follow_def)
  qed (rule moves_follow)
next
  case (enter i st)
  then show ?case by (simp add: enter_run_def Let_def split: sum.split)
next
  case (claim t st now pb st' out)
  have "sb_tasks (begin_turn out st') = sb_tasks st'" by (simp add: begin_turn_def split: sum.split)
  with drop_follow [OF claim_moves [OF claim.hyps(2)]] show ?case by (simp add: tasks_follow_def)
next
  case (turn t st pb rep st' t' res)
  from drop_follow [OF conclude_moves [OF turn.hyps(2)]] show ?case by (simp add: tasks_follow_def)
next
  case (finish t res st now pb gate_error st' payload)
  from inv_pending [OF finish.prems finish.hyps(1)] show ?case by (rule drop_follow [OF finish_moves [OF finish.hyps(2)]])
next
  case (cancel_write t st now st' r)
  then show ?case by (blast intro: drop_follow cancel_moves)
next
  case (reconcile_write t st now st' t')
  then show ?case by (blast intro: drop_follow restart_moves)
next
  case (activity now i event tool action st st')
  then show ?case by (blast intro: moves_follow activity_moves)
next
  case (merge parent i st st' r)
  then show ?case by (blast intro: moves_follow merge_moves)
qed (simp_all add: restart_service_def)

text \<open>The phase of a task: its status and identity, and once it is settled its outcome.\<close>

definition sub_phase :: "sub_state \<Rightarrow> string \<Rightarrow> _ option" where
  "sub_phase st i = map_option (\<lambda>t. (sk_status t, sub_identity t, if settled t then Some (sub_outcome t) else None)) (map_of (sb_tasks st) i)"

interpretation sub: guarded_lifecycle "sub_step env" sub_inv sub_phase "\<lambda>(s, _). sub_rank s" "\<lambda>(s, _). s \<in> set sub_terminal" for env
proof
  fix st st' i p
  assume "sub_inv st" "sub_step env st st'"
  then show "sub_inv st'" by (rule sub_step_inv [rotated])
  assume "sub_phase st i = Some p"
  then obtain t where t: "map_of (sb_tasks st) i = Some t"
    "p = (sk_status t, sub_identity t, if settled t then Some (sub_outcome t) else None)" by (auto simp: sub_phase_def)
  with sub_step_follow \<open>sub_inv st\<close> \<open>sub_step env st st'\<close> obtain r where r: "map_of (sb_tasks st') i = Some r" "follows t r"
    unfolding tasks_follow_def by blast
  have "sk_status r = sk_status t \<and> settled r \<and> sub_outcome r = sub_outcome t" if "settled t"
    using r(2) that settled_outcome [of r t] by (simp add: follows_def sub_outcome_def)
  then show "\<exists>p'. sub_phase st' i = Some p' \<and> (case p of (s, _) \<Rightarrow> sub_rank s) \<le> (case p' of (s, _) \<Rightarrow> sub_rank s) \<and>
      ((case p of (s, _) \<Rightarrow> s \<in> set sub_terminal) \<longrightarrow> p' = p)"
    using r t(2) by (auto simp: sub_phase_def follows_def settled_def)
qed

lemma run_follow: "(sub_step env)\<^sup>*\<^sup>* st st' \<Longrightarrow> sub_inv st \<Longrightarrow> tasks_follow st st'"
proof (induction rule: rtranclp_induct)
  case (step b c)
  from sub.ok_run [OF step.hyps(1) step.prems] have "tasks_follow b c" by (rule sub_step_follow [OF step.hyps(2)])
  with step.IH [OF step.prems] show ?case by (rule tasks_follow_trans)
qed simp

text \<open>The service starts on the records it finds.\<close>

definition service_start :: "sub_tasks \<Rightarrow> sub_state" where
  "service_start tasks = \<lparr>sb_tasks = tasks, sb_signals = [], sb_alive = [], sb_waiting = [], sb_pending = [], sb_spawned = [],
     sb_turns = [], sb_events = [], sb_candidates = []\<rparr>"

definition records_keyed :: "sub_tasks \<Rightarrow> bool" where
  "records_keyed tasks = list_all (\<lambda>(i, t). sk_id t = i) tasks"

lemma service_start_inv: "records_keyed tasks \<Longrightarrow> sub_inv (service_start tasks)"
  by (auto simp: sub_inv_def service_start_def keyed_def pending_ok_def run_tokens_def records_keyed_def list_all_iff dest!: map_of_SomeD)

end
