(* ===== verification/Delegation.thy ===== *)
theory Delegation
  imports Subagents
begin

section \<open>What holds of delegated tasks\<close>

text \<open>
  The properties of \<^verbatim>\<open>Subagents\<close>, over every interleaving of \<open>sub_step\<close> from a start of the service: what a settled task keeps,
  that a revision names one content, that a task gets one turn, what the answers of a run and of a cancellation are worth
  later, what a restart recovers; and one way a task is left running with no worker.
\<close>

subsection \<open>Lemmas\<close>

lemma reached_inv: "records_keyed tasks \<Longrightarrow> (sub_step env)\<^sup>*\<^sup>* (service_start tasks) st \<Longrightarrow> sub_inv st"
  using sub.ok_run service_start_inv by blast

lemma later_record:
  assumes "sub_inv st" "(sub_step env)\<^sup>*\<^sup>* st st'" "map_of (sb_tasks st) i = Some t"
  obtains t' where "map_of (sb_tasks st') i = Some t'" "follows t t'"
  using run_follow [OF assms(2,1)] assms(3) unfolding tasks_follow_def by blast

lemma later_outcome:
  assumes "sub_inv st" "(sub_step env)\<^sup>*\<^sup>* st st'" "map_of (sb_tasks st) i = Some t" "settled t"
  obtains t' where "map_of (sb_tasks st') i = Some t'" "settled t'" "sub_outcome t' = sub_outcome t"
proof -
  from assms(3,4) have "sub_phase st i = Some (sk_status t, sub_identity t, Some (sub_outcome t))" by (simp add: sub_phase_def)
  from sub.reached_final [OF assms(1,2) this] assms(4)
  have "sub_phase st' i = Some (sk_status t, sub_identity t, Some (sub_outcome t))" by (simp add: settled_def)
  then show thesis using that by (auto simp: sub_phase_def split: if_splits)
qed

text \<open>A save of a terminal copy leaves a settled record, the earlier one when there was one.\<close>

lemma save_settles:
  assumes "save_task t st = Inr (st', t')" "sk_status t \<in> set sub_terminal"
  shows "\<exists>r. map_of (sb_tasks st') (sk_id t) = Some r \<and> settled r \<and> sk_status t' = sk_status r \<and> sk_id t' = sk_id t \<and>
    (\<forall>p. map_of (sb_tasks st) (sk_id t) = Some p \<longrightarrow> settled p \<longrightarrow> sub_outcome r = sub_outcome p)"
proof -
  from save_task_Inr [OF assms(1)] obtain tasks r where r: "save_subagent (sk_id t) t (sb_tasks st) = Inr (tasks, r)"
    "st' = st\<lparr>sb_tasks := tasks\<rparr>" "sub_identity t' = sub_identity t" "sk_status t' = sk_status r" by blast
  from assms(2) have live: "sk_status t \<noteq> ''created''" by (auto simp: sub_terminal_def)
  note S = save_subagent_follows(2,3) [OF r(1) _ live]
  have "settled r"
  proof (cases "map_of (sb_tasks st) (sk_id t)")
    case None
    from save_subagent_new [OF r(1) this] assms(2) show ?thesis by (simp add: settled_def)
  next
    case (Some p)
    with S(1,2) [OF Some] assms(2) show ?thesis by (cases "settled p") (auto simp: settled_def sub_outcome_def)
  qed
  with r S show ?thesis by (simp add: save_subagent_at [OF r(1)] sub_identity_def)
qed

lemma finish_settles:
  assumes "finish_subagent env now pb gate_error t res st = Inr (st', payload)" "rt_status res \<in> set sub_terminal"
  obtains r where "map_of (sb_tasks st') (sk_id t) = Some r" "settled r" "sp_status payload = sk_status r"
    "sp_ok payload \<longleftrightarrow> sk_status r = ''succeeded''" "sb_candidates st' \<noteq> sb_candidates st \<longrightarrow> sk_status r = ''succeeded''"
    "\<And>p. map_of (sb_tasks st) (sk_id t) = Some p \<Longrightarrow> settled p \<Longrightarrow> sk_status r = sk_status p"
proof (rule finish_subagent_Inr [OF assms(1)])
  fix hit st1 st2 t' and res1 :: sub_result
  assume F: "sb_tasks st1 = sb_tasks st" "rt_status res1 = (if hit then ''cancelled'' else rt_status res)"
    "save_task (t\<lparr>sk_status := rt_status res1, sk_summary := rt_summary res1, sk_errors := rt_errors res1,
        sk_warnings := rt_warnings res1, sk_finished := now\<rparr>) st1 = Inr (st2, t')"
    "sb_tasks st' = sb_tasks st2" "sp_status payload = sk_status t'" "sp_ok payload \<longleftrightarrow> sk_status t' = ''succeeded''"
    "sb_candidates st' \<noteq> sb_candidates st \<longrightarrow> sk_status t' = ''succeeded''"
  from F(2) assms(2) have "rt_status res1 \<in> set sub_terminal" by (auto simp: sub_terminal_def)
  then have "sk_status (t\<lparr>sk_status := rt_status res1, sk_summary := rt_summary res1, sk_errors := rt_errors res1,
      sk_warnings := rt_warnings res1, sk_finished := now\<rparr>) \<in> set sub_terminal" by simp
  from save_settles [OF F(3) this] have "\<exists>r. map_of (sb_tasks st2) (sk_id t) = Some r \<and> settled r \<and> sk_status t' = sk_status r \<and>
      (\<forall>p. map_of (sb_tasks st1) (sk_id t) = Some p \<longrightarrow> settled p \<longrightarrow> sub_outcome r = sub_outcome p)" by simp blast
  then obtain r where r: "map_of (sb_tasks st2) (sk_id t) = Some r" "settled r" "sk_status t' = sk_status r"
    "\<forall>p. map_of (sb_tasks st1) (sk_id t) = Some p \<longrightarrow> settled p \<longrightarrow> sub_outcome r = sub_outcome p"
    by blast
  show thesis
  proof (rule that [of r])
    fix p assume "map_of (sb_tasks st) (sk_id t) = Some p" "settled p"
    with r(4) F(1) have "sub_outcome r = sub_outcome p" by simp
    then show "sk_status r = sk_status p" by (simp add: sub_outcome_def)
  qed (use r(1-3) F in simp_all)
qed

lemma cancel_answer:
  assumes "cancel_apply now t st = Inr (st1, Sub_status i s)"
  shows "\<exists>r. map_of (sb_tasks st1) (sk_id t) = Some r \<and> settled r \<and> sk_status r = ''cancelled'' \<and> i = sk_id t \<and> s = ''cancelled''"
proof (cases "sk_status t = ''cancelled''")
  case False
  let ?t = "t\<lparr>sk_status := ''cancelled'', sk_finished := now, sk_summary := ''Subagent cancelled''\<rparr>"
  let ?st = "st\<lparr>sb_signals := List.insert (sk_id t) (sb_signals st)\<rparr>"
  from False assms obtain st2 t' where save2: "save_task ?t ?st = Inr (st2, t')"
    by (cases "save_task ?t ?st") (simp_all add: cancel_apply_def Let_def split_paired_all)
  with False assms have "st2 = st1" and ans: "sk_status t' = ''cancelled'' \<and> i = sk_id t' \<and> s = sk_status t'"
    by (simp_all add: cancel_apply_def Let_def split: if_splits)
  with save2 have save: "save_task ?t ?st = Inr (st1, t')" by simp
  have "\<exists>r. map_of (sb_tasks st1) (sk_id t) = Some r \<and> settled r \<and> sk_status t' = sk_status r \<and> sk_id t' = sk_id t"
    using save_settles [OF save] by (simp add: sub_terminal_def) blast
  with ans show ?thesis by auto
qed (use assms in \<open>simp add: cancel_apply_def Let_def\<close>)

subsection \<open>Properties\<close>

text \<open>C20: a task that ended keeps its status, summary, errors, warnings, artifact and time of ending whatever workers, cancellations,
  restarts and late saves do; no task changes its identity or goes back to an earlier status.\<close>

theorem settled_subagent_frozen:
  assumes "records_keyed tasks" "(sub_step env)\<^sup>*\<^sup>* (service_start tasks) st" "(sub_step env)\<^sup>*\<^sup>* st st'"
    and "map_of (sb_tasks st) i = Some t"
  shows "\<exists>t'. map_of (sb_tasks st') i = Some t' \<and> sub_identity t' = sub_identity t \<and>
    sub_rank (sk_status t) \<le> sub_rank (sk_status t') \<and> (settled t \<longrightarrow> sub_outcome t' = sub_outcome t)"
proof (rule later_record [OF reached_inv [OF assms(1,2)] assms(3,4)])
  fix t' assume t': "map_of (sb_tasks st') i = Some t'" "follows t t'"
  note inv = reached_inv [OF assms(1,2)]
  from assms(4) t'(1) obtain x y where "sub_phase st i = Some (sk_status t, x)" "sub_phase st' i = Some (sk_status t', y)"
    by (simp add: sub_phase_def)
  from sub.reached_never_back [OF inv assms(3) this] have "sub_rank (sk_status t) \<le> sub_rank (sk_status t')" by simp
  moreover have "sub_outcome t' = sub_outcome t" if "settled t"
    using later_outcome [OF inv assms(3,4) that] t'(1) by (metis option.inject)
  ultimately show ?thesis using t' by (auto simp: follows_def)
qed

text \<open>The revision of a task never decreases, and a record that has the revision it had before is the record it was: an
  observer that has seen a revision has seen its content.\<close>

theorem revision_names_record:
  assumes "records_keyed tasks" "(sub_step env)\<^sup>*\<^sup>* (service_start tasks) st" "(sub_step env)\<^sup>*\<^sup>* st st'"
    and "map_of (sb_tasks st) i = Some t" "map_of (sb_tasks st') i = Some t'"
  shows "sk_revision t \<le> sk_revision t' \<and> (sk_revision t' = sk_revision t \<longrightarrow> t' = t)"
proof (rule later_record [OF reached_inv [OF assms(1,2)] assms(3,4)])
  fix r assume "map_of (sb_tasks st') i = Some r" "follows t r"
  with assms(5) show ?thesis by (auto simp: follows_def)
qed

text \<open>C7: however starts, cancellations, restarts of the service and workers interleave, a worker is started at most once for a task and
  the model turn of a task is begun at most once, by a worker that was started.\<close>

theorem subagent_runs_once:
  assumes "records_keyed tasks" "(sub_step env)\<^sup>*\<^sup>* (service_start tasks) st"
  shows "distinct (sb_spawned st) \<and> distinct (sb_turns st) \<and> set (sb_turns st) \<subseteq> set (sb_spawned st)"
proof -
  note inv = reached_inv [OF assms]
  then have "distinct (sb_spawned st)" by (simp add: sub_inv_def)
  with turns_spawned [OF inv] show ?thesis by (auto dest: distinct_submset mset_subset_eqD)
qed


text \<open>A cancellation that was acknowledged holds: the record says cancelled ever after, and a run of the task that ends later
  answers that it was cancelled.\<close>

theorem acknowledged_cancel_final:
  assumes "records_keyed tasks" "(sub_step env)\<^sup>*\<^sup>* (service_start tasks) st" "Cancel_loaded t \<in> set (sb_pending st)"
    and "cancel_apply now t (drop_pending (Cancel_loaded t) st) = Inr (st1, Sub_status i s)" "(sub_step env)\<^sup>*\<^sup>* st1 st'"
  shows "i = sk_id t \<and> s = ''cancelled'' \<and> (\<exists>r. map_of (sb_tasks st') i = Some r \<and> sk_status r = ''cancelled'') \<and>
    (\<forall>now pb gate_error t2 res st2 payload. sk_id t2 = i \<longrightarrow> rt_status res \<in> set sub_terminal \<longrightarrow>
       finish_subagent env now pb gate_error t2 res st' = Inr (st2, payload) \<longrightarrow> sp_status payload = ''cancelled'' \<and> \<not> sp_ok payload)"
proof -
  from cancel_answer [OF assms(4)] obtain r where r: "map_of (sb_tasks st1) (sk_id t) = Some r" "settled r" "sk_status r = ''cancelled''"
    and ans: "i = sk_id t" "s = ''cancelled''" by blast
  have "sub_step env st st1" by (rule sub_step.cancel_write [OF assms(3,4)])
  with reached_inv [OF assms(1,2)] have inv: "sub_inv st1" by (rule sub_step_inv [rotated])
  from later_outcome [OF inv assms(5) r(1,2)] r(3) obtain q where q: "map_of (sb_tasks st') (sk_id t) = Some q" "settled q"
    "sk_status q = ''cancelled''" by (auto simp: sub_outcome_def)
  have "sp_status payload = ''cancelled'' \<and> \<not> sp_ok payload"
    if "sk_id t2 = sk_id t" "rt_status res \<in> set sub_terminal" "finish_subagent env now' pb gate_error t2 res st' = Inr (st2, payload)"
    for now' pb gate_error t2 res st2 payload
    by (rule finish_settles [OF that(3,2)]) (use q that(1) in simp)
  with q ans show ?thesis by auto
qed

subsection \<open>Restart\<close>

definition restart_outcome :: "sub_env \<Rightarrow> string \<Rightarrow> string \<Rightarrow> sub_task \<Rightarrow> sub_task \<Rightarrow> bool" where
  "restart_outcome env boundary now t r =
     (if interrupted env boundary t
      then sub_outcome r = (''failed'', ''Subagent interrupted by service restart'', now, sk_errors t @ [''service_restart_interrupted''],
             sk_warnings t, sk_artifact t, sk_total_chars t)
      else r = t)"

lemma restart_apply_at:
  assumes "map_of (sb_tasks st) (sk_id t) = Some t" "sub_id_ok (strip (sk_id t))" "interrupted env boundary t"
  shows "\<exists>st' t' r. restart_apply now t st = Inr (st', t') \<and> map_of (sb_tasks st') = (map_of (sb_tasks st))(sk_id t \<mapsto> r) \<and>
    sk_id t' = sk_id t \<and> restart_outcome env boundary now t r"
proof -
  let ?t = "t\<lparr>sk_status := ''failed'', sk_finished := now, sk_summary := ''Subagent interrupted by service restart'',
      sk_errors := sk_errors t @ [''service_restart_interrupted'']\<rparr>"
  have id: "sub_identity t = sub_identity ?t" by (simp add: sub_identity_def)
  from save_subagent_total [OF assms(1) id] obtain tasks r where save: "save_subagent (sk_id t) ?t (sb_tasks st) = Inr (tasks, r)" by blast
  from assms(3) have "\<not> settled t" by (auto simp: interrupted_def settled_def sub_terminal_def)
  then have "sub_outcome r = sub_outcome ?t" using save_subagent_follows(3) [OF save assms(1)] by simp
  then have "restart_outcome env boundary now t r" using assms(3) by (simp add: restart_outcome_def sub_outcome_def)
  with save assms(2) save_subagent_at [OF save] show ?thesis by (simp add: restart_apply_def save_task_def) blast
qed

lemma restart_fold:
  assumes "fold (restart_one env boundary now) ts (st, ids) = (st', ids')" "distinct (map sk_id ts)"
    and "\<forall>t \<in> set ts. map_of (sb_tasks st) (sk_id t) = Some t \<and> sub_id_ok (strip (sk_id t))"
  shows "(\<forall>t \<in> set ts. \<exists>r. map_of (sb_tasks st') (sk_id t) = Some r \<and> restart_outcome env boundary now t r) \<and>
    (\<forall>i. i \<notin> sk_id ` set ts \<longrightarrow> map_of (sb_tasks st') i = map_of (sb_tasks st) i) \<and>
    ids' = ids @ map sk_id (filter (interrupted env boundary) ts)"
  using assms
proof (induction ts arbitrary: st ids)
  case (Cons t ts)
  show ?case
  proof (cases "interrupted env boundary t")
    case True
    from restart_apply_at [OF _ _ True, of st now] Cons.prems(3) obtain st1 t1 r where one: "restart_apply now t st = Inr (st1, t1)"
      "map_of (sb_tasks st1) = (map_of (sb_tasks st))(sk_id t \<mapsto> r)" "sk_id t1 = sk_id t" "restart_outcome env boundary now t r" by auto
    with True have "restart_one env boundary now t (st, ids) = (st1, ids @ [sk_id t])" by (simp add: restart_one_def)
    with Cons.prems(1) have rest: "fold (restart_one env boundary now) ts (st1, ids @ [sk_id t]) = (st', ids')" by simp
    have "map_of (sb_tasks st1) (sk_id u) = Some u \<and> sub_id_ok (strip (sk_id u))" if "u \<in> set ts" for u
    proof -
      from Cons.prems(2) that have "sk_id u \<noteq> sk_id t" by (metis distinct.simps(2) image_eqI list.simps(9) set_map)
      with one(2) Cons.prems(3) that show ?thesis by simp
    qed
    then have "\<forall>u \<in> set ts. map_of (sb_tasks st1) (sk_id u) = Some u \<and> sub_id_ok (strip (sk_id u))" by blast
    from Cons.IH [OF rest _ this] Cons.prems(2) have
      IH: "\<forall>u \<in> set ts. \<exists>r. map_of (sb_tasks st') (sk_id u) = Some r \<and> restart_outcome env boundary now u r"
        "\<forall>i. i \<notin> sk_id ` set ts \<longrightarrow> map_of (sb_tasks st') i = map_of (sb_tasks st1) i"
        "ids' = (ids @ [sk_id t]) @ map sk_id (filter (interrupted env boundary) ts)" by simp_all
    from Cons.prems(2) have "sk_id t \<notin> sk_id ` set ts" by simp
    with IH(2) one(2) have "map_of (sb_tasks st') (sk_id t) = Some r" by simp
    with IH one(2,4) True show ?thesis by simp
  next
    case False
    then have "restart_one env boundary now t (st, ids) = (st, ids)" by (simp add: restart_one_def)
    with Cons.prems(1) have rest: "fold (restart_one env boundary now) ts (st, ids) = (st', ids')" by simp
    from Cons.IH [OF rest] Cons.prems(2,3) False show ?thesis by (auto simp: restart_outcome_def)
  qed
qed simp

lemma listed_tasks:
  assumes "records_keyed (sb_tasks st)" "distinct (map fst (sb_tasks st))" "length (sb_tasks st) \<le> 1000"
  shows "set (list_subagents 1000 st) = snd ` set (sb_tasks st)" "distinct (map sk_id (list_subagents 1000 st))"
proof -
  have "nat 1000 \<ge> length (sb_tasks st)" using assms(3) by simp
  then have list: "list_subagents 1000 st = rev (sort_key sk_created (rev (map snd (sb_tasks st))))" by (simp add: list_subagents_def)
  then show "set (list_subagents 1000 st) = snd ` set (sb_tasks st)" by simp
  have "mset (map sk_id (list_subagents 1000 st)) = mset (map (sk_id \<circ> snd) (sb_tasks st))"
    by (simp add: list image_mset.compositionality)
  moreover have "map (sk_id \<circ> snd) (sb_tasks st) = map fst (sb_tasks st)" using assms(1) by (auto simp: records_keyed_def list_all_iff)
  ultimately have "mset (map sk_id (list_subagents 1000 st)) = mset (map fst (sb_tasks st))" by simp
  with assms(2) show "distinct (map sk_id (list_subagents 1000 st))" by (metis mset_eq_imp_distinct_iff)
qed

text \<open>After a restart exactly the tasks that were created or running before the boundary are marked failed, with the error that says so
  after the errors they had, every other record is left as it was, and the tasks returned are the ones that were marked.\<close>

theorem restart_interrupts_live_tasks:
  assumes "records_keyed (sb_tasks st)" "distinct (map fst (sb_tasks st))" "length (sb_tasks st) \<le> 1000"
    and "\<forall>i \<in> fst ` set (sb_tasks st). sub_id_ok (strip i)" "reconcile_subagent_tasks env boundary now st = (st', ids)"
  shows "(\<forall>i t. map_of (sb_tasks st) i = Some t \<longrightarrow>
      (\<exists>r. map_of (sb_tasks st') i = Some r \<and> restart_outcome env boundary now t r)) \<and>
    distinct ids \<and> set ids = {i. \<exists>t. map_of (sb_tasks st) i = Some t \<and> interrupted env boundary t}"
proof -
  note L = listed_tasks [OF assms(1-3)]
  have keyed: "sk_id t = i" if "(i, t) \<in> set (sb_tasks st)" for i t using assms(1) that by (auto simp: records_keyed_def list_all_iff)
  have at: "map_of (sb_tasks st) i = Some t \<longleftrightarrow> (i, t) \<in> set (sb_tasks st)" for i t using assms(2) by simp
  have "\<forall>t \<in> set (list_subagents 1000 st). map_of (sb_tasks st) (sk_id t) = Some t \<and> sub_id_ok (strip (sk_id t))"
    using keyed at assms(4) by (fastforce simp: L(1))
  from restart_fold [OF assms(5) [unfolded reconcile_subagent_tasks_def] L(2) this]
  have each: "\<forall>t \<in> set (list_subagents 1000 st). \<exists>r. map_of (sb_tasks st') (sk_id t) = Some r \<and> restart_outcome env boundary now t r"
    and ids: "ids = map sk_id (filter (interrupted env boundary) (list_subagents 1000 st))" by simp_all
  have "\<exists>r. map_of (sb_tasks st') i = Some r \<and> restart_outcome env boundary now t r" if "map_of (sb_tasks st) i = Some t" for i t
  proof -
    from that at have "(i, t) \<in> set (sb_tasks st)" by simp
    with each keyed show ?thesis by (force simp: L(1))
  qed
  moreover have "distinct ids" using L(2) by (simp add: ids distinct_map_filter)
  moreover have "set ids = {i. \<exists>t. map_of (sb_tasks st) i = Some t \<and> interrupted env boundary t}"
    using keyed at by (force simp: ids L(1))
  ultimately show ?thesis by blast
qed

text \<open>C39: when the parent is cancelled after the start of a task and before its worker claims it, the worker leaves without a save: the
  record stays running with no worker, and it cannot be started again.\<close>

theorem parent_cancel_strands_task:
  assumes "map_of (sb_tasks st) (sk_id t) = Some t" "sk_status t = ''running''" "strip (sk_id t) = sk_id t" "pb_parent pb"
    and "run_claim now pb t st = Inr (st', out)"
  shows "map_of (sb_tasks st') (sk_id t) = Some t \<and> sk_id t \<notin> set (sb_alive st') \<and> out = Inl (Sub_payload (task_payload False t)) \<and>
    (\<exists>r. start_subagent_task env now' pb' spawns (sk_id t) st' = Inr (st', r))"
proof -
  from assms(2,4,5) have st': "sb_tasks st' = sb_tasks st" "sk_id t \<notin> set (sb_alive st')" "out = Inl (Sub_payload (task_payload False t))"
    by (auto simp: run_claim_def cancel_probe_def release_worker_def Let_def)
  with assms(1-3) have "load_task (sk_id t) st' = Some t \<or> \<not> sub_id_ok (strip (sk_id t))" by (simp add: load_task_def)
  with st' assms(1,2,3) show ?thesis by (auto simp: start_subagent_task_def)
qed

subsection \<open>A run of the service\<close>

definition demo_sub_env :: sub_env where
  "demo_sub_env = \<lparr>se_workspace = ''ws'', se_clean = id, se_time = (\<lambda>s. None)\<rparr>"

definition demo_sub_id :: string where "demo_sub_id = ''sub-0000000a''"

definition demo_order :: sub_order where
  "demo_order = \<lparr>so_parent = ''task'', so_session = ''session'', so_operation = [], so_operation_call = [], so_profile = ''file_agent'',
     so_goal = ''look'', so_context_refs = [], so_workbench = [], so_max_steps = None, so_coding = False\<rparr>"

definition demo_probe :: sub_probe where "demo_probe = \<lparr>pb_polls = True, pb_parent = False\<rparr>"

definition demo_report :: turn_report where
  "demo_report = \<lparr>tr_raised = None, tr_present = True, tr_ok = True, tr_final = ''found'', tr_outcome = ''done'',
     tr_tools = [(''workspace.file'', True, ''read'')], tr_errors = [], tr_artifact = Artifact_saved ''art''\<rparr>"

definition demo_fresh :: sub_task where "demo_fresh = (new_task demo_sub_env ''t0'' demo_sub_id demo_order)\<lparr>sk_revision := 1\<rparr>"

definition demo_sub_running :: sub_task where
  "demo_sub_running = demo_fresh\<lparr>sk_status := ''running'', sk_started := ''t1'', sk_revision := 2\<rparr>"

definition demo_sub_done :: sub_task where
  "demo_sub_done = demo_sub_running\<lparr>sk_artifact := ''art'', sk_total_chars := 5, sk_observations := [(''execution_outcome'', VStr ''done'')]\<rparr>"

definition demo_result :: sub_result where
  "demo_result = no_result\<lparr>rt_summary := ''found'', rt_findings := [''found''], rt_artifacts := [''art''],
     rt_tools := [(''workspace.file'', True, ''read'')]\<rparr>"

definition demo_succeeded_task :: sub_task where
  "demo_succeeded_task = demo_sub_done\<lparr>sk_status := ''succeeded'', sk_summary := ''found'', sk_finished := ''t3'', sk_revision := 3\<rparr>"

definition demo_cancelled_task :: sub_task where
  "demo_cancelled_task = demo_sub_running\<lparr>sk_status := ''cancelled'', sk_summary := ''Subagent cancelled'', sk_finished := ''t4'', sk_revision := 3\<rparr>"

definition demo_sub :: "sub_task \<Rightarrow> sub_pending list \<Rightarrow> string list \<Rightarrow> sub_state" where
  "demo_sub t pending turns =
     \<lparr>sb_tasks = [(demo_sub_id, t)], sb_signals = [], sb_alive = [demo_sub_id], sb_waiting = [], sb_pending = pending,
      sb_spawned = [demo_sub_id], sb_turns = turns, sb_events = [(''subagent_created'', ''task'', ''session'')], sb_candidates = []\<rparr>"

definition demo_created :: sub_state where
  "demo_created = (demo_sub demo_fresh [] [])\<lparr>sb_alive := [], sb_spawned := []\<rparr>"

definition demo_started :: sub_state where
  "demo_started = (demo_sub demo_sub_running [] [])\<lparr>sb_waiting := [demo_sub_id]\<rparr>"

definition demo_finished :: sub_state where
  "demo_finished = (demo_sub demo_succeeded_task [] [demo_sub_id])
     \<lparr>sb_alive := [], sb_events := [(''subagent_created'', ''task'', ''session''), (''subagent_succeeded'', ''task'', ''session'')],
      sb_candidates := [(demo_sub_id, ''workspace.file'', ''read'')]\<rparr>"

definition demo_cancelled :: sub_state where
  "demo_cancelled = (demo_sub demo_cancelled_task [Run_active demo_sub_running] [demo_sub_id])\<lparr>sb_signals := [demo_sub_id]\<rparr>"

definition demo_answer :: sub_payload where
  "demo_answer = \<lparr>sp_ok = True, sp_id = demo_sub_id, sp_status = ''succeeded'', sp_summary = ''found'', sp_findings = [''found''],
     sp_tools = [(''workspace.file'', True, ''read'')], sp_errors = [], sp_warnings = []\<rparr>"

lemma demo_calls:
  "create_subagent_task demo_sub_env ''t0'' demo_sub_id demo_order (service_start []) = Inr (demo_created, Sub_created demo_sub_id ''File Agent'')"
  "start_subagent_task demo_sub_env ''t1'' demo_probe (Inr ()) demo_sub_id demo_created = Inr (demo_started, Sub_status demo_sub_id ''running'')"
  "enter_run demo_sub_env demo_sub_id demo_started = demo_sub demo_sub_running [Run_loaded demo_sub_running] []"
  by code_simp+

lemma demo_sub_turns:
  "run_claim ''t2'' demo_probe demo_sub_running (demo_sub demo_sub_running [] []) = Inr (demo_sub demo_sub_running [] [], Inr demo_sub_running)"
  "conclude_turn demo_probe demo_report demo_sub_running (demo_sub demo_sub_running [] [demo_sub_id]) =
     (demo_sub demo_sub_running [] [demo_sub_id], demo_sub_done, demo_result)"
  "finish_subagent demo_sub_env ''t3'' demo_probe None demo_sub_done demo_result (demo_sub demo_sub_running [] [demo_sub_id]) =
     Inr (demo_finished, demo_answer)"
  "cancel_apply ''t4'' demo_sub_running (demo_sub demo_sub_running [Run_active demo_sub_running] [demo_sub_id]) =
     Inr (demo_cancelled, Sub_status demo_sub_id ''cancelled'')"
  by code_simp+

lemma demo_cancel_load: "cancel_load demo_sub_env demo_sub_id (demo_sub demo_sub_running [Run_active demo_sub_running] [demo_sub_id]) = Inr demo_sub_running"
  by code_simp

lemma demo_sub_ids: "sk_id demo_sub_running = demo_sub_id" "sk_status demo_sub_running = ''running''" "strip demo_sub_id = demo_sub_id" "sub_id_ok demo_sub_id"
  by code_simp+

lemma demo_pending:
  "drop_pending x (demo_sub t [x] turns) = demo_sub t [] turns" "drop_pending x (demo_sub t [x, y] turns) = demo_sub t [y] turns"
  "add_pending x (demo_sub t pending turns) = demo_sub t (x # pending) turns"
  "begin_turn (Inr demo_sub_running) (demo_sub t [] []) = demo_sub t [Run_active demo_sub_running] [demo_sub_id]"
  "sb_pending (demo_sub t pending turns) = pending" "sb_waiting demo_started = [demo_sub_id]"
  by (simp_all add: drop_pending_def add_pending_def begin_turn_def demo_sub_def demo_sub_ids demo_started_def)

lemma demo_start_run: "(sub_step demo_sub_env)\<^sup>*\<^sup>* (service_start []) demo_started"
proof -
  have "sub_step demo_sub_env (service_start []) demo_created"
    by (rule sub_step.create [OF demo_calls(1)]) (simp add: service_start_def)
  moreover have "sub_step demo_sub_env demo_created demo_started" by (rule sub_step.start [OF demo_calls(2)])
  ultimately show ?thesis by (meson rtranclp.rtrancl_into_rtrancl rtranclp.rtrancl_refl)
qed

lemma demo_turn_run:
  "(sub_step demo_sub_env)\<^sup>*\<^sup>* demo_started (demo_sub demo_sub_running [Run_active demo_sub_running] [demo_sub_id])"
  "sub_step demo_sub_env (demo_sub demo_sub_running [Run_active demo_sub_running] [demo_sub_id])
     (demo_sub demo_sub_running [Run_done demo_sub_done demo_result] [demo_sub_id])"
  "sub_step demo_sub_env (demo_sub demo_sub_running [Run_active demo_sub_running] [demo_sub_id])
     (demo_sub demo_sub_running [Cancel_loaded demo_sub_running, Run_active demo_sub_running] [demo_sub_id])"
  "sub_step demo_sub_env (demo_sub demo_sub_running [Run_done demo_sub_done demo_result] [demo_sub_id]) demo_finished"
proof -
  have "sub_step demo_sub_env demo_started (demo_sub demo_sub_running [Run_loaded demo_sub_running] [])"
    using sub_step.enter [of demo_sub_id demo_started demo_sub_env] by (simp add: demo_calls(3) demo_pending)
  moreover have "sub_step demo_sub_env (demo_sub demo_sub_running [Run_loaded demo_sub_running] [])
      (demo_sub demo_sub_running [Run_active demo_sub_running] [demo_sub_id])"
    using sub_step.claim [where t = demo_sub_running and st = "demo_sub demo_sub_running [Run_loaded demo_sub_running] []" and now = "''t2''"
        and pb = demo_probe and st' = "demo_sub demo_sub_running [] []" and out = "Inr demo_sub_running" and env = demo_sub_env] demo_sub_turns(1)
    by (simp add: demo_pending)
  ultimately show "(sub_step demo_sub_env)\<^sup>*\<^sup>* demo_started (demo_sub demo_sub_running [Run_active demo_sub_running] [demo_sub_id])"
    by (meson rtranclp.rtrancl_into_rtrancl rtranclp.rtrancl_refl)
  show "sub_step demo_sub_env (demo_sub demo_sub_running [Run_active demo_sub_running] [demo_sub_id])
     (demo_sub demo_sub_running [Run_done demo_sub_done demo_result] [demo_sub_id])"
    using sub_step.turn [where t = demo_sub_running and st = "demo_sub demo_sub_running [Run_active demo_sub_running] [demo_sub_id]"
        and pb = demo_probe and rep = demo_report and st' = "demo_sub demo_sub_running [] [demo_sub_id]" and t' = demo_sub_done
        and res = demo_result and env = demo_sub_env] demo_sub_turns(2)
    by (simp add: demo_pending)
  show "sub_step demo_sub_env (demo_sub demo_sub_running [Run_active demo_sub_running] [demo_sub_id])
     (demo_sub demo_sub_running [Cancel_loaded demo_sub_running, Run_active demo_sub_running] [demo_sub_id])"
    using sub_step.cancel_read [OF demo_cancel_load] by (simp add: demo_pending)
  show "sub_step demo_sub_env (demo_sub demo_sub_running [Run_done demo_sub_done demo_result] [demo_sub_id]) demo_finished"
    by (rule sub_step.finish [of demo_sub_done demo_result _ _ "''t3''" demo_probe None _ demo_answer]) (simp_all add: demo_pending demo_sub_turns(3))
qed

lemma demo_reached:
  "(sub_step demo_sub_env)\<^sup>*\<^sup>* (service_start []) (demo_sub demo_sub_running [Run_done demo_sub_done demo_result] [demo_sub_id])"
  "(sub_step demo_sub_env)\<^sup>*\<^sup>* (service_start []) (demo_sub demo_sub_running [Cancel_loaded demo_sub_running, Run_active demo_sub_running] [demo_sub_id])"
  "(sub_step demo_sub_env)\<^sup>*\<^sup>* demo_started demo_finished"
  "records_keyed []"
proof -
  note run = rtranclp_trans [OF demo_start_run demo_turn_run(1)]
  show "(sub_step demo_sub_env)\<^sup>*\<^sup>* (service_start []) (demo_sub demo_sub_running [Run_done demo_sub_done demo_result] [demo_sub_id])"
    by (rule rtranclp.rtrancl_into_rtrancl [OF run demo_turn_run(2)])
  show "(sub_step demo_sub_env)\<^sup>*\<^sup>* (service_start []) (demo_sub demo_sub_running [Cancel_loaded demo_sub_running, Run_active demo_sub_running] [demo_sub_id])"
    by (rule rtranclp.rtrancl_into_rtrancl [OF run demo_turn_run(3)])
  show "(sub_step demo_sub_env)\<^sup>*\<^sup>* demo_started demo_finished"
    by (rule rtranclp.rtrancl_into_rtrancl [OF rtranclp.rtrancl_into_rtrancl [OF demo_turn_run(1,2)] demo_turn_run(4)])
qed (simp add: records_keyed_def)

lemma demo_maps:
  "map_of (sb_tasks (demo_sub t pending turns)) demo_sub_id = Some t" "map_of (sb_tasks demo_started) demo_sub_id = Some demo_sub_running"
  "map_of (sb_tasks demo_finished) demo_sub_id = Some demo_succeeded_task" "settled demo_succeeded_task"
  "sk_revision demo_sub_running = 2" "sk_revision demo_succeeded_task = 3"
  by (simp_all add: demo_sub_def demo_started_def demo_finished_def settled_def sub_terminal_def demo_succeeded_task_def demo_sub_done_def demo_sub_running_def)

theorem settled_subagent_frozen_witness:
  "settled demo_succeeded_task \<and> (\<exists>t'. map_of (sb_tasks (restart_service demo_finished)) demo_sub_id = Some t' \<and>
     sub_outcome t' = sub_outcome demo_succeeded_task)"
proof -
  have "(sub_step demo_sub_env)\<^sup>*\<^sup>* demo_finished (restart_service demo_finished)" by (blast intro: sub_step.restart)
  from settled_subagent_frozen [OF demo_reached(4) rtranclp_trans [OF demo_start_run demo_reached(3)] this demo_maps(3)] demo_maps(4)
  show ?thesis by blast
qed

theorem revision_names_record_witness: "sk_revision demo_sub_running \<le> sk_revision demo_succeeded_task \<and> demo_sub_running \<noteq> demo_succeeded_task"
  using revision_names_record [OF demo_reached(4) demo_start_run demo_reached(3) demo_maps(2,3)] demo_maps(5,6) by auto

theorem subagent_runs_once_witness: "sb_turns demo_finished = [demo_sub_id] \<and> set (sb_turns demo_finished) \<subseteq> set (sb_spawned demo_finished)"
  using subagent_runs_once [OF demo_reached(4) rtranclp_trans [OF demo_start_run demo_reached(3)]]
  by (simp add: demo_finished_def demo_sub_def)


theorem acknowledged_cancel_final_witness:
  "\<exists>r. map_of (sb_tasks (restart_service demo_cancelled)) demo_sub_id = Some r \<and> sk_status r = ''cancelled''"
proof -
  have "(sub_step demo_sub_env)\<^sup>*\<^sup>* demo_cancelled (restart_service demo_cancelled)" by (blast intro: sub_step.restart)
  then show ?thesis
    using acknowledged_cancel_final [OF demo_reached(4,2), of demo_sub_running "''t4''" demo_cancelled demo_sub_id "''cancelled''"]
      demo_sub_turns(4) by (simp add: demo_pending)
qed

theorem restart_interrupts_live_tasks_witness:
  "\<exists>st' r. reconcile_subagent_tasks demo_sub_env ''t9'' ''t9'' demo_started = (st', [demo_sub_id]) \<and>
     map_of (sb_tasks st') demo_sub_id = Some r \<and> restart_outcome demo_sub_env ''t9'' ''t9'' demo_sub_running r"
proof -
  obtain st' ids where eq: "reconcile_subagent_tasks demo_sub_env ''t9'' ''t9'' demo_started = (st', ids)" by fastforce
  have tasks: "sb_tasks demo_started = [(demo_sub_id, demo_sub_running)]" by (simp add: demo_started_def demo_sub_def)
  have "interrupted demo_sub_env ''t9'' demo_sub_running" by code_simp
  with restart_interrupts_live_tasks [OF _ _ _ _ eq] demo_sub_ids have "distinct ids \<and> set ids = {demo_sub_id}"
    "\<exists>r. map_of (sb_tasks st') demo_sub_id = Some r \<and> restart_outcome demo_sub_env ''t9'' ''t9'' demo_sub_running r"
    by (auto simp: tasks records_keyed_def)
  moreover from this(1) have "ids = [demo_sub_id]" by (cases ids; cases "tl ids") auto
  ultimately show ?thesis using eq by blast
qed

theorem parent_cancel_strands_task_witness:
  "\<exists>st' out. run_claim ''t2'' \<lparr>pb_polls = False, pb_parent = True\<rparr> demo_sub_running (demo_sub demo_sub_running [] []) = Inr (st', out) \<and>
     map_of (sb_tasks st') demo_sub_id = Some demo_sub_running \<and> demo_sub_id \<notin> set (sb_alive st')"
proof -
  obtain st' out where eq: "run_claim ''t2'' \<lparr>pb_polls = False, pb_parent = True\<rparr> demo_sub_running (demo_sub demo_sub_running [] []) = Inr (st', out)"
    by (simp add: run_claim_def cancel_probe_def demo_sub_ids Let_def)
  have "map_of (sb_tasks (demo_sub demo_sub_running [] [])) (sk_id demo_sub_running) = Some demo_sub_running" by (simp add: demo_sub_ids demo_maps)
  from parent_cancel_strands_task [OF this demo_sub_ids(2) _ _ eq] eq show ?thesis by (simp add: demo_sub_ids)
qed

end
