(* ===== verification/Memory_Store.thy ===== *)
theory Memory_Store
  imports Job_Redaction
begin

section \<open>The store of governed memories\<close>

text \<open>
  \<open>MemoryRecord\<close> and \<open>MemoryStore\<close> of \<^verbatim>\<open>storage/memory_governance.py\<close>: the memories of one user, an association list from
  identifiers (file names) to records, the most recently written first, which is the order the store lists them in. All
  operations hold the mutation lock of the user, so each is a function on the store. A confidence is in hundredths. The
  projection into the retrieval index, the migration of records of schema 1 and unreadable files are left out.
\<close>

record mem_record =
  mm_id :: string
  mm_workspace :: string
  mm_session :: string
  mm_task :: string
  mm_scope :: string
  mm_type :: string
  mm_status :: string
  mm_source :: string
  mm_source_ref :: string
  mm_content :: string
  mm_summary :: string
  mm_confidence :: int
  mm_expires_at :: string
  mm_citations :: "pyval list"
  mm_group :: string
  mm_created_by :: string
  mm_created_at :: string
  mm_updated_at :: string
  mm_metadata :: pydict

type_synonym mem_store = "(string \<times> mem_record) list"

text \<open>One event of the memory journal with its tool calls: identifier, success, summary.\<close>

record mem_event =
  ev_id :: string
  ev_created :: string
  ev_tools :: "(string \<times> bool \<times> string) list"

text \<open>\<open>me_clean\<close> is \<open>redact_text\<close> and \<open>me_secret\<close> is \<open>contains_secret\<close> of \<^verbatim>\<open>storage/redaction.py\<close>, \<open>me_time\<close> is \<open>from_iso\<close> (\<open>None\<close> when it
  raises), \<open>me_clock\<close> the clock in the same unit, \<open>me_events\<close> the journal of a session. \<open>me_observation\<close> and \<open>me_title\<close> compose the (Chinese) text and title of an observation.\<close>

record mem_env =
  me_clean :: "string \<Rightarrow> string"
  me_secret :: "string \<Rightarrow> bool"
  me_time :: "string \<Rightarrow> int option"
  me_clock :: int
  me_events :: "string \<Rightarrow> string \<Rightarrow> mem_event list"
  me_observation :: "string \<Rightarrow> string \<Rightarrow> bool \<Rightarrow> string \<Rightarrow> string"
  me_title :: "string \<Rightarrow> string"

subsection \<open>Redaction before a write\<close>

text \<open>\<open>s.replace("[REDACTED_SECRET]", "[REDACTED]")\<close>\<close>

function unmark :: "string \<Rightarrow> string" where
  "unmark s =
     (if s = [] then []
      else if starts_with s redacted_secret then ''[REDACTED]'' @ unmark (drop (length redacted_secret) s)
      else hd s # unmark (tl s))"
  by auto
termination by (relation "measure length") (auto simp: redacted_secret_def)

declare unmark.simps [simp del]

definition mem_redact :: "mem_env \<Rightarrow> string \<Rightarrow> string" where
  "mem_redact env s = unmark (me_clean env s)"

fun normalize_mask :: "pyval \<Rightarrow> pyval" where
  "normalize_mask (VDict d) = VDict (map (\<lambda>(k, v). (k, normalize_mask v)) d)"
| "normalize_mask (VList xs) = VList (map normalize_mask xs)"
| "normalize_mask (VStr s) = VStr (unmark s)"
| "normalize_mask v = v"

fun redact_structured :: "mem_env \<Rightarrow> pyval \<Rightarrow> pyval" where
  "redact_structured env (VDict d) = normalize_mask (redact_value (me_clean env) (VDict d))"
| "redact_structured env (VList xs) = VList (map (redact_structured env) xs)"
| "redact_structured env (VStr s) = VStr (mem_redact env s)"
| "redact_structured env v = v"

definition clean_record :: "mem_env \<Rightarrow> mem_record \<Rightarrow> mem_record" where
  "clean_record env r =
     r\<lparr>mm_content := mem_redact env (mm_content r), mm_summary := mem_redact env (mm_summary r),
       mm_source_ref := mem_redact env (mm_source_ref r), mm_citations := map (redact_structured env) (mm_citations r),
       mm_metadata := dict_of (redact_structured env (VDict (mm_metadata r)))\<rparr>"

definition save_memory :: "mem_env \<Rightarrow> mem_record \<Rightarrow> mem_store \<Rightarrow> mem_store" where
  "save_memory env r s = (mm_id r, clean_record env r) # AList.delete (mm_id r) s"

subsection \<open>Reading\<close>

definition memory_id_ok :: "string \<Rightarrow> bool" where
  "memory_id_ok i = (length i = 16 \<and> starts_with i ''mem-'' \<and> list_all (\<lambda>c. is_digit c \<or> c \<in> set ''abcdef'') (drop 4 i))"

definition shared_with :: "string \<Rightarrow> mem_record \<Rightarrow> bool" where
  "shared_with ws r = (mm_scope r = ''global'' \<or> mm_workspace r = ws)"

definition get_memory :: "string \<Rightarrow> string \<Rightarrow> mem_store \<Rightarrow> mem_record option" where
  "get_memory ws i s =
     (if \<not> memory_id_ok i then None
      else case map_of s i of Some r \<Rightarrow> if shared_with ws r then Some r else None | None \<Rightarrow> None)"

definition list_all_memories :: "string \<Rightarrow> mem_store \<Rightarrow> mem_record list" where
  "list_all_memories ws s = filter (shared_with ws) (map snd s)"

definition memory_types :: "string list" where
  "memory_types = [''core_rule'', ''semantic_fact'', ''episodic_case'', ''procedural_rule'', ''profile'', ''knowledge_note'']"

definition is_retrievable :: "mem_env \<Rightarrow> mem_record \<Rightarrow> bool" where
  "is_retrievable env r =
     (mm_status r = ''active'' \<and> mm_type r \<in> set memory_types \<and>
      (mm_expires_at r = [] \<or> (case me_time env (mm_expires_at r) of Some t \<Rightarrow> \<not> t < me_clock env | None \<Rightarrow> False)))"

definition memory_scope_visible :: "string \<Rightarrow> string \<Rightarrow> string \<Rightarrow> mem_record \<Rightarrow> bool" where
  "memory_scope_visible ws session task r =
     (if mm_scope r = ''global'' then True
      else if ws = [] \<or> mm_workspace r \<noteq> ws then False
      else if mm_scope r = ''workspace'' then True
      else if mm_scope r = ''session'' then session \<noteq> [] \<and> mm_session r = session
      else mm_scope r = ''task'' \<and> task \<noteq> [] \<and> mm_task r = task)"

subsection \<open>Revisions\<close>

definition same_domain :: "mem_record \<Rightarrow> mem_record \<Rightarrow> bool" where
  "same_domain new old =
     (mm_scope new = mm_scope old \<and> mm_type new = mm_type old \<and>
      (mm_scope new = ''global'' \<or> mm_workspace new = mm_workspace old) \<and>
      (mm_scope new \<noteq> ''session'' \<or> mm_session new = mm_session old) \<and>
      (mm_scope new \<noteq> ''task'' \<or> mm_task new = mm_task old))"

definition revises :: "mem_record \<Rightarrow> string" where
  "revises r = str_of_or (vget (mm_metadata r) ''supersedes_memory_id'') []"

text \<open>\<open>{r.memory_id: r for r in records}\<close>\<close>

definition by_id :: "mem_record list \<Rightarrow> string \<Rightarrow> mem_record option" where
  "by_id recs i = map_of (rev (map (\<lambda>r. (mm_id r, r)) recs)) i"

lemma by_id_member: "by_id recs i = Some t \<Longrightarrow> t \<in> set recs \<and> mm_id t = i"
  by (auto simp: by_id_def dest!: map_of_SomeD)

function revision_chain :: "mem_record list \<Rightarrow> mem_record \<Rightarrow> string list \<Rightarrow> mem_record \<Rightarrow> mem_record list" where
  "revision_chain recs root seen current =
     (case by_id recs (revises current) of
        None \<Rightarrow> []
      | Some t \<Rightarrow>
          if revises current \<in> set seen \<or> \<not> same_domain root t then []
          else t # revision_chain recs root (revises current # seen) t)"
  by auto
termination
proof (relation "measure (\<lambda>(recs, root, seen, current). card (mm_id ` set recs - set seen))")
  fix recs and root :: mem_record and seen and current t
  assume t: "by_id recs (revises current) = Some t" "\<not> (revises current \<in> set seen \<or> \<not> same_domain root t)"
  from by_id_member [OF t(1)] have "revises current \<in> mm_id ` set recs" by (metis image_eqI)
  with t(2) have "revises current \<in> mm_id ` set recs - set seen" by simp
  then have "card (mm_id ` set recs - set (revises current # seen)) < card (mm_id ` set recs - set seen)"
    by (intro psubset_card_mono) auto
  then show "((recs, root, revises current # seen, t), recs, root, seen, current) \<in>
      measure (\<lambda>(recs, root, seen, current). card (mm_id ` set recs - set seen))" by simp
qed simp

declare revision_chain.simps [simp del]

definition revision_ancestors :: "mem_record \<Rightarrow> mem_record list \<Rightarrow> mem_record list" where
  "revision_ancestors r recs = revision_chain recs r [mm_id r] r"

definition proposal :: "mem_record \<Rightarrow> bool" where
  "proposal r = (mm_status r \<in> {''pending'', ''conflict''})"

definition replaced_by :: "mem_record list \<Rightarrow> mem_record \<Rightarrow> mem_record list" where
  "replaced_by recs newer =
     (if mm_status newer = ''active'' then revision_ancestors newer recs
      else if proposal newer then takeWhile proposal (revision_ancestors newer recs) else [])"

definition superseded_records :: "mem_record list \<Rightarrow> (string \<times> string) list" where
  "superseded_records recs = concat (map (\<lambda>newer. map (\<lambda>older. (mm_id older, mm_id newer)) (replaced_by recs newer)) recs)"

definition superseded :: "mem_record list \<Rightarrow> string \<Rightarrow> bool" where
  "superseded recs i = (map_of (superseded_records recs) i \<noteq> None)"

definition list_retrievable :: "mem_env \<Rightarrow> string \<Rightarrow> string \<Rightarrow> string \<Rightarrow> string \<Rightarrow> nat \<Rightarrow> mem_store \<Rightarrow> mem_record list" where
  "list_retrievable env ws session task kind limit s =
     (let recs = list_all_memories ws s;
          found = filter (\<lambda>r. is_retrievable env r \<and> \<not> superseded recs (mm_id r) \<and> memory_scope_visible ws session task r \<and>
                              (kind = [] \<or> mm_type r = kind)) recs
      in if limit > 0 then take limit found else found)"

definition memory_key :: "mem_record \<Rightarrow> string" where
  "memory_key r = strip (str_of_or (vget (mm_metadata r) ''memory_key'') [])"

definition find_conflicts :: "mem_record \<Rightarrow> mem_store \<Rightarrow> mem_record list" where
  "find_conflicts c s =
     (if memory_key c = [] then []
      else let recs = list_all_memories (mm_workspace c) s in
        filter (\<lambda>r. mm_id r \<noteq> mm_id c \<and> \<not> superseded recs (mm_id r) \<and> mm_scope r = mm_scope c \<and> mm_type r = mm_type c \<and>
                    (mm_scope c = ''session'' \<longrightarrow> mm_session r = mm_session c) \<and> (mm_scope c = ''task'' \<longrightarrow> mm_task r = mm_task c) \<and>
                    mm_status r \<in> {''active'', ''pending''} \<and> memory_key r = memory_key c) recs)"

subsection \<open>Retiring\<close>

definition retire_one :: "mem_env \<Rightarrow> string \<Rightarrow> string \<Rightarrow> mem_record \<Rightarrow> mem_store \<Rightarrow> mem_store" where
  "retire_one env now i p s =
     (if mm_status p = ''active''
      then save_memory env (p\<lparr>mm_status := ''expired'', mm_updated_at := now,
                              mm_metadata := AList.update ''superseded_by'' (VStr i) (mm_metadata p)\<rparr>) s
      else s)"

definition retire_ancestors :: "mem_env \<Rightarrow> string \<Rightarrow> mem_record \<Rightarrow> mem_store \<Rightarrow> mem_store" where
  "retire_ancestors env now r s =
     fold (retire_one env now (mm_id r)) (revision_ancestors r (list_all_memories (mm_workspace r) s)) s"

definition retire_memory :: "mem_env \<Rightarrow> string \<Rightarrow> string \<Rightarrow> string \<Rightarrow> string \<Rightarrow> mem_store \<Rightarrow> mem_store \<times> bool" where
  "retire_memory env now ws i status s =
     (case get_memory ws i s of
        None \<Rightarrow> (s, False)
      | Some r \<Rightarrow>
          if mm_status r = status then (s, True)
          else (save_memory env (r\<lparr>mm_status := status, mm_updated_at := now\<rparr>)
                  (if mm_status r = ''active'' then retire_ancestors env now r s else s), True))"

text \<open>\<open>delete_file\<close>; the ancestors are looked up among the memories of the caller's workspace.\<close>

definition delete_memory :: "mem_env \<Rightarrow> string \<Rightarrow> string \<Rightarrow> string \<Rightarrow> mem_store \<Rightarrow> mem_store \<times> bool" where
  "delete_memory env now ws i s =
     (case get_memory ws i s of
        None \<Rightarrow> (s, False)
      | Some r \<Rightarrow>
          let recs = list_all_memories ws s;
              s = (if mm_status r = ''active'' \<or> superseded recs i
                   then fold (retire_one env now i) (revision_ancestors r recs) s else s)
          in (AList.delete i s, True))"

subsection \<open>Chains of revisions\<close>

lemma same_domain_refl [simp]: "same_domain r r"
  by (simp add: same_domain_def)

lemma same_domain_sym: "same_domain r t \<Longrightarrow> same_domain t r"
  by (auto simp: same_domain_def)

lemma same_domain_trans: "same_domain r t \<Longrightarrow> same_domain t u \<Longrightarrow> same_domain r u"
  by (auto simp: same_domain_def)

lemma same_domain_shared: "same_domain r t \<Longrightarrow> shared_with ws r = shared_with ws t"
  by (auto simp: same_domain_def shared_with_def)

definition store_ok :: "mem_store \<Rightarrow> bool" where
  "store_ok s = (distinct (map fst s) \<and> (\<forall>(i, r) \<in> set s. mm_id r = i))"

text \<open>The link from a memory to the one it revises, by identifiers.\<close>

definition supersedes :: "mem_store \<Rightarrow> string \<Rightarrow> string \<Rightarrow> bool" where
  "supersedes s i j = (\<exists>r t. map_of s i = Some r \<and> map_of s j = Some t \<and> revises r = j \<and> same_domain r t)"

lemma store_ok_id: "store_ok s \<Longrightarrow> map_of s i = Some r \<Longrightarrow> mm_id r = i"
  by (auto simp: store_ok_def dest!: map_of_SomeD)

lemma set_list_all: "store_ok s \<Longrightarrow> r \<in> set (list_all_memories ws s) \<longleftrightarrow> map_of s (mm_id r) = Some r \<and> shared_with ws r"
  by (force simp: list_all_memories_def store_ok_def)

lemma map_of_ids: "distinct (map mm_id recs) \<Longrightarrow> map_of (map (\<lambda>r. (mm_id r, r)) recs) i = Some t \<longleftrightarrow> t \<in> set recs \<and> mm_id t = i"
  by (induction recs) (auto simp: rev_image_eqI)

lemma distinct_listed: "store_ok s \<Longrightarrow> distinct (map mm_id (list_all_memories ws s))"
proof -
  assume ok: "store_ok s"
  then have "map mm_id (map snd s) = map fst s" by (auto simp: store_ok_def)
  with ok have "distinct (map mm_id (map snd s))" unfolding store_ok_def by metis
  then show ?thesis by (simp add: list_all_memories_def distinct_map_filter)
qed

lemma by_id_listed: "store_ok s \<Longrightarrow> by_id (list_all_memories ws s) i = Some t \<longleftrightarrow> map_of s i = Some t \<and> shared_with ws t"
proof -
  assume ok: "store_ok s"
  let ?recs = "list_all_memories ws s"
  have "distinct (map mm_id (rev ?recs))" using distinct_listed [OF ok] by (simp flip: rev_map)
  then have "by_id ?recs i = Some t \<longleftrightarrow> t \<in> set ?recs \<and> mm_id t = i"
    by (simp add: by_id_def rev_map map_of_ids)
  then show ?thesis using set_list_all [OF ok] store_ok_id [OF ok] by auto
qed

lemma chain_sound:
  assumes "store_ok s" "t \<in> set (revision_chain (list_all_memories ws s) root seen current)"
    and "map_of s (mm_id current) = Some current" "same_domain root current"
  shows "(supersedes s)\<^sup>+\<^sup>+ (mm_id current) (mm_id t) \<and> mm_id t \<notin> set seen \<and> map_of s (mm_id t) = Some t \<and> same_domain root t"
  using assms(2-4)
proof (induction "list_all_memories ws s" root seen current rule: revision_chain.induct)
  case (1 root seen current)
  from 1(2) obtain u where u: "by_id (list_all_memories ws s) (revises current) = Some u" "revises current \<notin> set seen" "same_domain root u"
    "t = u \<or> t \<in> set (revision_chain (list_all_memories ws s) root (revises current # seen) u)"
    by (cases "by_id (list_all_memories ws s) (revises current)")
      (auto simp: revision_chain.simps [of _ root seen current] split: if_splits)
  then have at: "map_of s (revises current) = Some u" "mm_id u = revises current"
    using by_id_listed [OF assms(1)] store_ok_id [OF assms(1)] by auto
  have "same_domain current u" using 1(4) u(3) same_domain_sym same_domain_trans by blast
  with 1(3) at have link: "supersedes s (mm_id current) (mm_id u)" by (auto simp: supersedes_def)
  from u(4) show ?case
  proof
    assume "t \<in> set (revision_chain (list_all_memories ws s) root (revises current # seen) u)"
    from 1(1) [OF u(1) _ this] u at link show ?thesis by (auto intro: tranclp_into_tranclp2)
  qed (use u at link in auto)
qed

lemma supersedes_member: "store_ok s \<Longrightarrow> supersedes s i j \<Longrightarrow> \<exists>r t. map_of s i = Some r \<and> map_of s j = Some t \<and> mm_id r = i \<and> mm_id t = j"
  using store_ok_id by (auto simp: supersedes_def)

text \<open>The chain is closed under the link.\<close>

lemma chain_closed:
  assumes "store_ok s" "u = current \<or> u \<in> set (revision_chain (list_all_memories ws s) root seen current)"
    and "map_of s (mm_id current) = Some current" "same_domain root current" "shared_with ws root" "supersedes s (mm_id u) j"
  shows "j \<in> mm_id ` set (revision_chain (list_all_memories ws s) root seen current) \<or> j \<in> set seen"
  using assms(2-6)
proof (induction "list_all_memories ws s" root seen current rule: revision_chain.induct)
  case (1 root seen current)
  let ?recs = "list_all_memories ws s"
  show ?case
  proof (cases "\<exists>t. by_id ?recs (revises current) = Some t \<and> revises current \<notin> set seen \<and> same_domain root t")
    case True
    then obtain t where t: "by_id ?recs (revises current) = Some t" "revises current \<notin> set seen" "same_domain root t" by blast
    then have chain: "revision_chain ?recs root seen current = t # revision_chain ?recs root (revises current # seen) t"
      by (simp add: revision_chain.simps [of _ root seen current])
    from t(1) have at: "map_of s (revises current) = Some t" "mm_id t = revises current"
      using by_id_listed [OF assms(1)] store_ok_id [OF assms(1)] by auto
    show ?thesis
    proof (cases "u = current")
      case True
      with 1(3,6) have "j = revises current" by (auto simp: supersedes_def)
      with at(2) show ?thesis by (simp add: chain)
    next
      case False
      with 1(2) chain have "u = t \<or> u \<in> set (revision_chain ?recs root (revises current # seen) t)" by auto
      from 1(1) [OF t(1) _ this] t at 1(5,6) show ?thesis by (auto simp: chain)
    qed
  next
    case False
    then have none: "revision_chain ?recs root seen current = []"
      by (auto simp: revision_chain.simps [of _ root seen current] split: option.splits)
    with 1(2) have "u = current" by simp
    with 1(3,6) obtain t where t: "map_of s j = Some t" "revises current = j" "same_domain current t" by (auto simp: supersedes_def)
    with 1(4,5) same_domain_trans same_domain_shared have "same_domain root t" "shared_with ws t" by blast+
    with t False by_id_listed [OF assms(1)] show ?thesis by blast
  qed
qed

lemma set_ancestors:
  assumes "store_ok s" "map_of s i = Some r" "shared_with ws r"
  shows "mm_id ` set (revision_ancestors r (list_all_memories ws s)) = {j. (supersedes s)\<^sup>+\<^sup>+ i j \<and> j \<noteq> i}"
proof (intro equalityI subsetI)
  let ?recs = "list_all_memories ws s"
  have i: "mm_id r = i" using store_ok_id [OF assms(1,2)] .
  show "j \<in> {j. (supersedes s)\<^sup>+\<^sup>+ i j \<and> j \<noteq> i}" if "j \<in> mm_id ` set (revision_ancestors r ?recs)" for j
    using that chain_sound [OF assms(1), of _ ws r "[mm_id r]" r] assms(2) i by (auto simp: revision_ancestors_def)
  fix j assume "j \<in> {j. (supersedes s)\<^sup>+\<^sup>+ i j \<and> j \<noteq> i}"
  then have "(supersedes s)\<^sup>+\<^sup>+ i j" "j \<noteq> i" by auto
  have "j = i \<or> j \<in> mm_id ` set (revision_ancestors r ?recs)" if "(supersedes s)\<^sup>+\<^sup>+ i j" for j
    using that
  proof (induction rule: tranclp_induct)
    case (base k)
    with chain_closed [OF assms(1), of r r ws r "[mm_id r]" k] assms(2,3) i show ?case by (auto simp: revision_ancestors_def)
  next
    case (step k l)
    then obtain u where "u = r \<or> u \<in> set (revision_chain ?recs r [mm_id r] r)" "mm_id u = k" using i by (auto simp: revision_ancestors_def)
    with chain_closed [OF assms(1), of u r ws r "[mm_id r]" l] step.hyps(2) assms(2,3) i show ?case by (auto simp: revision_ancestors_def)
  qed
  with \<open>(supersedes s)\<^sup>+\<^sup>+ i j\<close> \<open>j \<noteq> i\<close> show "j \<in> mm_id ` set (revision_ancestors r ?recs)" by blast
qed

subsection \<open>Saving and retiring\<close>

lemma clean_record_simps [simp]:
  "mm_id (clean_record env r) = mm_id r" "mm_status (clean_record env r) = mm_status r" "mm_scope (clean_record env r) = mm_scope r"
  "mm_type (clean_record env r) = mm_type r" "mm_workspace (clean_record env r) = mm_workspace r"
  "mm_session (clean_record env r) = mm_session r" "mm_task (clean_record env r) = mm_task r" "mm_group (clean_record env r) = mm_group r"
  "mm_content (clean_record env r) = mem_redact env (mm_content r)"
  by (simp_all add: clean_record_def)

lemma map_of_mapped: "map_of (map (\<lambda>(k, v). (k, f k v)) xs) i = map_option (f i) (map_of xs i)"
  by (induction xs) auto

lemma vget_cleaned:
  "vget (mm_metadata (clean_record env r)) k =
     (case map_of (mm_metadata r) k of
        None \<Rightarrow> VNone
      | Some v \<Rightarrow> normalize_mask (if is_sensitive_field (key_form k) then VStr redacted_secret else redact_value (me_clean env) v))"
proof -
  have "mm_metadata (clean_record env r) =
      map (\<lambda>(k, v). (k, normalize_mask (if is_sensitive_field (key_form k) then VStr redacted_secret else redact_value (me_clean env) v)))
        (mm_metadata r)" by (auto simp: clean_record_def)
  then show ?thesis by (simp add: vget_def vget_or_def map_of_mapped split: option.split)
qed

text \<open>Redaction leaves the links between memories alone: a premise, true when no identifier looks like a secret or a path.\<close>

definition links_kept :: "mem_env \<Rightarrow> mem_store \<Rightarrow> bool" where
  "links_kept env s = (\<forall>i r. map_of s i = Some r \<longrightarrow> revises (clean_record env r) = revises r)"

lemma revises_cong:
  "map_of (mm_metadata q) ''supersedes_memory_id'' = map_of (mm_metadata r) ''supersedes_memory_id'' \<Longrightarrow>
     revises (clean_record env q) = revises (clean_record env r)"
  by (simp add: revises_def vget_cleaned)

lemma save_memory_at: "map_of (save_memory env r s) = (map_of s)(mm_id r \<mapsto> clean_record env r)"
  by (rule ext) (simp add: save_memory_def delete_conv')

lemma save_memory_ok: "store_ok s \<Longrightarrow> store_ok (save_memory env r s)"
  by (auto simp: store_ok_def save_memory_def AList.delete_eq distinct_map_filter)

lemma delete_store_ok: "store_ok s \<Longrightarrow> store_ok (AList.delete i s)"
  by (auto simp: store_ok_def AList.delete_eq distinct_map_filter)

text \<open>A record fades when it is the same, or no longer active with its domain and its link.\<close>

definition fades :: "mem_record \<Rightarrow> mem_record \<Rightarrow> bool" where
  "fades r q = (q = r \<or> mm_status q \<noteq> ''active'' \<and> same_domain r q \<and> mm_workspace q = mm_workspace r \<and> mm_session q = mm_session r \<and>
     mm_task q = mm_task r \<and> revises q = revises r)"

definition weakens :: "mem_store \<Rightarrow> mem_store \<Rightarrow> bool" where
  "weakens s s' = (\<forall>j. rel_option fades (map_of s j) (map_of s' j))"

lemma weakens_refl [simp]: "weakens s s"
  by (auto simp: weakens_def fades_def option.rel_refl)

lemma weakens_put: "weakens s s1 \<Longrightarrow> map_of s j = Some r \<Longrightarrow> fades r q \<Longrightarrow> map_of s' = (map_of s1)(j \<mapsto> q) \<Longrightarrow> weakens s s'"
  by (simp add: weakens_def)

lemma fades_fields:
  "fades r q \<Longrightarrow> mm_scope q = mm_scope r \<and> mm_type q = mm_type r \<and> mm_workspace q = mm_workspace r \<and>
     mm_session q = mm_session r \<and> mm_task q = mm_task r"
  by (auto simp: fades_def same_domain_def)

lemma fades_domain: "fades r q \<Longrightarrow> fades t u \<Longrightarrow> same_domain q u = same_domain r t"
  using fades_fields [of r q] fades_fields [of t u] by (simp add: same_domain_def)

lemma fades_link: "fades r q \<Longrightarrow> revises q = revises r"
  by (auto simp: fades_def)

lemma weakens_supersedes:
  assumes "weakens s s'"
  shows "supersedes s' = supersedes s"
proof (intro ext)
  fix i j
  have "rel_option fades (map_of s i) (map_of s' i)" "rel_option fades (map_of s j) (map_of s' j)"
    using assms by (simp_all add: weakens_def)
  then show "supersedes s' i j = supersedes s i j"
    by (cases "map_of s i"; cases "map_of s' i"; cases "map_of s j"; cases "map_of s' j")
      (simp_all add: supersedes_def fades_domain fades_link)
qed

lemma weakens_active: "weakens s s' \<Longrightarrow> map_of s' j = Some r \<Longrightarrow> mm_status r = ''active'' \<Longrightarrow> map_of s j = Some r"
  unfolding weakens_def by (erule allE [of _ j]) (auto simp: fades_def option_rel_Some2)

lemma retire_fold_at:
  "(\<exists>p \<in> set ps. mm_id p = j \<and> mm_status p = ''active'' \<and> map_of (fold (retire_one env now i) ps s) j =
      Some (clean_record env (p\<lparr>mm_status := ''expired'', mm_updated_at := now,
        mm_metadata := AList.update ''superseded_by'' (VStr i) (mm_metadata p)\<rparr>))) \<or>
   (\<forall>p \<in> set ps. mm_id p = j \<longrightarrow> mm_status p \<noteq> ''active'') \<and> map_of (fold (retire_one env now i) ps s) j = map_of s j"
proof (induction ps rule: rev_induct)
  case (snoc p ps)
  then show ?case by (cases "mm_status p = ''active'' \<and> mm_id p = j") (auto simp: retire_one_def save_memory_at)
qed simp

lemma retire_fold_ok: "store_ok s \<Longrightarrow> store_ok (fold (retire_one env now i) ps s)"
  by (induction ps arbitrary: s) (simp_all add: retire_one_def save_memory_ok)

text \<open>Retiring the ancestors of a memory leaves none of them active and otherwise changes nothing that counts.\<close>

lemma retire_ancestors_effect:
  assumes "store_ok s" "links_kept env s" "map_of s i = Some r" "shared_with ws r"
    and "s' = fold (retire_one env now k) (revision_ancestors r (list_all_memories ws s)) s"
  shows "store_ok s'" "weakens s s'" "map_of s' i = map_of s i"
    and "\<And>j q. (supersedes s)\<^sup>+\<^sup>+ i j \<Longrightarrow> j \<noteq> i \<Longrightarrow> map_of s' j = Some q \<Longrightarrow> mm_status q \<noteq> ''active''"
    and "\<And>j. map_of s' j \<noteq> map_of s j \<Longrightarrow> (supersedes s)\<^sup>+\<^sup>+ i j"
proof -
  let ?ps = "revision_ancestors r (list_all_memories ws s)"
  note ids = set_ancestors [OF assms(1,3,4)]
  have id: "mm_id r = i" using store_ok_id [OF assms(1,3)] .
  have mem: "map_of s (mm_id p) = Some p" if "p \<in> set ?ps" for p
    using that chain_sound [OF assms(1), of p ws r "[mm_id r]" r] assms(3) id by (auto simp: revision_ancestors_def)
  show "store_ok s'" unfolding assms(5) by (rule retire_fold_ok [OF assms(1)])
  show "weakens s s'" unfolding weakens_def
  proof
    fix j
    consider p where "p \<in> set ?ps" "mm_id p = j" "mm_status p = ''active''" "map_of s' j =
        Some (clean_record env (p\<lparr>mm_status := ''expired'', mm_updated_at := now,
          mm_metadata := AList.update ''superseded_by'' (VStr k) (mm_metadata p)\<rparr>))" | "map_of s' j = map_of s j"
      using retire_fold_at [of ?ps j env now k s] unfolding assms(5) by blast
    then show "rel_option fades (map_of s j) (map_of s' j)"
    proof cases
      case 1
      from mem [OF 1(1)] 1(2) have p: "map_of s j = Some p" by simp
      with assms(2) have "revises (clean_record env p) = revises p" by (simp add: links_kept_def)
      then have "revises (clean_record env (p\<lparr>mm_status := ''expired'', mm_updated_at := now,
          mm_metadata := AList.update ''superseded_by'' (VStr k) (mm_metadata p)\<rparr>)) = revises p"
        using revises_cong [of "p\<lparr>mm_status := ''expired'', mm_updated_at := now,
          mm_metadata := AList.update ''superseded_by'' (VStr k) (mm_metadata p)\<rparr>" p env] by (simp add: update_conv')
      then show ?thesis by (simp add: p 1(4) fades_def same_domain_def)
    qed (auto simp: fades_def option.rel_refl)
  qed
  have not_i: "i \<notin> mm_id ` set ?ps" by (simp add: ids)
  show "map_of s' i = map_of s i" using retire_fold_at [of ?ps i env now k s] not_i unfolding assms(5) by blast
  fix j
  show "mm_status q \<noteq> ''active''" if "(supersedes s)\<^sup>+\<^sup>+ i j" "j \<noteq> i" "map_of s' j = Some q" for q
  proof -
    from that(1,2) have "j \<in> mm_id ` set ?ps" by (simp add: ids)
    then obtain p where p: "p \<in> set ?ps" "mm_id p = j" by (elim imageE) simp
    have "map_of s j = Some p" using mem [OF p(1)] p(2) by simp
    consider p' where "map_of s' j = Some (clean_record env (p'\<lparr>mm_status := ''expired'', mm_updated_at := now,
          mm_metadata := AList.update ''superseded_by'' (VStr k) (mm_metadata p')\<rparr>))"
      | "mm_status p \<noteq> ''active''" "map_of s' j = map_of s j"
      using retire_fold_at [of ?ps j env now k s] p unfolding assms(5) by blast
    then show ?thesis
    proof cases
      case 1
      with that(3) have "q = clean_record env (p'\<lparr>mm_status := ''expired'', mm_updated_at := now,
          mm_metadata := AList.update ''superseded_by'' (VStr k) (mm_metadata p')\<rparr>)" by simp
      then show ?thesis by simp
    next
      case 2
      with that(3) \<open>map_of s j = Some p\<close> show ?thesis by simp
    qed
  qed
  show "(supersedes s)\<^sup>+\<^sup>+ i j" if "map_of s' j \<noteq> map_of s j"
  proof -
    from that retire_fold_at [of ?ps j env now k s] have "j \<in> mm_id ` set ?ps" unfolding assms(5) by blast
    with ids show ?thesis by blast
  qed
qed

subsection \<open>What is retrieved\<close>

lemma supersedes_domain:
  "(supersedes s)\<^sup>+\<^sup>+ i j \<Longrightarrow> \<exists>r t. map_of s i = Some r \<and> map_of s j = Some t \<and> same_domain r t"
proof (induction rule: tranclp_induct)
  case (step j k)
  then show ?case using same_domain_trans by (fastforce simp: supersedes_def)
qed (auto simp: supersedes_def)

lemma superseded_alt: "superseded recs i \<longleftrightarrow> (\<exists>newer \<in> set recs. i \<in> mm_id ` set (replaced_by recs newer))"
  by (auto simp: superseded_def superseded_records_def map_of_eq_None_iff image_iff)

lemma superseded_from_active:
  assumes "store_ok s" "map_of s x = Some q" "shared_with ws q"
    and n: "map_of s n = Some r" "mm_status r = ''active''" "(supersedes s)\<^sup>+\<^sup>+ n x" "n \<noteq> x"
  shows "superseded (list_all_memories ws s) x"
proof -
  let ?recs = "list_all_memories ws s"
  from supersedes_domain [OF n(3)] n(1) assms(2) have "same_domain r q" by simp
  with assms(3) have shared: "shared_with ws r" using same_domain_shared by blast
  from set_ancestors [OF assms(1) n(1) shared] n(3,4) have "x \<in> mm_id ` set (revision_ancestors r ?recs)" by simp
  moreover have "r \<in> set ?recs" using set_list_all [OF assms(1)] n(1) shared store_ok_id [OF assms(1)] by simp
  ultimately show ?thesis using n(2) by (auto simp: superseded_alt replaced_by_def)
qed

text \<open>An active memory is superseded exactly when another active memory leads to it.\<close>

lemma superseded_active:
  assumes "store_ok s" "map_of s x = Some q" "mm_status q = ''active''" "shared_with ws q"
  shows "superseded (list_all_memories ws s) x \<longleftrightarrow>
    (\<exists>n r. map_of s n = Some r \<and> mm_status r = ''active'' \<and> (supersedes s)\<^sup>+\<^sup>+ n x \<and> n \<noteq> x)"
proof
  let ?recs = "list_all_memories ws s"
  assume "superseded ?recs x"
  then obtain r t where r: "r \<in> set ?recs" and t: "t \<in> set (replaced_by ?recs r)" "mm_id t = x" by (auto simp: superseded_alt)
  from r have at: "map_of s (mm_id r) = Some r" "shared_with ws r" using set_list_all [OF assms(1)] by blast+
  from t(1) have anc: "t \<in> set (revision_ancestors r ?recs)" by (auto simp: replaced_by_def split: if_splits dest: set_takeWhileD)
  then have "map_of s (mm_id t) = Some t" using chain_sound [OF assms(1), of t ws r "[mm_id r]" r] at(1) by (simp add: revision_ancestors_def)
  with t(2) assms(2,3) have "\<not> proposal t" by (simp add: proposal_def)
  with t(1) have "mm_status r = ''active''" by (auto simp: replaced_by_def split: if_splits dest: set_takeWhileD)
  moreover from anc t(2) have "x \<in> mm_id ` set (revision_ancestors r ?recs)" by blast
  ultimately show "\<exists>n r. map_of s n = Some r \<and> mm_status r = ''active'' \<and> (supersedes s)\<^sup>+\<^sup>+ n x \<and> n \<noteq> x"
    using set_ancestors [OF assms(1) at] at(1) by auto
qed (blast intro: superseded_from_active [OF assms(1,2,4)])

text \<open>When no active record is new and every active record that was superseded still is, no more can be retrieved than before.\<close>

lemma retrievable_shrinks:
  assumes "store_ok s" "store_ok s'"
    and "\<And>x q. map_of s' x = Some q \<Longrightarrow> mm_status q = ''active'' \<Longrightarrow> map_of s x = Some q"
    and "\<And>n r x q. map_of s n = Some r \<Longrightarrow> mm_status r = ''active'' \<Longrightarrow> (supersedes s)\<^sup>+\<^sup>+ n x \<Longrightarrow> n \<noteq> x \<Longrightarrow>
      map_of s' x = Some q \<Longrightarrow> mm_status q = ''active'' \<Longrightarrow>
      \<exists>m p. map_of s' m = Some p \<and> mm_status p = ''active'' \<and> (supersedes s')\<^sup>+\<^sup>+ m x \<and> m \<noteq> x"
  shows "set (list_retrievable env ws session task kind 0 s') \<subseteq> set (list_retrievable env ws session task kind 0 s)"
proof
  fix q assume "q \<in> set (list_retrievable env ws session task kind 0 s')"
  then have q: "q \<in> set (list_all_memories ws s')" "is_retrievable env q" "\<not> superseded (list_all_memories ws s') (mm_id q)"
    "memory_scope_visible ws session task q" "kind = [] \<or> mm_type q = kind" by (auto simp: list_retrievable_def Let_def)
  then have at: "map_of s' (mm_id q) = Some q" "shared_with ws q" "mm_status q = ''active''"
    using set_list_all [OF assms(2)] by (auto simp: is_retrievable_def)
  with assms(3) have old: "map_of s (mm_id q) = Some q" by blast
  have "\<not> superseded (list_all_memories ws s) (mm_id q)"
    using q(3) assms(4) at old superseded_active [OF assms(1) old at(3,2)] superseded_active [OF assms(2) at(1,3,2)] by blast
  with q old at(2) set_list_all [OF assms(1)] show "q \<in> set (list_retrievable env ws session task kind 0 s)"
    by (auto simp: list_retrievable_def Let_def)
qed

lemma get_memory_Some: "get_memory ws i s = Some r \<Longrightarrow> map_of s i = Some r \<and> shared_with ws r"
  by (auto simp: get_memory_def split: if_splits option.splits)

lemma retire_memory_effect:
  assumes "store_ok s" "links_kept env s" "status \<noteq> ''active''" "get_memory ws i s = Some r" "retire_memory env now ws i status s = (s', ok)"
  shows "store_ok s'" "weakens s s'" "\<And>q. map_of s' i = Some q \<Longrightarrow> mm_status q = status"
    and "\<And>x. map_of s' x \<noteq> map_of s x \<Longrightarrow> x \<noteq> i \<Longrightarrow> mm_status r = ''active'' \<and> (supersedes s)\<^sup>+\<^sup>+ i x"
    and "\<And>x q. mm_status r = ''active'' \<Longrightarrow> (supersedes s)\<^sup>+\<^sup>+ i x \<Longrightarrow> x \<noteq> i \<Longrightarrow> map_of s' x = Some q \<Longrightarrow> mm_status q \<noteq> ''active''"
proof -
  from assms(4) have r: "map_of s i = Some r" by (auto dest: get_memory_Some)
  have id: "mm_id r = i" using store_ok_id [OF assms(1) r] .
  define s1 where "s1 = (if mm_status r = ''active'' then retire_ancestors env now r s else s)"
  have own: "shared_with (mm_workspace r) r" by (simp add: shared_with_def)
  note E = retire_ancestors_effect [OF assms(1,2) r own, of "retire_ancestors env now r s" now i]
  have s1: "store_ok s1" "weakens s s1" using E(1,2) assms(1) by (auto simp: s1_def retire_ancestors_def id)
  let ?q = "clean_record env (r\<lparr>mm_status := status, mm_updated_at := now\<rparr>)"
  consider "mm_status r = status" "s' = s" | "mm_status r \<noteq> status" "s' = save_memory env (r\<lparr>mm_status := status, mm_updated_at := now\<rparr>) s1"
    using assms(4,5) by (auto simp: retire_memory_def s1_def split: if_splits)
  note cases = this
  have at: "map_of s' = (map_of s1)(i \<mapsto> ?q)" if "mm_status r \<noteq> status"
    using cases
  proof cases
    case 2
    then show ?thesis by (simp add: save_memory_at id)
  qed (use that in simp)
  have "revises ?q = revises r"
    using assms(2) r revises_cong [of "r\<lparr>mm_status := status, mm_updated_at := now\<rparr>" r env] by (simp add: links_kept_def)
  then have "fades r ?q" using assms(3) by (simp add: fades_def same_domain_def)
  from cases show "weakens s s'"
  proof cases
    case 2
    show ?thesis by (rule weakens_put [OF s1(2) r \<open>fades r ?q\<close> at [OF 2(1)]])
  qed simp
  from cases show "store_ok s'" using assms(1) save_memory_ok [OF s1(1)] by cases auto
  show "mm_status q = status" if "map_of s' i = Some q" for q
    using cases
  proof cases
    case 2
    with that show ?thesis by (auto simp: save_memory_at id)
  qed (use that r in simp)
  show "mm_status r = ''active'' \<and> (supersedes s)\<^sup>+\<^sup>+ i x" if "map_of s' x \<noteq> map_of s x" "x \<noteq> i" for x
    using cases
  proof cases
    case 2
    from that have "map_of s1 x \<noteq> map_of s x" by (simp add: at [OF 2(1)])
    with E(5) [of x] show ?thesis by (auto simp: s1_def retire_ancestors_def id split: if_splits)
  qed (use that in simp)
  show "mm_status q \<noteq> ''active''" if "mm_status r = ''active''" "(supersedes s)\<^sup>+\<^sup>+ i x" "x \<noteq> i" "map_of s' x = Some q" for x q
    using cases
  proof cases
    case 2
    from that have "map_of s1 x = Some q" by (simp add: at [OF 2(1)])
    with that(1-3) E(4) [of x q] show ?thesis by (simp add: s1_def retire_ancestors_def id)
  qed (use that(1) assms(3) in simp)
qed

lemma retire_memory_shrinks:
  assumes "store_ok s" "links_kept env s" "status \<noteq> ''active''" "get_memory ws i s = Some r" "retire_memory env now ws i status s = (s', ok)"
  shows "set (list_retrievable env v session task kind 0 s') \<subseteq> set (list_retrievable env v session task kind 0 s)"
proof (rule retrievable_shrinks [OF assms(1)])
  note E = retire_memory_effect [OF assms]
  show "store_ok s'" by (rule E(1))
  show "map_of s x = Some q" if "map_of s' x = Some q" "mm_status q = ''active''" for x q
    using weakens_active [OF E(2) that] .
  fix n u x q assume n: "map_of s n = Some u" "mm_status u = ''active''" "(supersedes s)\<^sup>+\<^sup>+ n x" "n \<noteq> x"
    "map_of s' x = Some q" "mm_status q = ''active''"
  from n(5,6) assms(3) E(3) have "x \<noteq> i" by blast
  have "map_of s' n = Some u"
  proof (rule ccontr)
    assume "map_of s' n \<noteq> Some u"
    with n(1) E(4) [of n] have "n = i \<or> mm_status r = ''active'' \<and> (supersedes s)\<^sup>+\<^sup>+ i n" by auto
    with n(1,2) get_memory_Some [OF assms(4)] have "mm_status r = ''active''" "n = i \<or> (supersedes s)\<^sup>+\<^sup>+ i n" by auto
    with n(3,5,6) E(5) [of x q] \<open>x \<noteq> i\<close> show False by (auto intro: tranclp_trans)
  qed
  with n weakens_supersedes [OF E(2)] show
    "\<exists>m p. map_of s' m = Some p \<and> mm_status p = ''active'' \<and> (supersedes s')\<^sup>+\<^sup>+ m x \<and> m \<noteq> x" by auto
qed

text \<open>A chain of links either avoids a memory or passes through it.\<close>

lemma path_avoids:
  assumes "R\<^sup>+\<^sup>+ a b"
  shows "(\<lambda>u v. R u v \<and> u \<noteq> i \<and> v \<noteq> i)\<^sup>+\<^sup>+ a b \<or> (a = i \<or> R\<^sup>+\<^sup>+ a i) \<and> (i = b \<or> R\<^sup>+\<^sup>+ i b)"
  using assms
proof (induction rule: tranclp_induct)
  case (base b)
  then show ?case by blast
next
  case (step b c)
  consider "(\<lambda>u v. R u v \<and> u \<noteq> i \<and> v \<noteq> i)\<^sup>+\<^sup>+ a b" "b \<noteq> i" "c \<noteq> i" | "(a = i \<or> R\<^sup>+\<^sup>+ a i) \<and> (i = b \<or> R\<^sup>+\<^sup>+ i b)" | "b = i" | "c = i"
    using step.IH by blast
  then show ?case
  proof cases
    case 1
    with step.hyps(2) have "(\<lambda>u v. R u v \<and> u \<noteq> i \<and> v \<noteq> i)\<^sup>+\<^sup>+ a c"
      by (intro tranclp.trancl_into_trancl [of _ a b c]) auto
    then show ?thesis ..
  qed (use step.hyps in \<open>auto intro: tranclp.trancl_into_trancl\<close>)
qed

lemma delete_memory_shrinks:
  assumes "store_ok s" "links_kept env s" "delete_memory env now ws i s = (s', ok)"
  shows "set (list_retrievable env v session task kind 0 s') \<subseteq> set (list_retrievable env v session task kind 0 s)"
proof (cases "get_memory ws i s")
  case (Some r)
  then have r: "map_of s i = Some r" "shared_with ws r" by (auto dest: get_memory_Some)
  let ?recs = "list_all_memories ws s"
  let ?cond = "mm_status r = ''active'' \<or> superseded ?recs i"
  define s1 where "s1 = (if ?cond then fold (retire_one env now i) (revision_ancestors r ?recs) s else s)"
  have s': "s' = AList.delete i s1" using assms(3) Some by (simp add: delete_memory_def s1_def Let_def)
  note E = retire_ancestors_effect [OF assms(1,2) r refl, where now = now and k = i]
  have s1: "store_ok s1" "weakens s s1" using E(1,2) assms(1) by (auto simp: s1_def)
  have at: "map_of s' j = (if j = i then None else map_of s1 j)" for j by (simp add: s' delete_conv')
  have link: "(\<lambda>u v. supersedes s u v \<and> u \<noteq> i \<and> v \<noteq> i) = supersedes s'"
    unfolding weakens_supersedes [OF s1(2), symmetric] by (auto simp: supersedes_def at fun_eq_iff)
  have gone: "\<not> (?cond \<and> (supersedes s)\<^sup>+\<^sup>+ i x)" if "map_of s' x = Some q" "mm_status q = ''active''" for x q
    using that E(4) [of x q] by (auto simp: at s1_def split: if_splits)
  show ?thesis
  proof (rule retrievable_shrinks [OF assms(1)])
    show "store_ok s'" unfolding s' by (rule delete_store_ok [OF s1(1)])
    show "map_of s x = Some q" if "map_of s' x = Some q" "mm_status q = ''active''" for x q
      using weakens_active [OF s1(2), of x q] that by (simp add: at split: if_splits)
    fix n u x q assume n: "map_of s n = Some u" "mm_status u = ''active''" "(supersedes s)\<^sup>+\<^sup>+ n x" "n \<noteq> x"
      "map_of s' x = Some q" "mm_status q = ''active''"
    note gone = gone [OF n(5,6)]
    have "n \<noteq> i" using gone n(1,2,3) r(1) by auto
    moreover have "map_of s1 n = map_of s n"
    proof (rule ccontr)
      assume "map_of s1 n \<noteq> map_of s n"
      then have "?cond" "(supersedes s)\<^sup>+\<^sup>+ i n" using E(5) [of n] by (auto simp: s1_def split: if_splits)
      with gone n(3) show False by (auto intro: tranclp_trans)
    qed
    moreover have "(supersedes s')\<^sup>+\<^sup>+ n x"
    proof -
      have "x \<noteq> i" using n(5) by (auto simp: at)
      consider "(supersedes s')\<^sup>+\<^sup>+ n x" | "(supersedes s)\<^sup>+\<^sup>+ n i" "(supersedes s)\<^sup>+\<^sup>+ i x"
        using path_avoids [OF n(3), of i] \<open>n \<noteq> i\<close> \<open>x \<noteq> i\<close> unfolding link by blast
      then show ?thesis
      proof cases
        case 2
        from superseded_from_active [OF assms(1) r n(1,2) 2(1) \<open>n \<noteq> i\<close>] gone 2(2) show ?thesis by blast
      qed
    qed
    ultimately show "\<exists>m p. map_of s' m = Some p \<and> mm_status p = ''active'' \<and> (supersedes s')\<^sup>+\<^sup>+ m x \<and> m \<noteq> x"
      using n(1,2,4) by (auto simp: at)
  qed
qed (use assms(3) in \<open>auto simp: delete_memory_def\<close>)

lemma delete_memory_gone:
  assumes "store_ok s" "get_memory ws i s = Some r" "delete_memory env now ws i s = (s', ok)"
  shows "store_ok s' \<and> map_of s' i = None"
proof -
  from assms(2,3) obtain s1 where s1: "s1 = s \<or> s1 = fold (retire_one env now i) (revision_ancestors r (list_all_memories ws s)) s"
    and s': "s' = AList.delete i s1" by (auto simp: delete_memory_def Let_def split: if_splits)
  from s1 assms(1) retire_fold_ok [OF assms(1)] have "store_ok s1" by auto
  then show ?thesis by (simp add: s' delete_store_ok delete_conv')
qed

lemma retrieved_iff:
  assumes "store_ok s"
  shows "q \<in> set (list_retrievable env ws session task kind 0 s) \<longleftrightarrow>
    map_of s (mm_id q) = Some q \<and> shared_with ws q \<and> is_retrievable env q \<and>
    \<not> (\<exists>n r. map_of s n = Some r \<and> mm_status r = ''active'' \<and> (supersedes s)\<^sup>+\<^sup>+ n (mm_id q) \<and> n \<noteq> mm_id q) \<and>
    memory_scope_visible ws session task q \<and> (kind = [] \<or> mm_type q = kind)"
proof -
  have "superseded (list_all_memories ws s) (mm_id q) \<longleftrightarrow>
      (\<exists>n r. map_of s n = Some r \<and> mm_status r = ''active'' \<and> (supersedes s)\<^sup>+\<^sup>+ n (mm_id q) \<and> n \<noteq> mm_id q)"
    if "map_of s (mm_id q) = Some q" "shared_with ws q" "is_retrievable env q"
    using superseded_active [OF assms that(1) _ that(2)] that(3) by (simp add: is_retrievable_def)
  then show ?thesis using set_list_all [OF assms, of q ws] by (auto simp: list_retrievable_def Let_def)
qed

text \<open>When a step only weakens the store and leaves every active memory but \<open>i\<close> that no other supersedes, all but \<open>i\<close> stays retrievable.\<close>

lemma retrievable_kept:
  assumes "store_ok s" "store_ok s'" "weakens s s'"
    and "\<And>x q. map_of s x = Some q \<Longrightarrow> mm_status q = ''active'' \<Longrightarrow> x \<noteq> i \<Longrightarrow> map_of s' x \<noteq> Some q \<Longrightarrow>
      \<exists>n r. map_of s n = Some r \<and> mm_status r = ''active'' \<and> (supersedes s)\<^sup>+\<^sup>+ n x \<and> n \<noteq> x"
  shows "{q \<in> set (list_retrievable env ws session task kind 0 s). mm_id q \<noteq> i} \<subseteq> set (list_retrievable env ws session task kind 0 s')"
proof clarify
  fix q assume q: "q \<in> set (list_retrievable env ws session task kind 0 s)" "mm_id q \<noteq> i"
  note old = q(1) [unfolded retrieved_iff [OF assms(1)]]
  from old have "mm_status q = ''active''" by (simp add: is_retrievable_def)
  with old q(2) assms(4) have "map_of s' (mm_id q) = Some q" by blast
  moreover have "\<not> (\<exists>n r. map_of s' n = Some r \<and> mm_status r = ''active'' \<and> (supersedes s')\<^sup>+\<^sup>+ n (mm_id q) \<and> n \<noteq> mm_id q)"
    using old weakens_active [OF assms(3)] unfolding weakens_supersedes [OF assms(3)] by blast
  ultimately show "q \<in> set (list_retrievable env ws session task kind 0 s')" using old retrieved_iff [OF assms(2)] by blast
qed

lemma retire_memory_keeps_rest:
  assumes "store_ok s" "links_kept env s" "status \<noteq> ''active''" "get_memory ws i s = Some r" "retire_memory env now ws i status s = (s', ok)"
  shows "{q \<in> set (list_retrievable env v session task kind 0 s). mm_id q \<noteq> i} \<subseteq> set (list_retrievable env v session task kind 0 s')"
proof (rule retrievable_kept [OF assms(1)])
  note E = retire_memory_effect [OF assms]
  show "store_ok s'" "weakens s s'" by (rule E(1), rule E(2))
  fix x q assume "map_of s x = Some q" "mm_status q = ''active''" "x \<noteq> i" "map_of s' x \<noteq> Some q"
  with E(4) [of x] assms(4) show "\<exists>n r. map_of s n = Some r \<and> mm_status r = ''active'' \<and> (supersedes s)\<^sup>+\<^sup>+ n x \<and> n \<noteq> x"
    by (auto dest: get_memory_Some)
qed

text \<open>C9: rejecting or expiring a memory takes exactly that memory out of what is retrieved: nothing else disappears, and none of the
  memories it had replaced comes back, not even one an interrupted cleanup left active. Deleting it brings none back either.\<close>

theorem retired_memory_never_resurrects:
  assumes "store_ok s" "links_kept env s" "get_memory ws i s = Some r" "status \<in> {''rejected'', ''expired''}"
  shows "set (list_retrievable env v session task kind 0 (fst (retire_memory env now ws i status s))) =
      {q \<in> set (list_retrievable env v session task kind 0 s). mm_id q \<noteq> i} \<and>
    set (list_retrievable env v session task kind 0 (fst (delete_memory env now ws i s))) \<subseteq>
      {q \<in> set (list_retrievable env v session task kind 0 s). mm_id q \<noteq> i}"
proof -
  obtain s1 ok1 where R: "retire_memory env now ws i status s = (s1, ok1)" by fastforce
  obtain s2 ok2 where D: "delete_memory env now ws i s = (s2, ok2)" by fastforce
  have status: "status \<noteq> ''active''" using assms(4) by auto
  note E = retire_memory_effect [OF assms(1,2) status assms(3) R]
  have "mm_id q \<noteq> i" if "q \<in> set (list_retrievable env v session task kind 0 s1)" for q
    using that retrieved_iff [OF E(1)] E(3) [of q] status by (auto simp: is_retrievable_def)
  moreover have "mm_id q \<noteq> i" if "q \<in> set (list_retrievable env v session task kind 0 s2)" for q
    using that delete_memory_gone [OF assms(1,3) D] retrieved_iff [of s2 q] by auto
  moreover note retire_memory_shrinks [OF assms(1,2) status assms(3) R, of v session task kind]
    retire_memory_keeps_rest [OF assms(1,2) status assms(3) R, of v session task kind]
    delete_memory_shrinks [OF assms(1,2) D, of v session task kind]
  ultimately show ?thesis by (auto simp: R D)
qed

text \<open>A memory that replaces another one, where the process stopped before the old one was expired.\<close>

definition sample_env :: mem_env where
  "sample_env = \<lparr>me_clean = \<lambda>s. s, me_secret = \<lambda>s. False, me_time = \<lambda>s. None, me_clock = 0, me_events = \<lambda>w s. [],
     me_observation = \<lambda>d t ok q. q, me_title = \<lambda>t. t\<rparr>"

definition sample_memory :: "string \<Rightarrow> string \<Rightarrow> pydict \<Rightarrow> mem_record" where
  "sample_memory i content metadata =
     \<lparr>mm_id = i, mm_workspace = ''w'', mm_session = '''', mm_task = '''', mm_scope = ''workspace'', mm_type = ''core_rule'',
      mm_status = ''active'', mm_source = ''user'', mm_source_ref = '''', mm_content = content, mm_summary = '''', mm_confidence = 100,
      mm_expires_at = '''', mm_citations = [], mm_group = '''', mm_created_by = ''user'', mm_created_at = ''t'', mm_updated_at = ''t'',
      mm_metadata = metadata\<rparr>"

definition interrupted_store :: mem_store where
  "interrupted_store =
     [(''mem-bbbbbbbbbbbb'', sample_memory ''mem-bbbbbbbbbbbb'' ''tabs'' [(''supersedes_memory_id'', VStr ''mem-aaaaaaaaaaaa'')]),
      (''mem-aaaaaaaaaaaa'', sample_memory ''mem-aaaaaaaaaaaa'' ''spaces'' [])]"

lemma interrupted_store_ok: "store_ok interrupted_store"
  by (simp add: store_ok_def interrupted_store_def sample_memory_def)

lemma interrupted_links: "links_kept sample_env interrupted_store"
proof -
  have "\<forall>(i, r) \<in> set interrupted_store. revises (clean_record sample_env r) = revises r" by code_simp
  then show ?thesis by (auto simp: links_kept_def dest: map_of_SomeD)
qed

theorem retired_memory_never_resurrects_witness:
  "get_memory ''w'' ''mem-bbbbbbbbbbbb'' interrupted_store \<noteq> None \<and>
   map mm_content (list_retrievable sample_env ''w'' '''' '''' '''' 0 interrupted_store) = [''tabs''] \<and>
   set (list_retrievable sample_env ''w'' '''' '''' '''' 0 (fst (retire_memory sample_env ''t'' ''w'' ''mem-bbbbbbbbbbbb'' ''expired'' interrupted_store))) =
      {q \<in> set (list_retrievable sample_env ''w'' '''' '''' '''' 0 interrupted_store). mm_id q \<noteq> ''mem-bbbbbbbbbbbb''}"
proof -
  have some: "get_memory ''w'' ''mem-bbbbbbbbbbbb'' interrupted_store \<noteq> None" by code_simp
  moreover have "map mm_content (list_retrievable sample_env ''w'' '''' '''' '''' 0 interrupted_store) = [''tabs'']" by code_simp
  moreover from some obtain r where "get_memory ''w'' ''mem-bbbbbbbbbbbb'' interrupted_store = Some r" by blast
  from retired_memory_never_resurrects [OF interrupted_store_ok interrupted_links this, of "''expired''" "''w''" "''''" "''''" "''''" "''t''"]
  have "set (list_retrievable sample_env ''w'' '''' '''' '''' 0 (fst (retire_memory sample_env ''t'' ''w'' ''mem-bbbbbbbbbbbb'' ''expired'' interrupted_store))) =
      {q \<in> set (list_retrievable sample_env ''w'' '''' '''' '''' 0 interrupted_store). mm_id q \<noteq> ''mem-bbbbbbbbbbbb''}" by simp
  ultimately show ?thesis by blast
qed

end
