(* ===== verification/Memory_Gate.thy ===== *)
theory Memory_Gate
  imports Memory_Store
begin

section \<open>The gate of the memory store\<close>

text \<open>
  \<open>MemoryWriteGate.write\<close> and the confirmation of \<^verbatim>\<open>storage/memory_governance.py\<close>: which candidates enter the store, with which
  status, and what happens to the memories they replace or contradict. The gate holds the mutation lock throughout, so it is a
  function on the store. The clock (\<open>now\<close>) and the fresh name of a conflict group are arguments; texts are ASCII, so the separators and the
  punctuation of \<open>_is_low_value_memory\<close> outside ASCII are left out.
\<close>

subsection \<open>Checks of a candidate\<close>

definition workspace_id_ok :: "string \<Rightarrow> bool" where
  "workspace_id_ok w =
     (case w of [] \<Rightarrow> False | c # cs \<Rightarrow> (is_alpha c \<or> is_digit c) \<and> list_all is_word_dash cs \<and> length cs \<le> 63)"

definition memory_scopes :: "string list" where
  "memory_scopes = [''global'', ''workspace'', ''session'', ''task'']"

definition candidate_error :: "mem_record \<Rightarrow> string option" where
  "candidate_error c =
     (if mm_workspace c = [] then Some ''workspace_id is required''
      else if \<not> workspace_id_ok (mm_workspace c) then Some ''invalid_workspace_id''
      else if mm_scope c \<notin> set memory_scopes then Some ''invalid_memory_scope''
      else if mm_type c \<notin> set memory_types then Some ''invalid_memory_type''
      else if mm_scope c = ''session'' \<and> mm_session c = [] then Some ''session_id_required''
      else if mm_scope c = ''task'' \<and> mm_task c = [] then Some ''task_id_required''
      else None)"

definition redact_keys :: "string list" where
  "redact_keys =
     [''password'', ''passwd'', ''pwd'', ''token'', ''api_key'', ''apikey'', ''secret'', ''credential'', ''authorization'', ''auth'']"

definition secret_key :: "string \<Rightarrow> bool" where
  "secret_key k =
     (key_form k \<in> set redact_keys \<or>
      list_ex (ends_with (key_form k))
        [''_password'', ''_passwd'', ''_pwd'', ''_token'', ''_api_key'', ''_secret'', ''_credential'', ''_authorization''])"

fun structured_contains_secret :: "mem_env \<Rightarrow> pyval \<Rightarrow> bool" where
  "structured_contains_secret env (VDict d) = list_ex (\<lambda>(k, v). secret_key k \<or> structured_contains_secret env v) d"
| "structured_contains_secret env (VList xs) = list_ex (structured_contains_secret env) xs"
| "structured_contains_secret env v = me_secret env (str_of_or v [])"

definition persistable_payload :: "mem_record \<Rightarrow> pyval" where
  "persistable_payload c =
     VDict [(''content'', VStr (mm_content c)), (''summary'', VStr (mm_summary c)), (''source_ref'', VStr (mm_source_ref c)),
            (''citations'', VList (mm_citations c)), (''metadata'', VDict (mm_metadata c))]"

subsection \<open>Generic texts\<close>

definition generic_words :: "string list" where
  "generic_words =
     ['''', ''started'', ''completed'', ''ok'', ''true'', ''false'', ''success'', ''failed'', ''done'', ''finish'', ''finished'']"

definition generic_heads :: "string list" where
  "generic_heads = [''completed'', ''started'', ''finished'', ''success'', ''failed'', ''ok'', ''done'', ''running'', ''executed'']"

text \<open>\<open>text.split(sep, 1)[1]\<close>, when \<open>sep in text\<close>\<close>

fun after_first :: "string \<Rightarrow> string \<Rightarrow> string option" where
  "after_first sep [] = None"
| "after_first sep (c # cs) =
     (if starts_with (c # cs) sep then Some (drop (length sep) (c # cs)) else after_first sep cs)"

definition first_word :: "string \<Rightarrow> string" where
  "first_word s = takeWhile (\<lambda>c. \<not> py_space c) (dropWhile py_space s)"

definition generic_text :: "string \<Rightarrow> bool" where
  "generic_text t =
     (let text = rev (dropWhile (\<lambda>c. c \<in> set ''.!?,;'') (rev (lower (strip t)))) in
      text \<noteq> [] \<and>
      (text \<in> set generic_words \<or>
       list_ex (\<lambda>sep. case after_first sep text of
                        None \<Rightarrow> False
                      | Some rest \<Rightarrow>
                          let after = strip rest in
                          after \<in> set generic_words \<or>
                          first_word after \<in> set generic_heads \<and> length after \<le> length (first_word after) + 8)
         ['': '', '':'', '' - '']))"

definition skip_text :: "string \<Rightarrow> string \<Rightarrow> string option" where
  "skip_text p s = (if starts_with s p then Some (drop (length p) s) else None)"

definition skip_blanks :: "string \<Rightarrow> string option" where
  "skip_blanks s = (case s of c # _ \<Rightarrow> if py_space c then Some (dropWhile py_space s) else None | [] \<Rightarrow> None)"

definition skip_quote :: "string \<Rightarrow> string" where
  "skip_quote s = (if starts_with s [CHR 0x27] then tl s else s)"

text \<open>The pattern \<open>task\s+'?[\w\-]+'?\s+completed\s+successfully\<close>; no part of it can match in two ways.\<close>

definition task_completed_here :: "string \<Rightarrow> bool" where
  "task_completed_here s =
     (case Option.bind (skip_text ''task'' s) skip_blanks of
        None \<Rightarrow> False
      | Some r \<Rightarrow>
          let r = skip_quote r in
          r \<noteq> [] \<and> is_word_dash (hd r) \<and>
          (case Option.bind (skip_blanks (skip_quote (dropWhile is_word_dash r))) (skip_text ''completed'') of
             None \<Rightarrow> False
           | Some r \<Rightarrow> (case skip_blanks r of None \<Rightarrow> False | Some r \<Rightarrow> starts_with r ''successfully'')))"

definition search_completed_here :: "string \<Rightarrow> bool" where
  "search_completed_here s =
     (case skip_text ''result:'' s of None \<Rightarrow> False | Some r \<Rightarrow> starts_with (dropWhile py_space r) ''search completed successfully'')"

fun any_tail :: "(string \<Rightarrow> bool) \<Rightarrow> string \<Rightarrow> bool" where
  "any_tail p [] = p []"
| "any_tail p (c # cs) = (p (c # cs) \<or> any_tail p cs)"

definition is_low_value_memory :: "mem_record \<Rightarrow> bool" where
  "is_low_value_memory c =
     (strip (mm_content c) = [] \<or> generic_text (mm_content c) \<or> generic_text (mm_summary c) \<or>
      (mm_type c = ''episodic_case'' \<and>
       (let full = lower (strip (mm_summary c @ '' '' @ mm_content c)) in
        any_tail task_completed_here full \<or> contains_sub full ''task completed successfully'' \<or> any_tail search_completed_here full)))"

subsection \<open>What an agent may claim\<close>

definition is_subagent :: "mem_record \<Rightarrow> bool" where
  "is_subagent c = (mm_created_by c = ''subagent'' \<or> mm_source c = ''subagent'')"

definition is_agent_generated :: "mem_record \<Rightarrow> bool" where
  "is_agent_generated c = (mm_source c \<in> {''agent_suggestion'', ''subagent''} \<or> is_subagent c)"

text \<open>\<open>verified_observation\<close>: text and title of an exact quotation of a tool's recorded summary.\<close>

definition verified_observation :: "mem_env \<Rightarrow> string \<Rightarrow> string \<Rightarrow> pyval \<Rightarrow> (string \<times> string) option" where
  "verified_observation env ws session evidence =
     (case evidence of
        VDict d \<Rightarrow>
          (case (vget d ''tool_index'', vget d ''quote'') of
             (VInt index, VStr quote) \<Rightarrow>
               if session = [] \<or> index < 0 \<or> strip quote = [] then None
               else (case find (\<lambda>e. VStr (ev_id e) = vget d ''event_id'') (me_events env ws session) of
                       None \<Rightarrow> None
                     | Some e \<Rightarrow>
                         if int (length (ev_tools e)) \<le> index then None
                         else (case ev_tools e ! nat index of
                                 (tool, ok, summary) \<Rightarrow>
                                   if quote \<noteq> summary then None
                                   else Some (me_observation env (ev_created e) tool ok quote, me_title env tool)))
           | _ \<Rightarrow> None)
      | _ \<Rightarrow> None)"

definition has_verified_observation :: "mem_env \<Rightarrow> mem_record \<Rightarrow> bool" where
  "has_verified_observation env c =
     (if mm_type c \<noteq> ''episodic_case'' \<or> mm_scope c = ''global'' then False
      else case verified_observation env (mm_workspace c) (mm_session c) (vget (mm_metadata c) ''verified_observation'') of
             None \<Rightarrow> False
           | Some (text, title) \<Rightarrow> mm_content c = text \<and> mm_summary c = title)"

text \<open>\<open>_validate_consolidation_decision\<close>: the candidate, the verdict (\<open>None\<close> without a decision) and the reasons; \<open>None\<close> when \<open>int\<close> raises.\<close>

definition validate_decision :: "mem_record \<Rightarrow> (mem_record \<times> bool option \<times> string list) option" where
  "validate_decision c =
     (if vget (mm_metadata c) ''llm_score'' = VNone then Some (c, None, [''consolidation_decision_missing''])
      else case py_int (vget (mm_metadata c) ''llm_score'') of
             None \<Rightarrow> None
           | Some n \<Rightarrow>
               let cached = vget (mm_metadata c) ''llm_score'';
                   c = c\<lparr>mm_metadata := AList.update ''llm_score'' (VInt n) (mm_metadata c)\<rparr>;
                   summary = vget_or (mm_metadata c) ''llm_summary'' (VStr '''')
               in if truthy (vget_or (mm_metadata c) ''llm_keep'' (VBool True)) \<and> 3 \<le> n
                  then Some (if truthy summary then c\<lparr>mm_summary := py_str summary\<rparr> else c, Some True, [])
                  else Some (c, Some False, [''llm_score_too_low ('' @ py_str cached @ '')'']))"

definition score_of :: "mem_record \<Rightarrow> int" where
  "score_of c = (case py_int (vor (vget_or (mm_metadata c) ''llm_score'' (VInt 0)) (VInt 0)) of Some n \<Rightarrow> n | None \<Rightarrow> 0)"

text \<open>The status of a candidate: agents propose, people decide, an exact observation speaks for itself.\<close>

definition auto_confirm :: "mem_record \<Rightarrow> mem_record" where
  "auto_confirm c =
     (if mm_status c = ''pending'' \<and> mm_type c \<in> {''core_rule'', ''knowledge_note'', ''profile''} \<and> 50 \<le> mm_confidence c \<and>
         mm_source c \<in> {''user'', ''manual_confirm''}
      then c\<lparr>mm_status := ''active''\<rparr> else c)"

definition decide_status :: "mem_env \<Rightarrow> mem_record \<Rightarrow> (mem_record \<times> string list) option" where
  "decide_status env c =
     (let c = auto_confirm (if is_agent_generated c then c\<lparr>mm_status := ''pending''\<rparr> else c) in
      if \<not> is_agent_generated c then Some (c, [])
      else case validate_decision c of
             None \<Rightarrow> None
           | Some (c, verdict, reasons) \<Rightarrow>
               if verdict \<noteq> Some True then Some (c\<lparr>mm_status := ''pending''\<rparr>, reasons)
               else if is_subagent c \<or> score_of c < 4 \<or> mm_type c \<notin> {''semantic_fact'', ''episodic_case''} \<or>
                       str_of_or (vget (mm_metadata c) ''authority'') [] \<noteq> ''verified_tool'' \<or> \<not> has_verified_observation env c
               then Some (c\<lparr>mm_status := ''pending''\<rparr>, reasons)
               else Some (c\<lparr>mm_status := ''active''\<rparr>, reasons))"

subsection \<open>Writing\<close>

datatype mem_reply =
    Mem_rejected string
  | Mem_error string
  | Mem_raised
  | Mem_reconciled string
  | Mem_duplicate string string
  | Mem_written string "string list"

text \<open>\<open>sorted(conflicts, key=updated_at, reverse=True)[0]\<close>: the first of the newest.\<close>

definition newest :: "mem_record list \<Rightarrow> mem_record" where
  "newest rs = fold (\<lambda>r best. if mm_updated_at best < mm_updated_at r then r else best) (tl rs) (hd rs)"

definition plain_text :: "mem_record \<Rightarrow> string" where
  "plain_text r = strip (str_or (mm_content r) (mm_summary r))"

definition mark_rival :: "mem_env \<Rightarrow> string \<Rightarrow> string \<Rightarrow> mem_record \<Rightarrow> mem_store \<Rightarrow> mem_store" where
  "mark_rival env now cg e s = save_memory env (e\<lparr>mm_group := cg, mm_updated_at := now\<rparr>) s"

definition revision_target :: "mem_record \<Rightarrow> mem_store \<Rightarrow> mem_record option" where
  "revision_target c s = (if revises c = [] then None else get_memory (mm_workspace c) (revises c) s)"

definition bad_target :: "mem_record \<Rightarrow> mem_record option \<Rightarrow> bool" where
  "bad_target c target =
     (revises c \<noteq> [] \<and> (case target of None \<Rightarrow> True | Some t \<Rightarrow> mm_id t = mm_id c \<or> \<not> same_domain c t))"

text \<open>From the conflict detection on: the conflicts, whether the candidate takes the place of one, its rivals otherwise, and the stores.\<close>

definition conflicts_of :: "mem_record \<Rightarrow> mem_record option \<Rightarrow> mem_store \<Rightarrow> mem_record list" where
  "conflicts_of c target s =
     (let found = find_conflicts c s in
      found @ (case target of Some t \<Rightarrow> if mm_status t = ''active'' \<and> t \<notin> set found then [t] else [] | None \<Rightarrow> []))"

definition takes_over :: "mem_record \<Rightarrow> mem_record option \<Rightarrow> mem_record list \<Rightarrow> bool" where
  "takes_over c target conflicts =
     (conflicts \<noteq> [] \<and> mm_source c \<in> {''user'', ''manual_confirm''} \<and> (target \<noteq> None \<or> mm_type c = ''core_rule''))"

definition relinked :: "mem_record \<Rightarrow> mem_record option \<Rightarrow> mem_record list \<Rightarrow> mem_record" where
  "relinked c target conflicts =
     (if takes_over c target conflicts
      then let previous = (case target of Some t \<Rightarrow> t | None \<Rightarrow> newest conflicts) in
        c\<lparr>mm_metadata := AList.update ''supersedes_memory_id'' (VStr (mm_id previous)) (mm_metadata c)\<rparr>
      else c)"

definition rivals_of :: "mem_record \<Rightarrow> mem_record option \<Rightarrow> mem_record list \<Rightarrow> mem_record list" where
  "rivals_of c target conflicts = (if takes_over c target conflicts then [] else filter (\<lambda>e. mm_status e = ''active'') conflicts)"

definition contested :: "string \<Rightarrow> mem_record list \<Rightarrow> mem_record \<Rightarrow> mem_record" where
  "contested cg rivals c =
     (if rivals = [] then c
      else c\<lparr>mm_status := ''conflict'', mm_group := cg,
             mm_metadata := AList.update ''conflict_memory_ids'' (VList (map (\<lambda>e. VStr (mm_id e)) rivals)) (mm_metadata c)\<rparr>)"

definition reject_target :: "mem_env \<Rightarrow> string \<Rightarrow> mem_record \<Rightarrow> mem_record option \<Rightarrow> mem_store \<Rightarrow> mem_store" where
  "reject_target env now c target s =
     (case target of
        Some t \<Rightarrow>
          if proposal t
          then save_memory env (t\<lparr>mm_status := ''rejected'', mm_updated_at := now,
                                  mm_metadata := AList.update ''superseded_by'' (VStr (mm_id c)) (mm_metadata t)\<rparr>) s
          else s
      | None \<Rightarrow> s)"

definition store_candidate ::
  "mem_env \<Rightarrow> string \<Rightarrow> string \<Rightarrow> mem_record \<Rightarrow> mem_record option \<Rightarrow> mem_record list \<Rightarrow> mem_store \<Rightarrow> mem_store" where
  "store_candidate env now cg c target rivals s =
     (let s = reject_target env now c target (save_memory env c (fold (mark_rival env now cg) rivals s)) in
      if mm_status c = ''active'' then retire_ancestors env now (clean_record env c) s else s)"

definition publish_memory ::
  "mem_env \<Rightarrow> string \<Rightarrow> string \<Rightarrow> mem_record \<Rightarrow> mem_record option \<Rightarrow> string list \<Rightarrow> mem_store \<Rightarrow> mem_store \<times> mem_reply" where
  "publish_memory env now cg c target warnings s =
     (let conflicts = conflicts_of c target s in
      case filter (\<lambda>e. plain_text e = plain_text c) conflicts of
        e # _ \<Rightarrow> (s, Mem_duplicate (mm_status e) (mm_id e))
      | [] \<Rightarrow>
          let rivals = rivals_of c target conflicts;
              c = contested cg rivals (relinked c target conflicts)
          in (store_candidate env now cg c target rivals s, Mem_written (mm_status c) warnings))"

definition redact_texts :: "mem_env \<Rightarrow> mem_record \<Rightarrow> mem_record" where
  "redact_texts env c = c\<lparr>mm_content := mem_redact env (mm_content c), mm_summary := mem_redact env (mm_summary c)\<rparr>"

definition admit_memory :: "mem_env \<Rightarrow> string \<Rightarrow> string \<Rightarrow> mem_record \<Rightarrow> mem_store \<Rightarrow> mem_store \<times> mem_reply" where
  "admit_memory env now cg c s =
     (if structured_contains_secret env (persistable_payload c)
      then (s, Mem_rejected ''content contains secret-like patterns, rejected'')
      else if is_low_value_memory c then (save_memory env (c\<lparr>mm_status := ''rejected''\<rparr>) s, Mem_rejected ''low_value_memory'')
      else case decide_status env (redact_texts env c) of
             None \<Rightarrow> (s, Mem_raised)
           | Some (c, warnings) \<Rightarrow>
               let target = revision_target c s in
               if bad_target c target then (s, Mem_rejected ''invalid_memory_revision_target'')
               else if (case target of Some t \<Rightarrow> superseded (list_all_memories (mm_workspace c) s) (mm_id t) | None \<Rightarrow> False)
               then (s, Mem_error ''memory_revision_stale'')
               else publish_memory env now cg c target warnings s)"

definition write_memory :: "mem_env \<Rightarrow> string \<Rightarrow> string \<Rightarrow> mem_record \<Rightarrow> mem_store \<Rightarrow> mem_store \<times> mem_reply" where
  "write_memory env now cg c s =
     (case candidate_error c of
        Some e \<Rightarrow> (s, Mem_rejected e)
      | None \<Rightarrow>
          if \<not> memory_id_ok (mm_id c) then (s, Mem_error ''invalid_memory_id'')
          else case get_memory (mm_workspace c) (mm_id c) s of
                 Some old \<Rightarrow>
                   (s, if mm_content old = mem_redact env (mm_content c) \<and> same_domain c old
                       then Mem_reconciled (mm_status old) else Mem_error ''memory_identity_conflict'')
               | None \<Rightarrow> admit_memory env now cg c s)"

subsection \<open>Confirming\<close>

definition authority_rank :: "string \<Rightarrow> int" where
  "authority_rank authority = (if authority = ''manual_confirm'' then 90 else 60)"

definition expire_rival :: "mem_env \<Rightarrow> string \<Rightarrow> string \<Rightarrow> mem_record \<Rightarrow> mem_store \<Rightarrow> mem_store" where
  "expire_rival env i cg r s =
     (if mm_group r = cg \<and> mm_id r \<noteq> i \<and> mm_status r = ''active'' then save_memory env (r\<lparr>mm_status := ''expired''\<rparr>) s else s)"

definition expire_group :: "mem_env \<Rightarrow> string \<Rightarrow> string \<Rightarrow> string \<Rightarrow> mem_store \<Rightarrow> mem_store" where
  "expire_group env ws i cg s = (if cg = [] then s else fold (expire_rival env i cg) (list_all_memories ws s) s)"

definition confirm_retirement :: "mem_env \<Rightarrow> string \<Rightarrow> string \<Rightarrow> mem_record \<Rightarrow> mem_record \<Rightarrow> mem_store \<Rightarrow> mem_store" where
  "confirm_retirement env now authority r t s =
     save_memory env
       (r\<lparr>mm_status := ''expired'', mm_updated_at := now,
          mm_metadata := merge_dict (mm_metadata r)
            [(''decision'', VStr ''confirmed_retirement''), (''authority'', VStr authority), (''authority_rank'', VInt (authority_rank authority))]\<rparr>)
       (save_memory env (t\<lparr>mm_status := ''expired'', mm_updated_at := now\<rparr>) s)"

definition activate_memory :: "mem_env \<Rightarrow> string \<Rightarrow> string \<Rightarrow> string \<Rightarrow> mem_record \<Rightarrow> mem_store \<Rightarrow> mem_store" where
  "activate_memory env now authority ws r s =
     (let r = r\<lparr>mm_status := ''active'', mm_updated_at := now,
                mm_metadata := merge_dict (mm_metadata r)
                  [(''authority'', VStr authority), (''authority_rank'', VInt (authority_rank authority))]\<rparr>
      in expire_group env ws (mm_id r) (mm_group r) (retire_ancestors env now (clean_record env r) (save_memory env r s)))"

text \<open>The reply is the new status, or the error.\<close>

definition confirm_memory :: "mem_env \<Rightarrow> string \<Rightarrow> string \<Rightarrow> string \<Rightarrow> string \<Rightarrow> mem_store \<Rightarrow> mem_store \<times> (string + string)" where
  "confirm_memory env now authority ws i s =
     (case get_memory ws i s of
        None \<Rightarrow> (s, Inl ''not found'')
      | Some r \<Rightarrow>
          if \<not> proposal r then (s, Inl (''cannot confirm status '' @ mm_status r))
          else let target = (if revises r = [] then None else get_memory ws (revises r) s) in
            if bad_target r target then (s, Inl ''invalid_memory_revision_target'')
            else if vget (mm_metadata r) ''proposed_action'' = VStr ''expire''
            then (case target of
                    None \<Rightarrow> (s, Inl ''invalid_memory_revision_target'')
                  | Some t \<Rightarrow> (confirm_retirement env now authority r t s, Inr ''expired''))
            else if (case target of Some t \<Rightarrow> superseded (list_all_memories ws s) (mm_id t) | None \<Rightarrow> False)
            then (s, Inl ''memory_revision_stale'')
            else (activate_memory env now authority ws r s, Inr ''active''))"

subsection \<open>How the store evolves\<close>

text \<open>No operation changes who a memory belongs to, and none but a write or a confirmation makes it active.\<close>

definition same_identity :: "mem_record \<Rightarrow> mem_record \<Rightarrow> bool" where
  "same_identity r q =
     (mm_id q = mm_id r \<and> mm_workspace q = mm_workspace r \<and> mm_session q = mm_session r \<and> mm_task q = mm_task r \<and>
      mm_scope q = mm_scope r \<and> mm_type q = mm_type r \<and> mm_source q = mm_source r \<and> mm_created_by q = mm_created_by r)"

definition keeps_place :: "mem_record \<Rightarrow> mem_record \<Rightarrow> bool" where
  "keeps_place r q = (same_identity r q \<and> (mm_status q = ''active'' \<longrightarrow> mm_status r = ''active''))"

definition evolves :: "(mem_record \<Rightarrow> bool) \<Rightarrow> mem_store \<Rightarrow> mem_store \<Rightarrow> bool" where
  "evolves P s s' = (store_ok s' \<and> (\<forall>j q. map_of s' j = Some q \<longrightarrow> P q \<or> (\<exists>r. map_of s j = Some r \<and> keeps_place r q)))"

definition lasting :: "(mem_record \<Rightarrow> bool) \<Rightarrow> bool" where
  "lasting P = (\<forall>r q. P r \<longrightarrow> keeps_place r q \<longrightarrow> P q)"

lemma same_identity_refl [simp]: "same_identity r r"
  by (simp add: same_identity_def)

lemma same_identity_trans: "same_identity r q \<Longrightarrow> same_identity q t \<Longrightarrow> same_identity r t"
  by (simp add: same_identity_def)

lemma keeps_place_refl [simp]: "keeps_place r r"
  by (simp add: keeps_place_def)

lemma keeps_place_trans: "keeps_place r q \<Longrightarrow> keeps_place q t \<Longrightarrow> keeps_place r t"
  by (auto simp: keeps_place_def intro: same_identity_trans)

lemma clean_identity [simp]: "same_identity r (clean_record env q) = same_identity r q" "keeps_place r (clean_record env q) = keeps_place r q"
  by (simp_all add: same_identity_def keeps_place_def clean_record_def)

lemma evolves_refl [simp]: "store_ok s \<Longrightarrow> evolves P s s"
  by (auto simp: evolves_def)

lemma evolves_ok: "evolves P s s' \<Longrightarrow> store_ok s'"
  by (simp add: evolves_def)

lemma evolves_trans:
  assumes "lasting P" "evolves P s s1" "evolves P s1 s2"
  shows "evolves P s s2"
  unfolding evolves_def
proof (intro conjI allI impI)
  show "store_ok s2" using assms(3) by (rule evolves_ok)
  fix j q assume "map_of s2 j = Some q"
  with assms(3) consider "P q" | r where "map_of s1 j = Some r" "keeps_place r q" by (auto simp: evolves_def)
  then show "P q \<or> (\<exists>r. map_of s j = Some r \<and> keeps_place r q)"
  proof cases
    case 2
    with assms(2) have "P r \<or> (\<exists>u. map_of s j = Some u \<and> keeps_place u r)" by (simp add: evolves_def)
    with assms(1) 2(2) show ?thesis unfolding lasting_def by (blast intro: keeps_place_trans)
  qed simp
qed

lemma evolves_put:
  assumes "evolves P s s1" "P (clean_record env r) \<or> (\<exists>t. map_of s (mm_id r) = Some t \<and> keeps_place t r)"
  shows "evolves P s (save_memory env r s1)"
  unfolding evolves_def
proof (intro conjI allI impI)
  show "store_ok (save_memory env r s1)" by (rule save_memory_ok [OF evolves_ok [OF assms(1)]])
  fix j q assume q: "map_of (save_memory env r s1) j = Some q"
  show "P q \<or> (\<exists>r. map_of s j = Some r \<and> keeps_place r q)"
  proof (cases "j = mm_id r")
    case True
    with q have "q = clean_record env r" by (simp add: save_memory_at)
    with assms(2) True show ?thesis by auto
  next
    case False
    with q have "map_of s1 j = Some q" by (simp add: save_memory_at)
    with assms(1) show ?thesis by (simp add: evolves_def)
  qed
qed

lemma evolves_fold:
  assumes "\<And>p s1. p \<in> set ps \<Longrightarrow> evolves P s s1 \<Longrightarrow> evolves P s (f p s1)" "evolves P s s1"
  shows "evolves P s (fold f ps s1)"
  using assms by (induction ps arbitrary: s1) auto

lemma chain_members: "set (revision_chain recs root seen current) \<subseteq> set recs"
proof (induction recs root seen current rule: revision_chain.induct)
  case (1 recs root seen current)
  then show ?case
    by (cases "by_id recs (revises current)") (auto simp: revision_chain.simps [of recs root seen current] dest: by_id_member)
qed

lemma listed_at: "store_ok s \<Longrightarrow> r \<in> set (list_all_memories ws s) \<Longrightarrow> map_of s (mm_id r) = Some r"
  using set_list_all by blast

lemma retire_fold_evolves:
  assumes "store_ok s" "\<And>p. p \<in> set ps \<Longrightarrow> map_of s (mm_id p) = Some p"
  shows "evolves P s (fold (retire_one env now i) ps s)"
proof (rule evolves_fold)
  fix p s1 assume p: "p \<in> set ps" and s1: "evolves P s s1"
  from assms(2) [OF p] show "evolves P s (retire_one env now i p s1)" unfolding retire_one_def
    by (auto intro!: evolves_put [OF s1] disjI2 exI [of _ p] s1 simp: keeps_place_def same_identity_def)
qed (simp add: assms(1))

lemma retire_ancestors_evolves: "store_ok s \<Longrightarrow> evolves P s (retire_ancestors env now r s)"
  unfolding retire_ancestors_def revision_ancestors_def
  using chain_members listed_at by (blast intro: retire_fold_evolves)

lemma evolves_delete: "evolves P s s1 \<Longrightarrow> evolves P s (AList.delete i s1)"
  by (auto simp: evolves_def delete_store_ok delete_conv')

lemma retire_memory_evolves:
  assumes "store_ok s" "status \<noteq> ''active''"
  shows "evolves P s (fst (retire_memory env now ws i status s))"
proof (cases "get_memory ws i s")
  case (Some r)
  then have r: "map_of s (mm_id r) = Some r" using get_memory_Some store_ok_id [OF assms(1)] by fastforce
  have "evolves P s (if mm_status r = ''active'' then retire_ancestors env now r s else s)"
    using retire_ancestors_evolves assms(1) by simp
  then have "evolves P s (save_memory env (r\<lparr>mm_status := status, mm_updated_at := now\<rparr>)
      (if mm_status r = ''active'' then retire_ancestors env now r s else s))"
    using r assms(2) by (intro evolves_put) (simp_all add: keeps_place_def same_identity_def)
  with Some assms(1) show ?thesis by (simp add: retire_memory_def)
qed (simp add: retire_memory_def assms(1))

lemma delete_memory_evolves:
  assumes "store_ok s"
  shows "evolves P s (fst (delete_memory env now ws i s))"
proof (cases "get_memory ws i s")
  case (Some r)
  have "evolves P s (fold (retire_one env now i) (revision_ancestors r (list_all_memories ws s)) s)"
    using chain_members listed_at [OF assms] unfolding revision_ancestors_def by (blast intro: retire_fold_evolves [OF assms])
  with Some assms show ?thesis by (simp add: delete_memory_def evolves_delete Let_def)
qed (simp add: delete_memory_def assms)

lemma expire_group_evolves:
  assumes "store_ok s"
  shows "evolves P s (expire_group env ws i cg s)"
proof -
  have "evolves P s (fold (expire_rival env i cg) (list_all_memories ws s) s)"
  proof (rule evolves_fold)
    fix p s1 assume p: "p \<in> set (list_all_memories ws s)" and s1: "evolves P s s1"
    from listed_at [OF assms p] show "evolves P s (expire_rival env i cg p s1)" unfolding expire_rival_def
      by (auto intro!: evolves_put [OF s1] disjI2 exI [of _ p] s1 simp: keeps_place_def same_identity_def)
  qed (simp add: assms)
  with assms show ?thesis by (simp add: expire_group_def)
qed

lemma activate_memory_evolves:
  assumes "store_ok s" "lasting P" "\<And>q. same_identity r q \<Longrightarrow> P q"
  shows "evolves P s (activate_memory env now authority ws r s)"
proof -
  let ?r = "r\<lparr>mm_status := ''active'', mm_updated_at := now,
      mm_metadata := merge_dict (mm_metadata r) [(''authority'', VStr authority), (''authority_rank'', VInt (authority_rank authority))]\<rparr>"
  let ?s1 = "save_memory env ?r s" and ?s2 = "retire_ancestors env now (clean_record env ?r) (save_memory env ?r s)"
  have "same_identity r ?r" by (simp add: same_identity_def)
  then have s1: "evolves P s ?s1" using assms(1,3) by (intro evolves_put) simp_all
  then have s2: "evolves P s ?s2" by (rule evolves_trans [OF assms(2)]) (rule retire_ancestors_evolves [OF evolves_ok [OF s1]])
  then have "evolves P s (expire_group env ws (mm_id ?r) (mm_group ?r) ?s2)"
    by (rule evolves_trans [OF assms(2)]) (rule expire_group_evolves [OF evolves_ok [OF s2]])
  then show ?thesis by (simp add: activate_memory_def Let_def)
qed

lemma confirm_memory_evolves:
  assumes "store_ok s" "lasting P" "\<And>r q. get_memory ws i s = Some r \<Longrightarrow> same_identity r q \<Longrightarrow> P q"
  shows "evolves P s (fst (confirm_memory env now authority ws i s))"
proof (cases "get_memory ws i s")
  case (Some r)
  then have r: "map_of s (mm_id r) = Some r" using get_memory_Some store_ok_id [OF assms(1)] by fastforce
  have "evolves P s (activate_memory env now authority ws r s)"
    by (rule activate_memory_evolves [OF assms(1,2)]) (rule assms(3) [OF Some])
  moreover have "evolves P s (confirm_retirement env now authority r t s)" if "get_memory ws (revises r) s = Some t" for t
  proof -
    from that have t: "map_of s (mm_id t) = Some t" using get_memory_Some store_ok_id [OF assms(1)] by fastforce
    have t1: "evolves P s (save_memory env (t\<lparr>mm_status := ''expired'', mm_updated_at := now\<rparr>) s)"
      using t assms(1) by (intro evolves_put) (simp_all add: keeps_place_def same_identity_def)
    show ?thesis unfolding confirm_retirement_def
      by (rule evolves_put [OF t1]) (use r in \<open>simp add: keeps_place_def same_identity_def\<close>)
  qed
  ultimately show ?thesis using Some assms(1) by (auto simp: confirm_memory_def Let_def split: option.splits)
qed (simp add: confirm_memory_def assms(1))

lemma relinked_fields [simp]:
  "mm_status (relinked c target conflicts) = mm_status c" "same_identity r (relinked c target conflicts) = same_identity r c"
  "mm_content (relinked c target conflicts) = mm_content c" "mm_summary (relinked c target conflicts) = mm_summary c"
  "mm_id (relinked c target conflicts) = mm_id c"
  by (simp_all add: relinked_def same_identity_def Let_def)

lemma contested_fields [simp]:
  "mm_status (contested cg rivals c) = (if rivals = [] then mm_status c else ''conflict'')"
  "same_identity r (contested cg rivals c) = same_identity r c"
  "mm_content (contested cg rivals c) = mm_content c" "mm_summary (contested cg rivals c) = mm_summary c"
  "mm_id (contested cg rivals c) = mm_id c"
  by (simp_all add: contested_def same_identity_def)

lemma conflicts_listed:
  assumes "store_ok s" "\<And>t. target = Some t \<Longrightarrow> map_of s (mm_id t) = Some t" "e \<in> set (conflicts_of c target s)"
  shows "map_of s (mm_id e) = Some e"
  using assms(2,3) listed_at [OF assms(1)]
  by (auto simp: conflicts_of_def find_conflicts_def Let_def split: option.splits if_splits)

lemma store_candidate_evolves:
  assumes "store_ok s" "lasting P" "P (clean_record env c)" "\<And>t. target = Some t \<Longrightarrow> map_of s (mm_id t) = Some t"
    and "\<And>e. e \<in> set rivals \<Longrightarrow> map_of s (mm_id e) = Some e"
  shows "evolves P s (store_candidate env now cg c target rivals s)"
proof -
  have "evolves P s (fold (mark_rival env now cg) rivals s)"
  proof (rule evolves_fold)
    fix p s1 assume "p \<in> set rivals" "evolves P s s1"
    with assms(5) show "evolves P s (mark_rival env now cg p s1)" unfolding mark_rival_def
      by (auto intro!: evolves_put simp: keeps_place_def same_identity_def)
  qed (simp add: assms(1))
  then have s1: "evolves P s (save_memory env c (fold (mark_rival env now cg) rivals s))"
    using assms(3) by (intro evolves_put) simp_all
  have s2: "evolves P s (reject_target env now c target (save_memory env c (fold (mark_rival env now cg) rivals s)))"
    using assms(4) s1 by (auto simp: reject_target_def keeps_place_def same_identity_def split: option.split intro!: evolves_put)
  note s3 = evolves_trans [OF assms(2) s2 retire_ancestors_evolves [OF evolves_ok [OF s2]]]
  from s2 s3 show ?thesis by (simp add: store_candidate_def Let_def)
qed

lemma publish_memory_evolves:
  assumes "store_ok s" "lasting P" "\<And>q. same_identity c q \<Longrightarrow> mm_status q \<in> {mm_status c, ''conflict''} \<Longrightarrow> P q"
    and "\<And>t. target = Some t \<Longrightarrow> map_of s (mm_id t) = Some t"
  shows "evolves P s (fst (publish_memory env now cg c target warnings s))"
proof -
  let ?conflicts = "conflicts_of c target s"
  let ?rivals = "rivals_of c target ?conflicts"
  have "map_of s (mm_id e) = Some e" if "e \<in> set ?rivals" for e
  proof -
    from that have "e \<in> set ?conflicts" by (simp add: rivals_of_def split: if_splits)
    with assms(4) show ?thesis by (rule conflicts_listed [OF assms(1)])
  qed
  moreover have "P (clean_record env (contested cg ?rivals (relinked c target ?conflicts)))" by (rule assms(3)) simp_all
  ultimately have "evolves P s (store_candidate env now cg (contested cg ?rivals (relinked c target ?conflicts)) target ?rivals s)"
    by (intro store_candidate_evolves [OF assms(1,2) _ assms(4)])
  then show ?thesis using assms(1) by (auto simp: publish_memory_def Let_def split: list.split)
qed

text \<open>The gate's own decision keeps the identity of a candidate.\<close>

lemma validate_decision_identity: "validate_decision c = Some (d, verdict, reasons) \<Longrightarrow> same_identity c d"
  by (auto simp: validate_decision_def same_identity_def Let_def split: option.splits if_splits)

lemma auto_confirm_identity [simp]: "same_identity r (auto_confirm c) = same_identity r c"
  by (simp add: auto_confirm_def same_identity_def)

lemma status_identity [simp]: "same_identity r (c\<lparr>mm_status := x\<rparr>) = same_identity r c" "same_identity r (redact_texts env c) = same_identity r c"
  by (simp_all add: same_identity_def redact_texts_def)

lemma identity_agent: "same_identity r q \<Longrightarrow> is_agent_generated q = is_agent_generated r \<and> is_subagent q = is_subagent r"
  by (simp add: same_identity_def is_agent_generated_def is_subagent_def)

lemma status_evidence [simp]:
  "is_subagent (c\<lparr>mm_status := x\<rparr>) = is_subagent c" "score_of (c\<lparr>mm_status := x\<rparr>) = score_of c"
  "has_verified_observation env (c\<lparr>mm_status := x\<rparr>) = has_verified_observation env c"
  by (simp_all add: is_subagent_def score_of_def has_verified_observation_def split: option.split)

text \<open>What the gate decides: a proposal stays one unless its evidence holds; other candidates keep the status they came with or the automatic one.\<close>

lemma decide_status_cases:
  assumes "decide_status env c = Some (d, reasons)"
  shows "same_identity c d"
    and "is_agent_generated c \<Longrightarrow> mm_status d = ''pending'' \<or> mm_status d = ''active'' \<and> \<not> is_subagent d \<and> 4 \<le> score_of d \<and>
      str_of_or (vget (mm_metadata d) ''authority'') [] = ''verified_tool'' \<and> has_verified_observation env d"
    and "\<not> is_agent_generated c \<Longrightarrow> d = auto_confirm c"
proof -
  let ?c = "auto_confirm (if is_agent_generated c then c\<lparr>mm_status := ''pending''\<rparr> else c)"
  have agent: "is_agent_generated ?c = is_agent_generated c" using identity_agent [of c ?c] by simp
  show "d = auto_confirm c" if "\<not> is_agent_generated c" using assms that agent by (simp add: decide_status_def)
  consider "\<not> is_agent_generated c" "d = ?c" | e verdict where "is_agent_generated c" "validate_decision ?c = Some (e, verdict, reasons)"
    "d = e\<lparr>mm_status := ''pending''\<rparr> \<or> d = e\<lparr>mm_status := ''active''\<rparr> \<and> \<not> is_subagent e \<and> 4 \<le> score_of e \<and>
      str_of_or (vget (mm_metadata e) ''authority'') [] = ''verified_tool'' \<and> has_verified_observation env e"
    using assms agent by (auto simp: decide_status_def Let_def not_less split: option.splits if_splits)
  note cases = this
  from cases show "same_identity c d"
  proof cases
    case 2
    have "same_identity c ?c" by simp
    then have "same_identity c e" using validate_decision_identity [OF 2(2)] by (rule same_identity_trans)
    with 2(3) show ?thesis by auto
  qed simp
  show "mm_status d = ''pending'' \<or> mm_status d = ''active'' \<and> \<not> is_subagent d \<and> 4 \<le> score_of d \<and>
      str_of_or (vget (mm_metadata d) ''authority'') [] = ''verified_tool'' \<and> has_verified_observation env d" if "is_agent_generated c"
    using cases
  proof cases
    case 2
    from 2(3) show ?thesis by auto
  qed (use that in simp)
qed

text \<open>Every record a write can bring into the store.\<close>

definition admitted :: "mem_record \<Rightarrow> mem_record \<Rightarrow> bool" where
  "admitted c q =
     (same_identity c q \<and>
      (mm_status q = ''active'' \<longrightarrow> is_agent_generated c \<longrightarrow> mm_type q = ''episodic_case'' \<and> mm_scope q \<noteq> ''global'' \<and> \<not> is_subagent q))"

lemma lasting_admitted: "lasting (admitted c)"
  unfolding lasting_def
proof (intro allI impI)
  fix r q assume "admitted c r" "keeps_place r q"
  then have "same_identity c r" "same_identity r q" "mm_status q = ''active'' \<longrightarrow> mm_status r = ''active''"
    "mm_status r = ''active'' \<longrightarrow> is_agent_generated c \<longrightarrow> mm_type r = ''episodic_case'' \<and> mm_scope r \<noteq> ''global'' \<and> \<not> is_subagent r"
    by (simp_all add: admitted_def keeps_place_def)
  then show "admitted c q" using same_identity_trans identity_agent [of r q]
    by (auto simp: admitted_def) (simp_all add: same_identity_def)
qed

lemma admit_memory_cases:
  obtains reply where "admit_memory env now cg c s = (s, reply)" "\<And>st w. reply \<noteq> Mem_written st w"
  | "admit_memory env now cg c s = (save_memory env (c\<lparr>mm_status := ''rejected''\<rparr>) s, Mem_rejected ''low_value_memory'')"
  | d reasons where "decide_status env (redact_texts env c) = Some (d, reasons)" "\<not> bad_target d (revision_target d s)"
      "admit_memory env now cg c s = publish_memory env now cg d (revision_target d s) reasons s"
proof (cases "structured_contains_secret env (persistable_payload c) \<or> is_low_value_memory c")
  case True
  then show thesis using that(1,2) by (cases "structured_contains_secret env (persistable_payload c)") (auto simp: admit_memory_def)
next
  case open_gate: False
  show thesis
  proof (cases "decide_status env (redact_texts env c)")
    case None
    with open_gate that(1) [of Mem_raised] show thesis by (simp add: admit_memory_def)
  next
    case (Some p)
    obtain d reasons where p: "p = (d, reasons)" by fastforce
    let ?target = "revision_target d s"
    let ?stale = "case ?target of Some t \<Rightarrow> superseded (list_all_memories (mm_workspace d) s) (mm_id t) | None \<Rightarrow> False"
    have admit: "admit_memory env now cg c s =
        (if bad_target d ?target then (s, Mem_rejected ''invalid_memory_revision_target'')
         else if ?stale then (s, Mem_error ''memory_revision_stale'') else publish_memory env now cg d ?target reasons s)"
      using open_gate Some p by (simp add: admit_memory_def Let_def)
    consider "bad_target d ?target" | "\<not> bad_target d ?target" "?stale" | "\<not> bad_target d ?target" "\<not> ?stale" by blast
    then show thesis
    proof cases
      case 1
      then show thesis by (intro that(1) [of "Mem_rejected ''invalid_memory_revision_target''"]) (simp_all add: admit)
    next
      case 2
      then show thesis by (intro that(1) [of "Mem_error ''memory_revision_stale''"]) (simp_all add: admit)
    next
      case 3
      then show thesis using Some p by (intro that(3)) (simp_all add: admit)
    qed
  qed
qed

lemma write_memory_evolves:
  assumes "store_ok s"
  shows "evolves (admitted c) s (fst (write_memory env now cg c s))"
proof -
  have "evolves (admitted c) s (fst (admit_memory env now cg c s))"
  proof (rule admit_memory_cases [of env now cg c s])
    assume "admit_memory env now cg c s = (save_memory env (c\<lparr>mm_status := ''rejected''\<rparr>) s, Mem_rejected ''low_value_memory'')"
    with assms show ?thesis by (auto intro!: evolves_put simp: admitted_def)
  next
    fix d reasons assume d: "decide_status env (redact_texts env c) = Some (d, reasons)"
      and eq: "admit_memory env now cg c s = publish_memory env now cg d (revision_target d s) reasons s"
    note D = decide_status_cases [OF d]
    have id: "same_identity c d" using D(1) same_identity_trans [of c "redact_texts env c" d] by simp
    have agent: "is_agent_generated (redact_texts env c) = is_agent_generated c" using identity_agent [of c "redact_texts env c"] by simp
    have "admitted c q" if "same_identity d q" "mm_status q \<in> {mm_status d, ''conflict''}" for q
    proof -
      have "mm_type d = ''episodic_case'' \<and> mm_scope d \<noteq> ''global'' \<and> \<not> is_subagent d" if "mm_status q = ''active''" "is_agent_generated c"
        using D(2) agent that \<open>mm_status q \<in> _\<close> by (auto simp: has_verified_observation_def split: if_splits)
      moreover have "mm_type q = mm_type d" "mm_scope q = mm_scope d" "is_subagent q = is_subagent d"
        using that(1) identity_agent [OF that(1)] by (simp_all add: same_identity_def)
      ultimately show ?thesis using same_identity_trans [OF id that(1)] by (simp add: admitted_def)
    qed
    moreover have "map_of s (mm_id t) = Some t" if "revision_target d s = Some t" for t
      using that get_memory_Some store_ok_id [OF assms] by (fastforce simp: revision_target_def split: if_splits)
    ultimately show ?thesis unfolding eq by (rule publish_memory_evolves [OF assms lasting_admitted])
  qed (simp add: assms)
  with assms show ?thesis by (simp add: write_memory_def split: option.split)
qed

lemma chain_not_seen: "t \<in> set (revision_chain recs root seen current) \<Longrightarrow> mm_id t \<notin> set seen"
proof (induction recs root seen current rule: revision_chain.induct)
  case (1 recs root seen current)
  then show ?case
    by (cases "by_id recs (revises current)")
      (auto simp: revision_chain.simps [of recs root seen current] dest: by_id_member split: if_splits)
qed

lemma retire_ancestors_self: "map_of (retire_ancestors env now r s) (mm_id r) = map_of s (mm_id r)"
  using retire_fold_at [of "revision_ancestors r (list_all_memories (mm_workspace r) s)" "mm_id r" env now "mm_id r" s]
    chain_not_seen [of _ "list_all_memories (mm_workspace r) s" r "[mm_id r]" r]
  by (auto simp: retire_ancestors_def revision_ancestors_def)

text \<open>A written candidate is in the store, with the status the reply names and its redacted text.\<close>

lemma publish_memory_written:
  assumes "publish_memory env now cg c target warnings s = (s', Mem_written st w)" "\<And>t. target = Some t \<Longrightarrow> mm_id t \<noteq> mm_id c"
  obtains d where "map_of s' (mm_id c) = Some (clean_record env d)" "mm_status d = st" "same_identity c d" "mm_content d = mm_content c"
    "mm_summary d = mm_summary c" "st = mm_status c \<or> st = ''conflict''"
proof -
  let ?conflicts = "conflicts_of c target s"
  let ?rivals = "rivals_of c target ?conflicts"
  let ?d = "contested cg ?rivals (relinked c target ?conflicts)"
  from assms(1) have out: "s' = store_candidate env now cg ?d target ?rivals s" "st = mm_status ?d"
    by (auto simp: publish_memory_def Let_def split: list.splits)
  have "map_of (reject_target env now ?d target (save_memory env ?d s1)) (mm_id c) = Some (clean_record env ?d)" for s1
    using assms(2) by (auto simp: reject_target_def save_memory_at split: option.split)
  moreover have "map_of (retire_ancestors env now (clean_record env ?d) s1) (mm_id c) = map_of s1 (mm_id c)" for s1
    using retire_ancestors_self [of env now "clean_record env ?d" s1] by simp
  ultimately have "map_of s' (mm_id c) = Some (clean_record env ?d)" unfolding out(1) store_candidate_def Let_def by simp
  then show thesis by (rule that) (simp_all add: out(2))
qed

lemma revision_target_other: "\<not> bad_target d (revision_target d s) \<Longrightarrow> revision_target d s = Some t \<Longrightarrow> mm_id t \<noteq> mm_id d"
  by (auto simp: bad_target_def revision_target_def split: if_splits)

lemma write_memory_written:
  assumes "write_memory env now cg c s = (s', Mem_written st w)"
  obtains d e reasons where "decide_status env (redact_texts env c) = Some (d, reasons)" "map_of s' (mm_id c) = Some (clean_record env e)"
    "mm_status e = st" "same_identity d e" "mm_content e = mm_content d" "mm_summary e = mm_summary d" "st = mm_status d \<or> st = ''conflict''"
    "memory_id_ok (mm_id c)"
proof -
  from assms have admit: "admit_memory env now cg c s = (s', Mem_written st w)" "memory_id_ok (mm_id c)"
    by (simp_all add: write_memory_def split: option.splits if_splits)
  show thesis
  proof (rule admit_memory_cases [of env now cg c s])
    fix d reasons assume d: "decide_status env (redact_texts env c) = Some (d, reasons)" "\<not> bad_target d (revision_target d s)"
      and eq: "admit_memory env now cg c s = publish_memory env now cg d (revision_target d s) reasons s"
    have "mm_id d = mm_id c" using decide_status_cases(1) [OF d(1)] by (simp add: same_identity_def redact_texts_def)
    with publish_memory_written [of env now cg d "revision_target d s" reasons s s' st w] revision_target_other [OF d(2)] admit(1) eq
    obtain e where "map_of s' (mm_id c) = Some (clean_record env e)" "mm_status e = st" "same_identity d e" "mm_content e = mm_content d"
      "mm_summary e = mm_summary d" "st = mm_status d \<or> st = ''conflict''" by metis
    with that d(1) admit(2) show thesis by blast
  next
    fix reply assume "admit_memory env now cg c s = (s, reply)" "\<And>st w. reply \<noteq> Mem_written st w"
    with admit(1) show thesis by auto
  qed (use admit(1) in simp)
qed

end
