(* ===== verification/Memory_Claims.thy ===== *)
theory Memory_Claims
  imports Memory_Gate
begin

section \<open>What the memory store promises\<close>

text \<open>
  The operations on the memories of \<^verbatim>\<open>storage/memory_governance.py\<close> in any order, and their properties: what an agent may make
  active, the form of every stored record, the repetition of a write, and what a confirmation settles and what it leaves.
\<close>

subsection \<open>Evidence\<close>

lemma observation_exact:
  assumes "verified_observation env ws session evidence = Some (text, title)"
  obtains e i tool ok quote where "e \<in> set (me_events env ws session)" "i < length (ev_tools e)" "ev_tools e ! i = (tool, ok, quote)"
    "strip quote \<noteq> []" "text = me_observation env (ev_created e) tool ok quote" "title = me_title env tool"
proof -
  from assms obtain d where d: "evidence = VDict d" by (auto simp: verified_observation_def split: pyval.splits)
  from assms d obtain index quote where q: "vget d ''tool_index'' = VInt index" "vget d ''quote'' = VStr quote"
    by (auto simp: verified_observation_def split: pyval.splits)
  from assms d q have guards: "session \<noteq> []" "0 \<le> index" "strip quote \<noteq> []"
    by (auto simp: verified_observation_def split: if_splits)
  from assms d q guards obtain e where e: "find (\<lambda>e. VStr (ev_id e) = vget d ''event_id'') (me_events env ws session) = Some e"
    by (auto simp: verified_observation_def split: option.splits)
  with assms d q guards have "int (length (ev_tools e)) > index" by (auto simp: verified_observation_def split: if_splits)
  with assms d q guards e have "ev_tools e ! nat index = (fst (ev_tools e ! nat index), fst (snd (ev_tools e ! nat index)), quote)"
    "text = me_observation env (ev_created e) (fst (ev_tools e ! nat index)) (fst (snd (ev_tools e ! nat index))) quote"
    "title = me_title env (fst (ev_tools e ! nat index))"
    by (auto simp: verified_observation_def split: if_splits prod.splits)
  moreover have "e \<in> set (me_events env ws session)" using e by (auto simp: find_Some_iff)
  moreover have "nat index < length (ev_tools e)" using guards \<open>int (length (ev_tools e)) > index\<close> by linarith
  ultimately show thesis using that guards(3) by blast
qed

lemma validate_decision_keeps:
  assumes "validate_decision c = Some (d, verdict, reasons)"
  shows "mm_content d = mm_content c" "k \<noteq> ''llm_score'' \<Longrightarrow> vget (mm_metadata d) k = vget (mm_metadata c) k"
    and "4 \<le> score_of d \<Longrightarrow> \<exists>n. py_int (vget (mm_metadata c) ''llm_score'') = Some n \<and> 4 \<le> n"
proof -
  let ?cached = "vget (mm_metadata c) ''llm_score''"
  consider "?cached = VNone" "d = c" | n where "py_int ?cached = Some n" "mm_content d = mm_content c"
    "mm_metadata d = AList.update ''llm_score'' (VInt n) (mm_metadata c)"
    using assms by (auto simp: validate_decision_def Let_def split: if_splits option.splits)
  note cases = this
  from cases show "mm_content d = mm_content c" by cases simp_all
  from cases show "vget (mm_metadata d) k = vget (mm_metadata c) k" if "k \<noteq> ''llm_score''" using that by cases simp_all
  show "\<exists>n. py_int ?cached = Some n \<and> 4 \<le> n" if "4 \<le> score_of d"
    using cases
  proof cases
    case 1
    then have "score_of d = 0"
      by (auto simp: score_of_def vget_def vget_or_def vor_def py_int_def split: option.splits)
    with that show ?thesis by simp
  next
    case 2
    then have "score_of d = n" by (auto simp: score_of_def vor_def py_int_def)
    with that 2 show ?thesis by simp
  qed
qed

lemma auto_confirm_keeps [simp]: "mm_content (auto_confirm c) = mm_content c" "mm_metadata (auto_confirm c) = mm_metadata c"
  by (simp_all add: auto_confirm_def)

lemma decide_status_keeps:
  assumes "decide_status env c = Some (d, reasons)"
  shows "mm_content d = mm_content c" "k \<noteq> ''llm_score'' \<Longrightarrow> vget (mm_metadata d) k = vget (mm_metadata c) k"
    and "is_agent_generated c \<Longrightarrow> 4 \<le> score_of d \<Longrightarrow> \<exists>n. py_int (vget (mm_metadata c) ''llm_score'') = Some n \<and> 4 \<le> n"
proof -
  let ?c = "auto_confirm (if is_agent_generated c then c\<lparr>mm_status := ''pending''\<rparr> else c)"
  have agent: "is_agent_generated ?c = is_agent_generated c" using identity_agent [of c ?c] by simp
  have same: "mm_content ?c = mm_content c" "mm_metadata ?c = mm_metadata c" by simp_all
  consider "\<not> is_agent_generated c" "d = ?c" | e verdict x where "validate_decision ?c = Some (e, verdict, reasons)" "d = e\<lparr>mm_status := x\<rparr>"
    using assms agent by (auto simp: decide_status_def Let_def split: option.splits if_splits)
  note cases = this
  from cases show "mm_content d = mm_content c"
  proof cases
    case 2
    with validate_decision_keeps(1) [OF 2(1)] same show ?thesis by simp
  qed (simp add: same)
  from cases show "vget (mm_metadata d) k = vget (mm_metadata c) k" if "k \<noteq> ''llm_score''"
  proof cases
    case 2
    with validate_decision_keeps(2) [OF 2(1) that] same show ?thesis by simp
  qed (simp add: same)
  show "\<exists>n. py_int (vget (mm_metadata c) ''llm_score'') = Some n \<and> 4 \<le> n" if "is_agent_generated c" "4 \<le> score_of d"
    using cases
  proof cases
    case 2
    with validate_decision_keeps(3) [OF 2(1)] same that show ?thesis by simp
  qed (use that in simp)
qed

text \<open>C8: a memory that an agent wrote becomes active at once only when it is a case in one workspace, not of a subagent, with the
  authority of a verified tool and a score of at least 4, and its text is the exact quotation of the recorded summary of a tool
  call of its own session; what is stored is that text, redacted.\<close>

theorem agent_memory_needs_evidence:
  assumes "write_memory env now cg c s = (s', Mem_written ''active'' warnings)" "is_agent_generated c"
  shows "mm_type c = ''episodic_case'' \<and> mm_scope c \<noteq> ''global'' \<and> \<not> is_subagent c \<and>
    str_of_or (vget (mm_metadata c) ''authority'') [] = ''verified_tool'' \<and>
    (\<exists>n. py_int (vget (mm_metadata c) ''llm_score'') = Some n \<and> 4 \<le> n) \<and>
    (\<exists>e i tool ok quote q. e \<in> set (me_events env (mm_workspace c) (mm_session c)) \<and> i < length (ev_tools e) \<and>
       ev_tools e ! i = (tool, ok, quote) \<and> strip quote \<noteq> [] \<and>
       map_of s' (mm_id c) = Some q \<and> mm_status q = ''active'' \<and>
       mm_content q = mem_redact env (me_observation env (ev_created e) tool ok quote) \<and>
       mm_summary q = mem_redact env (me_title env tool))"
proof -
  let ?c = "redact_texts env c"
  obtain d q reasons where d: "decide_status env ?c = Some (d, reasons)" and q: "map_of s' (mm_id c) = Some (clean_record env q)"
    "mm_status q = ''active''" "mm_content q = mm_content d" "mm_summary q = mm_summary d" and active: "mm_status d = ''active''"
  proof (rule write_memory_written [OF assms(1)])
    fix d q reasons assume 1: "decide_status env ?c = Some (d, reasons)" and 2: "map_of s' (mm_id c) = Some (clean_record env q)"
      "mm_status q = ''active''" "mm_content q = mm_content d" "mm_summary q = mm_summary d"
      and 3: "''active'' = mm_status d \<or> ''active'' = ''conflict''"
    from 3 have "mm_status d = ''active''" by simp
    with 1 2 that show thesis by blast
  qed
  have agent: "is_agent_generated ?c" using assms(2) identity_agent [of c ?c] by simp
  have same: "same_identity c d" using decide_status_cases(1) [OF d] same_identity_trans [of c ?c d] by simp
  have meta: "vget (mm_metadata d) k = vget (mm_metadata c) k" if "k \<noteq> ''llm_score''" for k
    using decide_status_keeps(2) [OF d that] by (simp add: redact_texts_def)
  from decide_status_cases(2) [OF d agent] active have D: "\<not> is_subagent d" "4 \<le> score_of d"
    "str_of_or (vget (mm_metadata c) ''authority'') [] = ''verified_tool''" "has_verified_observation env d" using meta by simp_all
  from D(4) have kind: "mm_type d = ''episodic_case''" "mm_scope d \<noteq> ''global''"
    by (simp_all add: has_verified_observation_def split: if_splits)
  from D(4) obtain evidence where "verified_observation env (mm_workspace d) (mm_session d) evidence = Some (mm_content d, mm_summary d)"
    by (auto simp: has_verified_observation_def split: if_splits option.splits)
  then have "verified_observation env (mm_workspace c) (mm_session c) evidence = Some (mm_content d, mm_summary d)"
    using same by (simp add: same_identity_def)
  then obtain e i tool ok quote where ev: "e \<in> set (me_events env (mm_workspace c) (mm_session c))" "i < length (ev_tools e)"
    "ev_tools e ! i = (tool, ok, quote)" "strip quote \<noteq> []" "mm_content d = me_observation env (ev_created e) tool ok quote"
    "mm_summary d = me_title env tool" by (rule observation_exact)
  let ?q = "clean_record env q"
  have stored: "map_of s' (mm_id c) = Some ?q \<and> mm_status ?q = ''active'' \<and>
      mm_content ?q = mem_redact env (me_observation env (ev_created e) tool ok quote) \<and> mm_summary ?q = mem_redact env (me_title env tool)"
    using q ev(5,6) by (simp add: clean_record_def)
  have "\<exists>e i tool ok quote q. e \<in> set (me_events env (mm_workspace c) (mm_session c)) \<and> i < length (ev_tools e) \<and>
       ev_tools e ! i = (tool, ok, quote) \<and> strip quote \<noteq> [] \<and> map_of s' (mm_id c) = Some q \<and> mm_status q = ''active'' \<and>
       mm_content q = mem_redact env (me_observation env (ev_created e) tool ok quote) \<and> mm_summary q = mem_redact env (me_title env tool)"
    by (rule exI [of _ e], rule exI [of _ i], rule exI [of _ tool], rule exI [of _ ok], rule exI [of _ quote], rule exI [of _ ?q])
      (intro conjI ev(1-4) stored [THEN conjunct1] stored [THEN conjunct2, THEN conjunct1]
        stored [THEN conjunct2, THEN conjunct2, THEN conjunct1] stored [THEN conjunct2, THEN conjunct2, THEN conjunct2])
  moreover have "\<exists>n. py_int (vget (mm_metadata c) ''llm_score'') = Some n \<and> 4 \<le> n"
    using decide_status_keeps(3) [OF d agent D(2)] by (simp add: redact_texts_def)
  moreover have "mm_type c = ''episodic_case''" "mm_scope c \<noteq> ''global''" "\<not> is_subagent c"
    using kind D(1) identity_agent [OF same] same by (simp_all add: same_identity_def)
  ultimately show ?thesis using D(3) by (intro conjI)
qed

text \<open>An agent quotes the second tool call of an event.\<close>

definition quoting_env :: mem_env where
  "quoting_env = sample_env\<lparr>me_events := \<lambda>w s. [\<lparr>ev_id = ''e1'', ev_created = ''t'',
     ev_tools = [(''web.search'', True, ''none''), (''ssh.run'', False, ''port 22 refused'')]\<rparr>]\<rparr>"

definition quoting_memory :: mem_record where
  "quoting_memory = (sample_memory ''mem-aaaaaaaaaaaa'' ''port 22 refused''
     [(''authority'', VStr ''verified_tool''), (''llm_score'', VInt 5),
      (''verified_observation'', VDict [(''event_id'', VStr ''e1''), (''tool_index'', VInt 1), (''quote'', VStr ''port 22 refused'')])])
     \<lparr>mm_type := ''episodic_case'', mm_source := ''agent_suggestion'', mm_session := ''s1'', mm_summary := ''ssh.run''\<rparr>"

theorem agent_memory_needs_evidence_witness:
  "is_agent_generated quoting_memory \<and>
   snd (write_memory quoting_env ''t'' ''cg-1'' quoting_memory []) = Mem_written ''active'' [] \<and>
   (\<exists>n. py_int (vget (mm_metadata quoting_memory) ''llm_score'') = Some n \<and> 4 \<le> n)"
proof -
  have agent: "is_agent_generated quoting_memory" by code_simp
  have reply: "snd (write_memory quoting_env ''t'' ''cg-1'' quoting_memory []) = Mem_written ''active'' []" by code_simp
  then have "write_memory quoting_env ''t'' ''cg-1'' quoting_memory [] =
      (fst (write_memory quoting_env ''t'' ''cg-1'' quoting_memory []), Mem_written ''active'' [])" by (metis prod.collapse)
  from agent_memory_needs_evidence [OF this agent]
  have "\<exists>n. py_int (vget (mm_metadata quoting_memory) ''llm_score'') = Some n \<and> 4 \<le> n" by (elim conjE)
  with agent reply show ?thesis by (intro conjI)
qed

subsection \<open>Repeating a write\<close>

text \<open>C12: a caller that repeats a write whose reply it lost is told the status of the memory stored the first time, and nothing is
  stored again; the text has to be one that redaction leaves alone once redacted.\<close>

theorem repeated_write_is_reconciled:
  assumes "write_memory env now cg c s = (s', Mem_written st warnings)"
    and "mem_redact env (mem_redact env (mm_content c)) = mem_redact env (mm_content c)"
  shows "write_memory env now' cg' c s' = (s', Mem_reconciled st)"
proof -
  let ?c = "redact_texts env c"
  from assms(1) have ok: "candidate_error c = None" by (auto simp: write_memory_def split: option.splits)
  show ?thesis
  proof (rule write_memory_written [OF assms(1)])
    fix d q reasons assume d: "decide_status env ?c = Some (d, reasons)" and at: "map_of s' (mm_id c) = Some (clean_record env q)"
      and q: "mm_status q = st" "same_identity d q" "mm_content q = mm_content d" and id: "memory_id_ok (mm_id c)"
    have "same_identity c q" using decide_status_cases(1) [OF d] q(2) same_identity_trans [of c ?c d] same_identity_trans [of c d q] by simp
    then have same: "mm_workspace q = mm_workspace c" "same_domain c (clean_record env q)" by (simp_all add: same_identity_def same_domain_def)
    have "mm_content q = mem_redact env (mm_content c)"
      using decide_status_keeps(1) [OF d] q(3) by (simp add: redact_texts_def)
    with assms(2) q(1) have "mm_content (clean_record env q) = mem_redact env (mm_content c)" "mm_status (clean_record env q) = st" by simp_all
    moreover have "get_memory (mm_workspace c) (mm_id c) s' = Some (clean_record env q)"
      using at id same(1) by (simp add: get_memory_def shared_with_def)
    ultimately show ?thesis using ok id same(2) by (simp add: write_memory_def)
  qed
qed

theorem repeated_write_is_reconciled_witness:
  "snd (write_memory sample_env ''t'' ''cg-1'' (sample_memory ''mem-aaaaaaaaaaaa'' ''use tabs'' []) []) = Mem_written ''active'' [] \<and>
   snd (write_memory sample_env ''u'' ''cg-2'' (sample_memory ''mem-aaaaaaaaaaaa'' ''use tabs'' [])
     (fst (write_memory sample_env ''t'' ''cg-1'' (sample_memory ''mem-aaaaaaaaaaaa'' ''use tabs'' []) []))) = Mem_reconciled ''active''"
proof -
  let ?c = "sample_memory ''mem-aaaaaaaaaaaa'' ''use tabs'' []"
  let ?first = "write_memory sample_env ''t'' ''cg-1'' ?c []"
  have reply: "snd ?first = Mem_written ''active'' []" by code_simp
  then have "?first = (fst ?first, Mem_written ''active'' [])" by (metis prod.collapse)
  moreover have "mem_redact sample_env (mem_redact sample_env (mm_content ?c)) = mem_redact sample_env (mm_content ?c)" by code_simp
  ultimately have "write_memory sample_env ''u'' ''cg-2'' ?c (fst ?first) = (fst ?first, Mem_reconciled ''active'')"
    by (rule repeated_write_is_reconciled)
  then have "snd (write_memory sample_env ''u'' ''cg-2'' ?c (fst ?first)) = Mem_reconciled ''active''" by (metis snd_conv)
  with reply show ?thesis by (intro conjI)
qed

subsection \<open>Any order of operations\<close>

datatype mem_op =
    Op_write mem_env string string mem_record
  | Op_confirm mem_env string string string string
  | Op_reject mem_env string string string
  | Op_expire mem_env string string string
  | Op_delete mem_env string string string

text \<open>\<open>confirm_memory\<close>, \<open>reject_memory\<close> and \<open>expire_memory\<close> name the memory by workspace and identifier.\<close>

fun mem_step :: "mem_op \<Rightarrow> mem_store \<Rightarrow> mem_store" where
  "mem_step (Op_write env now cg c) s = fst (write_memory env now cg c s)"
| "mem_step (Op_confirm env now authority ws i) s = fst (confirm_memory env now authority ws i s)"
| "mem_step (Op_reject env now ws i) s = fst (retire_memory env now ws i ''rejected'' s)"
| "mem_step (Op_expire env now ws i) s = fst (retire_memory env now ws i ''expired'' s)"
| "mem_step (Op_delete env now ws i) s = fst (delete_memory env now ws i s)"

definition mem_run :: "mem_op list \<Rightarrow> mem_store" where
  "mem_run ops = fold mem_step ops []"

definition confirms :: "string \<Rightarrow> mem_op \<Rightarrow> bool" where
  "confirms i op = (case op of Op_confirm env now authority ws j \<Rightarrow> j = i | _ \<Rightarrow> False)"

text \<open>A record of the form the gate lets in; its status is the caller's.\<close>

definition record_typed :: "mem_record \<Rightarrow> bool" where
  "record_typed r =
     (memory_id_ok (mm_id r) \<and> workspace_id_ok (mm_workspace r) \<and> mm_scope r \<in> set memory_scopes \<and> mm_type r \<in> set memory_types \<and>
      (mm_scope r = ''session'' \<longrightarrow> mm_session r \<noteq> []) \<and> (mm_scope r = ''task'' \<longrightarrow> mm_task r \<noteq> []))"

definition unconfirmed_ok :: "mem_record \<Rightarrow> bool" where
  "unconfirmed_ok r =
     (mm_status r = ''active'' \<longrightarrow> is_agent_generated r \<longrightarrow> mm_type r = ''episodic_case'' \<and> mm_scope r \<noteq> ''global'' \<and> \<not> is_subagent r)"

definition memory_ok :: "mem_op list \<Rightarrow> mem_record \<Rightarrow> bool" where
  "memory_ok ops r = (record_typed r \<and> (unconfirmed_ok r \<or> (\<exists>op \<in> set ops. confirms (mm_id r) op)))"

lemma record_typed_identity: "same_identity r q \<Longrightarrow> record_typed q = record_typed r"
  by (simp add: same_identity_def record_typed_def)

lemma memory_ok_kept:
  assumes "memory_ok ops r" "keeps_place r q" "set ops \<subseteq> set ops'"
  shows "memory_ok ops' q"
proof -
  from assms(2) have id: "same_identity r q" "mm_status q = ''active'' \<longrightarrow> mm_status r = ''active''" by (simp_all add: keeps_place_def)
  have "mm_id q = mm_id r" "mm_type q = mm_type r" "mm_scope q = mm_scope r" using id(1) by (simp_all add: same_identity_def)
  with assms(1,3) id identity_agent [OF id(1)] record_typed_identity [OF id(1)] show ?thesis
    by (auto simp: memory_ok_def unconfirmed_ok_def)
qed

lemma lasting_memory_ok: "lasting (memory_ok ops)"
  using memory_ok_kept by (auto simp: lasting_def)

lemma evolves_weaken: "evolves P s s' \<Longrightarrow> (\<And>q. P q \<Longrightarrow> Q q) \<Longrightarrow> evolves Q s s'"
  by (auto simp: evolves_def)

lemma candidate_typed: "candidate_error c = None \<Longrightarrow> memory_id_ok (mm_id c) \<Longrightarrow> record_typed c"
  by (auto simp: candidate_error_def record_typed_def split: if_splits)

lemma mem_step_evolves:
  assumes "store_ok s" "\<And>i r. map_of s i = Some r \<Longrightarrow> memory_ok ops r"
  shows "evolves (memory_ok (ops @ [op])) s (mem_step op s)"
proof (cases op)
  case (Op_write env now cg c)
  show ?thesis
  proof (cases "candidate_error c = None \<and> memory_id_ok (mm_id c)")
    case True
    then have "record_typed c" using candidate_typed by blast
    have "memory_ok (ops @ [op]) q" if "admitted c q" for q
      using that \<open>record_typed c\<close> record_typed_identity [of c q] identity_agent [of c q]
      by (auto simp: admitted_def memory_ok_def unconfirmed_ok_def)
    with write_memory_evolves [OF assms(1)] show ?thesis unfolding Op_write mem_step.simps by (rule evolves_weaken)
  next
    case False
    then have "fst (write_memory env now cg c s) = s" by (auto simp: write_memory_def split: option.split)
    with assms(1) show ?thesis by (simp add: Op_write)
  qed
next
  case (Op_confirm env now authority ws i)
  have "memory_ok (ops @ [op]) q" if "get_memory ws i s = Some r" "same_identity r q" for r q
  proof -
    have r: "map_of s i = Some r" "mm_id r = i" using get_memory_Some [OF that(1)] store_ok_id [OF assms(1)] by blast+
    then have "mm_id q = i" "record_typed q" using that(2) assms(2) record_typed_identity [OF that(2)]
      by (auto simp: same_identity_def memory_ok_def)
    then show ?thesis by (simp add: memory_ok_def confirms_def Op_confirm)
  qed
  then show ?thesis unfolding Op_confirm mem_step.simps
    by (intro confirm_memory_evolves [OF assms(1) lasting_memory_ok]) (simp add: Op_confirm)
qed (simp_all add: retire_memory_evolves delete_memory_evolves assms(1))

lemma mem_run_ok: "store_ok (mem_run ops)"
proof (induction ops rule: rev_induct)
  case (snoc op ops)
  have "evolves (\<lambda>_. True) (mem_run ops) (mem_step op (mem_run ops))"
  proof (cases op)
    case (Op_confirm env now authority ws i)
    with confirm_memory_evolves [OF snoc.IH, of "\<lambda>_. True"] show ?thesis by (simp add: lasting_def)
  next
    case (Op_write env now cg c)
    with write_memory_evolves [OF snoc.IH] evolves_weaken show ?thesis by fastforce
  qed (simp_all add: retire_memory_evolves delete_memory_evolves snoc.IH)
  then show ?case using evolves_ok by (simp add: mem_run_def)
qed (simp add: mem_run_def store_ok_def)

text \<open>C10: whatever is written, confirmed, rejected, expired or deleted, in any order and by any caller: identifiers are unique and
  name their records, every stored memory has the form the gate checks, and an agent's memory that is active is either a case
  bound to a workspace, which no subagent wrote, or was confirmed under its own identifier.\<close>

theorem governed_memories_well_formed:
  "store_ok (mem_run ops) \<and> list_all (\<lambda>(i, r). memory_ok ops r) (mem_run ops)"
proof -
  have "store_ok (mem_run ops) \<and> (\<forall>i r. map_of (mem_run ops) i = Some r \<longrightarrow> memory_ok ops r)"
  proof (induction ops rule: rev_induct)
    case Nil
    show ?case by (simp add: mem_run_def store_ok_def)
  next
    case (snoc op ops)
    then have step: "evolves (memory_ok (ops @ [op])) (mem_run ops) (mem_run (ops @ [op]))"
      using mem_step_evolves [of "mem_run ops" ops op] by (simp add: mem_run_def)
    have "memory_ok (ops @ [op]) q" if "map_of (mem_run (ops @ [op])) i = Some q" for i q
    proof -
      from step that have "memory_ok (ops @ [op]) q \<or> (\<exists>r. map_of (mem_run ops) i = Some r \<and> keeps_place r q)"
        by (simp add: evolves_def)
      then show ?thesis
      proof (elim disjE exE conjE)
        fix r assume "map_of (mem_run ops) i = Some r" "keeps_place r q"
        moreover have "set ops \<subseteq> set (ops @ [op])" by auto
        ultimately show ?thesis using snoc.IH memory_ok_kept [of ops r q "ops @ [op]"] by blast
      qed
    qed
    with evolves_ok [OF step] show ?case by blast
  qed
  then show ?thesis by (auto simp: list_all_iff store_ok_def)
qed

subsection \<open>Confirming\<close>

lemma retired_target:
  assumes "store_ok s" "map_of s i = Some r" "map_of s (revises r) = Some t" "same_domain r t" "revises r \<noteq> i"
    and "map_of (retire_ancestors env now r s) (revises r) = Some p"
  shows "mm_status p \<noteq> ''active''"
proof -
  let ?recs = "list_all_memories (mm_workspace r) s"
  have "mm_id r = i" using store_ok_id [OF assms(1,2)] .
  have "shared_with (mm_workspace r) t" using same_domain_shared [OF assms(4), of "mm_workspace r"] by (simp add: shared_with_def)
  then have "by_id ?recs (revises r) = Some t" using by_id_listed [OF assms(1)] assms(3) by simp
  with assms(4,5) \<open>mm_id r = i\<close> have "t \<in> set (revision_ancestors r ?recs)"
    by (simp add: revision_ancestors_def revision_chain.simps [of _ r "[i]" r])
  moreover have "mm_id t = revises r" using store_ok_id [OF assms(1,3)] .
  ultimately consider u where "p = clean_record env (u\<lparr>mm_status := ''expired'', mm_updated_at := now,
        mm_metadata := AList.update ''superseded_by'' (VStr i) (mm_metadata u)\<rparr>)"
    | "mm_status t \<noteq> ''active''" "p = t"
    using retire_fold_at [of "revision_ancestors r ?recs" "revises r" env now i s] assms(3,6) \<open>mm_id r = i\<close>
    by (auto simp: retire_ancestors_def)
  then show ?thesis by cases simp_all
qed

lemma expire_group_at:
  assumes "store_ok s" "map_of (expire_group env ws i cg s) j = Some p" "cg \<noteq> []" "j \<noteq> i" "shared_with ws p" "mm_group p = cg"
  shows "mm_status p \<noteq> ''active''"
proof -
  have fold: "(\<exists>r. map_of (fold (expire_rival env i cg) rs s) j = Some (clean_record env (r\<lparr>mm_status := ''expired''\<rparr>))) \<or>
      map_of (fold (expire_rival env i cg) rs s) j = map_of s j \<and>
      (\<forall>r \<in> set rs. mm_id r = j \<longrightarrow> \<not> (mm_group r = cg \<and> mm_id r \<noteq> i \<and> mm_status r = ''active''))" for rs
  proof (induction rs rule: rev_induct)
    case (snoc r rs)
    then show ?case by (cases "mm_id r = j") (auto simp: expire_rival_def save_memory_at)
  qed simp
  consider r where "p = clean_record env (r\<lparr>mm_status := ''expired''\<rparr>)" | "map_of s j = Some p"
      "\<forall>r \<in> set (list_all_memories ws s). mm_id r = j \<longrightarrow> \<not> (mm_group r = cg \<and> mm_id r \<noteq> i \<and> mm_status r = ''active'')"
    using fold [of "list_all_memories ws s"] assms(2,3) by (auto simp: expire_group_def)
  then show ?thesis
  proof cases
    case 2
    have "mm_id p = j" using store_ok_id [OF assms(1) 2(1)] .
    with 2 assms(4-6) show ?thesis using set_list_all [OF assms(1), of p ws] by auto
  qed simp
qed

lemma expire_group_self: "map_of (expire_group env ws i cg s) i = map_of s i"
proof -
  have "map_of (fold (expire_rival env i cg) rs s) i = map_of s i" for rs
    by (induction rs rule: rev_induct) (auto simp: expire_rival_def save_memory_at)
  then show ?thesis by (simp add: expire_group_def)
qed

text \<open>C11: after a proposal is confirmed it is active, the memory it replaces is not, and neither is any other memory of its conflict
  group that the caller can see.\<close>

theorem confirmation_settles_group:
  assumes "store_ok s" "links_kept env s" "get_memory ws i s = Some r"
    and "confirm_memory env now authority ws i s = (s', Inr ''active'')"
  shows "(\<exists>q. map_of s' i = Some q \<and> mm_status q = ''active'' \<and> mm_group q = mm_group r) \<and>
    (\<forall>p. revises r \<noteq> [] \<and> map_of s' (revises r) = Some p \<longrightarrow> mm_status p \<noteq> ''active'') \<and>
    (\<forall>j p. map_of s' j = Some p \<and> j \<noteq> i \<and> shared_with ws p \<and> mm_group r \<noteq> [] \<and> mm_group p = mm_group r \<longrightarrow> mm_status p \<noteq> ''active'')"
proof -
  have r: "map_of s i = Some r" "mm_id r = i" using get_memory_Some [OF assms(3)] store_ok_id [OF assms(1)] by blast+
  let ?target = "if revises r = [] then None else get_memory ws (revises r) s"
  have out: "\<not> bad_target r ?target" "s' = activate_memory env now authority ws r s"
    using assms(3,4) by (auto simp: confirm_memory_def Let_def split: if_splits option.splits)
  define a where "a = r\<lparr>mm_status := ''active'', mm_updated_at := now,
      mm_metadata := merge_dict (mm_metadata r) [(''authority'', VStr authority), (''authority_rank'', VInt (authority_rank authority))]\<rparr>"
  define s1 where "s1 = save_memory env a s"
  define s2 where "s2 = retire_ancestors env now (clean_record env a) s1"
  have id: "mm_id a = i" "mm_group a = mm_group r" "mm_status a = ''active''" using r(2) by (simp_all add: a_def)
  have s': "s' = expire_group env ws i (mm_group r) s2"
    using out(2) by (simp add: activate_memory_def Let_def a_def [symmetric] s1_def [symmetric] s2_def [symmetric] id r(2))
  have ok: "store_ok s1" "store_ok s2" using assms(1) save_memory_ok evolves_ok [OF retire_ancestors_evolves] by (simp_all add: s1_def s2_def)
  have at1: "map_of s1 = (map_of s)(i \<mapsto> clean_record env a)" by (simp add: s1_def save_memory_at id)
  have "map_of s2 i = Some (clean_record env a)"
    using retire_ancestors_self [of env now "clean_record env a" s1] by (simp add: s2_def id at1)
  then have active: "map_of s' i = Some (clean_record env a)" by (simp add: s' expire_group_self)
  have link: "revises (clean_record env a) = revises r"
    using assms(2) r revises_cong [of a r env] by (simp add: links_kept_def a_def merge_dict_def update_conv')
  have "mm_status p \<noteq> ''active''" if p: "revises r \<noteq> []" "map_of s' (revises r) = Some p" for p
  proof
    assume "mm_status p = ''active''"
    from out(1) p(1) obtain t where t: "get_memory ws (revises r) s = Some t" "mm_id t \<noteq> i" "same_domain r t"
      by (auto simp: bad_target_def r(2) split: option.splits)
    then have at: "map_of s (revises r) = Some t" "revises r \<noteq> i" using get_memory_Some store_ok_id [OF assms(1)] by fastforce+
    from p(2) expire_group_evolves [OF ok(2), of "\<lambda>_. False" env ws i "mm_group r"]
    obtain u where u: "map_of s2 (revises r) = Some u" "keeps_place u p" by (auto simp: evolves_def s')
    have "same_domain (clean_record env a) t" using t(3) by (auto simp: same_domain_def a_def)
    with at u(1) retired_target [OF ok(1), of i "clean_record env a" t env now u]
    have "mm_status u \<noteq> ''active''" by (simp add: link at1 s2_def)
    with u(2) \<open>mm_status p = ''active''\<close> show False by (simp add: keeps_place_def)
  qed
  moreover have "mm_status p \<noteq> ''active''" if "map_of s' j = Some p" "j \<noteq> i" "shared_with ws p" "mm_group r \<noteq> []" "mm_group p = mm_group r" for j p
    using that by (intro expire_group_at [OF ok(2), of env ws i "mm_group r" j]) (simp_all add: s')
  moreover have "\<exists>q. map_of s' i = Some q \<and> mm_status q = ''active'' \<and> mm_group q = mm_group r" using active by (simp add: id)
  ultimately show ?thesis by blast
qed

text \<open>Three notes of a user on one topic: the first is active, the other two contradict it.\<close>

definition sample_note :: "string \<Rightarrow> string \<Rightarrow> mem_record" where
  "sample_note i content =
     (sample_memory i content [(''memory_key'', VStr ''indent'')])\<lparr>mm_type := ''knowledge_note'', mm_status := ''pending''\<rparr>"

definition two_conflicts :: "mem_op list" where
  "two_conflicts =
     [Op_write sample_env ''t'' ''cg-1'' (sample_note ''mem-aaaaaaaaaaaa'' ''use two spaces''),
      Op_write sample_env ''t'' ''cg-1'' (sample_note ''mem-bbbbbbbbbbbb'' ''use tabs''),
      Op_write sample_env ''t'' ''cg-2'' (sample_note ''mem-cccccccccccc'' ''use four spaces'')]"

definition one_conflict :: mem_store where
  "one_conflict = mem_run (take 2 two_conflicts)"

theorem confirmation_settles_group_witness:
  "snd (confirm_memory sample_env ''u'' ''manual_confirm'' ''w'' ''mem-bbbbbbbbbbbb'' one_conflict) = Inr ''active'' \<and>
   (\<exists>q. map_of (fst (confirm_memory sample_env ''u'' ''manual_confirm'' ''w'' ''mem-bbbbbbbbbbbb'' one_conflict)) ''mem-bbbbbbbbbbbb'' = Some q \<and>
      mm_status q = ''active'' \<and> mm_group q = ''cg-1'')"
proof -
  let ?out = "confirm_memory sample_env ''u'' ''manual_confirm'' ''w'' ''mem-bbbbbbbbbbbb'' one_conflict"
  have ok: "store_ok one_conflict" using mem_run_ok by (simp add: one_conflict_def)
  have "\<forall>(i, r) \<in> set one_conflict. revises (clean_record sample_env r) = revises r" by code_simp
  then have links: "links_kept sample_env one_conflict" by (auto simp: links_kept_def dest: map_of_SomeD)
  have "map_option mm_group (get_memory ''w'' ''mem-bbbbbbbbbbbb'' one_conflict) = Some ''cg-1''" by code_simp
  then obtain r where r: "get_memory ''w'' ''mem-bbbbbbbbbbbb'' one_conflict = Some r" "mm_group r = ''cg-1''" by blast
  have reply: "snd ?out = Inr ''active''" by code_simp
  then have "?out = (fst ?out, Inr ''active'')" by (metis prod.collapse)
  from confirmation_settles_group [OF ok links r(1) this] r(2) reply show ?thesis by simp
qed

subsection \<open>What a confirmation leaves\<close>

text \<open>A second contradiction moves the active memory into its own conflict group, so confirming the first one leaves it active: both
  are retrieved, with the same key and different contents.\<close>

theorem confirmed_conflict_leaves_rival:
  "snd (confirm_memory sample_env ''u'' ''manual_confirm'' ''w'' ''mem-bbbbbbbbbbbb'' (mem_run two_conflicts)) = Inr ''active'' \<and>
   map (\<lambda>r. (memory_key r, mm_content r))
     (list_retrievable sample_env ''w'' '''' '''' '''' 0
       (fst (confirm_memory sample_env ''u'' ''manual_confirm'' ''w'' ''mem-bbbbbbbbbbbb'' (mem_run two_conflicts)))) =
     [(''indent'', ''use tabs''), (''indent'', ''use two spaces'')]"
proof (rule conjI)
  show "snd (confirm_memory sample_env ''u'' ''manual_confirm'' ''w'' ''mem-bbbbbbbbbbbb'' (mem_run two_conflicts)) = Inr ''active''" by code_simp
  show "map (\<lambda>r. (memory_key r, mm_content r))
     (list_retrievable sample_env ''w'' '''' '''' '''' 0
       (fst (confirm_memory sample_env ''u'' ''manual_confirm'' ''w'' ''mem-bbbbbbbbbbbb'' (mem_run two_conflicts)))) =
     [(''indent'', ''use tabs''), (''indent'', ''use two spaces'')]" by code_simp
qed

text \<open>An agent proposes to retire the memory whose replacement of another one was interrupted.\<close>

definition retire_proposal :: mem_record where
  "retire_proposal = (sample_memory ''mem-cccccccccccc'' ''tabs are no longer used''
     [(''supersedes_memory_id'', VStr ''mem-bbbbbbbbbbbb''), (''proposed_action'', VStr ''expire'')])\<lparr>mm_source := ''agent_suggestion''\<rparr>"

definition proposed_store :: mem_store where
  "proposed_store = mem_step (Op_write sample_env ''t'' ''cg-1'' retire_proposal) interrupted_store"

text \<open>Confirming the proposal to retire a memory brings back the one it had replaced, when the cleanup of that replacement was
  interrupted; expiring the same memory directly does not.\<close>

theorem confirmed_retirement_resurrects:
  "map mm_content (list_retrievable sample_env ''w'' '''' '''' '''' 0 proposed_store) = [''tabs''] \<and>
   map mm_content (list_retrievable sample_env ''w'' '''' '''' '''' 0
     (mem_step (Op_confirm sample_env ''u'' ''manual_confirm'' ''w'' ''mem-cccccccccccc'') proposed_store)) = [''spaces''] \<and>
   list_retrievable sample_env ''w'' '''' '''' '''' 0 (mem_step (Op_expire sample_env ''u'' ''w'' ''mem-bbbbbbbbbbbb'') proposed_store) = []"
proof (intro conjI)
  show "map mm_content (list_retrievable sample_env ''w'' '''' '''' '''' 0 proposed_store) = [''tabs'']" by code_simp
  show "map mm_content (list_retrievable sample_env ''w'' '''' '''' '''' 0
     (mem_step (Op_confirm sample_env ''u'' ''manual_confirm'' ''w'' ''mem-cccccccccccc'') proposed_store)) = [''spaces'']" by code_simp
  show "list_retrievable sample_env ''w'' '''' '''' '''' 0 (mem_step (Op_expire sample_env ''u'' ''w'' ''mem-bbbbbbbbbbbb'') proposed_store) = []"
    by code_simp
qed

end
