(* ===== verification/Spec2Isabelle.thy ===== *)
theory Spec2Isabelle
  imports Call_Preparation Batch_Compiler Retry_Policy Operation_Ledger Job_Queue Job_Lifecycle Chunking Workflow_Store Delegation Memory_Claims
begin

text \<open>
  \<^bold>\<open>LZCore: the deterministic core around the model calls\<close>

  LZCore is an agent runtime. A model proposes tool calls; the runtime checks and orders them, runs them under a retry
  policy, writes every side effect into a ledger, and runs longer work as durable jobs delivered through a queue. This
  development models those parts, translated from the Python source, with the theorems that make them correct.

  \<^item> \<^verbatim>\<open>Lz_Prelude\<close>, \<^verbatim>\<open>Py_Value\<close>: errors as values (\<open>py_error\<close>, \<open>'a py\<close>), Python strings, dictionaries as association
    lists, JSON values (\<open>pyval\<close>) with truth, \<open>str\<close> and \<open>int\<close>.
  \<^item> \<^verbatim>\<open>Layering\<close>: the loop that takes the steps without open dependencies out of a graph, layer by layer, with the contract of
    its order as a locale, interpreted by the batches of \<^verbatim>\<open>orchestration.py\<close> and the workflows of \<^verbatim>\<open>service.py\<close>.
  \<^item> \<^verbatim>\<open>Orchestration\<close>: \<^verbatim>\<open>core/runtime_engine/orchestration.py\<close>. Annotations are stripped from the arguments
    (\<open>extract_orchestration\<close>), a batch is validated and layered (\<open>validate_incremental_graph\<close>), bindings are
    resolved (\<open>resolve_bindings\<close>). Shown: acceptance is equivalent to the local checks and an acyclic graph, the layers
    are a topological order, bindings stay within the tools' contracts.
  \<^item> \<^verbatim>\<open>Batch_Compiler\<close>: \<^verbatim>\<open>core/runtime_engine/batch_compiler.py\<close>. Runs of like calls become one batch call. Shown: no
    call is lost, duplicated or reordered; and a plan the validator accepts can be broken, because the check for
    references compares call ids with step ids.
  \<^item> \<^verbatim>\<open>Action_Contracts\<close>: \<^verbatim>\<open>core/tools/action_requirements.py\<close>, \<^verbatim>\<open>execution_contracts.py\<close>,
    \<^verbatim>\<open>core/runtime_engine/action_alias.py\<close>. The tables of the merged tools: required arguments, execution contracts, aliases.
    Shown: the tables are consistent and cover the published actions, aliases settle.
  \<^item> \<^verbatim>\<open>Tool_Schema\<close>, \<^verbatim>\<open>Tool_Executor\<close>: \<^verbatim>\<open>core/tools/executor.py\<close>, \<^verbatim>\<open>policy.py\<close>, \<^verbatim>\<open>client.py\<close>, \<^verbatim>\<open>redaction.py\<close>. The argument
    validator equals a predicate on schemas (\<open>conforms\<close>, \<open>admissible\<close>); \<open>invoke\<close> returns the result and the invocations the
    handler received. Shown: the handler runs exactly when every gate is open, and its output leaves redacted.
  \<^item> \<^verbatim>\<open>Semantic_Gate\<close>, \<^verbatim>\<open>Call_Preparation\<close>: \<^verbatim>\<open>core/runtime_engine/semantic_validator.py\<close>, \<^verbatim>\<open>pre_execution_repair.py\<close>,
    \<^verbatim>\<open>loop_preparation.py\<close>. Shown: what planning accepts the executor does not block for its arguments, the repair rewrites
    aliases only, preparation is exact; and the table of contracts decides what \<^verbatim>\<open>Retry_Policy\<close> may run again.
  \<^item> \<^verbatim>\<open>Retry_Policy\<close>: \<^verbatim>\<open>core/runtime_engine/tool_retry_policy.py\<close>, \<^verbatim>\<open>loop_retry.py\<close>, \<^verbatim>\<open>contracts.py\<close>. Shown: when a retry is
    allowed, that writes are never run again, that the loop is bounded and its account right, and that the notes hold no
    credential value.
  \<^item> \<^verbatim>\<open>Lifecycle\<close>, \<^verbatim>\<open>Operation_Ledger\<close>: the contract of stores whose things have a final phase, and its variant for stores with an
    invariant (a \<open>sublocale\<close> of the first), interpreted by \<^verbatim>\<open>core/runtime_engine/operation_ledger.py\<close> and by the delegated tasks. Shown: settled operations are frozen, statuses only move forward, and
    reconciliation after a restart settles exactly what it has evidence for.
  \<^item> \<^verbatim>\<open>Job_Redaction\<close>, \<^verbatim>\<open>Job_Store\<close>, \<^verbatim>\<open>Job_Manager\<close>: \<^verbatim>\<open>jobs/redaction.py\<close>, \<^verbatim>\<open>jobs/store.py\<close>, \<^verbatim>\<open>jobs/manager.py\<close>, \<open>run_job\<close>
    of \<^verbatim>\<open>jobs/runner.py\<close> and the delivery of \<^verbatim>\<open>jobs/worker.py\<close>. The state holds the records of one workspace, their events,
    the index and the statistics. Shown: every call keeps them consistent and follows the transition table, a body runs
    only for a queued job, how runs end, what a restart and a cancellation do.
  \<^item> \<^verbatim>\<open>Work_Queue\<close>, \<^verbatim>\<open>Job_Queue\<close>: the contract of queues that conserve their deliveries, interpreted by the Redis queue of
    \<^verbatim>\<open>jobs/queue.py\<close>; one iteration of a worker composes the queue with the delivery. Shown: conservation under any
    interleaving, what a reclaim takes, what an iteration settles, and that a lease does not name its holder.
  \<^item> \<^verbatim>\<open>Job_Lifecycle\<close>: \<^verbatim>\<open>jobs/lifecycle.py\<close> over the job store, one session of one workspace: the registry of client requests
    (\<open>ts_registry\<close>), the claim of a turn, the progress that \<^verbatim>\<open>backend/ws/agent_ws.py\<close> persists while it runs, its closing
    and the attachment of the run. Shown: a request executes once and its repetition gets the outcome, one turn runs at a
    time, progress never goes back, the registry is bounded; and an attachment that comes late closes the next turn.
  \<^item> \<^verbatim>\<open>Chunking\<close>: \<^verbatim>\<open>agent/modules/knowledge/chunking.py\<close>. Shown: parents partition the paragraphs, children cover the units
    of a parent, and the two ways it goes wrong: a window that never advances and identifiers that collide.
  \<^item> \<^verbatim>\<open>Workflow_Definition\<close>, \<^verbatim>\<open>Workflow_Run\<close>, \<^verbatim>\<open>Workflow_Store\<close>: \<^verbatim>\<open>workflows/service.py\<close>. A saved graph of tool calls is validated
    (\<open>validate_definition\<close>), run layer by layer through \<open>invoke\<close> of \<^verbatim>\<open>Tool_Executor\<close> (\<open>execute_definition\<close>, whose state \<open>wf_state\<close>
    has the record of the runner, the record on file, the outputs and the invocations), and kept in files (\<open>wf_store\<close>). Shown:
    what an accepted definition satisfies and that it validates again, that calls follow the dependencies, how runs end and
    what a cancellation stops, that a node reads its ancestors only, what a deletion removes; and that a bare reference
    passes the check and a late cancellation revives a finished run. Each node meets a tool world of its own, so that
    every interleaving of a group of reads is covered; a cancellation by others is a signal before each layer.

  \<^item> \<^verbatim>\<open>Subagent_Store\<close>, \<^verbatim>\<open>Subagents\<close>, \<^verbatim>\<open>Delegation\<close>: \<^verbatim>\<open>storage/subagent_store.py\<close>, \<^verbatim>\<open>agent/runtime/durable/subagent.py\<close> and
    \<^verbatim>\<open>subagent_control.py\<close>. \<open>sub_state\<close> has the records of the tasks, the cancellation events and workers of the process, and the copies
    its threads hold between a read and a save; \<open>sub_step\<close> interleaves starts, runs, cancellations, restarts and activity. Shown:
    a task runs once, its end is frozen, answers and acknowledged cancellations are durable, a revision names one content,
    a wait returns by its deadline; and a cancelled parent can leave a task running with no worker.

  \<^item> \<^verbatim>\<open>Memory_Store\<close>, \<^verbatim>\<open>Memory_Gate\<close>, \<^verbatim>\<open>Memory_Claims\<close>: \<^verbatim>\<open>storage/memory_governance.py\<close>. The memories of a user are an association
    list of records; \<open>write_memory\<close>, \<open>confirm_memory\<close>, \<open>retire_memory\<close> and \<open>delete_memory\<close> are functions on it, as all run under one
    lock, and \<open>mem_run\<close> performs any list of them. Shown: what an agent can make active, the form of every stored record, that
    a retired memory brings none it replaced back (the links of \<open>supersedes\<close> form chains that \<open>revision_ancestors\<close> follows to their
    end), that a write can be repeated, and what a confirmation settles; and that a second contradiction takes the active memory
    out of the group of the first, and that a confirmed proposal of retirement can bring a replaced memory back.

  \<^bold>\<open>Conventions.\<close> A read of the clock is an argument. A function that takes the lock of a record is one step on the state. Loops
  that end are recursive functions with their measure; the window loop of the chunker, which may not end, is a partial
  function into \<open>option\<close>, so that not returning is \<open>None\<close>. The retry loop ends because each attempt raises the retry
  count towards the limit. Strings are lists of characters; the few Chinese texts are arguments, since no theorem looks
  into them.

  \<^bold>\<open>Not modelled.\<close> Network and model clients, the query loop's asynchronous driver, the WebSocket and HTTP layers, the
  browser, the extensions, the frontend and the desktop shell: they are input and output around the parts above. The coding team
  (assignments, branches and reviews of delegated code) and the profiles that need it are left out of the delegated tasks. Of the memories
  the projection into the retrieval index, the ranked search and the consolidation by a model are left out. The
  contents of files, locks, logs and metrics of the modelled modules are left out; the text patterns of the redaction of
  job records are the argument \<open>je_clean\<close>, those of tool results \<open>tw_clean\<close>.
\<close>

end
